(* ===== verification/C_Prelude.thy ===== *)
theory C_Prelude
  imports Main "HOL-Library.Monad_Syntax" "HOL-Library.Word"
begin

text \<open>
  The idioms of C the components share: bounds-checked reads and writes of arrays, a linear
  search over the live part of an array, and the loop that closes the gap after a removal by
  shifting the later entries down.

  A computation that would be undefined in C (a read or write outside an object, a dangling or
  null pointer, a string copied into a buffer too small for it, an indeterminate value used) or
  that would never return has the value \<open>None\<close> in the option monad, so a lemma that an operation
  returns \<open>Some\<close> is a memory-safety lemma.
\<close>

named_theorems array_simps
named_theorems guard_splits

lemmas [guard_splits] = if_splits option.splits

section \<open>Checked array access\<close>

definition aget :: "'a list \<Rightarrow> nat \<Rightarrow> 'a option" where
  "aget a i = (if i < length a then Some (a ! i) else None)"

definition aset :: "'a list \<Rightarrow> nat \<Rightarrow> 'a \<Rightarrow> 'a list option" where
  "aset a i v = (if i < length a then Some (a[i := v]) else None)"

lemma aget_Some_iff [array_simps]: "aget a i = Some v \<longleftrightarrow> i < length a \<and> a ! i = v"
  by (auto simp: aget_def)

lemma aset_Some_iff [array_simps]: "aset a i v = Some b \<longleftrightarrow> i < length a \<and> b = a[i := v]"
  by (auto simp: aset_def)

lemma aget_in [simp]: "i < length a \<Longrightarrow> aget a i = Some (a ! i)"
  by (simp add: aget_def)

lemma aset_in [simp]: "i < length a \<Longrightarrow> aset a i v = Some (a[i := v])"
  by (simp add: aset_def)

section \<open>Linear search of the live part\<close>

text \<open>\<open>for (i = lo; i < n; i++) if (P(a[i])) return i;\<close> with the index of the first hit.\<close>

function find_from :: "('a \<Rightarrow> bool) \<Rightarrow> 'a list \<Rightarrow> nat \<Rightarrow> nat \<Rightarrow> nat option" where
  "find_from P a i n = (if i < n then (if P (a ! i) then Some i else find_from P a (Suc i) n)
                        else None)"
  by pat_completeness auto
termination
  by (relation "measure (\<lambda>(P, a, i, n). n - i)") auto

declare find_from.simps [simp del]

lemma find_from_Some_iff:
  "find_from P a i n = Some k \<longleftrightarrow> i \<le> k \<and> k < n \<and> P (a ! k) \<and> (\<forall>j. i \<le> j \<and> j < k \<longrightarrow> \<not> P (a ! j))"
proof (induction P a i n rule: find_from.induct)
  case (1 P a i n)
  show ?case
  proof (cases "i < n \<and> \<not> P (a ! i)")
    case True
    then have "find_from P a i n = Some k \<longleftrightarrow> find_from P a (Suc i) n = Some k"
      by (subst find_from.simps) simp
    also have "\<dots> \<longleftrightarrow> Suc i \<le> k \<and> k < n \<and> P (a ! k) \<and> (\<forall>j. Suc i \<le> j \<and> j < k \<longrightarrow> \<not> P (a ! j))"
      using "1.IH" True by blast
    also have "\<dots> \<longleftrightarrow> i \<le> k \<and> k < n \<and> P (a ! k) \<and> (\<forall>j. i \<le> j \<and> j < k \<longrightarrow> \<not> P (a ! j))"
      using True by (metis Suc_leD Suc_leI le_eq_less_or_eq)
    finally show ?thesis .
  next
    case False
    then show ?thesis
      by (subst find_from.simps) (auto dest: le_neq_implies_less)
  qed
qed

lemma find_from_None_iff:
  "find_from P a i n = None \<longleftrightarrow> (\<forall>j. i \<le> j \<and> j < n \<longrightarrow> \<not> P (a ! j))"
proof (induction P a i n rule: find_from.induct)
  case (1 P a i n)
  show ?case
  proof (cases "i < n \<and> \<not> P (a ! i)")
    case True
    then have "find_from P a i n = None \<longleftrightarrow> find_from P a (Suc i) n = None"
      by (subst find_from.simps) simp
    then show ?thesis
      using "1.IH" True by (metis Suc_leD Suc_leI le_eq_less_or_eq)
  next
    case False
    then show ?thesis
      by (subst find_from.simps) auto
  qed
qed

section \<open>Closing the gap: the shift-down loop\<close>

text \<open>\<open>for (j = i; j < n - 1; j++) a[j] = a[j + 1];\<close>\<close>

function shift_down :: "'a list \<Rightarrow> nat \<Rightarrow> nat \<Rightarrow> 'a list" where
  "shift_down a j n = (if Suc j < n then shift_down (a[j := a ! Suc j]) (Suc j) n else a)"
  by pat_completeness auto
termination
  by (relation "measure (\<lambda>(a, j, n). n - j)") auto

declare shift_down.simps [simp del]

lemma length_shift_down [simp]: "length (shift_down a j n) = length a"
proof (induction a j n rule: shift_down.induct)
  case (1 a j n)
  then show ?case by (subst shift_down.simps) simp
qed

lemma nth_shift_down:
  assumes "n \<le> length a" "k < length a"
  shows "shift_down a j n ! k = (if j \<le> k \<and> Suc k < n then a ! Suc k else a ! k)"
  using assms
proof (induction a j n rule: shift_down.induct)
  case (1 a j n)
  show ?case
  proof (cases "Suc j < n")
    case True
    then have "shift_down a j n ! k = shift_down (a[j := a ! Suc j]) (Suc j) n ! k"
      by (subst shift_down.simps) simp
    also have "\<dots> = (if Suc j \<le> k \<and> Suc k < n then a[j := a ! Suc j] ! Suc k
                      else a[j := a ! Suc j] ! k)"
      using "1.IH"[OF True] "1.prems" by simp
    also have "\<dots> = (if j \<le> k \<and> Suc k < n then a ! Suc k else a ! k)"
      using True "1.prems" by (auto simp: nth_list_update)
    finally show ?thesis .
  next
    case False
    then show ?thesis by (subst shift_down.simps) auto
  qed
qed

lemma take_shift_down:
  assumes "i < n" "n \<le> length a"
  shows "take (n - 1) (shift_down a i n) = take i a @ drop (Suc i) (take n a)"
proof (rule nth_equalityI)
  show "length (take (n - 1) (shift_down a i n)) = length (take i a @ drop (Suc i) (take n a))"
    using assms by simp
next
  fix k assume "k < length (take (n - 1) (shift_down a i n))"
  then have k: "k < n - 1" by simp
  then have "shift_down a i n ! k = (if i \<le> k then a ! Suc k else a ! k)"
    using assms by (auto simp: nth_shift_down)
  then show "take (n - 1) (shift_down a i n) ! k = (take i a @ drop (Suc i) (take n a)) ! k"
    using assms k by (auto simp: nth_append min_def)
qed

section \<open>Removing the first match of a list\<close>

text \<open>The specification of search-then-shift: drop the first element that matches.\<close>

fun remove_first :: "('a \<Rightarrow> bool) \<Rightarrow> 'a list \<Rightarrow> 'a list" where
  "remove_first P [] = []"
| "remove_first P (x # xs) = (if P x then xs else x # remove_first P xs)"

lemma remove_first_none [simp]: "\<forall>x \<in> set xs. \<not> P x \<Longrightarrow> remove_first P xs = xs"
  by (induction xs) auto

lemma remove_first_at:
  assumes "i < length xs" "P (xs ! i)" "\<forall>j < i. \<not> P (xs ! j)"
  shows "remove_first P xs = take i xs @ drop (Suc i) xs"
  using assms
proof (induction xs arbitrary: i)
  case Nil
  then show ?case by simp
next
  case (Cons x xs)
  show ?case
  proof (cases i)
    case 0
    with Cons.prems show ?thesis by simp
  next
    case (Suc k)
    have "\<not> P x" using Cons.prems(3) Suc by auto
    moreover have "remove_first P xs = take k xs @ drop (Suc k) xs"
      using Cons.prems Suc by (intro Cons.IH) auto
    ultimately show ?thesis using Suc by simp
  qed
qed

lemma set_remove_first_subset: "set (remove_first P xs) \<subseteq> set xs"
  by (induction xs) auto

lemma distinct_remove_first [simp]: "distinct xs \<Longrightarrow> distinct (remove_first P xs)"
  using set_remove_first_subset by (induction xs) fastforce+

lemma length_remove_first_le: "length (remove_first P xs) \<le> length xs"
  by (induction xs) auto

lemma length_remove_first: "\<exists>x \<in> set xs. P x \<Longrightarrow> length (remove_first P xs) = length xs - 1"
proof (induction xs)
  case (Cons x xs)
  show ?case
  proof (cases "P x")
    case False
    with Cons.prems have "\<exists>y \<in> set xs. P y" by auto
    then have "length (remove_first P xs) = length xs - 1" "0 < length xs"
      using Cons.IH by (auto intro: length_pos_if_in_set)
    with False show ?thesis by simp
  qed simp
qed simp

lemma remove_first_eq: "remove_first (\<lambda>x. x = e) xs = remove1 e xs"
  by (induction xs) auto

lemma remove_first_keeps: "x \<in> set xs \<Longrightarrow> \<not> P x \<Longrightarrow> x \<in> set (remove_first P xs)"
  by (induction xs) auto

lemma distinct_map_remove_first [simp]:
  "distinct (map f xs) \<Longrightarrow> distinct (map f (remove_first P xs))"
  using set_remove_first_subset by (induction xs) fastforce+

lemma remove_first_eq_filter:
  assumes "distinct (map f xs)" and "\<And>x. P x \<longleftrightarrow> f x = k"
  shows "remove_first P xs = filter (\<lambda>x. \<not> P x) xs"
  using assms(1)
proof (induction xs)
  case (Cons x xs)
  show ?case
  proof (cases "P x")
    case True
    with Cons.prems assms(2) have "\<forall>y \<in> set xs. \<not> P y" by (auto simp: image_iff)
    then have "filter (\<lambda>y. \<not> P y) xs = xs" by simp
    with True show ?thesis by simp
  next
    case False
    with Cons show ?thesis by simp
  qed
qed simp

text \<open>Search and shift together, on the live prefix of length \<open>n\<close>.\<close>

lemma shift_down_remove_first:
  assumes "find_from P a 0 n = Some i" "n \<le> length a"
  shows "take (n - 1) (shift_down a i n) = remove_first P (take n a)"
proof -
  have i: "i < n" "P (a ! i)" "\<forall>j < i. \<not> P (a ! j)"
    using assms(1) by (auto simp: find_from_Some_iff)
  have "remove_first P (take n a) = take i (take n a) @ drop (Suc i) (take n a)"
    using i assms(2) by (intro remove_first_at) auto
  then show ?thesis
    using take_shift_down[OF i(1) assms(2)] i(1) by (simp add: min_def)
qed

lemma find_from_None_take:
  assumes "n \<le> length a"
  shows "find_from P a 0 n = None \<longleftrightarrow> (\<forall>x \<in> set (take n a). \<not> P x)"
proof -
  have "set (take n a) = {a ! j | j. j < n}"
    using nth_image[OF assms] by force
  then show ?thesis by (auto simp: find_from_None_iff)
qed

lemma find_from_Some_take:
  assumes "find_from P a 0 n = Some i" "n \<le> length a"
  shows "i < n" "a ! i \<in> set (take n a)" "P (a ! i)"
  using assms by (auto simp: find_from_Some_iff in_set_conv_nth)

lemma take_Suc_list_update: "n < length a \<Longrightarrow> take (Suc n) (a[n := v]) = take n a @ [v]"
  by (simp add: take_Suc_conv_app_nth)

section \<open>How a program ends\<close>

text \<open>The program has exited, is waiting in its loop, or has done something undefined.\<close>

datatype 'a main_result = Exited int 'a | Waiting 'a | Undefined

end
