(* ===== verification/C_Strings.thy ===== *)
theory C_Strings
  imports C_Prelude "HOL-Library.Char_ord" "HOL-Library.List_Lexorder" "HOL-Library.Sublist"
begin

text \<open>
  The string functions of the C library that the programs call. A C string is the list of its
  bytes before the terminating NUL; a character array of capacity \<open>n\<close> that holds a string \<open>s\<close>
  needs \<open>length s < n\<close>, and copying a longer one into it is undefined (\<open>None\<close>). Standard input is
  the list of the bytes not read yet.
\<close>

named_theorems cstr_simps

definition NUL :: char where "NUL = CHR 0x00"
definition NL :: char where "NL = CHR 0x0A"

lemma NL_neq_NUL [simp]: "NL \<noteq> NUL" "NUL \<noteq> NL"
  by (simp_all add: NUL_def NL_def)

section \<open>Comparison\<close>

text \<open>\<open>strcmp\<close>: only the sign of its result is specified, so the model returns -1, 0 or 1.\<close>

fun strcmp :: "string \<Rightarrow> string \<Rightarrow> int" where
  "strcmp [] [] = 0"
| "strcmp [] (y # ys) = -1"
| "strcmp (x # xs) [] = 1"
| "strcmp (x # xs) (y # ys) = (if x < y then -1 else if y < x then 1 else strcmp xs ys)"

lemma strcmp_eq_0 [simp]: "strcmp a b = 0 \<longleftrightarrow> a = b"
  by (induction a b rule: strcmp.induct) auto

lemma strcmp_less_0 [simp]: "strcmp a b < 0 \<longleftrightarrow> a < b"
  by (induction a b rule: strcmp.induct) auto

lemma strcmp_greater_0 [simp]: "0 < strcmp a b \<longleftrightarrow> b < a"
  by (induction a b rule: strcmp.induct) auto

definition strncmp :: "string \<Rightarrow> string \<Rightarrow> nat \<Rightarrow> int" where
  "strncmp a b n = strcmp (take n a) (take n b)"

lemma strncmp_prefix [cstr_simps]:
  "strncmp a b (length b) = 0 \<longleftrightarrow> prefix b a"
  by (auto simp: strncmp_def prefix_def) (metis append_take_drop_id)

section \<open>Search\<close>

text \<open>\<open>strchr\<close> and \<open>strrchr\<close> return the offset of the byte found; \<open>strstr\<close> of the first match.\<close>

definition strchr :: "string \<Rightarrow> char \<Rightarrow> nat option" where
  "strchr s c = (if c \<in> set s then Some (length (takeWhile (\<lambda>d. d \<noteq> c) s)) else None)"

definition strrchr :: "string \<Rightarrow> char \<Rightarrow> nat option" where
  "strrchr s c = map_option (\<lambda>i. length s - Suc i) (strchr (rev s) c)"

fun strstr :: "string \<Rightarrow> string \<Rightarrow> nat option" where
  "strstr [] p = (if p = [] then Some 0 else None)"
| "strstr (c # s) p = (if prefix p (c # s) then Some 0 else map_option Suc (strstr s p))"

lemma strstr_None_iff: "strstr s p = None \<longleftrightarrow> \<not> sublist p s"
  by (induction s) (auto simp: sublist_Cons_right)

lemma takeWhile_neq_append [simp]: "c \<notin> set a \<Longrightarrow> takeWhile (\<lambda>d. d \<noteq> c) (a @ c # b) = a"
  by (induction a) auto

lemma takeWhile_neq_all [simp]: "c \<notin> set a \<Longrightarrow> takeWhile (\<lambda>d. d \<noteq> c) a = a"
  by (induction a) auto

lemma strchr_append [simp]: "c \<notin> set a \<Longrightarrow> strchr (a @ c # b) c = Some (length a)"
  by (simp add: strchr_def)

lemma strchr_None_iff [simp]: "strchr s c = None \<longleftrightarrow> c \<notin> set s"
  by (simp add: strchr_def)

lemma strchr_absent [simp]: "c \<notin> set s \<Longrightarrow> strchr s c = None"
  by simp

lemma strchr_SomeD:
  assumes "strchr s c = Some i"
  shows "i < length s" "s ! i = c" "c \<notin> set (take i s)" "s = take i s @ c # drop (Suc i) s"
proof -
  have c: "c \<in> set s" and i: "i = length (takeWhile (\<lambda>d. d \<noteq> c) s)"
    using assms by (auto simp: strchr_def split: if_splits)
  from c obtain a b where s: "s = a @ c # b" "c \<notin> set a" by (meson split_list_first)
  have "i = length a" using i s by simp
  with s show "i < length s" "s ! i = c" "c \<notin> set (take i s)" "s = take i s @ c # drop (Suc i) s"
    by simp_all
qed

definition strcspn :: "string \<Rightarrow> string \<Rightarrow> nat" where
  "strcspn s reject = length (takeWhile (\<lambda>c. c \<notin> set reject) s)"

lemma take_strcspn [simp]: "take (strcspn s r) s = takeWhile (\<lambda>c. c \<notin> set r) s"
  by (simp add: strcspn_def takeWhile_eq_take[symmetric])

section \<open>Copying into arrays\<close>

text \<open>
  \<open>strcpy_into n s\<close> is \<open>strcpy\<close> into an array of \<open>n\<close> bytes; \<open>snprintf_into n s\<close> what
  \<open>snprintf(buf, n, ...)\<close> stores for the formatted text \<open>s\<close>; \<open>strncpy_term n s\<close> the
  pair \<open>strncpy(d, s, n - 1); d[n - 1] = 0\<close>.
\<close>

definition strcpy_into :: "nat \<Rightarrow> string \<Rightarrow> string option" where
  "strcpy_into n s = (if length s < n then Some s else None)"

definition snprintf_into :: "nat \<Rightarrow> string \<Rightarrow> string" where
  "snprintf_into n s = take (n - 1) s"

definition strncpy_term :: "nat \<Rightarrow> string \<Rightarrow> string" where
  "strncpy_term n s = take (n - 1) s"

lemma strcpy_into_Some [simp]: "strcpy_into n s = Some t \<longleftrightarrow> length s < n \<and> t = s"
  by (auto simp: strcpy_into_def)

lemma strcpy_into_fits [simp]: "length s < n \<Longrightarrow> strcpy_into n s = Some s"
  by simp

lemma snprintf_into_fits [simp]: "length s < n \<Longrightarrow> snprintf_into n s = s"
  by (simp add: snprintf_into_def)

lemma length_snprintf_into: "0 < n \<Longrightarrow> length (snprintf_into n s) < n"
  by (simp add: snprintf_into_def)

lemma length_strncpy_term: "0 < n \<Longrightarrow> length (strncpy_term n s) < n"
  by (simp add: strncpy_term_def)

section \<open>Line input\<close>

text \<open>
  \<open>fgets(buf, n, stdin)\<close>: at most \<open>n - 1\<close> bytes, up to and including the first newline;
  \<open>None\<close> at end of input, and then the buffer keeps what it held. A string function sees the
  bytes of the buffer before the first NUL (\<open>cstr\<close>).
\<close>

definition cstr :: "string \<Rightarrow> string" where
  "cstr b = takeWhile (\<lambda>c. c \<noteq> NUL) b"

fun line_of :: "nat \<Rightarrow> string \<Rightarrow> string \<times> string" where
  "line_of 0 s = ([], s)"
| "line_of (Suc k) [] = ([], [])"
| "line_of (Suc k) (c # s) =
     (if c = NL then ([c], s) else (let (l, r) = line_of k s in (c # l, r)))"

definition fgets :: "nat \<Rightarrow> string \<Rightarrow> (string \<times> string) option" where
  "fgets n inp = (if inp = [] then None else (let (l, r) = line_of (n - 1) inp in Some (cstr l, r)))"

lemma line_of_append: "line_of k s = (l, r) \<Longrightarrow> s = l @ r"
  by (induction k s arbitrary: l r rule: line_of.induct) (auto split: if_splits prod.splits)

lemma line_of_length: "line_of k s = (l, r) \<Longrightarrow> length l \<le> k"
  by (induction k s arbitrary: l r rule: line_of.induct) (auto split: if_splits prod.splits)

lemma line_of_progress: "line_of (Suc k) s = (l, r) \<Longrightarrow> s \<noteq> [] \<Longrightarrow> length r < length s"
  by (cases s) (auto split: if_splits prod.splits dest: line_of_append)

lemma line_of_line: "NL \<notin> set l \<Longrightarrow> length l < k \<Longrightarrow> line_of k (l @ NL # r) = (l @ [NL], r)"
proof (induction l arbitrary: k)
  case Nil
  then show ?case by (cases k) auto
next
  case (Cons c l)
  then show ?case by (cases k) auto
qed

lemma length_cstr_le: "length (cstr b) \<le> length b"
  by (simp add: cstr_def length_takeWhile_le)

lemma NUL_notin_cstr [simp]: "NUL \<notin> set (cstr b)"
  by (auto simp: cstr_def dest: set_takeWhileD)

lemma fgets_bounds:
  assumes "fgets n inp = Some (b, rest)"
  shows "length b \<le> n - 1" "NUL \<notin> set b"
  using assms
  by (auto simp: fgets_def split: if_splits prod.splits dest!: line_of_length
      intro: le_trans[OF length_cstr_le])

lemma fgets_line:
  assumes "NL \<notin> set l" "NUL \<notin> set l" "Suc (length l) < n"
  shows "fgets n (l @ NL # r) = Some (l @ [NL], r)"
proof -
  have "takeWhile (\<lambda>c. c \<noteq> NUL) (l @ [NL]) = l @ [NL]"
    using assms(2) by (intro takeWhile_eq_all_conv[THEN iffD2]) auto
  with assms line_of_line[of l "n - 1" r] show ?thesis
    by (simp add: fgets_def cstr_def)
qed

lemma fgets_progress:
  assumes "fgets n inp = Some (b, rest)" "1 < n"
  shows "length rest < length inp"
proof -
  obtain k where "n - 1 = Suc k" using assms(2) by (cases "n - 1") auto
  with assms(1) show ?thesis
    by (auto simp: fgets_def split: if_splits prod.splits dest: line_of_progress)
qed

text \<open>The newline is cut with \<open>buf[strcspn(buf, "\n")] = 0\<close> or a loop that does the same.\<close>

definition chomp :: "string \<Rightarrow> string" where
  "chomp b = take (strcspn b [NL]) b"

lemma chomp_eq_takeWhile: "chomp b = takeWhile (\<lambda>c. c \<noteq> NL) b"
  by (simp add: chomp_def)

lemma chomp_line [simp]: "NL \<notin> set l \<Longrightarrow> chomp (l @ [NL]) = l"
  by (simp add: chomp_eq_takeWhile)

lemma NL_notin_chomp [simp]: "NL \<notin> set (chomp b)"
  by (auto simp: chomp_eq_takeWhile dest: set_takeWhileD)

lemma length_chomp_le: "length (chomp b) \<le> length b"
  by (simp add: chomp_eq_takeWhile length_takeWhile_le)

section \<open>Tokens\<close>

text \<open>
  \<open>strtok\<close>: skip the delimiters, then the token up to the next delimiter; the scan resumes
  after that delimiter.
\<close>

definition strtok :: "string \<Rightarrow> string \<Rightarrow> (string \<times> string) option" where
  "strtok delims s =
     (let s' = dropWhile (\<lambda>c. c \<in> set delims) s
      in if s' = [] then None
         else Some (takeWhile (\<lambda>c. c \<notin> set delims) s', drop 1 (dropWhile (\<lambda>c. c \<notin> set delims) s')))"

lemma strtok_shrinks:
  assumes "strtok d s = Some (t, r)"
  shows "length r < length s"
proof -
  let ?s = "dropWhile (\<lambda>c. c \<in> set d) s"
  from assms have ne: "?s \<noteq> []" and r: "r = drop 1 (dropWhile (\<lambda>c. c \<notin> set d) ?s)"
    and t: "t = takeWhile (\<lambda>c. c \<notin> set d) ?s"
    by (auto simp: strtok_def Let_def split: if_splits)
  have "hd ?s \<notin> set d" using ne by (rule hd_dropWhile)
  then have "length (dropWhile (\<lambda>c. c \<notin> set d) ?s) < length ?s"
    using ne by (cases ?s) (auto intro: le_imp_less_Suc length_dropWhile_le)
  moreover have "length ?s \<le> length s" by (rule length_dropWhile_le)
  ultimately show ?thesis using r by simp
qed

lemma strtok_token:
  assumes "strtok d s = Some (t, r)"
  shows "t \<noteq> []" "set t \<inter> set d = {}"
proof -
  let ?s = "dropWhile (\<lambda>c. c \<in> set d) s"
  from assms have ne: "?s \<noteq> []" and t: "t = takeWhile (\<lambda>c. c \<notin> set d) ?s"
    by (auto simp: strtok_def Let_def split: if_splits)
  have "hd ?s \<notin> set d" using ne by (rule hd_dropWhile)
  with ne t show "t \<noteq> []" by (cases ?s) auto
  from t show "set t \<inter> set d = {}" by (auto dest: set_takeWhileD)
qed

end
