(* ===== verification/C_Decimal.thy ===== *)
theory C_Decimal
  imports C_Strings
begin

text \<open>
  Decimal numbers as the programs print and read them: \<open>%d\<close> of \<open>printf\<close>, \<open>atoi\<close> and
  \<open>sscanf("%d")\<close>. Reading follows the GNU library: white space, an optional sign, digits, the
  value saturated to a 64-bit \<open>long\<close> and then cut to a 32-bit \<open>int\<close>; a text with no digits gives
  0 from \<open>atoi\<close> and no conversion from \<open>sscanf\<close>. Also \<open>%02x\<close> for bytes.
\<close>

section \<open>Characters\<close>

definition isspace :: "char \<Rightarrow> bool" where
  "isspace c \<longleftrightarrow> c = CHR '' '' \<or> (9 \<le> (of_char c :: nat) \<and> (of_char c :: nat) \<le> 13)"

definition isdigit :: "char \<Rightarrow> bool" where
  "isdigit c \<longleftrightarrow> 48 \<le> (of_char c :: nat) \<and> (of_char c :: nat) \<le> 57"

definition isalnum :: "char \<Rightarrow> bool" where
  "isalnum c \<longleftrightarrow> isdigit c \<or> (65 \<le> (of_char c :: nat) \<and> (of_char c :: nat) \<le> 90) \<or>
     (97 \<le> (of_char c :: nat) \<and> (of_char c :: nat) \<le> 122)"

definition isprint :: "char \<Rightarrow> bool" where
  "isprint c \<longleftrightarrow> 32 \<le> (of_char c :: nat) \<and> (of_char c :: nat) \<le> 126"

definition digit_char :: "nat \<Rightarrow> char" where
  "digit_char d = char_of (48 + d)"

definition digit_val :: "char \<Rightarrow> nat" where
  "digit_val c = of_char c - 48"

lemma of_char_digit_char: "d < 10 \<Longrightarrow> (of_char (digit_char d) :: nat) = 48 + d"
  by (simp add: digit_char_def)

lemma isdigit_digit_char [simp]: "d < 10 \<Longrightarrow> isdigit (digit_char d)"
  by (simp add: isdigit_def of_char_digit_char)

lemma digit_val_digit_char [simp]: "d < 10 \<Longrightarrow> digit_val (digit_char d) = d"
  by (simp add: digit_val_def of_char_digit_char)

lemma isdigit_not_space [simp]: "isdigit c \<Longrightarrow> \<not> isspace c"
  by (auto simp: isdigit_def isspace_def)

lemma not_isdigit_sign [simp]: "\<not> isdigit (CHR ''-'')" "\<not> isdigit (CHR ''+'')" "\<not> isdigit (CHR '','')"
  "\<not> isdigit NUL" "\<not> isdigit NL" "\<not> isdigit (CHR '' '')"
  by (auto simp: isdigit_def NUL_def NL_def)

lemma not_isspace_sign [simp]: "\<not> isspace (CHR ''-'')"
  by (auto simp: isspace_def)

section \<open>Printing\<close>

fun show_nat :: "nat \<Rightarrow> string" where
  "show_nat n = (if n < 10 then [digit_char n] else show_nat (n div 10) @ [digit_char (n mod 10)])"

declare show_nat.simps [simp del]

definition show_int :: "int \<Rightarrow> string" where
  "show_int i = (if i < 0 then CHR ''-'' # show_nat (nat (- i)) else show_nat (nat i))"

lemma show_nat_nonempty [simp]: "show_nat n \<noteq> []"
  by (subst show_nat.simps) simp

lemma show_nat_digits: "c \<in> set (show_nat n) \<Longrightarrow> isdigit c"
proof (induction n rule: show_nat.induct)
  case (1 n)
  then show ?case by (subst (asm) (2) show_nat.simps) (auto split: if_splits)
qed

lemma length_show_nat: "n < 10 ^ Suc k \<Longrightarrow> length (show_nat n) \<le> Suc k"
proof (induction k arbitrary: n)
  case 0
  then show ?case by (subst show_nat.simps) simp
next
  case (Suc k)
  show ?case
  proof (cases "n < 10")
    case True
    then show ?thesis by (subst show_nat.simps) simp
  next
    case False
    have "n div 10 < 10 ^ Suc k" using Suc.prems by (simp add: less_mult_imp_div_less)
    then have "length (show_nat (n div 10)) \<le> Suc k" by (rule Suc.IH)
    with False show ?thesis by (subst show_nat.simps) simp
  qed
qed

lemma length_show_int:
  assumes "- (2 ^ 31) \<le> i" "i < 2 ^ 31"
  shows "length (show_int i) \<le> 11"
proof -
  have "nat (- i) < 10 ^ Suc 9" "nat i < 10 ^ Suc 9"
    using assms by auto
  then show ?thesis
    using length_show_nat[of "nat (- i)" 9] length_show_nat[of "nat i" 9]
    by (simp add: show_int_def)
qed

lemma show_int_chars: "c \<in> set (show_int i) \<Longrightarrow> isdigit c \<or> c = CHR ''-''"
  by (auto simp: show_int_def dest: show_nat_digits split: if_splits)

lemma comma_notin_show_int [simp]: "CHR '','' \<notin> set (show_int i)"
  using show_int_chars[of "CHR '',''" i] by auto

lemma NUL_notin_show_int [simp]: "NUL \<notin> set (show_int i)"
  using show_int_chars[of NUL i] by (auto simp: NUL_def[symmetric]) (simp add: NUL_def)

section \<open>Reading\<close>

fun digits_val :: "nat \<Rightarrow> string \<Rightarrow> nat" where
  "digits_val acc [] = acc"
| "digits_val acc (c # s) = digits_val (10 * acc + digit_val c) s"

definition clamp64 :: "int \<Rightarrow> int" where
  "clamp64 x = max (- (2 ^ 63)) (min (2 ^ 63 - 1) x)"

definition int32_of :: "int \<Rightarrow> int" where
  "int32_of x = signed_take_bit 31 x"

definition strtol :: "string \<Rightarrow> int option" where
  "strtol s =
     (let s1 = dropWhile isspace s;
          neg = (s1 \<noteq> [] \<and> hd s1 = CHR ''-'');
          s2 = (if s1 \<noteq> [] \<and> (hd s1 = CHR ''-'' \<or> hd s1 = CHR ''+'') then tl s1 else s1);
          ds = takeWhile isdigit s2;
          v = int (digits_val 0 ds)
      in if ds = [] then None else Some (clamp64 (if neg then - v else v)))"

definition atoi :: "string \<Rightarrow> int" where
  "atoi s = (case strtol s of None \<Rightarrow> 0 | Some v \<Rightarrow> int32_of v)"

definition sscanf_d :: "string \<Rightarrow> int option" where
  "sscanf_d s = map_option int32_of (strtol s)"

lemma int32_of_id [simp]: "- (2 ^ 31) \<le> i \<Longrightarrow> i < 2 ^ 31 \<Longrightarrow> int32_of i = i"
  by (simp add: int32_of_def signed_take_bit_int_eq_self)

lemma int32_of_bounds: "- (2 ^ 31) \<le> int32_of i" "int32_of i < 2 ^ 31"
  using signed_take_bit_int_greater_eq_minus_exp[of 31 i] signed_take_bit_int_less_exp[of 31 i]
  by (simp_all add: int32_of_def)

lemma sscanf_d_bounds: "sscanf_d s = Some v \<Longrightarrow> - (2 ^ 31) \<le> v \<and> v < 2 ^ 31"
  using int32_of_bounds by (auto simp: sscanf_d_def)

lemma digits_val_append: "digits_val acc (a @ b) = digits_val (digits_val acc a) b"
  by (induction a arbitrary: acc) auto

lemma digits_val_show_nat [simp]: "digits_val 0 (show_nat n) = n"
proof (induction n rule: show_nat.induct)
  case (1 n)
  then show ?case by (subst show_nat.simps) (auto simp: digits_val_append)
qed

lemma takeWhile_digits:
  assumes "r = [] \<or> \<not> isdigit (hd r)"
  shows "takeWhile isdigit (show_nat n @ r) = show_nat n"
proof -
  have "takeWhile isdigit (show_nat n @ r) = show_nat n @ takeWhile isdigit r"
    by (rule takeWhile_append2) (rule show_nat_digits)
  moreover have "takeWhile isdigit r = []" using assms by (cases r) auto
  ultimately show ?thesis by simp
qed

lemma show_nat_hd: "isdigit (hd (show_nat n))"
  by (rule show_nat_digits[of _ n]) simp

text \<open>What \<open>%d\<close> prints, \<open>strtol\<close> reads back, whatever non-digit follows it.\<close>

lemma strtol_show_int:
  assumes r: "r = [] \<or> \<not> isdigit (hd r)"
  shows "strtol (show_int i @ r) = Some (clamp64 i)"
proof (cases "i < 0")
  case True
  then show ?thesis
    using takeWhile_digits[OF r, of "nat (- i)"] by (simp add: strtol_def show_int_def Let_def)
next
  case False
  obtain c s where cs: "show_nat (nat i) = c # s" by (cases "show_nat (nat i)") auto
  then have c: "isdigit c" using show_nat_hd[of "nat i"] by simp
  then have "c \<noteq> CHR ''-''" "c \<noteq> CHR ''+''" by auto
  with c cs False show ?thesis
    using takeWhile_digits[OF r, of "nat i"] digits_val_show_nat[of "nat i"]
    by (simp add: strtol_def show_int_def Let_def)
qed

lemma clamp64_id [simp]: "- (2 ^ 31) \<le> i \<Longrightarrow> i < 2 ^ 31 \<Longrightarrow> clamp64 i = i"
  by (simp add: clamp64_def)

lemma atoi_show_int:
  assumes "- (2 ^ 31) \<le> i" "i < 2 ^ 31" "r = [] \<or> \<not> isdigit (hd r)"
  shows "atoi (show_int i @ r) = i"
proof -
  have "int32_of (clamp64 i) = i" using assms(1,2) by (simp only: clamp64_id int32_of_id)
  then show ?thesis using strtol_show_int[OF assms(3), of i] by (simp add: atoi_def)
qed

lemma sscanf_d_show_int:
  assumes "- (2 ^ 31) \<le> i" "i < 2 ^ 31" "r = [] \<or> \<not> isdigit (hd r)"
  shows "sscanf_d (show_int i @ r) = Some i"
proof -
  have "int32_of (clamp64 i) = i" using assms(1,2) by (simp only: clamp64_id int32_of_id)
  then show ?thesis using strtol_show_int[OF assms(3), of i] by (simp add: sscanf_d_def)
qed

section \<open>Hexadecimal bytes\<close>

definition hex_char :: "nat \<Rightarrow> char" where
  "hex_char d = (if d < 10 then char_of (48 + d) else char_of (87 + d))"

definition hex02 :: "8 word \<Rightarrow> string" where
  "hex02 b = [hex_char (unat b div 16), hex_char (unat b mod 16)]"

definition hex_val :: "char \<Rightarrow> nat" where
  "hex_val c = (if (of_char c :: nat) < 97 then of_char c - 48 else of_char c - 87)"

lemma hex_val_hex_char [simp]: "d < 16 \<Longrightarrow> hex_val (hex_char d) = d"
  by (auto simp: hex_val_def hex_char_def)

lemma length_hex02 [simp]: "length (hex02 b) = 2"
  by (simp add: hex02_def)

lemma hex02_inj: "hex02 a = hex02 b \<longleftrightarrow> a = b"
proof
  assume eq: "hex02 a = hex02 b"
  have "unat x < 2 ^ LENGTH(8)" for x :: "8 word" by (rule unsigned_less)
  then have ub: "unat x div 16 < 16" "unat x mod 16 < 16" for x :: "8 word"
    by (auto simp: less_mult_imp_div_less)
  from eq have "hex_val (hex_char (unat a div 16)) = hex_val (hex_char (unat b div 16))"
    "hex_val (hex_char (unat a mod 16)) = hex_val (hex_char (unat b mod 16))"
    by (simp_all add: hex02_def)
  then have "unat a div 16 = unat b div 16" "unat a mod 16 = unat b mod 16"
    by (simp_all only: hex_val_hex_char ub)
  then have "unat a = unat b" by (metis div_mult_mod_eq)
  then show "a = b" by (simp add: word_unat_eq_iff)
qed simp

end
