(* ===== verification/Contacts.thy ===== *)
theory Contacts
  imports C_Decimal "HOL-Library.Tree"
begin

text \<open>
  module2/4_3: the phone book, a binary search tree of malloc'ed nodes. The heap maps addresses to
  nodes and 0 is the null pointer; freeing a node unmaps it. A read through an unmapped pointer, a
  use of an indeterminate buffer and a call that never returns are all \<open>None\<close>, so the recursive
  functions are partial functions over an arbitrary heap, cyclic ones included.
\<close>

section \<open>Data (contacts.h)\<close>

definition MAX_NAME :: nat where "MAX_NAME = 100"
definition MAX_PHONE :: nat where "MAX_PHONE = 20"
definition MAX_EMAIL :: nat where "MAX_EMAIL = 100"
definition MAX_WORK :: nat where "MAX_WORK = 100"
definition MAX_SOCIAL :: nat where "MAX_SOCIAL = 100"

record person =
  lastname :: string
  name :: string
  patronymic :: string
  workplace :: string
  position :: string
  phone :: string
  email :: string
  social :: string
  messenger :: string

record Contact = person +
  left :: nat
  right :: nat

type_synonym heap = "nat \<rightharpoonup> Contact"

text \<open>
  The program's state: the nodes, the two globals, what \<open>malloc\<close> will return (0, or an exhausted
  list, is a failure), the bytes left on standard input and the lines printed.
\<close>

record book =
  nodes :: heap
  root :: nat
  operationCount :: nat
  mallocs :: "nat list"
  stdin :: string
  printed :: "string list"

definition malloc :: "book \<Rightarrow> nat \<times> book" where
  "malloc b = (case mallocs b of [] \<Rightarrow> (0, b) | p # ps \<Rightarrow> (p, b\<lparr>mallocs := ps\<rparr>))"

definition print :: "string \<Rightarrow> book \<Rightarrow> book" where
  "print s b = b\<lparr>printed := printed b @ [s]\<rparr>"

fun removeN :: "string \<Rightarrow> string" where
  "removeN [] = []"
| "removeN (c # s) = (if c = NL then [] else c # removeN s)"

definition compare :: "'a person_scheme \<Rightarrow> 'b person_scheme \<Rightarrow> int" where
  "compare a b =
     (let cmp = strcmp (lastname a) (lastname b)
      in if cmp = 0 then strcmp (name a) (name b) else cmp)"

section \<open>The tree operations\<close>

partial_function (option) tree_insert :: "heap \<Rightarrow> nat \<Rightarrow> nat \<Rightarrow> (nat \<times> heap) option" where
  "tree_insert h tree node =
     (if tree = 0 then Some (node, h)
      else Option.bind (h node) (\<lambda>n. Option.bind (h tree) (\<lambda>t.
        if compare n t < 0
        then Option.bind (tree_insert h (left t) node) (\<lambda>(p, h').
             Option.bind (h' tree) (\<lambda>t'. Some (tree, h'(tree \<mapsto> t'\<lparr>left := p\<rparr>))))
        else Option.bind (tree_insert h (right t) node) (\<lambda>(p, h').
             Option.bind (h' tree) (\<lambda>t'. Some (tree, h'(tree \<mapsto> t'\<lparr>right := p\<rparr>)))))))"

partial_function (option) countNodes :: "heap \<Rightarrow> nat \<Rightarrow> nat option" where
  "countNodes h tree =
     (if tree = 0 then Some 0
      else Option.bind (h tree) (\<lambda>t.
           Option.bind (countNodes h (left t)) (\<lambda>l.
           Option.bind (countNodes h (right t)) (\<lambda>r. Some (1 + l + r)))))"

partial_function (option) storeInOrder :: "heap \<Rightarrow> nat \<Rightarrow> nat list \<Rightarrow> nat \<Rightarrow> (nat list \<times> nat) option" where
  "storeInOrder h tree array index =
     (if tree = 0 then Some (array, index)
      else Option.bind (h tree) (\<lambda>t.
           Option.bind (storeInOrder h (left t) array index) (\<lambda>(array1, index1).
           Option.bind (aset array1 index1 tree) (\<lambda>array2.
           storeInOrder h (right t) array2 (Suc index1)))))"

text \<open>The bounds are C ints; the index sum is never negative when the interval is not empty.\<close>

function buildBalanced :: "heap \<Rightarrow> nat list \<Rightarrow> int \<Rightarrow> int \<Rightarrow> (nat \<times> heap) option" where
  "buildBalanced h array lo hi =
     (if lo > hi then Some (0, h)
      else (let mid = (lo + hi) div 2 in
        if mid < 0 then None
        else Option.bind (aget array (nat mid)) (\<lambda>node.
             Option.bind (buildBalanced h array lo (mid - 1)) (\<lambda>(l, h1).
             Option.bind (h1 node) (\<lambda>c1.
             let h1' = h1(node \<mapsto> c1\<lparr>left := l\<rparr>) in
             Option.bind (buildBalanced h1' array (mid + 1) hi) (\<lambda>(r, h2).
             Option.bind (h2 node) (\<lambda>c2.
             Some (node, h2(node \<mapsto> c2\<lparr>right := r\<rparr>)))))))))"
  by pat_completeness auto
termination
  by (relation "measure (\<lambda>(h, array, lo, hi). nat (hi - lo + 1))") auto

declare buildBalanced.simps [simp del]

definition balanceTree :: "book \<Rightarrow> book option" where
  "balanceTree b = do {
     count \<leftarrow> countNodes (nodes b) (root b);
     if count < 2 then Some b
     else let (array_ptr, b1) = malloc b in
       if array_ptr = 0 then Some b1
       else do {
         (array, index) \<leftarrow> storeInOrder (nodes b) (root b) (replicate count 0) 0;
         (r, h') \<leftarrow> buildBalanced (nodes b) array 0 (int count - 1);
         Some (b1\<lparr>nodes := h', root := r\<rparr>)
       }
   }"

partial_function (option) findMin :: "heap \<Rightarrow> nat \<Rightarrow> nat option" where
  "findMin h tree =
     Option.bind (h tree) (\<lambda>t. if left t \<noteq> 0 then findMin h (left t) else Some tree)"

text \<open>
  \<open>*tree = *temp\<close> copies the whole struct, the two pointers with it.
\<close>

partial_function (option) deleteNode :: "heap \<Rightarrow> nat \<Rightarrow> nat \<Rightarrow> (nat \<times> heap) option" where
  "deleteNode h tree node =
     (if tree = 0 then Some (0, h)
      else Option.bind (h node) (\<lambda>n. Option.bind (h tree) (\<lambda>t.
        let cmp = compare n t in
        if cmp < 0
        then Option.bind (deleteNode h (left t) node) (\<lambda>(p, h').
             Option.bind (h' tree) (\<lambda>t'. Some (tree, h'(tree \<mapsto> t'\<lparr>left := p\<rparr>))))
        else if cmp > 0
        then Option.bind (deleteNode h (right t) node) (\<lambda>(p, h').
             Option.bind (h' tree) (\<lambda>t'. Some (tree, h'(tree \<mapsto> t'\<lparr>right := p\<rparr>))))
        else if left t = 0 then Some (right t, h(tree := None))
        else if right t = 0 then Some (left t, h(tree := None))
        else Option.bind (findMin h (right t)) (\<lambda>temp.
             Option.bind (h temp) (\<lambda>m.
             Option.bind (deleteNode (h(tree \<mapsto> m)) (right m) temp) (\<lambda>(p, h').
             Option.bind (h' tree) (\<lambda>t'. Some (tree, h'(tree \<mapsto> t'\<lparr>right := p\<rparr>)))))))))"

section \<open>Printing\<close>

definition show_person :: "nat \<Rightarrow> 'a person_scheme \<Rightarrow> string list" where
  "show_person num c =
     [[NL] @ show_nat num @ ''.'' @ [NL],
      ''Last name: '' @ lastname c @ [NL], ''Name: '' @ name c @ [NL],
      ''Patronymic: '' @ patronymic c @ [NL], ''Workplace: '' @ workplace c @ [NL],
      ''Position: '' @ position c @ [NL], ''Phone: '' @ phone c @ [NL],
      ''Email: '' @ email c @ [NL], ''Social: '' @ social c @ [NL],
      ''Messenger: '' @ messenger c @ [NL]]"

partial_function (option) printTree :: "heap \<Rightarrow> nat \<Rightarrow> nat \<Rightarrow> (string list \<times> nat) option" where
  "printTree h tree num =
     (if tree = 0 then Some ([], num)
      else Option.bind (h tree) (\<lambda>t.
           Option.bind (printTree h (left t) num) (\<lambda>(out1, num1).
           Option.bind (printTree h (right t) (Suc num1)) (\<lambda>(out2, num2).
           Some (out1 @ show_person num1 t @ out2, num2)))))"

definition showContacts :: "book \<Rightarrow> book option" where
  "showContacts b =
     (if root b = 0 then Some (print ([NL] @ ''No contacts found.'' @ [NL]) b)
      else do {
        (out, num) \<leftarrow> printTree (nodes b) (root b) 1;
        Some (b\<lparr>printed := printed b @ [[NL] @ ''Contacts:'' @ [NL]] @ out\<rparr>)
      })"

text \<open>The flag \<open>isLeft\<close> picks between two equal prefixes.\<close>

partial_function (option) printTreeWithBranches :: "heap \<Rightarrow> nat \<Rightarrow> nat \<Rightarrow> bool \<Rightarrow> string list option" where
  "printTreeWithBranches h tree level isLeft =
     (if tree = 0 then Some []
      else Option.bind (h tree) (\<lambda>t.
           Option.bind (printTreeWithBranches h (right t) (Suc level) False) (\<lambda>out1.
           Option.bind (printTreeWithBranches h (left t) (Suc level) True) (\<lambda>out2.
           Some (out1 @ replicate level ''    ''
                 @ (if 0 < level then [if isLeft then ''+-- '' else ''+-- ''] else [])
                 @ [lastname t @ '' '' @ name t @ [NL]] @ out2)))))"

definition printTreeStructure :: "book \<Rightarrow> book option" where
  "printTreeStructure b =
     (if root b = 0 then Some (print (''Tree is empty.'' @ [NL]) b)
      else do {
        out \<leftarrow> printTreeWithBranches (nodes b) (root b) 0 False;
        Some (b\<lparr>printed := printed b @ [[NL] @ ''Tree: '' @ [NL]] @ out @ [[NL, NL]]\<rparr>)
      })"

section \<open>Reading fields\<close>

text \<open>
  A character buffer is \<open>None\<close> while its contents are indeterminate. At end of input \<open>fgets\<close>
  leaves it as it is and \<open>removeN\<close> then scans it. \<open>read_required\<close> is the \<open>do ... while\<close> loop that
  asks again for an empty line: at end of input with an empty buffer it never ends.
\<close>

definition read_field :: "nat \<Rightarrow> string option \<Rightarrow> string \<Rightarrow> (string \<times> string) option" where
  "read_field n old inp =
     (case fgets n inp of
        Some (l, rest) \<Rightarrow> Some (removeN l, rest)
      | None \<Rightarrow> map_option (\<lambda>s. (removeN s, inp)) old)"

partial_function (option) read_required :: "nat \<Rightarrow> string option \<Rightarrow> string \<Rightarrow> (string \<times> string) option" where
  "read_required n old inp =
     Option.bind (read_field n old inp) (\<lambda>(s, rest).
       if length s = 0 then read_required n (Some s) rest else Some (s, rest))"

text \<open>
  A menu choice: \<open>fgets\<close> into \<open>input[10]\<close>, then \<open>sscanf("%d")\<close>, which leaves the variable alone
  when there is no number. Both may still be indeterminate.
\<close>

definition read_choice :: "string option \<Rightarrow> int option \<Rightarrow> string \<Rightarrow>
    (string option \<times> int option \<times> string) option" where
  "read_choice input choice inp =
     (let (input', inp') = (case fgets 10 inp of Some (l, rest) \<Rightarrow> (Some l, rest) | None \<Rightarrow> (input, inp))
      in case input' of
           None \<Rightarrow> None
         | Some s \<Rightarrow> Some (input', (case sscanf_d s of Some v \<Rightarrow> Some v | None \<Rightarrow> choice), inp'))"

section \<open>The menu operations\<close>

text \<open>Every ten additions and deletions the tree is rebuilt.\<close>

definition count_operation :: "book \<Rightarrow> book option" where
  "count_operation b =
     (let b1 = b\<lparr>operationCount := Suc (operationCount b)\<rparr> in
      if operationCount b1 \<ge> 10
      then map_option (\<lambda>b2. print ([NL] @ ''Tree balanced.'' @ [NL]) (b2\<lparr>operationCount := 0\<rparr>)) (balanceTree b1)
      else Some b1)"

definition addContact :: "book \<Rightarrow> book option" where
  "addContact b =
     (let (newNode, b0) = malloc b in
      if newNode = 0 then Some (print (''Memory error!'' @ [NL]) b0)
      else do {
        (ln, i1) \<leftarrow> read_required MAX_NAME None (stdin b0);
        (nm, i2) \<leftarrow> read_required MAX_NAME None i1;
        (pa, i3) \<leftarrow> read_field MAX_NAME None i2;
        (wo, i4) \<leftarrow> read_field MAX_WORK None i3;
        (po, i5) \<leftarrow> read_field MAX_WORK None i4;
        (ph, i6) \<leftarrow> read_field MAX_PHONE None i5;
        (em, i7) \<leftarrow> read_field MAX_EMAIL None i6;
        (so, i8) \<leftarrow> read_field MAX_SOCIAL None i7;
        (me, i9) \<leftarrow> read_field MAX_SOCIAL None i8;
        let c = \<lparr>lastname = ln, name = nm, patronymic = pa, workplace = wo, position = po, phone = ph,
                 email = em, social = so, messenger = me, left = 0, right = 0\<rparr>;
        (r, h') \<leftarrow> tree_insert ((nodes b0)(newNode \<mapsto> c)) (root b0) newNode;
        b1 \<leftarrow> count_operation (b0\<lparr>nodes := h', root := r, stdin := i9\<rparr>);
        Some (print ([NL] @ ''Contact added.'' @ [NL]) b1)
      })"

definition list_contacts :: "heap \<Rightarrow> nat list \<Rightarrow> string list option" where
  "list_contacts h array =
     those (map (\<lambda>(i, p). map_option
       (\<lambda>c. show_nat (i + 1) @ ''. '' @ lastname c @ '' '' @ name c @ [NL]) (h p)) (enumerate 0 array))"

definition edit_field :: "int \<Rightarrow> Contact \<Rightarrow> string \<Rightarrow> (Contact \<times> string) option" where
  "edit_field choice c inp =
     (if choice = 1 then map_option (\<lambda>(s, i). (c\<lparr>lastname := s\<rparr>, i)) (read_required MAX_NAME (Some (lastname c)) inp)
      else if choice = 2 then map_option (\<lambda>(s, i). (c\<lparr>name := s\<rparr>, i)) (read_required MAX_NAME (Some (name c)) inp)
      else if choice = 3 then map_option (\<lambda>(s, i). (c\<lparr>patronymic := s\<rparr>, i)) (read_field MAX_NAME (Some (patronymic c)) inp)
      else if choice = 4 then map_option (\<lambda>(s, i). (c\<lparr>workplace := s\<rparr>, i)) (read_field MAX_WORK (Some (workplace c)) inp)
      else if choice = 5 then map_option (\<lambda>(s, i). (c\<lparr>position := s\<rparr>, i)) (read_field MAX_WORK (Some (position c)) inp)
      else if choice = 6 then map_option (\<lambda>(s, i). (c\<lparr>phone := s\<rparr>, i)) (read_field MAX_PHONE (Some (phone c)) inp)
      else if choice = 7 then map_option (\<lambda>(s, i). (c\<lparr>email := s\<rparr>, i)) (read_field MAX_EMAIL (Some (email c)) inp)
      else if choice = 8 then map_option (\<lambda>(s, i). (c\<lparr>social := s\<rparr>, i)) (read_field MAX_SOCIAL (Some (social c)) inp)
      else if choice = 9 then map_option (\<lambda>(s, i). (c\<lparr>messenger := s\<rparr>, i)) (read_field MAX_SOCIAL (Some (messenger c)) inp)
      else Some (c, inp))"

partial_function (option) edit_menu :: "nat \<Rightarrow> string option \<Rightarrow> int option \<Rightarrow> book \<Rightarrow> book option" where
  "edit_menu p input choice b =
     Option.bind (read_choice input choice (stdin b)) (\<lambda>(input', choice', inp).
     Option.bind choice' (\<lambda>ch.
     Option.bind (nodes b p) (\<lambda>c.
     Option.bind (edit_field ch c inp) (\<lambda>(c', inp').
       let b' = b\<lparr>nodes := (nodes b)(p \<mapsto> c'), stdin := inp'\<rparr> in
       if ch = 0 then Some (print (''Contact updated.'' @ [NL]) b')
       else edit_menu p input' choice'
              (if 1 \<le> ch \<and> ch \<le> 9 then b' else print (''Invalid choice.'' @ [NL]) b')))))"

text \<open>The selection that starts editing and deleting: list the contacts in order, read a number.\<close>

definition select_contact :: "book \<Rightarrow> (nat option \<times> string option \<times> int option \<times> book) option" where
  "select_contact b = do {
     count \<leftarrow> countNodes (nodes b) (root b);
     let (array_ptr, b1) = malloc b;
     if array_ptr = 0 then Some (None, None, None, b1)
     else do {
       (array, idx) \<leftarrow> storeInOrder (nodes b1) (root b1) (replicate count 0) 0;
       out \<leftarrow> list_contacts (nodes b1) array;
       (input, choice, inp) \<leftarrow> read_choice None None (stdin b1);
       ch \<leftarrow> choice;
       let b2 = b1\<lparr>stdin := inp, printed := printed b1 @ out\<rparr>;
       if ch < 1 \<or> int count < ch then Some (None, input, choice, print (''Invalid choice.'' @ [NL]) b2)
       else do {
         c \<leftarrow> aget array (nat (ch - 1));
         Some (Some c, input, choice, b2)
       }
     }
   }"

definition editContact :: "book \<Rightarrow> book option" where
  "editContact b =
     (if root b = 0 then Some (print (''No contacts found.'' @ [NL]) b)
      else do {
        (sel, input, choice, b1) \<leftarrow> select_contact b;
        case sel of
          None \<Rightarrow> Some b1
        | Some p \<Rightarrow> edit_menu p input choice b1
      })"

definition deleteContact :: "book \<Rightarrow> book option" where
  "deleteContact b =
     (if root b = 0 then Some (print (''No contacts found.'' @ [NL]) b)
      else do {
        (sel, input, choice, b1) \<leftarrow> select_contact b;
        case sel of
          None \<Rightarrow> Some b1
        | Some p \<Rightarrow> do {
            let (input', inp') = (case fgets 10 (stdin b1) of
                Some (l, rest) \<Rightarrow> (Some l, rest) | None \<Rightarrow> (input, stdin b1));
            answer \<leftarrow> input';
            let b2 = b1\<lparr>stdin := inp'\<rparr>;
            if answer \<noteq> [] \<and> (hd answer = CHR ''y'' \<or> hd answer = CHR ''Y'') then do {
              (r, h') \<leftarrow> deleteNode (nodes b2) (root b2) p;
              b3 \<leftarrow> count_operation (b2\<lparr>nodes := h', root := r\<rparr>);
              Some (print (''Contact deleted.'' @ [NL]) b3)
            }
            else Some (print (''Deletion canceled.'' @ [NL]) b2)
          }
      })"

definition menu_action :: "int \<Rightarrow> book \<Rightarrow> book option" where
  "menu_action choice b =
     (if choice = 1 then addContact b
      else if choice = 2 then showContacts b
      else if choice = 3 then editContact b
      else if choice = 4 then deleteContact b
      else if choice = 5 then printTreeStructure b
      else if choice = 0 then Some (print (''Goodbye!'' @ [NL]) b)
      else Some (print (''Invalid choice.'' @ [NL]) b))"

partial_function (option) main_menu :: "string option \<Rightarrow> int option \<Rightarrow> book \<Rightarrow> book option" where
  "main_menu input choice b =
     Option.bind (read_choice input choice (stdin b)) (\<lambda>(input', choice', inp).
     Option.bind choice' (\<lambda>ch.
     Option.bind (menu_action ch (b\<lparr>stdin := inp\<rparr>)) (\<lambda>b'.
       if ch = 0 then Some b' else main_menu input' choice' b')))"

definition main_book :: "nat list \<Rightarrow> string \<Rightarrow> book option" where
  "main_book ptrs inp =
     main_menu None None \<lparr>nodes = Map.empty, root = 0, operationCount = 0, mallocs = ptrs, stdin = inp,
                          printed = []\<rparr>"

end
