(* ===== verification/Contacts_Tree.thy ===== *)
theory Contacts_Tree
  imports Contacts "HOL-Library.Product_Lexorder"
begin

text \<open>
  The heap of the phone book as a binary tree: \<open>rep h p T\<close> says that the nodes reached from \<open>p\<close>
  form the tree \<open>T\<close> of addresses and persons. Each pointer routine refines a function on trees.
\<close>

type_synonym ptree = "(nat \<times> person) tree"

definition key :: "'a person_scheme \<Rightarrow> string \<times> string" where
  "key c = (lastname c, name c)"

lemma key_truncate [simp]: "key (person.truncate c) = key c"
  by (cases c) (simp add: key_def person.defs)

lemma compare_key:
  "compare a b < 0 \<longleftrightarrow> key a < key b" "0 < compare a b \<longleftrightarrow> key b < key a"
  by (auto simp: compare_def key_def Let_def less_prod_def)

fun rep :: "heap \<Rightarrow> nat \<Rightarrow> ptree \<Rightarrow> bool" where
  "rep h p Leaf \<longleftrightarrow> p = 0"
| "rep h p (Node l ad r) \<longleftrightarrow> p = fst ad \<and> p \<noteq> 0 \<and>
     (\<exists>c. h p = Some c \<and> person.truncate c = snd ad \<and> rep h (left c) l \<and> rep h (right c) r)"

definition addrs :: "ptree \<Rightarrow> nat list" where
  "addrs T = map fst (inorder T)"

definition persons :: "ptree \<Rightarrow> person list" where
  "persons T = map snd (inorder T)"

lemma addrs_simps [simp]: "addrs Leaf = []" "addrs (Node l ad r) = addrs l @ fst ad # addrs r"
  by (simp_all add: addrs_def)

lemma persons_simps [simp]: "persons Leaf = []" "persons (Node l ad r) = persons l @ snd ad # persons r"
  by (simp_all add: persons_def)

lemma length_addrs [simp]: "length (addrs T) = size T" "length (persons T) = size T"
  by (simp_all add: addrs_def persons_def)

lemma rep_frame: "(\<And>q. q \<in> set (addrs T) \<Longrightarrow> h' q = h q) \<Longrightarrow> rep h p T \<Longrightarrow> rep h' p T"
  by (induction T arbitrary: p) auto

lemma rep_0: "rep h 0 T \<longleftrightarrow> T = Leaf"
  by (cases T) auto

lemma rep_Leaf_iff: "rep h p T \<Longrightarrow> p = 0 \<longleftrightarrow> T = Leaf"
  by (cases T) auto

lemma rep_dom: "rep h p T \<Longrightarrow> q \<in> set (addrs T) \<Longrightarrow> q \<noteq> 0 \<and> (\<exists>c. h q = Some c)"
  by (induction T arbitrary: p) auto

lemma truncate_update [simp]:
  "person.truncate (c\<lparr>left := p\<rparr>) = person.truncate c" "person.truncate (c\<lparr>right := p\<rparr>) = person.truncate c"
  by (cases c, simp add: person.defs)+

text \<open>Assigning one of a node's pointers after a recursive call.\<close>

lemma rep_set_left:
  assumes "rep h p l" "rep h (right c) r" "h a = Some c" "a \<noteq> 0" "a \<notin> set (addrs l)" "a \<notin> set (addrs r)"
  shows "rep (h(a \<mapsto> c\<lparr>left := p\<rparr>)) a (Node l (a, person.truncate c) r)"
  using assms by (auto intro!: rep_frame[of _ "h(a \<mapsto> c\<lparr>left := p\<rparr>)" h])

lemma rep_set_right:
  assumes "rep h (left c) l" "rep h p r" "h a = Some c" "a \<noteq> 0" "a \<notin> set (addrs l)" "a \<notin> set (addrs r)"
  shows "rep (h(a \<mapsto> c\<lparr>right := p\<rparr>)) a (Node l (a, person.truncate c) r)"
  using assms by (auto intro!: rep_frame[of _ "h(a \<mapsto> c\<lparr>right := p\<rparr>)" h])

section \<open>Insertion\<close>

fun tins :: "nat \<times> person \<Rightarrow> ptree \<Rightarrow> ptree" where
  "tins x Leaf = Node Leaf x Leaf"
| "tins x (Node l a r) =
     (if key (snd x) < key (snd a) then Node (tins x l) a r else Node l a (tins x r))"

lemma set_addrs_tins: "set (addrs (tins x T)) = insert (fst x) (set (addrs T))"
  by (induction T) auto

lemma distinct_addrs_tins: "distinct (addrs T) \<Longrightarrow> fst x \<notin> set (addrs T) \<Longrightarrow> distinct (addrs (tins x T))"
  by (induction T) (auto simp: set_addrs_tins)

lemma tree_insert_rep:
  assumes "rep h p T" "distinct (addrs T)" "n \<notin> set (addrs T)" "n \<noteq> 0"
    and "h n = Some c" "left c = 0" "right c = 0"
  shows "\<exists>p' h'. tree_insert h p n = Some (p', h') \<and> rep h' p' (tins (n, person.truncate c) T) \<and>
    (\<forall>q. q \<notin> set (addrs T) \<longrightarrow> h' q = h q)"
  using assms(1-3)
proof (induction T arbitrary: p)
  case Leaf
  with assms(4-7) show ?case by (subst tree_insert.simps) simp
next
  case (Node l ad r)
  then obtain a d t where ad: "ad = (a, d)" "p = a" "a \<noteq> 0" "h a = Some t" "person.truncate t = d"
      "rep h (left t) l" "rep h (right t) r"
    by (cases ad) auto
  have dist: "distinct (addrs l)" "distinct (addrs r)" "a \<notin> set (addrs l)" "a \<notin> set (addrs r)"
    "set (addrs l) \<inter> set (addrs r) = {}" "n \<notin> set (addrs l)" "n \<notin> set (addrs r)" "a \<noteq> n"
    using Node.prems ad(1) by auto
  let ?x = "(n, person.truncate c)"
  show ?case
  proof (cases "key c < key t")
    case True
    obtain p' h' where IH: "tree_insert h (left t) n = Some (p', h')" "rep h' p' (tins ?x l)"
        "\<forall>q. q \<notin> set (addrs l) \<longrightarrow> h' q = h q"
      using Node.IH(1)[OF ad(6) dist(1,6)] by blast
    have "rep h' (right t) r" by (rule rep_frame[OF _ ad(7)]) (use IH(3) dist(5) in blast)
    moreover have "h' a = Some t" using IH(3) dist(3) ad(4) by simp
    ultimately have "rep (h'(a \<mapsto> t\<lparr>left := p'\<rparr>)) a (Node (tins ?x l) (a, d) r)"
      using rep_set_left[OF IH(2)] ad(3,5) dist(3,4,8) by (auto simp: set_addrs_tins)
    moreover have "tree_insert h p n = Some (a, h'(a \<mapsto> t\<lparr>left := p'\<rparr>))"
      using True ad(2,3,4) IH(1) \<open>h' a = Some t\<close> assms(5)
      by (subst tree_insert.simps) (simp add: compare_key)
    moreover have "key (person.truncate c) < key d" using True ad(5)[symmetric] by simp
    ultimately show ?thesis using IH(3) ad(1) by auto
  next
    case False
    obtain p' h' where IH: "tree_insert h (right t) n = Some (p', h')" "rep h' p' (tins ?x r)"
        "\<forall>q. q \<notin> set (addrs r) \<longrightarrow> h' q = h q"
      using Node.IH(2)[OF ad(7) dist(2,7)] by blast
    have "rep h' (left t) l" by (rule rep_frame[OF _ ad(6)]) (use IH(3) dist(5) in blast)
    moreover have "h' a = Some t" using IH(3) dist(4) ad(4) by simp
    ultimately have "rep (h'(a \<mapsto> t\<lparr>right := p'\<rparr>)) a (Node l (a, d) (tins ?x r))"
      using rep_set_right[OF _ IH(2)] ad(3,5) dist(3,4,8) by (auto simp: set_addrs_tins)
    moreover have "tree_insert h p n = Some (a, h'(a \<mapsto> t\<lparr>right := p'\<rparr>))"
      using False ad(2,3,4) IH(1) \<open>h' a = Some t\<close> assms(5)
      by (subst tree_insert.simps) (simp add: compare_key)
    moreover have "\<not> key (person.truncate c) < key d" using False ad(5)[symmetric] by simp
    ultimately show ?thesis using IH(3) ad(1) by auto
  qed
qed

text \<open>In an ordered book the new contact goes behind those with an equal or smaller key.\<close>

definition sorted_book :: "person list \<Rightarrow> bool" where
  "sorted_book ps \<longleftrightarrow> sorted (map key ps)"

definition insert_sorted :: "person \<Rightarrow> person list \<Rightarrow> person list" where
  "insert_sorted d ps = takeWhile (\<lambda>e. key e \<le> key d) ps @ d # dropWhile (\<lambda>e. key e \<le> key d) ps"

lemma dropWhile_tail: "\<not> P x \<Longrightarrow> dropWhile P (xs @ x # ys) = dropWhile P xs @ x # ys"
  by (induction xs) auto

lemma persons_tins: "sorted_book (persons T) \<Longrightarrow> persons (tins (n, d) T) = insert_sorted d (persons T)"
proof (induction T)
  case (Node l ad r)
  have s: "sorted_book (persons l)" "sorted_book (persons r)"
    "\<forall>e \<in> set (persons l). key e \<le> key (snd ad)" "\<forall>e \<in> set (persons r). key (snd ad) \<le> key e"
    using Node.prems by (auto simp: sorted_book_def sorted_append)
  show ?case
  proof (cases "key d < key (snd ad)")
    case True
    then have "\<not> key (snd ad) \<le> key d" by simp
    with True Node.IH(1)[OF s(1)] show ?thesis
      by (simp add: insert_sorted_def takeWhile_tail dropWhile_tail)
  next
    case False
    then have "\<forall>e \<in> set (persons l). key e \<le> key d" using s(3) by (meson leI order_trans)
    with False Node.IH(2)[OF s(2)] show ?thesis
      by (simp add: insert_sorted_def takeWhile_append dropWhile_append)
  qed
qed (simp add: insert_sorted_def)

lemma set_insert_sorted: "set (insert_sorted d ps) = insert d (set ps)"
proof -
  have "set ps = set (takeWhile (\<lambda>e. key e \<le> key d) ps) \<union> set (dropWhile (\<lambda>e. key e \<le> key d) ps)"
    by (metis set_append takeWhile_dropWhile_id)
  then show ?thesis by (simp add: insert_sorted_def)
qed

lemma sorted_insert_sorted: "sorted_book ps \<Longrightarrow> sorted_book (insert_sorted d ps)"
proof (induction ps)
  case (Cons e ps)
  show ?case
  proof (cases "key e \<le> key d")
    case True
    then have "insert_sorted d (e # ps) = e # insert_sorted d ps" by (simp add: insert_sorted_def)
    with Cons True show ?thesis by (auto simp: sorted_book_def set_insert_sorted)
  next
    case False
    then have "insert_sorted d (e # ps) = d # e # ps" by (simp add: insert_sorted_def)
    with Cons.prems False show ?thesis by (auto simp: sorted_book_def intro: order_trans less_imp_le)
  qed
qed (simp add: sorted_book_def insert_sorted_def)

section \<open>Counting and listing\<close>

lemma countNodes_rep: "rep h p T \<Longrightarrow> countNodes h p = Some (size T)"
proof (induction T arbitrary: p)
  case Leaf
  then show ?case by (subst countNodes.simps) simp
next
  case (Node l ad r)
  then obtain t where t: "h p = Some t" "p \<noteq> 0" "rep h (left t) l" "rep h (right t) r" by auto
  with Node.IH(1)[OF t(3)] Node.IH(2)[OF t(4)] show ?case
    by (subst countNodes.simps) simp
qed

lemma storeInOrder_rep:
  "rep h p T \<Longrightarrow> index + size T \<le> length array \<Longrightarrow>
   storeInOrder h p array index =
     Some (take index array @ addrs T @ drop (index + size T) array, index + size T)"
proof (induction T arbitrary: p array index)
  case Leaf
  then show ?case by (subst storeInOrder.simps) simp
next
  case (Node l ad r)
  then obtain t where t: "h p = Some t" "p \<noteq> 0" "p = fst ad" "rep h (left t) l" "rep h (right t) r" by auto
  define a1 where "a1 = take index array @ addrs l @ drop (index + size l) array"
  define a2 where "a2 = a1[index + size l := p]"
  have len: "length a1 = length array" using Node.prems(2) by (simp add: a1_def)
  have 1: "storeInOrder h (left t) array index = Some (a1, index + size l)"
    using Node.IH(1)[OF t(4)] Node.prems(2) by (simp add: a1_def)
  have a2: "take (Suc (index + size l)) a2 = take index array @ addrs l @ [p]"
    "drop (Suc (index + size l) + size r) a2 = drop (Suc (index + size l) + size r) array"
    using Node.prems(2) by (simp_all add: a2_def a1_def take_Suc_list_update ac_simps)
  have "storeInOrder h (right t) a2 (Suc (index + size l)) =
      Some (take (Suc (index + size l)) a2 @ addrs r @ drop (Suc (index + size l) + size r) a2,
            Suc (index + size l) + size r)"
    using Node.IH(2)[OF t(5), of "Suc (index + size l)" a2] Node.prems(2) len by (simp add: a2_def)
  moreover have "aset a1 (index + size l) p = Some a2"
    using Node.prems(2) len by (simp add: a2_def)
  ultimately show ?case
    using t 1 a2 by (subst storeInOrder.simps) (simp add: add.assoc)
qed

lemma storeInOrder_all: "rep h p T \<Longrightarrow> storeInOrder h p (replicate (size T) 0) 0 = Some (addrs T, size T)"
  by (simp add: storeInOrder_rep)

section \<open>Rebuilding\<close>

lemma half_less: "xs \<noteq> [] \<Longrightarrow> (length xs - Suc 0) div 2 < length xs"
  by (cases xs) auto

text \<open>The shape \<open>buildBalanced\<close> makes of a list: the middle element on top.\<close>

function halves :: "'a list \<Rightarrow> 'a tree" where
  "halves xs =
     (if xs = [] then Leaf
      else (let m = (length xs - 1) div 2
            in Node (halves (take m xs)) (xs ! m) (halves (drop (Suc m) xs))))"
  by pat_completeness auto
termination
  by (relation "measure length") (auto simp: Let_def dest: half_less)

declare halves.simps [simp del]

lemma halves_unfold:
  "xs \<noteq> [] \<Longrightarrow> m = (length xs - 1) div 2 \<Longrightarrow>
   halves xs = Node (halves (take m xs)) (xs ! m) (halves (drop (Suc m) xs))"
  by (subst halves.simps) (simp add: Let_def)

lemma inorder_halves: "inorder (halves xs) = xs"
proof (induction xs rule: halves.induct)
  case (1 xs)
  show ?case
  proof (cases "xs = []")
    case False
    define m where "m = (length xs - 1) div 2"
    have "m < length xs" using half_less[OF False] by (simp add: m_def)
    then have "take m xs @ xs ! m # drop (Suc m) xs = xs" by (simp add: id_take_nth_drop[symmetric])
    with 1 False show ?thesis by (subst halves.simps) (simp add: Let_def m_def)
  qed (simp add: halves.simps)
qed

lemma height_halves: "length xs < 2 ^ k \<Longrightarrow> height (halves xs) \<le> k"
proof (induction k arbitrary: xs)
  case 0
  then show ?case by (simp add: halves.simps)
next
  case (Suc k)
  show ?case
  proof (cases "xs = []")
    case False
    define m where "m = (length xs - 1) div 2"
    have "m < 2 ^ k" "length xs - Suc m < 2 ^ k" using Suc.prems by (auto simp: m_def)
    then have "height (halves (take m xs)) \<le> k" "height (halves (drop (Suc m) xs)) \<le> k"
      using Suc.IH[of "take m xs"] Suc.IH[of "drop (Suc m) xs"] by auto
    with False show ?thesis by (subst halves.simps) (simp add: Let_def m_def)
  qed (simp add: halves.simps)
qed

text \<open>The slots \<open>a\<close> to \<open>b - 1\<close> of the array, and the address with its person for a slot.\<close>

definition segment :: "'a list \<Rightarrow> nat \<Rightarrow> nat \<Rightarrow> 'a list" where
  "segment array a b = take (b - a) (drop a array)"

definition cell :: "heap \<Rightarrow> nat \<Rightarrow> nat \<times> person" where
  "cell h p = (p, person.truncate (the (h p)))"

definition same_persons :: "heap \<Rightarrow> heap \<Rightarrow> bool" where
  "same_persons h' h \<longleftrightarrow> (\<forall>q. map_option person.truncate (h' q) = map_option person.truncate (h q))"

lemma same_persons_trans: "same_persons h2 h1 \<Longrightarrow> same_persons h1 h \<Longrightarrow> same_persons h2 h"
  by (simp add: same_persons_def)

lemma same_persons_set:
  "h p = Some c \<Longrightarrow> same_persons (h(p \<mapsto> c\<lparr>left := l\<rparr>)) h"
  "h p = Some c \<Longrightarrow> same_persons (h(p \<mapsto> c\<lparr>right := l\<rparr>)) h"
  by (simp_all add: same_persons_def)

lemma same_persons_cell: "same_persons h' h \<Longrightarrow> h p \<noteq> None \<Longrightarrow> cell h' p = cell h p \<and> h' p \<noteq> None"
  by (auto simp: same_persons_def cell_def map_option_case dest!: spec[of _ p] split: option.splits)

lemma segment_split:
  assumes "a < b" "b \<le> length array" "m = (b - a - 1) div 2"
  shows "take m (segment array a b) = segment array a (a + m)" "segment array a b ! m = array ! (a + m)"
    "drop (Suc m) (segment array a b) = segment array (Suc (a + m)) b" "a + m < b"
    "segment array a b = segment array a (a + m) @ array ! (a + m) # segment array (Suc (a + m)) b"
proof -
  have m: "m < b - a" using assms by auto
  show 1: "take m (segment array a b) = segment array a (a + m)"
    using m by (simp add: segment_def min_def)
  show 2: "segment array a b ! m = array ! (a + m)" using m assms(2) by (simp add: segment_def)
  show 3: "drop (Suc m) (segment array a b) = segment array (Suc (a + m)) b"
    using m by (simp add: segment_def drop_take ac_simps)
  show "a + m < b" using m by simp
  have "m < length (segment array a b)" using m assms(2) by (simp add: segment_def)
  from id_take_nth_drop[OF this] show "segment array a b = segment array a (a + m) @ array ! (a + m) # segment array (Suc (a + m)) b"
    by (simp only: 1 2 3)
qed

lemma length_segment: "a \<le> b \<Longrightarrow> b \<le> length array \<Longrightarrow> length (segment array a b) = b - a"
  by (simp add: segment_def)

lemma buildBalanced_rep:
  assumes "a \<le> b" "b \<le> length array" "distinct (segment array a b)"
    and "\<forall>p \<in> set (segment array a b). p \<noteq> 0 \<and> h p \<noteq> None"
  shows "\<exists>r h'. buildBalanced h array (int a) (int b - 1) = Some (r, h') \<and>
    rep h' r (halves (map (cell h) (segment array a b))) \<and>
    (\<forall>q. q \<notin> set (segment array a b) \<longrightarrow> h' q = h q) \<and> same_persons h' h"
  using assms
proof (induction "b - a" arbitrary: a b h rule: less_induct)
  case less
  show ?case
  proof (cases "a < b")
    case False
    with less.prems(1) show ?thesis
      by (simp add: buildBalanced.simps segment_def halves.simps same_persons_def)
  next
    case True
    define m where "m = (b - a - 1) div 2"
    define node where "node = array ! (a + m)"
    define L where "L = segment array a (a + m)"
    define R where "R = segment array (Suc (a + m)) b"
    note seg = segment_split[OF True less.prems(2) m_def]
    have S: "segment array a b = L @ node # R" and ab: "a + m < b"
      using seg by (simp_all add: L_def R_def node_def)
    have mb: "m < b - a" using True by (auto simp: m_def)
    have Rb: "b - Suc (a + m) < b - a" using True by simp
    have dist: "distinct L" "distinct R" "node \<notin> set L" "node \<notin> set R" "set L \<inter> set R = {}"
      using less.prems(3) by (auto simp: S)
    have ok: "\<forall>p \<in> set L. p \<noteq> 0 \<and> h p \<noteq> None" "\<forall>p \<in> set R. p \<noteq> 0 \<and> h p \<noteq> None" "node \<noteq> 0"
      using less.prems(4) by (auto simp: S)
    from less.prems(4) obtain c where c: "h node = Some c" by (auto simp: S)
    obtain l h1 where l: "buildBalanced h array (int a) (int (a + m) - 1) = Some (l, h1)"
        "rep h1 l (halves (map (cell h) L))" "\<forall>q. q \<notin> set L \<longrightarrow> h1 q = h q" "same_persons h1 h"
      using less.hyps[of "a + m" a h] ab mb less.prems(1,2) dist(1) ok(1) by (auto simp: L_def)
    have h1n: "h1 node = Some c" using l(3) dist(3) c by simp
    define h1' where "h1' = h1(node \<mapsto> c\<lparr>left := l\<rparr>)"
    have sp1: "same_persons h1' h"
      using same_persons_trans[of h1' h1 h] same_persons_set(1)[of h1 node c l] h1n l(4) by (simp add: h1'_def)
    have okR: "\<forall>p \<in> set R. p \<noteq> 0 \<and> h1' p \<noteq> None" and cellR: "map (cell h1') R = map (cell h) R"
      using same_persons_cell[OF sp1] ok(2) by auto
    obtain r h2 where r: "buildBalanced h1' array (int (Suc (a + m))) (int b - 1) = Some (r, h2)"
        "rep h2 r (halves (map (cell h) R))" "\<forall>q. q \<notin> set R \<longrightarrow> h2 q = h1' q" "same_persons h2 h1'"
      using less.hyps[of b "Suc (a + m)" h1', folded R_def, unfolded cellR, OF Rb _ less.prems(2) dist(2) okR] ab
      by auto
    have h2n: "h2 node = Some (c\<lparr>left := l\<rparr>)" using r(3) dist(4) by (simp add: h1'_def)
    define h' where "h' = h2(node \<mapsto> (c\<lparr>left := l\<rparr>)\<lparr>right := r\<rparr>)"
    have addrs: "set (addrs (halves (map (cell h) X))) = set X" for X
      by (simp add: addrs_def inorder_halves cell_def image_image)
    have "rep h2 l (halves (map (cell h) L))"
      by (rule rep_frame[OF _ l(2)]) (use r(3) dist(3,5) in \<open>auto simp: h1'_def addrs\<close>)
    then have "rep h' node (Node (halves (map (cell h) L)) (cell h node) (halves (map (cell h) R)))"
      using rep_set_right[of h2 "c\<lparr>left := l\<rparr>", OF _ r(2) h2n ok(3)] dist(3,4)
      by (simp add: h'_def addrs cell_def c)
    moreover have "halves (map (cell h) (segment array a b)) =
        Node (halves (map (cell h) L)) (cell h node) (halves (map (cell h) R))"
    proof -
      have "length (segment array a b) = b - a" using length_segment[OF less.prems(1,2)] .
      then have "m = (length (map (cell h) (segment array a b)) - 1) div 2" by (simp only: m_def length_map)
      moreover have "length L = m" using length_segment[of a "a + m" array] ab less.prems(2) by (simp add: L_def)
      ultimately show ?thesis
        using halves_unfold[of "map (cell h) (segment array a b)" m]
        by (simp add: S nth_append)
    qed
    moreover have mid: "(int a + (int b - 1)) div 2 = int (a + m)"
      using True by (simp add: m_def)
    then have "buildBalanced h array (int a) (int b - 1) = Some (node, h')"
      using True less.prems(2) ab l(1) r(1) h1n h2n
      by (subst buildBalanced.simps)
         (simp add: h1'_def h'_def nat_int_add node_def[symmetric] Let_def add.commute)
    moreover have "same_persons h' h"
      using same_persons_trans[of h' h2 h1'] same_persons_trans[of h' h1' h]
        same_persons_set(2)[of h2 node "c\<lparr>left := l\<rparr>" r] h2n r(4) sp1 by (simp add: h'_def)
    moreover have "\<forall>q. q \<notin> set (segment array a b) \<longrightarrow> h' q = h q"
      using l(3) r(3) by (auto simp: S h'_def h1'_def)
    ultimately show ?thesis by auto
  qed
qed

section \<open>Deletion\<close>

text \<open>
  \<open>leftmost\<close> is the node \<open>findMin\<close> returns, with its right subtree. \<open>tdel\<close> is what the code does to
  the tree: a node with two children takes over the whole of that node, so that its left
  subtree becomes empty and its right subtree the one of that node.
\<close>

fun leftmost :: "ptree \<Rightarrow> (nat \<times> person) \<times> ptree" where
  "leftmost Leaf = undefined"
| "leftmost (Node l ad r) = (if l = Leaf then (ad, r) else leftmost l)"

lemma size_leftmost: "T \<noteq> Leaf \<Longrightarrow> size (snd (leftmost T)) < size T"
  by (induction T) auto

function tdel :: "string \<times> string \<Rightarrow> ptree \<Rightarrow> ptree" where
  "tdel k Leaf = Leaf"
| "tdel k (Node l ad r) =
     (if k < key (snd ad) then Node (tdel k l) ad r
      else if key (snd ad) < k then Node l ad (tdel k r)
      else if l = Leaf then r
      else if r = Leaf then l
      else (let (m, mr) = leftmost r in Node Leaf (fst ad, snd m) (tdel (key (snd m)) mr)))"
  by pat_completeness auto
termination
  by (relation "measure (\<lambda>(k, T). size T)") (auto dest!: size_leftmost[of "_ :: ptree"] sym[of _ "leftmost _"])

lemma set_leftmost: "T \<noteq> Leaf \<Longrightarrow> set (addrs (snd (leftmost T))) \<subseteq> set (addrs T) \<and> fst (fst (leftmost T)) \<in> set (addrs T)"
  by (induction T) auto

lemma distinct_leftmost: "T \<noteq> Leaf \<Longrightarrow> distinct (addrs T) \<Longrightarrow> distinct (addrs (snd (leftmost T)))"
  by (induction T) auto

lemma set_addrs_tdel: "set (addrs (tdel k T)) \<subseteq> set (addrs T)"
proof (induction k T rule: tdel.induct)
  case (2 k l ad r)
  then show ?case using set_leftmost[of r] by (auto split: prod.splits) blast+
qed simp

lemma distinct_addrs_tdel: "distinct (addrs T) \<Longrightarrow> distinct (addrs (tdel k T))"
proof (induction k T rule: tdel.induct)
  case (2 k l ad r)
  show ?case
  proof (cases "k = key (snd ad) \<and> l \<noteq> Leaf \<and> r \<noteq> Leaf")
    case True
    obtain m mr where m: "leftmost r = (m, mr)" by (cases "leftmost r")
    have "distinct (addrs mr)" "set (addrs mr) \<subseteq> set (addrs r)"
      using distinct_leftmost[of r] set_leftmost[of r] m True "2.prems" by auto
    then show ?thesis
      using True m "2.IH"(3)[OF _ _ _ _ m[symmetric] refl] "2.prems" set_addrs_tdel[of "key (snd m)" mr] by auto
  next
    case False
    then show ?thesis
      using "2.IH"(1,2) "2.prems" set_addrs_tdel[of k l] set_addrs_tdel[of k r] by auto
  qed
qed simp

lemma findMin_rep:
  assumes "rep h p T" "T \<noteq> Leaf"
  shows "\<exists>m. findMin h p = Some (fst (fst (leftmost T))) \<and> h (fst (fst (leftmost T))) = Some m \<and>
    left m = 0 \<and> person.truncate m = snd (fst (leftmost T)) \<and> rep h (right m) (snd (leftmost T))"
  using assms
proof (induction T arbitrary: p)
  case (Node l ad r)
  then obtain t where t: "h p = Some t" "p \<noteq> 0" "p = fst ad" "person.truncate t = snd ad"
      "rep h (left t) l" "rep h (right t) r" by auto
  show ?case
  proof (cases "l = Leaf")
    case True
    with t show ?thesis by (subst findMin.simps) simp
  next
    case False
    then have "left t \<noteq> 0" using t(5) rep_Leaf_iff by blast
    with False t Node.IH(1)[OF t(5)] show ?thesis by (subst findMin.simps) simp
  qed
qed simp

lemma deleteNode_rep:
  assumes "rep h p T" "distinct (addrs T)" "h node = Some c"
  shows "\<exists>p' h'. deleteNode h p node = Some (p', h') \<and> rep h' p' (tdel (key c) T) \<and>
    (\<forall>q. q \<notin> set (addrs T) \<longrightarrow> h' q = h q)"
  using assms
proof (induction "size T" arbitrary: T h p node c rule: less_induct)
  case less
  show ?case
  proof (cases T)
    case Leaf
    with less.prems show ?thesis by (subst deleteNode.simps) simp
  next
    case T: (Node l ad r)
    then obtain a d t where t: "ad = (a, d)" "p = a" "a \<noteq> 0" "h a = Some t" "person.truncate t = d"
        "rep h (left t) l" "rep h (right t) r"
      using less.prems(1) by (cases ad) auto
    have kd: "key d = key t" using t(5)[symmetric] by simp
    have dist: "distinct (addrs l)" "distinct (addrs r)" "a \<notin> set (addrs l)" "a \<notin> set (addrs r)"
      "set (addrs l) \<inter> set (addrs r) = {}"
      using less.prems(2) T t(1) by auto
    consider "key c < key t" | "key t < key c" | "key c = key t" by force
    then show ?thesis
    proof cases
      case 1
      obtain p' h' where IH: "deleteNode h (left t) node = Some (p', h')" "rep h' p' (tdel (key c) l)"
          "\<forall>q. q \<notin> set (addrs l) \<longrightarrow> h' q = h q"
        using less.hyps[OF _ t(6) dist(1) less.prems(3)] T by auto
      have "rep h' (right t) r" by (rule rep_frame[OF _ t(7)]) (use IH(3) dist(5) in blast)
      moreover have ha: "h' a = Some t" using IH(3) dist(3) t(4) by simp
      moreover have "a \<notin> set (addrs (tdel (key c) l))" using dist(3) set_addrs_tdel by blast
      ultimately have "rep (h'(a \<mapsto> t\<lparr>left := p'\<rparr>)) a (Node (tdel (key c) l) (a, d) r)"
        using rep_set_left[OF IH(2)] t(3,5) dist(4) by auto
      moreover have "deleteNode h p node = Some (a, h'(a \<mapsto> t\<lparr>left := p'\<rparr>))"
        using 1 t(2,3,4) IH(1) ha less.prems(3) by (subst deleteNode.simps) (simp add: compare_key)
      ultimately show ?thesis using IH(3) 1 T t(1) kd by auto
    next
      case 2
      obtain p' h' where IH: "deleteNode h (right t) node = Some (p', h')" "rep h' p' (tdel (key c) r)"
          "\<forall>q. q \<notin> set (addrs r) \<longrightarrow> h' q = h q"
        using less.hyps[OF _ t(7) dist(2) less.prems(3)] T by auto
      have "rep h' (left t) l" by (rule rep_frame[OF _ t(6)]) (use IH(3) dist(5) in blast)
      moreover have ha: "h' a = Some t" using IH(3) dist(4) t(4) by simp
      moreover have "a \<notin> set (addrs (tdel (key c) r))" using dist(4) set_addrs_tdel by blast
      ultimately have "rep (h'(a \<mapsto> t\<lparr>right := p'\<rparr>)) a (Node l (a, d) (tdel (key c) r))"
        using rep_set_right[OF _ IH(2)] t(3,5) dist(3) by auto
      moreover have "deleteNode h p node = Some (a, h'(a \<mapsto> t\<lparr>right := p'\<rparr>))"
        using 2 t(2,3,4) IH(1) ha less.prems(3)
        by (subst deleteNode.simps) (simp add: compare_key Let_def order_less_not_sym)
      ultimately show ?thesis using IH(3) 2 T t(1) kd by (auto simp: not_less_iff_gr_or_eq)
    next
      case 3
      then have cmp: "\<not> compare c t < 0" "\<not> 0 < compare c t" by (simp_all only: compare_key order.irrefl simp_thms)
      have nl: "left t = 0 \<longleftrightarrow> l = Leaf" "right t = 0 \<longleftrightarrow> r = Leaf" using t(6,7) rep_Leaf_iff by blast+
      show ?thesis
      proof (cases "l = Leaf \<or> r = Leaf")
        case True
        define h' where "h' = h(a := None)"
        have "rep h' (left t) l" "rep h' (right t) r"
          by (rule rep_frame[OF _ t(6)], use dist(3) in \<open>auto simp: h'_def\<close>)
             (rule rep_frame[OF _ t(7)], use dist(4) in \<open>auto simp: h'_def\<close>)
        moreover have "deleteNode h p node = Some (if l = Leaf then right t else left t, h')"
          using cmp nl True t(2,3,4) less.prems(3) by (subst deleteNode.simps) (auto simp: Let_def h'_def)
        ultimately show ?thesis using True T t(1) kd 3 by (auto simp: h'_def)
      next
        case False
        obtain ma md mr where m: "leftmost r = ((ma, md), mr)" by (metis surj_pair)
        obtain mc where mc: "findMin h (right t) = Some ma" "h ma = Some mc" "left mc = 0"
            "person.truncate mc = md" "rep h (right mc) mr"
          using findMin_rep[OF t(7)] False m by auto
        have mr: "size mr < size r" "distinct (addrs mr)" "set (addrs mr) \<subseteq> set (addrs r)" "ma \<in> set (addrs r)"
          using size_leftmost[of r] distinct_leftmost[of r] set_leftmost[of r] m False dist(2) by auto
        have ma: "ma \<noteq> a" "a \<notin> set (addrs mr)" using mr(3,4) dist(4) by auto
        define h1 where "h1 = h(a \<mapsto> mc)"
        have "rep h1 (right mc) mr" by (rule rep_frame[OF _ mc(5)]) (use ma(2) in \<open>auto simp: h1_def\<close>)
        moreover have "h1 ma = Some mc" using ma(1) mc(2) by (simp add: h1_def)
        ultimately obtain p' h' where IH: "deleteNode h1 (right mc) ma = Some (p', h')"
            "rep h' p' (tdel (key mc) mr)" "\<forall>q. q \<notin> set (addrs mr) \<longrightarrow> h' q = h1 q"
          using less.hyps[of mr h1 "right mc" ma mc] mr(1,2) T by auto
        have ha: "h' a = Some mc" using IH(3) ma(2) by (simp add: h1_def)
        have "a \<notin> set (addrs (tdel (key mc) mr))" using ma(2) set_addrs_tdel by blast
        then have "rep (h'(a \<mapsto> mc\<lparr>right := p'\<rparr>)) a (Node Leaf (a, md) (tdel (key mc) mr))"
          using rep_set_right[of h' mc Leaf p', OF _ IH(2) ha t(3)] mc(3,4) by simp
        moreover have "deleteNode h p node = Some (a, h'(a \<mapsto> mc\<lparr>right := p'\<rparr>))"
          using cmp nl False t(2,3,4) less.prems(3) mc(1,2) IH(1) ha
          by (subst deleteNode.simps) (simp add: Let_def h1_def)
        moreover have "tdel (key c) T = Node Leaf (a, md) (tdel (key mc) mr)"
          using T t(1) kd 3 False m mc(4) by auto
        moreover have "\<forall>q. q \<notin> set (addrs T) \<longrightarrow> (h'(a \<mapsto> mc\<lparr>right := p'\<rparr>)) q = h q"
          using IH(3) mr(3) T t(1) by (auto simp: h1_def)
        ultimately show ?thesis by auto
      qed
    qed
  qed
qed

end
