(* ===== verification/Contacts_Props.thy ===== *)
theory Contacts_Props
  imports Contacts_Tree "HOL-Library.Multiset"
begin

text \<open>
  The properties of the phone book. \<open>book_ok b T\<close> ties the state to the tree its pointers form; each
  menu operation keeps it, and what the operation does is stated on the list of persons in order.
\<close>

section \<open>The invariant\<close>

definition book_ok :: "book \<Rightarrow> ptree \<Rightarrow> bool" where
  "book_ok b T \<longleftrightarrow> rep (nodes b) (root b) T \<and> distinct (addrs T) \<and>
     distinct (filter (\<lambda>p. p \<noteq> 0) (mallocs b)) \<and> set (mallocs b) \<inter> set (addrs T) = {}"

lemma book_ok_frame [simp]:
  "book_ok (b\<lparr>stdin := i\<rparr>) T = book_ok b T" "book_ok (print s b) T = book_ok b T"
  "book_ok (b\<lparr>operationCount := n\<rparr>) T = book_ok b T" "book_ok (b\<lparr>printed := o'\<rparr>) T = book_ok b T"
  by (simp_all add: book_ok_def print_def)

lemma print_frame [simp]:
  "stdin (print s b) = stdin b" "mallocs (print s b) = mallocs b" "nodes (print s b) = nodes b"
  "root (print s b) = root b" "operationCount (print s b) = operationCount b"
  by (simp_all add: print_def)

lemma book_ok_malloc: "book_ok b T \<Longrightarrow> malloc b = (p, b') \<Longrightarrow> book_ok b' T \<and> (p = 0 \<or> p \<notin> set (addrs T) \<union> set (mallocs b'))"
  by (auto simp: book_ok_def malloc_def split: list.splits if_splits)

lemma malloc_frame: "malloc b = (p, b') \<Longrightarrow> b' = b\<lparr>mallocs := mallocs b'\<rparr>"
  by (auto simp: malloc_def split: list.splits)

lemma book_ok_heap:
  assumes "book_ok b T" "rep h r T'" "distinct (addrs T')" "set (addrs T') \<subseteq> set (addrs T)"
  shows "book_ok (b\<lparr>nodes := h, root := r\<rparr>) T'"
  using assms by (auto simp: book_ok_def)

section \<open>Balancing\<close>

lemma truncate_cells: "rep h p T \<Longrightarrow> map (cell h) (addrs T) = inorder T"
  by (induction T arbitrary: p) (auto simp: cell_def)

lemma persons_halves: "persons (halves (inorder T)) = persons T" "addrs (halves (inorder T)) = addrs T"
  by (simp_all add: persons_def addrs_def inorder_halves)

lemma balanceTree_cases:
  assumes "book_ok b T"
  shows "balanceTree b = Some b \<and> size T < 2 \<or>
    balanceTree b = Some (snd (malloc b)) \<and> fst (malloc b) = 0 \<or>
    (\<exists>h r. balanceTree b = Some ((snd (malloc b))\<lparr>nodes := h, root := r\<rparr>) \<and> rep h r (halves (inorder T)) \<and>
      same_persons h (nodes b))"
proof -
  have T: "rep (nodes b) (root b) T" "distinct (addrs T)" using assms by (simp_all add: book_ok_def)
  obtain r h where "buildBalanced (nodes b) (addrs T) 0 (int (size T) - 1) = Some (r, h)"
      "rep h r (halves (inorder T))" "same_persons h (nodes b)"
    using buildBalanced_rep[of 0 "size T" "addrs T" "nodes b"] T rep_dom[OF T(1)] truncate_cells[OF T(1)]
    by (auto simp: segment_def)
  with countNodes_rep[OF T(1)] storeInOrder_all[OF T(1)] show ?thesis
    by (cases "malloc b") (auto simp: balanceTree_def Let_def)
qed

lemma height_less_size: "height T \<le> size (T :: ptree)"
  by (induction T) auto

lemma balanceTree_ok:
  assumes "book_ok b T"
  shows "\<exists>b' T'. balanceTree b = Some b' \<and> book_ok b' T' \<and> persons T' = persons T \<and>
    (mallocs b \<noteq> [] \<and> hd (mallocs b) \<noteq> 0 \<longrightarrow> (\<forall>k. size T < 2 ^ k \<longrightarrow> height T' \<le> k)) \<and>
    stdin b' = stdin b \<and> printed b' = printed b \<and> operationCount b' = operationCount b"
proof -
  obtain p b1 where m: "malloc b = (p, b1)" by (cases "malloc b")
  note b1 = malloc_frame[OF m] book_ok_malloc[OF assms m]
  from balanceTree_cases[OF assms] consider
      "balanceTree b = Some b" "size T < 2" | "balanceTree b = Some b1" "p = 0"
    | h r where "balanceTree b = Some (b1\<lparr>nodes := h, root := r\<rparr>)" "rep h r (halves (inorder T))"
    by (auto simp: m)
  then show ?thesis
  proof cases
    case 1
    have "height T \<le> k" if "size T < 2 ^ k" for k
      using 1(2) that height_less_size[of T] by (cases k) auto
    with 1(1) assms show ?thesis by auto
  next
    case 2
    have "stdin b1 = stdin b" "printed b1 = printed b" "operationCount b1 = operationCount b"
      by (subst b1(1), simp)+
    moreover have "\<not> (mallocs b \<noteq> [] \<and> hd (mallocs b) \<noteq> 0)" using m 2(2) by (auto simp: malloc_def split: list.splits)
    ultimately show ?thesis using 2(1) b1(2) by auto
  next
    case 3
    have "stdin b1 = stdin b" "printed b1 = printed b" "operationCount b1 = operationCount b"
      by (subst b1(1), simp)+
    moreover have "book_ok (b1\<lparr>nodes := h, root := r\<rparr>) (halves (inorder T))"
      using b1(2) assms by (intro book_ok_heap[OF _ 3(2)]) (auto simp: persons_halves book_ok_def)
    moreover have "\<forall>k. size T < 2 ^ k \<longrightarrow> height (halves (inorder T)) \<le> k"
      by (simp add: height_halves)
    ultimately show ?thesis
      using 3(1) by (intro exI[of _ "b1\<lparr>nodes := h, root := r\<rparr>"] exI[of _ "halves (inorder T)"])
        (simp add: persons_halves)
  qed
qed

text \<open>
  C4. Rebalancing a well-formed book never fails: the listing stays the same, person by person, and
  unless \<open>malloc\<close> failed the tree gets the least height its size allows.
\<close>

theorem balanceTree_balances:
  assumes "book_ok b T"
  shows "\<exists>b' T'. balanceTree b = Some b' \<and> book_ok b' T' \<and> persons T' = persons T \<and>
    (mallocs b \<noteq> [] \<and> hd (mallocs b) \<noteq> 0 \<longrightarrow> (\<forall>k. size T < 2 ^ k \<longrightarrow> height T' \<le> k)) \<and>
    stdin b' = stdin b \<and> printed b' = printed b \<and> operationCount b' = operationCount b"
  using assms by (rule balanceTree_ok)

lemma balance_mallocs:
  assumes "balanceTree b = Some b'"
  shows "length (mallocs b) \<le> Suc (length (mallocs b'))" "set (mallocs b') \<subseteq> set (mallocs b)"
  using assms
  by (auto simp: balanceTree_def bind_eq_Some_conv malloc_def Let_def split: prod.splits if_splits list.splits)

lemma count_operation_ok:
  assumes "book_ok b T"
  shows "\<exists>b' T'. count_operation b = Some b' \<and> book_ok b' T' \<and> persons T' = persons T \<and> stdin b' = stdin b \<and>
    length (mallocs b) \<le> Suc (length (mallocs b')) \<and> set (mallocs b') \<subseteq> set (mallocs b)"
proof (cases "operationCount b \<ge> 9")
  case True
  let ?b = "b\<lparr>operationCount := Suc (operationCount b)\<rparr>"
  obtain b' T' where b': "balanceTree ?b = Some b'" "book_ok b' T'" "persons T' = persons T" "stdin b' = stdin b"
    using balanceTree_ok[of ?b T] assms by auto
  with True balance_mallocs[OF b'(1)] show ?thesis
    by (intro exI[of _ "print ([NL] @ ''Tree balanced.'' @ [NL]) (b'\<lparr>operationCount := 0\<rparr>)"] exI[of _ T'])
       (simp add: count_operation_def)
next
  case False
  then show ?thesis using assms by (intro exI[of _ "b\<lparr>operationCount := Suc (operationCount b)\<rparr>"] exI[of _ T])
    (simp add: count_operation_def)
qed

section \<open>Adding\<close>

lemma removeN_chomp: "removeN s = chomp s"
  by (induction s) (auto simp: chomp_eq_takeWhile)

definition field_ok :: "nat \<Rightarrow> string \<Rightarrow> bool" where
  "field_ok n s \<longleftrightarrow> NL \<notin> set s \<and> NUL \<notin> set s \<and> Suc (length s) < n"

definition person_ok :: "person \<Rightarrow> bool" where
  "person_ok d \<longleftrightarrow> lastname d \<noteq> [] \<and> name d \<noteq> [] \<and>
     field_ok MAX_NAME (lastname d) \<and> field_ok MAX_NAME (name d) \<and> field_ok MAX_NAME (patronymic d) \<and>
     field_ok MAX_WORK (workplace d) \<and> field_ok MAX_WORK (position d) \<and> field_ok MAX_PHONE (phone d) \<and>
     field_ok MAX_EMAIL (email d) \<and> field_ok MAX_SOCIAL (social d) \<and> field_ok MAX_SOCIAL (messenger d)"

text \<open>The nine lines a user types for a person.\<close>

definition typed :: "person \<Rightarrow> string \<Rightarrow> string" where
  "typed d rest = lastname d @ NL # name d @ NL # patronymic d @ NL # workplace d @ NL # position d @ NL #
     phone d @ NL # email d @ NL # social d @ NL # messenger d @ NL # rest"

lemma read_field_line: "field_ok n s \<Longrightarrow> read_field n old (s @ NL # r) = Some (s, r)"
  by (simp add: read_field_def field_ok_def fgets_line removeN_chomp)

lemma read_required_line: "field_ok n s \<Longrightarrow> s \<noteq> [] \<Longrightarrow> read_required n old (s @ NL # r) = Some (s, r)"
  by (subst read_required.simps) (simp add: read_field_line)

lemma book_ok_add:
  assumes "book_ok b T" "malloc b = (p, b0)" "p \<noteq> 0" "left c = 0" "right c = 0"
  shows "\<exists>r h. tree_insert ((nodes b0)(p \<mapsto> c)) (root b0) p = Some (r, h) \<and>
    book_ok (b0\<lparr>nodes := h, root := r, stdin := i\<rparr>) (tins (p, person.truncate c) T)"
proof -
  have b0: "book_ok b0 T" "p \<notin> set (addrs T)" "p \<notin> set (mallocs b0)"
    using book_ok_malloc[OF assms(1,2)] assms(3) by auto
  have "rep ((nodes b0)(p \<mapsto> c)) (root b0) T"
    by (rule rep_frame[of T _ "nodes b0"]) (use b0 in \<open>auto simp: book_ok_def\<close>)
  moreover have "distinct (addrs T)" using b0(1) by (simp add: book_ok_def)
  ultimately obtain r h where "tree_insert ((nodes b0)(p \<mapsto> c)) (root b0) p = Some (r, h)"
      "rep h r (tins (p, person.truncate c) T)"
    using tree_insert_rep[of "(nodes b0)(p \<mapsto> c)" "root b0" T p c] b0(2) assms(3-5) by auto
  moreover have "distinct (addrs (tins (p, person.truncate c) T))"
    using b0 by (intro distinct_addrs_tins) (auto simp: book_ok_def)
  ultimately show ?thesis using b0 by (auto simp: book_ok_def set_addrs_tins)
qed

lemma addContact_ok:
  assumes "book_ok b T" "sorted_book (persons T)" "person_ok d" "stdin b = typed d rest"
    and "mallocs b = p # ps" "p \<noteq> 0"
  shows "\<exists>b' T'. addContact b = Some b' \<and> book_ok b' T' \<and> persons T' = insert_sorted d (persons T) \<and>
    stdin b' = rest \<and> length ps \<le> Suc (length (mallocs b')) \<and> set (mallocs b') \<subseteq> set ps"
proof -
  obtain b0 where m: "malloc b = (p, b0)" "b0 = b\<lparr>mallocs := ps\<rparr>" using assms(5) by (simp add: malloc_def)
  define c where "c = \<lparr>lastname = lastname d, name = name d, patronymic = patronymic d, workplace = workplace d,
    position = position d, phone = phone d, email = email d, social = social d, messenger = messenger d,
    left = 0, right = 0\<rparr>"
  have c: "left c = 0" "right c = 0" "person.truncate c = d" by (simp_all add: c_def person.defs)
  obtain r h where ins: "tree_insert ((nodes b0)(p \<mapsto> c)) (root b0) p = Some (r, h)"
      "book_ok (b0\<lparr>nodes := h, root := r, stdin := rest\<rparr>) (tins (p, d) T)"
    using book_ok_add[OF assms(1) m(1) assms(6) c(1,2)] c(3) by blast
  obtain b1 T1 where b1: "count_operation (b0\<lparr>nodes := h, root := r, stdin := rest\<rparr>) = Some b1" "book_ok b1 T1"
      "persons T1 = persons (tins (p, d) T)" "stdin b1 = rest"
      "length ps \<le> Suc (length (mallocs b1))" "set (mallocs b1) \<subseteq> set ps"
    using count_operation_ok[OF ins(2)] m(2) by auto
  have "stdin b0 = typed d rest" using m(2) assms(4) by simp
  then have "addContact b = Some (print ([NL] @ ''Contact added.'' @ [NL]) b1)"
    using assms(3,6) ins(1) b1(1)
    by (simp add: addContact_def m(1) person_ok_def typed_def read_required_line read_field_line c_def)
  with b1 persons_tins[OF assms(2)] show ?thesis by auto
qed

text \<open>
  C5. Adding a contact. Nine typed lines that fit their fields (the two names not empty) give, on any
  well-formed ordered book and whenever \<open>malloc\<close> succeeds, the same listing with the new person put
  behind those with an equal or smaller name, still ordered; the lines are consumed.
\<close>

theorem addContact_stores:
  assumes "book_ok b T" "sorted_book (persons T)" "person_ok d" "stdin b = typed d rest"
    and "mallocs b = p # ps" "p \<noteq> 0"
  shows "\<exists>b' T'. addContact b = Some b' \<and> book_ok b' T' \<and> persons T' = insert_sorted d (persons T) \<and>
    sorted_book (persons T') \<and> stdin b' = rest"
  using addContact_ok[OF assms] sorted_insert_sorted[OF assms(2)] by metis

section \<open>Editing\<close>

lemma rep_edit:
  assumes "rep h p T" "distinct (addrs T)" "i < size T" "h (addrs T ! i) = Some c"
    and "left c' = left c" "right c' = right c"
  shows "\<exists>T'. rep (h(addrs T ! i \<mapsto> c')) p T' \<and> addrs T' = addrs T \<and>
    persons T' = (persons T)[i := person.truncate c']"
  using assms(1-4)
proof (induction T arbitrary: p i)
  case (Node l ad r)
  then obtain a d t where t: "ad = (a, d)" "p = a" "a \<noteq> 0" "h a = Some t" "person.truncate t = d"
      "rep h (left t) l" "rep h (right t) r"
    by (cases ad) auto
  let ?q = "addrs (Node l ad r) ! i"
  have dist: "distinct (addrs l)" "distinct (addrs r)" "a \<notin> set (addrs l)" "a \<notin> set (addrs r)"
    "set (addrs l) \<inter> set (addrs r) = {}"
    using Node.prems(2) t(1) by auto
  consider "i < size l" | "i = size l" | k where "i = Suc (size l + k)" "k < size r"
    using Node.prems(3) that(3)[of "i - Suc (size l)"] by (cases i "size l" rule: linorder_cases) auto
  then show ?case
  proof cases
    case 1
    then have q: "?q = addrs l ! i" by (simp add: nth_append)
    then have ql: "?q \<in> set (addrs l)" using 1 by simp
    obtain T' where T': "rep (h(?q \<mapsto> c')) (left t) T'" "addrs T' = addrs l"
        "persons T' = (persons l)[i := person.truncate c']"
      using Node.IH(1)[OF t(6) dist(1) 1 Node.prems(4)[unfolded q]] unfolding q by blast
    have "rep (h(?q \<mapsto> c')) (right t) r" by (rule rep_frame[OF _ t(7)]) (use ql dist(5) in auto)
    moreover have "?q \<noteq> a" using ql dist(3) by auto
    ultimately show ?thesis
      using T' t 1 by (intro exI[of _ "Node T' ad r"]) (simp add: list_update_append fun_upd_other del: fun_upd_apply)
  next
    case 2
    then have q: "?q = a" using t(1) by (simp add: nth_append)
    have "rep (h(a \<mapsto> c')) (left t) l" "rep (h(a \<mapsto> c')) (right t) r"
      by (rule rep_frame[OF _ t(6)], use dist(3) in auto) (rule rep_frame[OF _ t(7)], use dist(4) in auto)
    then show ?thesis
      using q t 2 Node.prems(4) assms(5,6)
      by (intro exI[of _ "Node l (a, person.truncate c') r"])
         (simp add: list_update_append fun_upd_same del: fun_upd_apply)
  next
    case 3
    then have q: "?q = addrs r ! k" by (simp add: nth_append)
    then have qr: "?q \<in> set (addrs r)" using 3 by simp
    obtain T' where T': "rep (h(?q \<mapsto> c')) (right t) T'" "addrs T' = addrs r"
        "persons T' = (persons r)[k := person.truncate c']"
      using Node.IH(2)[OF t(7) dist(2) 3(2) Node.prems(4)[unfolded q]] unfolding q by blast
    have "rep (h(?q \<mapsto> c')) (left t) l" by (rule rep_frame[OF _ t(6)]) (use qr dist(5) in auto)
    moreover have "?q \<noteq> a" using qr dist(4) by auto
    ultimately show ?thesis
      using T' t 3 by (intro exI[of _ "Node l ad T'"]) (simp add: list_update_append fun_upd_other del: fun_upd_apply)
  qed
qed simp

lemma book_ok_edit:
  assumes "book_ok b T" "i < size T" "nodes b (addrs T ! i) = Some c" "left c' = left c" "right c' = right c"
  shows "\<exists>T'. book_ok (b\<lparr>nodes := (nodes b)(addrs T ! i \<mapsto> c'), stdin := inp\<rparr>) T' \<and>
    addrs T' = addrs T \<and> persons T' = (persons T)[i := person.truncate c']"
proof -
  have "rep (nodes b) (root b) T" "distinct (addrs T)" using assms(1) by (simp_all add: book_ok_def)
  from rep_edit[OF this assms(2-5)] obtain T' where "rep ((nodes b)(addrs T ! i \<mapsto> c')) (root b) T'"
    "addrs T' = addrs T" "persons T' = (persons T)[i := person.truncate c']" by blast
  then show ?thesis using assms(1) by (intro exI[of _ T']) (simp add: book_ok_def)
qed

lemma edit_field_pointers:
  "edit_field ch c inp = Some (c', inp') \<Longrightarrow> left c' = left c \<and> right c' = right c"
  by (auto simp: edit_field_def split: if_splits)

lemmas edit_menu_induct = edit_menu.raw_induct[rotated, consumes 1, case_names step]

lemma edit_menu_ok:
  "edit_menu p input choice b = Some b' \<Longrightarrow> book_ok b T \<Longrightarrow> p \<in> set (addrs T) \<Longrightarrow>
   \<exists>T'. book_ok b' T' \<and> addrs T' = addrs T"
proof (induction arbitrary: T rule: edit_menu_induct)
  case (step em p input choice b b')
  obtain input' choice' inp ch c c' inp' where st:
      "read_choice input choice (stdin b) = Some (input', choice', inp)" "choice' = Some ch"
      "nodes b p = Some c" "edit_field ch c inp = Some (c', inp')"
    and rest: "(if ch = 0 then Some (print (''Contact updated.'' @ [NL]) (b\<lparr>nodes := (nodes b)(p \<mapsto> c'), stdin := inp'\<rparr>))
       else em p input' choice' (if 1 \<le> ch \<and> ch \<le> 9 then b\<lparr>nodes := (nodes b)(p \<mapsto> c'), stdin := inp'\<rparr>
         else print (''Invalid choice.'' @ [NL]) (b\<lparr>nodes := (nodes b)(p \<mapsto> c'), stdin := inp'\<rparr>))) = Some b'"
    using step(2) by (auto simp: bind_eq_Some_conv Let_def)
  obtain i where i: "i < size T" "p = addrs T ! i" using step(4) by (auto simp: in_set_conv_nth)
  obtain T1 where T1: "book_ok (b\<lparr>nodes := (nodes b)(p \<mapsto> c'), stdin := inp'\<rparr>) T1" "addrs T1 = addrs T"
    using book_ok_edit[of b T i c c' inp'] step(3) i st(3) edit_field_pointers[OF st(4)] by auto
  show ?case
  proof (cases "ch = 0")
    case True
    with rest T1 show ?thesis by auto
  next
    case False
    with rest step(1)[of p input' choice' "if 1 \<le> ch \<and> ch \<le> 9 then b\<lparr>nodes := (nodes b)(p \<mapsto> c'), stdin := inp'\<rparr>
         else print (''Invalid choice.'' @ [NL]) (b\<lparr>nodes := (nodes b)(p \<mapsto> c'), stdin := inp'\<rparr>)" b' T1] T1 step(4)
    show ?thesis by auto
  qed
qed

lemma select_contact_ok:
  assumes "select_contact b = Some (sel, input, choice, b1)" "book_ok b T"
  shows "book_ok b1 T" "\<And>p. sel = Some p \<Longrightarrow> p \<in> set (addrs T)"
proof -
  have T: "rep (nodes b) (root b) T" using assms(2) by (simp add: book_ok_def)
  obtain ap b0 where m: "malloc b = (ap, b0)" by (cases "malloc b")
  have b0: "book_ok b0 T" "nodes b0 = nodes b" "root b0 = root b"
    using book_ok_malloc[OF assms(2) m] by (simp, subst malloc_frame[OF m], simp, subst malloc_frame[OF m], simp)
  show "book_ok b1 T" "\<And>p. sel = Some p \<Longrightarrow> p \<in> set (addrs T)"
    using assms(1) b0 countNodes_rep[OF T] storeInOrder_all[OF T]
    by (auto simp: select_contact_def m bind_eq_Some_conv Let_def array_simps split: if_splits)
qed

lemma edit_ok: "editContact b = Some b' \<Longrightarrow> book_ok b T \<Longrightarrow> \<exists>T'. book_ok b' T'"
  using select_contact_ok edit_menu_ok
  by (fastforce simp: editContact_def bind_eq_Some_conv split: if_splits option.splits)

section \<open>Deleting\<close>

text \<open>The node the search for a key ends at.\<close>

fun find_node :: "string \<times> string \<Rightarrow> ptree \<Rightarrow> (ptree \<times> (nat \<times> person) \<times> ptree) option" where
  "find_node k Leaf = None"
| "find_node k (Node l ad r) =
     (if k < key (snd ad) then find_node k l
      else if key (snd ad) < k then find_node k r
      else Some (l, ad, r))"

lemma find_node_around:
  "find_node k T = Some (l, ad, r) \<Longrightarrow> tdel k (Node l ad r) = D \<Longrightarrow>
   \<exists>pre post. persons T = pre @ persons l @ snd ad # persons r @ post \<and>
     persons (tdel k T) = pre @ persons D @ post \<and> key (snd ad) = k"
proof (induction T)
  case (Node l' ad' r')
  consider "k < key (snd ad')" | "\<not> k < key (snd ad')" "key (snd ad') < k" | "k = key (snd ad')" by force
  then show ?case
  proof cases
    case 1
    then have "tdel k (Node l' ad' r') = Node (tdel k l') ad' r'" "find_node k l' = Some (l, ad, r)"
      using Node.prems(1) by simp_all
    moreover from Node.IH(1)[OF this(2) Node.prems(2)] obtain pre post where
      "persons l' = pre @ persons l @ snd ad # persons r @ post"
      "persons (tdel k l') = pre @ persons D @ post" "key (snd ad) = k" by blast
    ultimately show ?thesis by (intro exI[of _ pre] exI[of _ "post @ snd ad' # persons r'"]) simp
  next
    case 2
    then have "tdel k (Node l' ad' r') = Node l' ad' (tdel k r')" "find_node k r' = Some (l, ad, r)"
      using Node.prems(1) by simp_all
    moreover from Node.IH(2)[OF this(2) Node.prems(2)] obtain pre post where
      "persons r' = pre @ persons l @ snd ad # persons r @ post"
      "persons (tdel k r') = pre @ persons D @ post" "key (snd ad) = k" by blast
    ultimately show ?thesis by (intro exI[of _ "persons l' @ snd ad' # pre"] exI[of _ post]) simp
  next
    case 3
    then have "l' = l" "ad' = ad" "r' = r" "key (snd ad) = k" using Node.prems(1) by simp_all
    with Node.prems(2) show ?thesis by (intro exI[of _ "[]"]) (simp del: tdel.simps)
  qed
qed simp

lemmas find_node_persons = find_node_around[OF _ refl]

lemma tdel_absent: "k \<notin> key ` set (persons T) \<Longrightarrow> tdel k T = T"
  by (induction T) (auto simp: not_less_iff_gr_or_eq)

lemma find_node_finds:
  "sorted_book (persons T) \<Longrightarrow> k \<in> key ` set (persons T) \<Longrightarrow> find_node k T \<noteq> None"
proof (induction T)
  case (Node l ad r)
  have "sorted_book (persons l)" "sorted_book (persons r)"
    and le: "\<forall>e \<in> set (persons l). key e \<le> key (snd ad)" "\<forall>e \<in> set (persons r). key (snd ad) \<le> key e"
    using Node.prems(1) by (auto simp: sorted_book_def sorted_append)
  with Node show ?case by (auto dest: leD)
qed simp

lemma persons_leftmost:
  "T \<noteq> Leaf \<Longrightarrow> \<exists>post. persons T = snd (fst (leftmost T)) # persons (snd (leftmost T)) @ post"
proof (induction T)
  case (Node l ad r)
  show ?case
  proof (cases "l = Leaf")
    case False
    with Node.IH(1) obtain post where "persons l = snd (fst (leftmost l)) # persons (snd (leftmost l)) @ post" by blast
    with False show ?thesis by (intro exI[of _ "post @ snd ad # persons r"]) simp
  qed (auto intro: exI[of _ "[]"])
qed simp

lemma tdel_one_child:
  assumes "find_node k T = Some (l, ad, r)" "l = Leaf \<or> r = Leaf" "distinct (map key (persons T))"
  shows "persons (tdel k T) = remove1 (snd ad) (persons T)"
proof -
  obtain pre post where p: "persons T = pre @ persons l @ snd ad # persons r @ post"
    "persons (tdel k T) = pre @ persons (tdel k (Node l ad r)) @ post" "key (snd ad) = k"
    using find_node_persons[OF assms(1)] by blast
  have "snd ad \<notin> set pre" "snd ad \<notin> set (persons l)" using assms(3) unfolding p(1) by auto
  moreover have "persons (tdel k (Node l ad r)) = persons l @ persons r" using assms(2) p(3) by auto
  ultimately show ?thesis unfolding p(1,2) by (simp add: remove1_append)
qed

lemma tdel_two_children:
  assumes "find_node k T = Some (l, ad, r)" "l \<noteq> Leaf" "r \<noteq> Leaf" "distinct (map key (persons T))"
  shows "set (persons (tdel k T)) \<inter> set (persons l) = {}" "length (persons (tdel k T)) + size l < length (persons T)"
proof -
  obtain pre post where p: "persons T = pre @ persons l @ snd ad # persons r @ post"
    "persons (tdel k T) = pre @ persons (tdel k (Node l ad r)) @ post" "key (snd ad) = k"
    using find_node_persons[OF assms(1)] by blast
  obtain m mr where m: "leftmost r = (m, mr)" by (cases "leftmost r")
  obtain post' where r: "persons r = snd m # persons mr @ post'" using persons_leftmost[OF assms(3)] m by auto
  have "key (snd m) \<notin> key ` set (persons mr)" using assms(4) unfolding p(1) r by auto
  then have "persons (tdel k (Node l ad r)) = snd m # persons mr"
    using assms(2,3) p(3) m tdel_absent[of "key (snd m)" mr] by simp
  moreover have "distinct (persons T)" using assms(4) by (simp add: distinct_map)
  ultimately show "set (persons (tdel k T)) \<inter> set (persons l) = {}"
    "length (persons (tdel k T)) + size l < length (persons T)"
    using length_addrs(2)[of l] unfolding p(1,2) r by auto
qed

lemma those_all: "(\<And>x. x \<in> set xs \<Longrightarrow> f x \<noteq> None) \<Longrightarrow> those (map f xs) = Some (map (the \<circ> f) xs)"
  by (induction xs) (auto split: option.splits)

lemma list_contacts_ok: "rep h p T \<Longrightarrow> list_contacts h (addrs T) \<noteq> None"
proof -
  assume "rep h p T"
  then have "\<And>x. x \<in> set (enumerate 0 (addrs T)) \<Longrightarrow> h (snd x) \<noteq> None"
    using rep_dom[of h p T] by (auto simp: in_set_enumerate_eq)
  then show ?thesis unfolding list_contacts_def by (subst those_all) (auto split: prod.splits)
qed

text \<open>A number typed at the \<open>Select contact\<close> prompt.\<close>

lemma read_choice_line:
  assumes "length (show_nat n) < 9" "n < 2 ^ 31"
  shows "\<exists>l. read_choice input choice (show_nat n @ NL # rest) = Some (Some l, Some (int n), rest)"
proof -
  have digits: "show_nat n = show_int (int n)" by (simp add: show_int_def)
  have "NL \<notin> set (show_nat n)" "NUL \<notin> set (show_nat n)" using show_nat_digits not_isdigit_sign by blast+
  then have "fgets 10 (show_nat n @ NL # rest) = Some (show_nat n @ [NL], rest)"
    using assms(1) by (intro fgets_line) simp_all
  moreover have "sscanf_d (show_nat n @ [NL]) = Some (int n)"
    using assms(2) unfolding digits by (intro sscanf_d_show_int) simp_all
  ultimately show ?thesis by (simp add: read_choice_def)
qed

lemma select_contact_line:
  assumes "book_ok b T" "mallocs b = q # ps" "q \<noteq> 0" "i < size T" "length (show_nat (Suc i)) < 9" "Suc i < 2 ^ 31"
    and "stdin b = show_nat (Suc i) @ NL # rest"
  shows "\<exists>l out. select_contact b = Some (Some (addrs T ! i), Some l, Some (int (Suc i)),
    b\<lparr>mallocs := ps, stdin := rest, printed := printed b @ out\<rparr>)"
proof -
  have T: "rep (nodes b) (root b) T" using assms(1) by (simp add: book_ok_def)
  obtain out where "list_contacts (nodes b) (addrs T) = Some out" using list_contacts_ok[OF T] by auto
  moreover obtain l where "read_choice None None (stdin b) = Some (Some l, Some (int (Suc i)), rest)"
    using read_choice_line[OF assms(5,6)] assms(7) by metis
  ultimately show ?thesis
    using assms(2-4) countNodes_rep[OF T] storeInOrder_all[OF T]
    by (intro exI[of _ l] exI[of _ out]) (simp add: select_contact_def malloc_def Let_def)
qed

lemma deleteContact_ok:
  assumes "book_ok b T" "mallocs b = q # ps" "q \<noteq> 0" "i < size T" "length (show_nat (Suc i)) < 9" "Suc i < 2 ^ 31"
    and "stdin b = show_nat (Suc i) @ NL # ''y'' @ NL # rest"
  shows "\<exists>b' T'. deleteContact b = Some b' \<and> book_ok b' T' \<and> stdin b' = rest \<and>
    persons T' = persons (tdel (key (persons T ! i)) T)"
proof -
  have T: "rep (nodes b) (root b) T" "distinct (addrs T)" using assms(1) by (simp_all add: book_ok_def)
  obtain l out where sel: "select_contact b = Some (Some (addrs T ! i), Some l, Some (int (Suc i)),
      b\<lparr>mallocs := ps, stdin := ''y'' @ NL # rest, printed := printed b @ out\<rparr>)"
    using select_contact_line[OF assms] by blast
  obtain c where c: "nodes b (addrs T ! i) = Some c" using rep_dom[OF T(1), of "addrs T ! i"] assms(4) by auto
  have "cell (nodes b) (addrs T ! i) = inorder T ! i"
    using truncate_cells[OF T(1)] assms(4) by (metis length_addrs(1) nth_map)
  then have "key c = key (persons T ! i)" using c assms(4) by (simp add: cell_def persons_def)
      (metis key_truncate nth_map size1_size length_inorder snd_conv)
  then obtain r h where del: "deleteNode (nodes b) (root b) (addrs T ! i) = Some (r, h)"
      "rep h r (tdel (key (persons T ! i)) T)"
    using deleteNode_rep[OF T c] by auto
  define b0 where "b0 = b\<lparr>mallocs := ps, printed := printed b @ out, stdin := rest, nodes := h, root := r\<rparr>"
  have "book_ok b0 (tdel (key (persons T ! i)) T)"
    using assms(1,2) del(2) distinct_addrs_tdel[OF T(2)] set_addrs_tdel[of "key (persons T ! i)" T]
    by (auto simp: b0_def book_ok_def split: if_splits)
  moreover have "stdin b0 = rest" by (simp add: b0_def)
  ultimately obtain b1 T1 where b1: "count_operation b0 = Some b1" "book_ok b1 T1"
      "persons T1 = persons (tdel (key (persons T ! i)) T)" "stdin b1 = rest"
    using count_operation_ok[of b0] by metis
  have "NL \<noteq> CHR ''y''" "NUL \<noteq> CHR ''y''" by (simp_all add: NUL_def NL_def)
  then have "fgets 10 (''y'' @ NL # rest) = Some (''y'' @ [NL], rest)"
    by (intro fgets_line) auto
  moreover have "root b \<noteq> 0" using rep_Leaf_iff[OF T(1)] assms(4) by auto
  ultimately have "deleteContact b = Some (print (''Contact deleted.'' @ [NL]) b1)"
    using sel del(1) b1(1)[unfolded b0_def] by (simp add: deleteContact_def)
  with b1 show ?thesis by auto
qed

text \<open>
  C6. Deleting a contact that has at most one subtree, in an ordered book with different names:
  selecting it by its number in the listing and answering \<open>y\<close> removes exactly that person.
\<close>

theorem deleteContact_removes:
  assumes "book_ok b T" "sorted_book (persons T)" "distinct (map key (persons T))"
    and "mallocs b = q # ps" "q \<noteq> 0" "i < size T" "length (show_nat (Suc i)) < 9" "Suc i < 2 ^ 31"
    and "stdin b = show_nat (Suc i) @ NL # ''y'' @ NL # rest"
    and "find_node (key (persons T ! i)) T = Some (l, ad, r)" "l = Leaf \<or> r = Leaf"
  shows "\<exists>b' T'. deleteContact b = Some b' \<and> book_ok b' T' \<and> stdin b' = rest \<and>
    persons T' = remove1 (persons T ! i) (persons T)"
proof -
  obtain pre post where p: "persons T = pre @ persons l @ snd ad # persons r @ post" "key (snd ad) = key (persons T ! i)"
    using find_node_persons[OF assms(10)] by blast
  then have "snd ad \<in> set (persons T)" by simp
  moreover have "persons T ! i \<in> set (persons T)" using assms(6) by (intro nth_mem) simp
  ultimately have "snd ad = persons T ! i" using p(2) assms(3) by (meson distinct_map inj_onD)
  with tdel_one_child[OF assms(10,11,3)] deleteContact_ok[OF assms(1,4-9)] show ?thesis by metis
qed

text \<open>
  C7. Deleting a contact with two subtrees loses others: \<open>*tree = *temp\<close> overwrites the node's own
  pointers with those of its successor, so the whole left subtree disappears from the book (and
  with it everyone listed there), although only one contact was to be removed.
\<close>

theorem deleteContact_loses_left_subtree:
  assumes "book_ok b T" "distinct (map key (persons T))"
    and "mallocs b = q # ps" "q \<noteq> 0" "i < size T" "length (show_nat (Suc i)) < 9" "Suc i < 2 ^ 31"
    and "stdin b = show_nat (Suc i) @ NL # ''y'' @ NL # rest"
    and "find_node (key (persons T ! i)) T = Some (l, ad, r)" "l \<noteq> Leaf" "r \<noteq> Leaf"
  shows "\<exists>b' T'. deleteContact b = Some b' \<and> book_ok b' T' \<and>
    set (persons T') \<inter> set (persons l) = {} \<and> set (persons l) \<subseteq> set (persons T) \<and>
    length (persons T') + size l < length (persons T)"
proof -
  have "set (persons l) \<subseteq> set (persons T)" using find_node_persons[OF assms(9)] by auto
  then show ?thesis
    using tdel_two_children[OF assms(9-11,2)] deleteContact_ok[OF assms(1,3-8)] by metis
qed

section \<open>Every session\<close>

lemma delete_ok: "deleteContact b = Some b' \<Longrightarrow> book_ok b T \<Longrightarrow> \<exists>T'. book_ok b' T'"
proof -
  assume d: "deleteContact b = Some b'" and ok: "book_ok b T"
  have del: "\<exists>T'. book_ok b3 T'" if b2: "book_ok b2 T" "p \<in> set (addrs T)"
    "deleteNode (nodes b2) (root b2) p = Some (r, h)" "count_operation (b2\<lparr>nodes := h, root := r\<rparr>) = Some b3"
    for b2 p r h b3
  proof -
    have T: "rep (nodes b2) (root b2) T" "distinct (addrs T)" using b2(1) by (simp_all add: book_ok_def)
    obtain c where c: "nodes b2 p = Some c" using rep_dom[OF T(1) b2(2)] by blast
    from deleteNode_rep[OF T c] b2(3) have "rep h r (tdel (key c) T)" by auto
    then have "book_ok (b2\<lparr>nodes := h, root := r\<rparr>) (tdel (key c) T)"
      using b2(1) distinct_addrs_tdel[OF T(2)] set_addrs_tdel book_ok_heap by blast
    from count_operation_ok[OF this] b2(4) show ?thesis by auto
  qed
  show ?thesis
  proof (cases "root b = 0")
    case True
    with d ok show ?thesis by (auto simp: deleteContact_def)
  next
    case False
    then obtain sel input choice b1 where s: "select_contact b = Some (sel, input, choice, b1)"
      using d by (auto simp: deleteContact_def bind_eq_Some_conv)
    note so = select_contact_ok[OF s ok]
    show ?thesis
    proof (cases sel)
      case None
      with d False s so(1) show ?thesis by (auto simp: deleteContact_def)
    next
      case (Some p)
      obtain input' i where io: "(case fgets 10 (stdin b1) of Some (l, rest) \<Rightarrow> (Some l, rest)
          | None \<Rightarrow> (input, stdin b1)) = (input', i)" by fastforce
      from d False s Some io consider "b' = print (''Deletion canceled.'' @ [NL]) (b1\<lparr>stdin := i\<rparr>)"
        | r h b3 where "deleteNode (nodes b1) (root b1) p = Some (r, h)"
            "count_operation (b1\<lparr>stdin := i, nodes := h, root := r\<rparr>) = Some b3"
            "b' = print (''Contact deleted.'' @ [NL]) b3"
        by (auto simp: deleteContact_def bind_eq_Some_conv Let_def simp del: append.simps split: if_splits)
      then show ?thesis
        using so(1) del[of "b1\<lparr>stdin := i\<rparr>" p] so(2)[OF Some] by cases auto
    qed
  qed
qed

lemma add_ok: "addContact b = Some b' \<Longrightarrow> book_ok b T \<Longrightarrow> \<exists>T'. book_ok b' T'"
proof -
  assume a: "addContact b = Some b'" and ok: "book_ok b T"
  obtain p b0 where m: "malloc b = (p, b0)" by (cases "malloc b")
  show ?thesis
  proof (cases "p = 0")
    case True
    with a m book_ok_malloc[OF ok m] show ?thesis by (auto simp: addContact_def)
  next
    case False
    from False a m obtain c i r h b1 s where c:
        "tree_insert ((nodes b0)(p \<mapsto> c)) (root b0) p = Some (r, h)"
        "count_operation (b0\<lparr>nodes := h, root := r, stdin := i\<rparr>) = Some b1"
        "b' = print s b1" "left c = 0" "right c = 0"
      by (auto simp: addContact_def bind_eq_Some_conv split: prod.splits)
    with book_ok_add[OF ok m False c(4,5), of i]
    have "book_ok (b0\<lparr>nodes := h, root := r, stdin := i\<rparr>) (tins (p, person.truncate c) T)" by auto
    from count_operation_ok[OF this] c(2,3) show ?thesis by auto
  qed
qed

lemma menu_action_ok:
  assumes "menu_action ch b = Some b'" "book_ok b T"
  shows "\<exists>T'. book_ok b' T'"
proof -
  have "\<exists>T'. book_ok b' T'" if "showContacts b = Some b' \<or> printTreeStructure b = Some b'"
    using that assms(2) by (auto simp: showContacts_def printTreeStructure_def bind_eq_Some_conv split: if_splits)
  then show ?thesis
    using assms add_ok edit_ok delete_ok by (auto simp: menu_action_def split: if_splits)
qed

lemmas main_menu_induct = main_menu.raw_induct[rotated, consumes 1, case_names step]

lemma main_menu_ok: "main_menu input choice b = Some b' \<Longrightarrow> book_ok b T \<Longrightarrow> \<exists>T'. book_ok b' T'"
proof (induction arbitrary: T rule: main_menu_induct)
  case (step mm input choice b b')
  obtain input' choice' inp ch b1 where st: "menu_action ch (b\<lparr>stdin := inp\<rparr>) = Some b1"
      "(if ch = 0 then Some b1 else mm input' choice' b1) = Some b'"
    using step(2) by (auto simp: bind_eq_Some_conv)
  obtain T1 where "book_ok b1 T1" using menu_action_ok[OF st(1)] step(3) by auto
  with st(2) step(1) show ?case by (auto split: if_splits)
qed

text \<open>
  C2. Whatever is typed, and whichever allocations fail, a session of the phone book that ends has
  kept its pointers a tree: no node is shared, no pointer dangles and every node reached from the
  root is allocated. (\<open>malloc\<close> returns distinct fresh addresses or 0.)
\<close>

theorem session_keeps_tree:
  assumes "main_book ptrs inp = Some b'" "distinct (filter (\<lambda>p. p \<noteq> 0) ptrs)"
  shows "\<exists>T. rep (nodes b') (root b') T \<and> distinct (addrs T)"
proof -
  have "book_ok \<lparr>nodes = Map.empty, root = 0, operationCount = 0, mallocs = ptrs, stdin = inp, printed = []\<rparr> Leaf"
    using assms(2) by (simp add: book_ok_def)
  with assms(1) main_menu_ok show ?thesis unfolding main_book_def book_ok_def by blast
qed

section \<open>A session of additions\<close>

definition add_command :: "person \<Rightarrow> string \<Rightarrow> string" where
  "add_command d rest = show_nat 1 @ NL # typed d rest"

lemma length_show_digit: "n < 10 \<Longrightarrow> length (show_nat n) = 1"
  by (subst show_nat.simps) simp

lemma main_menu_adds:
  assumes "book_ok b T" "sorted_book (persons T)" "\<forall>d \<in> set ds. person_ok d"
    and "stdin b = foldr add_command ds (show_nat 0 @ [NL])" "2 * length ds \<le> length (mallocs b)" "0 \<notin> set (mallocs b)"
  shows "\<exists>b' T'. main_menu input choice b = Some b' \<and> book_ok b' T' \<and> persons T' = fold insert_sorted ds (persons T)"
  using assms
proof (induction ds arbitrary: b T input choice)
  case Nil
  obtain l where "read_choice input choice (show_nat 0 @ NL # []) = Some (Some l, Some 0, [])"
    using read_choice_line[of 0 input choice "[]"] length_show_digit[of 0] by auto
  with Nil show ?case by (subst main_menu.simps) (auto simp: menu_action_def)
next
  case (Cons d ds)
  let ?rest = "foldr add_command ds (show_nat 0 @ [NL])"
  have "stdin b = show_nat 1 @ NL # typed d ?rest" using Cons.prems(4) add_command_def[of d ?rest] by simp
  then obtain l where rc: "read_choice input choice (stdin b) = Some (Some l, Some 1, typed d ?rest)"
    using read_choice_line[of 1 input choice "typed d ?rest"] length_show_digit[of 1] by auto
  obtain p ps where ps: "mallocs b = p # ps" using Cons.prems(5) by (cases "mallocs b") auto
  then have p: "p \<noteq> 0" "0 \<notin> set ps" using Cons.prems(6) by auto
  let ?b = "b\<lparr>stdin := typed d ?rest\<rparr>"
  have "book_ok ?b T" "person_ok d" "stdin ?b = typed d ?rest" "mallocs ?b = p # ps"
    using Cons.prems(1,3) ps by simp_all
  from addContact_ok[OF this(1) Cons.prems(2) this(2,3,4) p(1)] obtain b1 T1 where
    b1: "addContact ?b = Some b1" "book_ok b1 T1" "persons T1 = insert_sorted d (persons T)" "stdin b1 = ?rest"
      "length ps \<le> Suc (length (mallocs b1))" "set (mallocs b1) \<subseteq> set ps" by blast
  have "sorted_book (persons T1)" using b1(3) sorted_insert_sorted[OF Cons.prems(2)] by simp
  moreover have "2 * length ds \<le> length (mallocs b1)" "0 \<notin> set (mallocs b1)"
    using b1(5,6) Cons.prems(5) ps p(2) by auto
  moreover have "\<forall>e \<in> set ds. person_ok e" using Cons.prems(3) by simp
  ultimately obtain b' T' where "main_menu (Some l) (Some 1) b1 = Some b'" "book_ok b' T'"
      "persons T' = fold insert_sorted ds (persons T1)"
    using Cons.IH[OF b1(2) _ _ b1(4)] by blast
  then show ?case using rc b1(1,3) by (subst main_menu.simps) (auto simp: menu_action_def)
qed

lemma fold_insert_sorted:
  "sorted_book ps \<Longrightarrow> sorted_book (fold insert_sorted ds ps) \<and> mset (fold insert_sorted ds ps) = mset ds + mset ps"
proof (induction ds arbitrary: ps)
  case (Cons d ds)
  have "mset (insert_sorted d ps) = add_mset d (mset ps)"
    by (simp add: insert_sorted_def) (metis mset_append takeWhile_dropWhile_id)
  with Cons.IH[OF sorted_insert_sorted[OF Cons.prems], of d] show ?case by simp
qed simp

text \<open>
  C1. A whole session: a user who starts the program, adds contacts one after another through the menu
  and leaves gets a book that lists exactly those contacts ordered by name, however often the
  tree was rebuilt on the way. Two allocations per contact (the node, and now and then the array)
  are enough.
\<close>

theorem session_of_additions:
  assumes "\<forall>d \<in> set ds. person_ok d" "distinct ptrs" "0 \<notin> set ptrs" "2 * length ds \<le> length ptrs"
  shows "\<exists>b' T. main_book ptrs (foldr add_command ds (show_nat 0 @ [NL])) = Some b' \<and>
    rep (nodes b') (root b') T \<and> sorted_book (persons T) \<and> mset (persons T) = mset ds"
proof -
  let ?b = "\<lparr>nodes = Map.empty, root = 0, operationCount = 0, mallocs = ptrs,
    stdin = foldr add_command ds (show_nat 0 @ [NL]), printed = []\<rparr>"
  have "book_ok ?b Leaf" using assms(2,3) by (simp add: book_ok_def)
  from main_menu_adds[OF this _ assms(1), of None None] assms(3,4) obtain b' T where
    "main_menu None None ?b = Some b'" "book_ok b' T" "persons T = fold insert_sorted ds []"
    by (auto simp: sorted_book_def)
  with fold_insert_sorted[of "[]" ds] show ?thesis
    by (auto simp: main_book_def book_ok_def sorted_book_def)
qed

section \<open>Editing a field, and what it does to the order\<close>

definition set_field :: "nat \<Rightarrow> string \<Rightarrow> 'a person_scheme \<Rightarrow> 'a person_scheme" where
  "set_field f s c =
     (if f = 1 then c\<lparr>lastname := s\<rparr> else if f = 2 then c\<lparr>name := s\<rparr> else if f = 3 then c\<lparr>patronymic := s\<rparr>
      else if f = 4 then c\<lparr>workplace := s\<rparr> else if f = 5 then c\<lparr>position := s\<rparr> else if f = 6 then c\<lparr>phone := s\<rparr>
      else if f = 7 then c\<lparr>email := s\<rparr> else if f = 8 then c\<lparr>social := s\<rparr> else c\<lparr>messenger := s\<rparr>)"

definition field_size :: "nat \<Rightarrow> nat" where
  "field_size f = (if f \<le> 3 then MAX_NAME else if f \<le> 5 then MAX_WORK else if f = 6 then MAX_PHONE
     else if f = 7 then MAX_EMAIL else MAX_SOCIAL)"

lemma set_field_frame: "left (set_field f s c) = left c" "right (set_field f s c) = right c"
  "person.truncate (set_field f s c) = set_field f s (person.truncate c)"
  by (cases c, simp add: set_field_def person.defs)+

lemma key_set_field: "3 \<le> f \<Longrightarrow> key (set_field f s c) = key c"
  by (simp add: set_field_def key_def)

lemma edit_field_line:
  assumes "1 \<le> f" "f \<le> 9" "field_ok (field_size f) s" "f \<le> 2 \<Longrightarrow> s \<noteq> []"
  shows "edit_field (int f) c (s @ NL # rest) = Some (set_field f s c, rest)"
proof -
  have "f \<in> {1, 2, 3, 4, 5, 6, 7, 8, 9}" using assms(1,2) by auto
  then show ?thesis using assms(3,4)
    by (elim insertE emptyE)
       (simp_all add: edit_field_def set_field_def field_size_def read_field_line read_required_line)
qed

text \<open>
  Editing: choosing a contact by its number, a field, a text that fits it (a name must not be
  empty) and then 0 changes that one field of that one person in the listing and nothing else.
\<close>

lemma editContact_updates:
  assumes "book_ok b T" "mallocs b = q # ps" "q \<noteq> 0" "i < size T" "length (show_nat (Suc i)) < 9" "Suc i < 2 ^ 31"
    and "1 \<le> f" "f \<le> 9" "field_ok (field_size f) s" "f \<le> 2 \<Longrightarrow> s \<noteq> []"
    and "stdin b = show_nat (Suc i) @ NL # show_nat f @ NL # s @ NL # show_nat 0 @ NL # rest"
  shows "\<exists>b' T'. editContact b = Some b' \<and> book_ok b' T' \<and> stdin b' = rest \<and>
    persons T' = (persons T)[i := set_field f s (persons T ! i)]"
proof -
  have T: "rep (nodes b) (root b) T" "distinct (addrs T)" using assms(1) by (simp_all add: book_ok_def)
  let ?p = "addrs T ! i"
  let ?inp = "show_nat f @ NL # s @ NL # show_nat 0 @ NL # rest"
  obtain l out where sel: "select_contact b = Some (Some ?p, Some l, Some (int (Suc i)),
      b\<lparr>mallocs := ps, stdin := ?inp, printed := printed b @ out\<rparr>)"
    using select_contact_line[OF assms(1-6,11)] by blast
  define b0 where "b0 = b\<lparr>mallocs := ps, stdin := ?inp, printed := printed b @ out\<rparr>"
  have b0: "book_ok b0 T" "nodes b0 = nodes b" using assms(1,2) by (auto simp: b0_def book_ok_def split: if_splits)
  obtain c where c: "nodes b ?p = Some c" using rep_dom[OF T(1), of ?p] assms(4) by auto
  have "cell (nodes b) ?p = inorder T ! i"
    using truncate_cells[OF T(1)] assms(4) by (metis length_addrs(1) nth_map)
  then have pc: "person.truncate c = persons T ! i"
    using c assms(4) by (simp add: cell_def persons_def) (metis snd_conv)
  define b1 where "b1 = b0\<lparr>nodes := (nodes b0)(?p \<mapsto> set_field f s c), stdin := show_nat 0 @ NL # rest\<rparr>"
  obtain T' where T': "book_ok b1 T'" "addrs T' = addrs T" "persons T' = (persons T)[i := set_field f s (persons T ! i)]"
    using book_ok_edit[OF b0(1) assms(4), of c "set_field f s c" "show_nat 0 @ NL # rest"] c b0(2) pc
    by (auto simp: b1_def set_field_frame)
  obtain l1 where r1: "read_choice (Some l) (Some (int (Suc i))) (stdin b0) = Some (Some l1, Some (int f), s @ NL # show_nat 0 @ NL # rest)"
    using read_choice_line[of f "Some l" "Some (int (Suc i))" "s @ NL # show_nat 0 @ NL # rest"]
      length_show_digit[of f] assms(8) by (auto simp: b0_def)
  obtain l2 where r2: "read_choice (Some l1) (Some (int f)) (stdin b1) = Some (Some l2, Some 0, rest)"
    using read_choice_line[of 0 "Some l1" "Some (int f)" rest] length_show_digit[of 0] by (auto simp: b1_def)
  have e2: "edit_menu ?p (Some l1) (Some (int f)) b1 =
      Some (print (''Contact updated.'' @ [NL]) (b1\<lparr>nodes := (nodes b1)(?p \<mapsto> set_field f s c), stdin := rest\<rparr>))"
    by (subst edit_menu.simps) (simp add: r2, simp add: b1_def edit_field_def Let_def)
  have "edit_menu ?p (Some l) (Some (int (Suc i))) b0 = edit_menu ?p (Some l1) (Some (int f)) b1"
    using assms(7,8) c edit_field_line[OF assms(7-10)]
    by (subst edit_menu.simps) (simp add: r1 b0(2) Let_def b1_def del: of_nat_Suc)
  then have "editContact b = Some (print (''Contact updated.'' @ [NL]) (b1\<lparr>stdin := rest\<rparr>))"
    using sel e2 rep_Leaf_iff[OF T(1)] assms(4) by (auto simp: editContact_def b0_def[symmetric] b1_def)
  with T' show ?thesis by auto
qed

lemma tdel_unfound: "find_node k T = None \<Longrightarrow> tdel k T = T"
  by (induction T) (auto split: if_splits)

text \<open>
  A contact the search no longer reaches, as after an edit of its last name, which leaves the node
  where it was, cannot be deleted: the program says \<open>Contact deleted.\<close> and keeps it.
\<close>

lemma unreachable_contact_survives:
  assumes "book_ok b T" "mallocs b = q # ps" "q \<noteq> 0" "i < size T" "length (show_nat (Suc i)) < 9" "Suc i < 2 ^ 31"
    and "stdin b = show_nat (Suc i) @ NL # ''y'' @ NL # rest"
    and "find_node (key (persons T ! i)) T = None"
  shows "\<exists>b' T'. deleteContact b = Some b' \<and> book_ok b' T' \<and> persons T' = persons T"
  using deleteContact_ok[OF assms(1-7)] tdel_unfound[OF assms(8)] by metis

section \<open>Concrete instances\<close>

definition sample :: "string \<Rightarrow> person" where
  "sample s = \<lparr>lastname = s, name = ''N'', patronymic = [], workplace = [], position = [], phone = ''12'',
     email = [], social = [], messenger = []\<rparr>"

definition sample_node :: "string \<Rightarrow> nat \<Rightarrow> nat \<Rightarrow> Contact" where
  "sample_node s l r = person.extend (sample s) \<lparr>left = l, right = r\<rparr>"

definition sample_book :: "heap \<Rightarrow> nat list \<Rightarrow> string \<Rightarrow> book" where
  "sample_book h ptrs inp = \<lparr>nodes = h, root = 1, operationCount = 0, mallocs = ptrs, stdin = inp, printed = []\<rparr>"

lemma sample_node_simps [simp]:
  "person.truncate (sample_node s l r) = sample s" "left (sample_node s l r) = l" "right (sample_node s l r) = r"
  by (simp_all add: sample_node_def sample_def person.defs Contact.defs)

lemma sample_key [simp]: "key (sample s) = (s, ''N'')"
  by (simp add: key_def sample_def)

lemma sample_inj [simp]: "sample s = sample t \<longleftrightarrow> s = t"
  by (simp add: sample_def)

lemma person_ok_sample: "s = ''A'' \<or> s = ''B'' \<Longrightarrow> person_ok (sample s)"
  by (auto simp: person_ok_def sample_def field_ok_def NL_def NUL_def MAX_NAME_def MAX_PHONE_def
      MAX_EMAIL_def MAX_WORK_def MAX_SOCIAL_def)

text \<open>A chain of three contacts, and three contacts with the middle one on top.\<close>

abbreviation chain3 :: ptree where
  "chain3 \<equiv> Node Leaf (1, sample ''A'') (Node Leaf (2, sample ''B'') (Node Leaf (3, sample ''C'') Leaf))"

abbreviation bush3 :: ptree where
  "bush3 \<equiv> Node (Node Leaf (2, sample ''A'') Leaf) (1, sample ''B'') (Node Leaf (3, sample ''C'') Leaf)"

abbreviation chain_heap :: heap where
  "chain_heap \<equiv> [1 \<mapsto> sample_node ''A'' 0 2, 2 \<mapsto> sample_node ''B'' 0 3, 3 \<mapsto> sample_node ''C'' 0 0]"

abbreviation bush_heap :: heap where
  "bush_heap \<equiv> [1 \<mapsto> sample_node ''B'' 2 3, 2 \<mapsto> sample_node ''A'' 0 0, 3 \<mapsto> sample_node ''C'' 0 0]"

lemma sample_books: "book_ok (sample_book chain_heap [9] inp) chain3" "book_ok (sample_book bush_heap [9] inp) bush3"
  by (auto simp: book_ok_def sample_book_def)

lemma show_small: "length (show_nat 1) < 9" "length (show_nat 2) < 9" "length (show_nat (Suc 0)) < 9"
  using length_show_digit[of 1] length_show_digit[of 2] by simp_all

lemma balanceTree_balances_witness:
  "\<exists>b' T'. balanceTree (sample_book chain_heap [9] []) = Some b' \<and> rep (nodes b') (root b') T' \<and>
     persons T' = [sample ''A'', sample ''B'', sample ''C''] \<and> height T' \<le> 2"
proof -
  have "mallocs (sample_book chain_heap [9] []) = [9]" by (simp add: sample_book_def)
  with balanceTree_balances[OF sample_books(1), of "[]"] obtain b' T' where
    "balanceTree (sample_book chain_heap [9] []) = Some b'" "book_ok b' T'" "persons T' = persons chain3"
    "\<forall>k. size chain3 < 2 ^ k \<longrightarrow> height T' \<le> k" by auto
  then show ?thesis by (auto simp: book_ok_def intro!: exI[of _ b'] exI[of _ T'])
qed

lemma addContact_stores_witness:
  "\<exists>b' T'. addContact (sample_book chain_heap [9] (typed (sample ''B'') [])) = Some b' \<and> book_ok b' T' \<and>
     persons T' = [sample ''A'', sample ''B'', sample ''B'', sample ''C'']"
proof -
  have "sorted_book (persons chain3)" by (simp add: sorted_book_def less_eq_prod_def)
  from addContact_stores[OF sample_books(1) this, of "sample ''B''" "typed (sample ''B'') []" "[]" 9 "[]"]
  obtain b' T' where "addContact (sample_book chain_heap [9] (typed (sample ''B'') [])) = Some b'" "book_ok b' T'"
      "persons T' = insert_sorted (sample ''B'') (persons chain3)"
    using person_ok_sample[of "''B''"] by (auto simp: sample_book_def)
  then show ?thesis by (intro exI[of _ b'] exI[of _ T']) (simp add: insert_sorted_def less_eq_prod_def)
qed

lemma deleteContact_removes_witness:
  "\<exists>b' T'. deleteContact (sample_book chain_heap [9] (show_nat 2 @ NL # ''y'' @ NL # [])) = Some b' \<and> book_ok b' T' \<and>
     persons T' = [sample ''A'', sample ''C'']"
proof -
  let ?b = "sample_book chain_heap [9] (show_nat 2 @ NL # ''y'' @ NL # [])"
  have "\<exists>b' T'. deleteContact ?b = Some b' \<and> book_ok b' T' \<and> stdin b' = [] \<and>
      persons T' = remove1 (persons chain3 ! 1) (persons chain3)"
    by (rule deleteContact_removes[OF sample_books(1), where q = 9 and ps = "[]" and i = 1 and l = Leaf
        and ad = "(2, sample ''B'')" and r = "Node Leaf (3, sample ''C'') Leaf"])
       (use show_small in \<open>simp_all add: sorted_book_def sample_book_def less_prod_def less_eq_prod_def numeral_2_eq_2[symmetric]\<close>)
  then show ?thesis by auto
qed

lemma deleteContact_loses_left_subtree_witness:
  "\<exists>b' T'. deleteContact (sample_book bush_heap [9] (show_nat 2 @ NL # ''y'' @ NL # [])) = Some b' \<and> book_ok b' T' \<and>
     sample ''A'' \<notin> set (persons T') \<and> length (persons T') < 2"
proof -
  let ?b = "sample_book bush_heap [9] (show_nat 2 @ NL # ''y'' @ NL # [])"
  have "\<exists>b' T'. deleteContact ?b = Some b' \<and> book_ok b' T' \<and>
      set (persons T') \<inter> set (persons (Node Leaf (2, sample ''A'') (Leaf :: ptree))) = {} \<and>
      set (persons (Node Leaf (2, sample ''A'') (Leaf :: ptree))) \<subseteq> set (persons bush3) \<and>
      length (persons T') + size (Node Leaf (2, sample ''A'') (Leaf :: ptree)) < length (persons bush3)"
    by (rule deleteContact_loses_left_subtree[OF sample_books(2), where q = 9 and ps = "[]" and i = 1
        and ad = "(1, sample ''B'')" and r = "Node Leaf (3, sample ''C'') Leaf" and rest = "[]"])
       (use show_small in \<open>simp_all add: sample_book_def less_prod_def numeral_2_eq_2[symmetric]\<close>)
  then show ?thesis by (auto simp: numeral_2_eq_2)
qed

lemma session_keeps_tree_witness:
  "\<exists>b' T. main_book [] (show_nat 0 @ NL # []) = Some b' \<and> rep (nodes b') (root b') T"
proof -
  obtain l where "read_choice None None (show_nat 0 @ NL # []) = Some (Some l, Some 0, [])"
    using read_choice_line[of 0 None None "[]"] length_show_digit[of 0] by auto
  then obtain b' where "main_book [] (show_nat 0 @ NL # []) = Some b'"
    unfolding main_book_def by (subst (asm) main_menu.simps) (simp add: menu_action_def)
  with session_keeps_tree[OF this] show ?thesis by auto
qed

lemma session_of_additions_witness:
  "\<exists>b' T. main_book [1, 2, 3, 4] (foldr add_command [sample ''B'', sample ''A''] (show_nat 0 @ [NL])) = Some b' \<and>
     rep (nodes b') (root b') T \<and> mset (persons T) = {#sample ''B'', sample ''A''#}"
proof -
  have "\<forall>d \<in> set [sample ''B'', sample ''A'']. person_ok d" using person_ok_sample by simp
  from session_of_additions[OF this, of "[1, 2, 3, 4]"] show ?thesis by (auto simp del: foldr.simps)
qed

text \<open>Below a B an A on the right, as an edit of its last name can leave it.\<close>

end
