(* ===== verification/Contacts_Types.thy ===== *)
theory Contacts_Types
  imports Contacts_Props
begin

text \<open>
  The types of the phone book's fields: each of the nine arrays of a contact holds a string that fits it,
  without a newline, and both names are not empty. Every operation keeps this of every node allocated, in
  whatever shape the tree is.
\<close>

definition array_string :: "nat \<Rightarrow> string \<Rightarrow> bool" where
  "array_string n s \<longleftrightarrow> length s < n \<and> NL \<notin> set s \<and> NUL \<notin> set s"

definition contact_typed :: "'a person_scheme \<Rightarrow> bool" where
  "contact_typed c \<longleftrightarrow> lastname c \<noteq> [] \<and> name c \<noteq> [] \<and>
     array_string MAX_NAME (lastname c) \<and> array_string MAX_NAME (name c) \<and> array_string MAX_NAME (patronymic c) \<and>
     array_string MAX_WORK (workplace c) \<and> array_string MAX_WORK (position c) \<and> array_string MAX_PHONE (phone c) \<and>
     array_string MAX_EMAIL (email c) \<and> array_string MAX_SOCIAL (social c) \<and> array_string MAX_SOCIAL (messenger c)"

definition heap_typed :: "heap \<Rightarrow> bool" where
  "heap_typed h \<longleftrightarrow> (\<forall>c \<in> ran h. contact_typed c)"

lemma contact_typed_pointers [simp]:
  "contact_typed (c\<lparr>left := p\<rparr>) = contact_typed c" "contact_typed (c\<lparr>right := p\<rparr>) = contact_typed c"
  by (simp_all add: contact_typed_def)

lemma heap_typedD: "heap_typed h \<Longrightarrow> h p = Some c \<Longrightarrow> contact_typed c"
  by (auto simp: heap_typed_def ran_def)

lemma heap_typed_upd [intro]: "heap_typed h \<Longrightarrow> contact_typed c \<Longrightarrow> heap_typed (h(p \<mapsto> c))"
  by (auto simp: heap_typed_def ran_def)

lemma heap_typed_free [intro]: "heap_typed h \<Longrightarrow> heap_typed (h(p := None))"
  by (auto simp: heap_typed_def ran_def)

lemma heap_typed_empty [simp]: "heap_typed Map.empty"
  by (simp add: heap_typed_def)

text \<open>Changing a pointer of a node keeps its type.\<close>

lemma heap_typed_relink [intro]:
  "heap_typed h \<Longrightarrow> h p = Some c \<Longrightarrow> heap_typed (h(p \<mapsto> c\<lparr>left := q\<rparr>))"
  "heap_typed h \<Longrightarrow> h p = Some c \<Longrightarrow> heap_typed (h(p \<mapsto> c\<lparr>right := q\<rparr>))"
  by (auto intro!: heap_typed_upd dest: heap_typedD simp del: fun_upd_apply)

section \<open>The tree operations\<close>

lemmas tree_insert_induct = tree_insert.raw_induct[rotated, consumes 1, case_names step]
lemmas deleteNode_induct = deleteNode.raw_induct[rotated, consumes 1, case_names step]

lemma tree_insert_typed: "tree_insert h t n = Some r \<Longrightarrow> heap_typed h \<Longrightarrow> heap_typed (snd r)"
proof (induction rule: tree_insert_induct)
  case (step ti h t n r)
  have IH: "ti h t' n' = Some (p, h') \<Longrightarrow> heap_typed h'" for t' n' p h' using step(1)[of h t' n' "(p, h')"] step(3) by simp
  show ?case
    using step(2,3) by (auto simp: bind_eq_Some_conv simp del: fun_upd_apply split: if_splits dest!: IH intro!: heap_typed_relink)
qed

lemma deleteNode_typed: "deleteNode h t n = Some r \<Longrightarrow> heap_typed h \<Longrightarrow> heap_typed (snd r)"
proof (induction rule: deleteNode_induct)
  case (step dn h t n r)
  have IH: "dn h' t' n' = Some (p, h'') \<Longrightarrow> heap_typed h' \<Longrightarrow> heap_typed h''" for h' t' n' p h''
    using step(1)[of h' t' n' "(p, h'')"] by simp
  show ?case
    using step(2,3)
    by (auto simp: bind_eq_Some_conv Let_def simp del: fun_upd_apply split: if_splits)
      (blast intro: IH heap_typed_relink heap_typed_upd heap_typed_free heap_typedD)+
qed

lemma buildBalanced_typed: "buildBalanced h array lo hi = Some r \<Longrightarrow> heap_typed h \<Longrightarrow> heap_typed (snd r)"
proof (induction h array lo hi arbitrary: r rule: buildBalanced.induct)
  case (1 h array lo hi)
  show ?case
  proof (cases "hi < lo")
    case False
    with "1.prems"(1) obtain node l h1 c1 r' h2 c2 where b:
        "aget array (nat ((lo + hi) div 2)) = Some node" "\<not> (lo + hi) div 2 < 0"
        "buildBalanced h array lo ((lo + hi) div 2 - 1) = Some (l, h1)" "h1 node = Some c1"
        "buildBalanced (h1(node \<mapsto> c1\<lparr>left := l\<rparr>)) array ((lo + hi) div 2 + 1) hi = Some (r', h2)" "h2 node = Some c2"
        "r = (node, h2(node \<mapsto> c2\<lparr>right := r'\<rparr>))"
      by (subst (asm) buildBalanced.simps) (auto simp: bind_eq_Some_conv Let_def simp del: fun_upd_apply split: if_splits)
    have "heap_typed h1"
      using "1.IH"(1)[OF _ refl _ b(1) b(3)] "1.prems"(2) b(2) False by auto
    then have "heap_typed h2"
      using "1.IH"(2)[OF _ refl _ b(1) b(3) _ b(4) refl b(5)] b(2,4) False by (auto simp del: fun_upd_apply)
    with b(6,7) show ?thesis by (auto intro!: heap_typed_relink simp del: fun_upd_apply)
  qed (use "1.prems" in \<open>subst (asm) buildBalanced.simps, auto\<close>)
qed


lemma balanceTree_typed: "balanceTree b = Some b' \<Longrightarrow> heap_typed (nodes b) \<Longrightarrow> heap_typed (nodes b')"
  by (auto simp: balanceTree_def bind_eq_Some_conv Let_def malloc_def split: prod.splits if_splits list.splits
      dest!: buildBalanced_typed)

lemma count_operation_typed: "count_operation b = Some b' \<Longrightarrow> heap_typed (nodes b) \<Longrightarrow> heap_typed (nodes b')"
  by (auto simp: count_operation_def Let_def split: if_splits dest!: balanceTree_typed)

section \<open>Reading fields\<close>

lemma read_field_typed:
  assumes "read_field n old inp = Some (s, rest)" "0 < n" "\<And>s. old = Some s \<Longrightarrow> array_string n s"
  shows "array_string n s"
proof -
  have cut: "array_string n (removeN l)" if "length l < n" "NUL \<notin> set l" for l
  proof -
    have "set (removeN l) \<subseteq> set l" "length (removeN l) \<le> length l" "NL \<notin> set (removeN l)"
      by (auto simp: removeN_chomp chomp_eq_takeWhile length_takeWhile_le dest: set_takeWhileD)
    with that show ?thesis by (auto simp: array_string_def)
  qed
  from assms(1) consider l where "fgets n inp = Some (l, rest)" "s = removeN l" | l where "old = Some l" "s = removeN l"
    by (auto simp: read_field_def split: option.splits)
  then show ?thesis
  proof cases
    case (1 l)
    with fgets_bounds[of n inp l rest] assms(2) show ?thesis by (auto intro: cut)
  qed (use assms(3) cut in \<open>auto simp: array_string_def\<close>)
qed

lemmas read_required_induct = read_required.raw_induct[rotated, consumes 1, case_names step]

lemma read_required_typed:
  "read_required n old inp = Some r \<Longrightarrow> 0 < n \<Longrightarrow> (\<And>s. old = Some s \<Longrightarrow> array_string n s) \<Longrightarrow>
   array_string n (fst r) \<and> fst r \<noteq> []"
proof (induction rule: read_required_induct)
  case (step rr n old inp r)
  obtain s rest where s: "read_field n old inp = Some (s, rest)" "(if length s = 0 then rr n (Some s) rest else Some (s, rest)) = Some r"
    using step(2) by (auto simp: bind_eq_Some_conv)
  have "array_string n s" using read_field_typed[OF s(1) step(3)] step(4) by blast
  with s(2) step(1)[of n "Some s" rest r] step(3) show ?case by (auto split: if_splits)
qed

lemmas field_types = read_field_typed[where old = None, simplified] read_required_typed[where old = None, simplified]
  MAX_NAME_def MAX_WORK_def MAX_PHONE_def MAX_EMAIL_def MAX_SOCIAL_def

lemma edit_field_typed:
  assumes "edit_field ch c inp = Some (c', inp')" "contact_typed c"
  shows "contact_typed c'"
  using assms
  by (auto simp: edit_field_def contact_typed_def split: if_splits
      dest!: read_required_typed read_field_typed simp: MAX_NAME_def MAX_WORK_def MAX_PHONE_def MAX_EMAIL_def MAX_SOCIAL_def)

section \<open>The menu operations\<close>

lemma malloc_nodes: "malloc b = (p, b0) \<Longrightarrow> nodes b0 = nodes b"
  by (auto simp: malloc_def split: list.splits)

lemma addContact_typed:
  assumes "addContact b = Some b'" "heap_typed (nodes b)"
  shows "heap_typed (nodes b')"
proof -
  obtain p b0 where m: "malloc b = (p, b0)" by (cases "malloc b")
  show ?thesis
  proof (cases "p = 0")
    case False
    with assms(1) m obtain ln nm pa wo po ph em so me i1 i2 i3 i4 i5 i6 i7 i8 i9 c r h b1 where
        f: "read_required MAX_NAME None (stdin b0) = Some (ln, i1)" "read_required MAX_NAME None i1 = Some (nm, i2)"
          "read_field MAX_NAME None i2 = Some (pa, i3)" "read_field MAX_WORK None i3 = Some (wo, i4)"
          "read_field MAX_WORK None i4 = Some (po, i5)" "read_field MAX_PHONE None i5 = Some (ph, i6)"
          "read_field MAX_EMAIL None i6 = Some (em, i7)" "read_field MAX_SOCIAL None i7 = Some (so, i8)"
          "read_field MAX_SOCIAL None i8 = Some (me, i9)"
      and c: "c = \<lparr>lastname = ln, name = nm, patronymic = pa, workplace = wo, position = po, phone = ph,
                 email = em, social = so, messenger = me, left = 0, right = 0\<rparr>"
      and r: "tree_insert ((nodes b0)(p \<mapsto> c)) (root b0) p = Some (r, h)"
        "count_operation (b0\<lparr>nodes := h, root := r, stdin := i9\<rparr>) = Some b1" "b' = print ([NL] @ ''Contact added.'' @ [NL]) b1"
      by (auto simp: addContact_def bind_eq_Some_conv simp del: fun_upd_apply append.simps)
    have "contact_typed c"
      using f(1,2)[THEN read_required_typed] f(3-9)[THEN read_field_typed]
      by (simp add: c contact_typed_def MAX_NAME_def MAX_WORK_def MAX_PHONE_def MAX_EMAIL_def MAX_SOCIAL_def)
    then have "heap_typed h" using tree_insert_typed[OF r(1)] assms(2) malloc_nodes[OF m] by (auto simp del: fun_upd_apply)
    with count_operation_typed[OF r(2)] r(3) show ?thesis by simp
  qed (use assms m malloc_nodes[OF m] in \<open>auto simp: addContact_def\<close>)
qed

lemma select_contact_nodes:
  assumes "select_contact b = Some (sel, input, choice, b1)"
  shows "nodes b1 = nodes b"
proof -
  obtain p b0 where m: "malloc b = (p, b0)" by (cases "malloc b")
  with assms malloc_nodes[OF m] show ?thesis
    by (auto simp: select_contact_def bind_eq_Some_conv Let_def simp del: append.simps split: if_splits)
qed

lemma edit_menu_typed: "edit_menu p input choice b = Some b' \<Longrightarrow> heap_typed (nodes b) \<Longrightarrow> heap_typed (nodes b')"
proof (induction rule: edit_menu_induct)
  case (step em p input choice b b')
  obtain input' choice' inp ch c c' inp' where st: "nodes b p = Some c" "edit_field ch c inp = Some (c', inp')"
    and rest: "(if ch = 0 then Some (print (''Contact updated.'' @ [NL]) (b\<lparr>nodes := (nodes b)(p \<mapsto> c'), stdin := inp'\<rparr>))
       else em p input' choice' (if 1 \<le> ch \<and> ch \<le> 9 then b\<lparr>nodes := (nodes b)(p \<mapsto> c'), stdin := inp'\<rparr>
         else print (''Invalid choice.'' @ [NL]) (b\<lparr>nodes := (nodes b)(p \<mapsto> c'), stdin := inp'\<rparr>))) = Some b'"
    using step(2) by (auto simp: bind_eq_Some_conv Let_def)
  have "heap_typed ((nodes b)(p \<mapsto> c'))"
    using edit_field_typed[OF st(2)] heap_typedD[OF step(3) st(1)] step(3) by (intro heap_typed_upd)
  with rest step(1) show ?case by (auto split: if_splits simp del: fun_upd_apply)
qed

lemma editContact_typed: "editContact b = Some b' \<Longrightarrow> heap_typed (nodes b) \<Longrightarrow> heap_typed (nodes b')"
  by (auto simp: editContact_def bind_eq_Some_conv split: if_splits option.splits dest!: select_contact_nodes edit_menu_typed)

lemma deleteContact_typed: "deleteContact b = Some b' \<Longrightarrow> heap_typed (nodes b) \<Longrightarrow> heap_typed (nodes b')"
  by (auto simp: deleteContact_def bind_eq_Some_conv Let_def split: if_splits option.splits prod.splits
      dest!: select_contact_nodes deleteNode_typed count_operation_typed)

lemma menu_action_typed:
  assumes "menu_action ch b = Some b'" "heap_typed (nodes b)"
  shows "heap_typed (nodes b')"
proof -
  have "nodes b' = nodes b" if "showContacts b = Some b' \<or> printTreeStructure b = Some b'"
    using that by (auto simp: showContacts_def printTreeStructure_def bind_eq_Some_conv split: if_splits)
  then show ?thesis
    using assms addContact_typed editContact_typed deleteContact_typed
    by (auto simp: menu_action_def simp del: append.simps split: if_splits)
qed

lemma main_menu_typed: "main_menu input choice b = Some b' \<Longrightarrow> heap_typed (nodes b) \<Longrightarrow> heap_typed (nodes b')"
proof (induction rule: main_menu_induct)
  case (step mm input choice b b')
  obtain input' choice' inp ch b1 where st: "menu_action ch (b\<lparr>stdin := inp\<rparr>) = Some b1"
      "(if ch = 0 then Some b1 else mm input' choice' b1) = Some b'"
    using step(2) by (auto simp: bind_eq_Some_conv)
  with menu_action_typed[OF st(1)] step(1,3) show ?case by (auto split: if_splits)
qed

text \<open>
  C3. Whatever is typed, every contact allocated when a session of the phone book ends has its nine fields
  typed: each is a string without newline that its array holds, and both names are not empty.
\<close>

theorem session_keeps_types:
  assumes "main_book ptrs inp = Some b'" "nodes b' p = Some c"
  shows "contact_typed c"
  using main_menu_typed[of None None _ b'] assms heap_typedD unfolding main_book_def by fastforce

text \<open>Hypotheses met: a session that adds one contact.\<close>

lemma session_keeps_types_witness:
  "\<exists>b' p c. main_book [1, 2] (foldr add_command [sample ''B''] (show_nat 0 @ [NL])) = Some b' \<and>
     nodes b' p = Some c \<and> contact_typed c"
proof -
  let ?ds = "[sample ''B'']"
  let ?b = "\<lparr>nodes = Map.empty, root = 0, operationCount = 0, mallocs = [1, 2],
    stdin = foldr add_command ?ds (show_nat 0 @ [NL]), printed = []\<rparr>"
  have ok: "\<forall>d \<in> set ?ds. person_ok d" using person_ok_sample by simp
  have "book_ok ?b Leaf" by (simp add: book_ok_def)
  from main_menu_adds[OF this _ ok, of None None] obtain b' T where
    b': "main_book [1, 2] (foldr add_command ?ds (show_nat 0 @ [NL])) = Some b'"
      "rep (nodes b') (root b') T" "persons T = fold insert_sorted ?ds []"
    by (auto simp: main_book_def book_ok_def sorted_book_def)
  from b'(3) have "T \<noteq> Leaf" by (auto simp: insert_sorted_def)
  with b'(2) obtain p c where "nodes b' p = Some c" by (cases T) auto
  with b'(1) session_keeps_types[OF b'(1)] show ?thesis by blast
qed

end
