(* ===== verification/Contact_Tests.thy ===== *)
theory Contact_Tests
  imports Contacts_Props
begin

text \<open>
  module2/4_3/test.c: the five tests of the phone book, with their assertions. The tests call the tree
  operations directly, on nodes they allocate themselves. All pass on every heap that gives them memory,
  and leave no node allocated; the last one does not test what it announces.
\<close>

section \<open>The tests\<close>

text \<open>A failed assertion ends the program: \<open>Inl\<close> with its text. \<open>junk\<close> is what a fresh node contains.\<close>

type_synonym test = "book \<Rightarrow> (string + book) option"

partial_function (option) clearTree :: "heap \<Rightarrow> nat \<Rightarrow> heap option" where
  "clearTree h tree =
     (if tree = 0 then Some h
      else Option.bind (h tree) (\<lambda>t. Option.bind (clearTree h (left t)) (\<lambda>h1.
           Option.bind (h1 tree) (\<lambda>t1. Option.bind (clearTree h1 (right t1)) (\<lambda>h2.
           if h2 tree = None then None else Some (h2(tree := None)))))))"

definition clear_book :: "book \<Rightarrow> book option" where
  "clear_book b =
     (if root b = 0 then Some b
      else map_option (\<lambda>h. b\<lparr>nodes := h, root := 0\<rparr>) (clearTree (nodes b) (root b)))"

definition new_contact :: "person \<Rightarrow> Contact" where
  "new_contact c = \<lparr>lastname = lastname c, name = name c, patronymic = patronymic c, workplace = workplace c,
     position = position c, phone = phone c, email = email c, social = social c, messenger = messenger c,
     left = 0, right = 0\<rparr>"

text \<open>The result of \<open>malloc\<close> is not checked: the first copy into the node faults when it is null.\<close>

definition insert_new :: "person \<Rightarrow> book \<Rightarrow> (nat \<times> book) option" where
  "insert_new c b =
     (let (p, b1) = malloc b in
      if p = 0 then None
      else do {
        (r, h) \<leftarrow> tree_insert ((nodes b1)(p \<mapsto> new_contact c)) (root b1) p;
        Some (p, b1\<lparr>nodes := h, root := r\<rparr>)
      })"

definition test_add_contact :: test where
  "test_add_contact b = do {
     b1 \<leftarrow> clear_book (print ''Test 1: add contact    '' b);
     (c, b2) \<leftarrow> insert_new \<lparr>lastname = ''Ivanov'', name = ''Ivan'', patronymic = ''Ivanovich'', workplace = ''Company'',
                   position = ''Manager'', phone = ''123456789'', email = ''ivan@mail.ru'', social = ''vk.com/ivan'',
                   messenger = ''@ivan''\<rparr> b1;
     if root b2 = 0 then Some (Inl ''root != NULL'')
     else do {
       t \<leftarrow> nodes b2 (root b2);
       if strcmp (lastname t) ''Ivanov'' \<noteq> 0 then Some (Inl ''strcmp(root->lastname, \"Ivanov\") == 0'')
       else if strcmp (name t) ''Ivan'' \<noteq> 0 then Some (Inl ''strcmp(root->name, \"Ivan\") == 0'')
       else Some (Inr (print (''Done!'' @ [NL]) b2))
     }
   }"

definition numbered_contact :: "nat \<Rightarrow> person" where
  "numbered_contact i =
     \<lparr>lastname = ''LastName'' @ show_nat i, name = ''Name'' @ show_nat i, patronymic = ''Patr'', workplace = ''Work'',
      position = ''Pos'', phone = ''123'', email = ''a@a.ru'', social = ''soc'', messenger = ''mess''\<rparr>"

fun insert_numbered :: "nat list \<Rightarrow> book \<Rightarrow> book option" where
  "insert_numbered [] b = Some b"
| "insert_numbered (i # is) b = Option.bind (insert_new (numbered_contact i) b) (\<lambda>(c, b1). insert_numbered is b1)"

definition test_multiple_contacts :: test where
  "test_multiple_contacts b = do {
     b1 \<leftarrow> clear_book (print ''Test 2: add 15 contacts with balancing    '' b);
     b2 \<leftarrow> insert_numbered [0..<15] b1;
     n \<leftarrow> countNodes (nodes b2) (root b2);
     if n \<noteq> 15 then Some (Inl ''countNodes(root) == 15'') else Some (Inr (print (''Done!'' @ [NL]) b2))
   }"

definition test_delete_contact :: "person \<Rightarrow> test" where
  "test_delete_contact junk b = do {
     b1 \<leftarrow> clear_book (print ''Test 3: delete contact    '' b);
     (c1, b2) \<leftarrow> insert_new (junk\<lparr>lastname := ''AAA'', name := ''A''\<rparr>) b1;
     (c2, b3) \<leftarrow> insert_new (junk\<lparr>lastname := ''BBB'', name := ''B''\<rparr>) b2;
     (c3, b4) \<leftarrow> insert_new (junk\<lparr>lastname := ''CCC'', name := ''C''\<rparr>) b3;
     b5 \<leftarrow> printTreeStructure (print ([NL] @ ''Before deletion (3):'') b4);
     n \<leftarrow> countNodes (nodes b5) (root b5);
     if n \<noteq> 3 then Some (Inl ''countNodes(root) == 3'')
     else do {
       (r, h) \<leftarrow> deleteNode (nodes b5) (root b5) c2;
       let b6 = b5\<lparr>nodes := h, root := r\<rparr>;
       m \<leftarrow> countNodes (nodes b6) (root b6);
       if m \<noteq> 2 then Some (Inl ''countNodes(root) == 2'')
       else do {
         b7 \<leftarrow> printTreeStructure (print ([NL] @ ''After deletion (2):'') b6);
         Some (Inr (print (''Done!'' @ [NL]) b7))
       }
     }
   }"

definition test_balance :: "person \<Rightarrow> test" where
  "test_balance junk b = do {
     b1 \<leftarrow> clear_book (print ''Test 4: balance tree    '' b);
     (c1, b2) \<leftarrow> insert_new (junk\<lparr>lastname := ''Z'', name := ''Z''\<rparr>) b1;
     (c2, b3) \<leftarrow> insert_new (junk\<lparr>lastname := ''Y'', name := ''Y''\<rparr>) b2;
     (c3, b4) \<leftarrow> insert_new (junk\<lparr>lastname := ''X'', name := ''X''\<rparr>) b3;
     b5 \<leftarrow> printTreeStructure (print ([NL] @ ''Before balancing:'') b4);
     b6 \<leftarrow> balanceTree b5;
     b7 \<leftarrow> printTreeStructure (print ([NL] @ ''After balancing:'') b6);
     n \<leftarrow> countNodes (nodes b7) (root b7);
     if n \<noteq> 3 then Some (Inl ''countNodes(root) == 3'') else Some (Inr (print (''Done!'' @ [NL]) b7))
   }"

definition periodic_contact :: "nat \<Rightarrow> person" where
  "periodic_contact i =
     \<lparr>lastname = ''Z'' @ show_nat i, name = ''N'' @ show_nat i, patronymic = ''P'', workplace = ''W'',
      position = ''Pos'', phone = ''123'', email = ''a@a.ru'', social = ''soc'', messenger = ''mess''\<rparr>"

fun insert_periodic :: "nat list \<Rightarrow> book \<Rightarrow> book option" where
  "insert_periodic [] b = Some b"
| "insert_periodic (i # is) b = do {
     (c, b1) \<leftarrow> insert_new (periodic_contact i) b;
     b2 \<leftarrow> (if i = 9 then printTreeStructure (print ([NL] @ ''After 10 operations (before balancing):'') b1) else Some b1);
     b3 \<leftarrow> (if i = 10 then printTreeStructure (print ([NL] @ ''After 11 operations (after balancing):'') b2) else Some b2);
     insert_periodic is b3
   }"

definition test_periodic_balancing :: test where
  "test_periodic_balancing b = do {
     b1 \<leftarrow> clear_book (print ''Test 5: periodic balancing     '' b);
     b2 \<leftarrow> insert_periodic [0..<15] b1;
     n \<leftarrow> countNodes (nodes b2) (root b2);
     if n \<noteq> 15 then Some (Inl ''countNodes(root) == 15'')
     else do {
       b3 \<leftarrow> printTreeStructure (print ([NL] @ ''Final tree (15):'') b2);
       Some (Inr (print (''Done!'' @ [NL]) b3))
     }
   }"

fun run_tests :: "test list \<Rightarrow> test" where
  "run_tests [] b = Some (Inr b)"
| "run_tests (t # ts) b = Option.bind (t b) (\<lambda>r. case r of Inl e \<Rightarrow> Some (Inl e) | Inr b1 \<Rightarrow> run_tests ts b1)"

definition tests_main :: "person \<Rightarrow> nat list \<Rightarrow> (string + book) option" where
  "tests_main junk ptrs = do {
     r \<leftarrow> run_tests [test_add_contact, test_multiple_contacts, test_delete_contact junk, test_balance junk,
                     test_periodic_balancing]
            (print ([NL] @ ''    Tests!!!    '' @ [NL, NL])
               \<lparr>nodes = Map.empty, root = 0, operationCount = 0, mallocs = ptrs, stdin = [], printed = []\<rparr>);
     case r of
       Inl e \<Rightarrow> Some (Inl e)
     | Inr b \<Rightarrow> map_option (\<lambda>b1. Inr (print ([NL] @ ''  All tests DONE!!!  '' @ [NL]) b1)) (clear_book b)
   }"

section \<open>They pass\<close>

text \<open>The tree under the root, nothing else allocated, and the answers \<open>malloc\<close> still has.\<close>

definition tests_ok :: "book \<Rightarrow> ptree \<Rightarrow> nat list \<Rightarrow> bool" where
  "tests_ok b T ps \<longleftrightarrow> book_ok b T \<and> 0 \<notin> set ps \<and> mallocs b = ps \<and> dom (nodes b) = set (addrs T)"

lemma tests_ok_print [simp]: "tests_ok (print s b) T ps = tests_ok b T ps"
  by (simp add: tests_ok_def)

lemma new_contact_simps [simp]:
  "left (new_contact c) = 0" "right (new_contact c) = 0" "person.truncate (new_contact c) = c"
  by (simp_all add: new_contact_def person.defs)

lemma rep_frame_disjoint: "rep h p T \<Longrightarrow> set (addrs T) \<inter> A = {} \<Longrightarrow> rep (h |` (- A)) p T"
  by (erule rep_frame[rotated]) (auto simp: restrict_map_def)

lemma clearTree_rep:
  "rep h p T \<Longrightarrow> distinct (addrs T) \<Longrightarrow> clearTree h p = Some (h |` (- set (addrs T)))"
proof (induction T arbitrary: h p)
  case Leaf
  then show ?case by (subst clearTree.simps) (simp add: restrict_map_def)
next
  case (Node l ad r)
  then obtain t where t: "h p = Some t" "p \<noteq> 0" "p = fst ad" "rep h (left t) l" "rep h (right t) r" by auto
  have dist: "p \<notin> set (addrs l)" "p \<notin> set (addrs r)" "set (addrs l) \<inter> set (addrs r) = {}"
    using Node.prems(2) t(3) by auto
  have l: "clearTree h (left t) = Some (h |` (- set (addrs l)))"
    using Node.IH(1)[OF t(4)] Node.prems(2) by simp
  have "rep (h |` (- set (addrs l))) (right t) r"
    using rep_frame_disjoint[OF t(5)] dist(3) by blast
  from Node.IH(2)[OF this] have r: "clearTree (h |` (- set (addrs l))) (right t) =
      Some (h |` (- set (addrs l) \<inter> - set (addrs r)))"
    using Node.prems(2) by (simp add: ac_simps)
  show ?case
    using t(1-3) dist l r
    by (subst clearTree.simps) (auto simp: restrict_map_def fun_eq_iff)
qed

lemma clear_tests:
  assumes "tests_ok b T ps"
  shows "\<exists>b'. clear_book b = Some b' \<and> tests_ok b' Leaf ps \<and> printed b' = printed b \<and>
    operationCount b' = operationCount b \<and> stdin b' = stdin b"
proof -
  have b: "rep (nodes b) (root b) T" "distinct (addrs T)" "dom (nodes b) = set (addrs T)"
    using assms by (auto simp: tests_ok_def book_ok_def)
  have "nodes b |` (- set (addrs T)) = Map.empty" using b(3) by (auto simp: restrict_map_def fun_eq_iff)
  then show ?thesis
    using assms clearTree_rep[OF b(1,2)] rep_0[of "nodes b" T] b(1,3)
    by (auto simp: clear_book_def tests_ok_def book_ok_def)
qed

lemma insert_tests:
  assumes "tests_ok b T (p # ps)"
  shows "\<exists>b'. insert_new c b = Some (p, b') \<and> tests_ok b' (tins (p, c) T) ps \<and> printed b' = printed b \<and>
    operationCount b' = operationCount b \<and> stdin b' = stdin b"
proof -
  let ?h = "(nodes b)(p \<mapsto> new_contact c)"
  have p: "p \<noteq> 0" "mallocs b = p # ps" "book_ok b T" "0 \<notin> set ps" "dom (nodes b) = set (addrs T)"
    using assms by (auto simp: tests_ok_def)
  then have new: "p \<notin> set (addrs T)" "p \<notin> set ps" "distinct (addrs T)" "distinct (filter (\<lambda>p. p \<noteq> 0) ps)"
      "set ps \<inter> set (addrs T) = {}"
    by (auto simp: book_ok_def)
  have "rep ?h (root b) T"
    by (rule rep_frame[of T _ "nodes b"]) (use new p(3) in \<open>auto simp: book_ok_def\<close>)
  from tree_insert_rep[OF this new(3,1) p(1), of "new_contact c"]
  obtain r h where h: "tree_insert ?h (root b) p = Some (r, h)" "rep h r (tins (p, c) T)"
      "\<forall>q. q \<notin> set (addrs T) \<longrightarrow> h q = ?h q"
    by auto
  have "q \<in> dom h \<longleftrightarrow> q \<in> set (addrs (tins (p, c) T))" for q
    using h(3) rep_dom[OF h(2), of q] p(5) by (cases "q \<in> set (addrs (tins (p, c) T))") (auto simp: set_addrs_tins)
  then have "dom h = set (addrs (tins (p, c) T))" by blast
  moreover have "distinct (addrs (tins (p, c) T))" using new(1,3) by (simp add: distinct_addrs_tins)
  moreover have "insert_new c b = Some (p, b\<lparr>mallocs := ps, nodes := h, root := r\<rparr>)"
    using h(1) p(1,2) by (simp add: insert_new_def malloc_def)
  ultimately show ?thesis
    using h(2) p(4) new(1,2,4,5) by (simp add: tests_ok_def book_ok_def set_addrs_tins)
qed

lemma size_tins [simp]: "size (tins x T) = Suc (size T)"
  by (induction T) auto

lemma printTreeWithBranches_rep: "rep h p T \<Longrightarrow> \<exists>out. printTreeWithBranches h p level isLeft = Some out"
proof (induction T arbitrary: p level isLeft)
  case Leaf
  then show ?case by (subst printTreeWithBranches.simps) simp
next
  case (Node l ad r)
  then obtain t where t: "h p = Some t" "p \<noteq> 0" "rep h (left t) l" "rep h (right t) r" by auto
  obtain o1 where "printTreeWithBranches h (right t) (Suc level) False = Some o1" using Node.IH(2)[OF t(4)] by blast
  moreover obtain o2 where "printTreeWithBranches h (left t) (Suc level) True = Some o2" using Node.IH(1)[OF t(3)] by blast
  ultimately show ?case using t(1,2) by (subst printTreeWithBranches.simps) simp
qed

lemma structure_tests:
  assumes "tests_ok b T ps"
  shows "\<exists>out. printTreeStructure b = Some (b\<lparr>printed := out\<rparr>)"
proof -
  have "rep (nodes b) (root b) T" using assms by (simp add: tests_ok_def book_ok_def)
  from printTreeWithBranches_rep[OF this] obtain out
    where "printTreeWithBranches (nodes b) (root b) 0 False = Some out" by blast
  then show ?thesis by (auto simp: printTreeStructure_def print_def)
qed

lemma tests_ok_printed [simp]: "tests_ok (b\<lparr>printed := out\<rparr>) T ps = tests_ok b T ps"
  by (simp add: tests_ok_def)

lemma count_tests: "tests_ok b T ps \<Longrightarrow> countNodes (nodes b) (root b) = Some (size T)"
  by (simp add: tests_ok_def book_ok_def countNodes_rep)

lemma numbered_tests:
  assumes "tests_ok b T ps" "length is \<le> length ps"
  shows "\<exists>b' T'. insert_numbered is b = Some b' \<and> tests_ok b' T' (drop (length is) ps) \<and> size T' = size T + length is"
  using assms
proof (induction "is" arbitrary: b T ps)
  case Nil
  then show ?case by auto
next
  case (Cons i "is")
  then obtain p qs where ps: "ps = p # qs" by (cases ps) auto
  from insert_tests[OF Cons.prems(1)[unfolded ps], of "numbered_contact i"]
  obtain b1 where b1: "insert_new (numbered_contact i) b = Some (p, b1)" "tests_ok b1 (tins (p, numbered_contact i) T) qs"
    by blast
  from Cons.IH[OF b1(2)] Cons.prems(2) ps b1(1) show ?case by auto
qed

lemma periodic_tests:
  assumes "tests_ok b T ps" "length is \<le> length ps"
  shows "\<exists>b'. insert_periodic is b = Some b' \<and>
    tests_ok b' (fold tins (zip ps (map periodic_contact is)) T) (drop (length is) ps)"
  using assms
proof (induction "is" arbitrary: b T ps)
  case Nil
  then show ?case by auto
next
  case (Cons i "is")
  then obtain p qs where ps: "ps = p # qs" by (cases ps) auto
  let ?T = "tins (p, periodic_contact i) T"
  from insert_tests[OF Cons.prems(1)[unfolded ps], of "periodic_contact i"]
  obtain b1 where b1: "insert_new (periodic_contact i) b = Some (p, b1)" "tests_ok b1 ?T qs" by blast
  have step: "\<exists>b'. (if P then printTreeStructure (print x c) else Some c) = Some b' \<and> tests_ok b' ?T qs"
    if "tests_ok c ?T qs" for P x c
    using structure_tests[of "print x c" ?T qs] that by auto
  obtain b2 where b2: "(if i = 9 then printTreeStructure (print ([NL] @ ''After 10 operations (before balancing):'') b1) else Some b1) = Some b2"
      "tests_ok b2 ?T qs" using step[OF b1(2)] by blast
  obtain b3 where b3: "(if i = 10 then printTreeStructure (print ([NL] @ ''After 11 operations (after balancing):'') b2) else Some b2) = Some b3"
      "tests_ok b3 ?T qs" using step[OF b2(2)] by blast
  from Cons.IH[OF b3(2)] Cons.prems(2) ps b1(1) b2(1) b3(1) show ?case
    by (simp only: insert_periodic.simps) simp
qed

lemma size_fold_tins [simp]: "size (fold tins xs T) = size T + length xs"
  by (induction xs arbitrary: T) auto

lemma test_add_passes:
  assumes "tests_ok b T (p # ps)"
  shows "\<exists>b' T'. test_add_contact b = Some (Inr b') \<and> tests_ok b' T' ps"
proof -
  let ?c = "\<lparr>lastname = ''Ivanov'', name = ''Ivan'', patronymic = ''Ivanovich'', workplace = ''Company'',
    position = ''Manager'', phone = ''123456789'', email = ''ivan@mail.ru'', social = ''vk.com/ivan'',
    messenger = ''@ivan''\<rparr> :: person"
  obtain b1 where b1: "clear_book (print ''Test 1: add contact    '' b) = Some b1" "tests_ok b1 Leaf (p # ps)"
    using clear_tests[of "print ''Test 1: add contact    '' b" T "p # ps"] assms by auto
  from insert_tests[OF b1(2), of ?c] obtain b2
    where b2: "insert_new ?c b1 = Some (p, b2)" "tests_ok b2 (tins (p, ?c) Leaf) ps" by blast
  then obtain t where t: "root b2 \<noteq> 0" "nodes b2 (root b2) = Some t" "person.truncate t = ?c"
    by (auto simp: tests_ok_def book_ok_def)
  from t(3) have "lastname t = ''Ivanov''" "name t = ''Ivan''" by (auto simp: person.defs)
  with b1 b2 t show ?thesis by (auto simp: test_add_contact_def strcmp_eq_0)
qed

lemma test_multiple_passes:
  assumes "tests_ok b T ps" "15 \<le> length ps"
  shows "\<exists>b' T'. test_multiple_contacts b = Some (Inr b') \<and> tests_ok b' T' (drop 15 ps)"
proof -
  let ?s = "''Test 2: add 15 contacts with balancing    ''"
  obtain b1 where b1: "clear_book (print ?s b) = Some b1" "tests_ok b1 Leaf ps"
    using clear_tests[of "print ?s b" T ps] assms(1) by auto
  obtain b2 T2 where b2: "insert_numbered [0..<15] b1 = Some b2" "tests_ok b2 T2 (drop 15 ps)" "size T2 = 15"
    using numbered_tests[OF b1(2), of "[0..<15]"] assms(2) by auto
  with b1(1) count_tests[OF b2(2)] show ?thesis by (auto simp: test_multiple_contacts_def)
qed

lemma test_periodic_passes:
  assumes "tests_ok b T ps" "15 \<le> length ps"
  shows "\<exists>b' T'. test_periodic_balancing b = Some (Inr b') \<and> tests_ok b' T' (drop 15 ps)"
proof -
  let ?s = "''Test 5: periodic balancing     ''"
  obtain b1 where b1: "clear_book (print ?s b) = Some b1" "tests_ok b1 Leaf ps"
    using clear_tests[of "print ?s b" T ps] assms(1) by auto
  obtain b2 T2 where b2: "insert_periodic [0..<15] b1 = Some b2" "tests_ok b2 T2 (drop 15 ps)" "size T2 = 15"
    using periodic_tests[OF b1(2), of "[0..<15]"] assms(2) by fastforce
  obtain out where "printTreeStructure (print ([NL] @ ''Final tree (15):'') b2) = Some ((print ([NL] @ ''Final tree (15):'') b2)\<lparr>printed := out\<rparr>)"
    using structure_tests[of "print ([NL] @ ''Final tree (15):'') b2" T2 "drop 15 ps"] b2(2) by auto
  with b1(1) b2 count_tests[OF b2(2)] show ?thesis by (auto simp: test_periodic_balancing_def)
qed

lemma delete_second:
  assumes "rep h p (Node Leaf (p1, d1) (Node Leaf (p2, d2) r))" "p1 \<noteq> p2" "key d1 < key d2"
    and "p1 \<notin> set (addrs r)" "p2 \<notin> set (addrs r)"
  shows "\<exists>h'. deleteNode h p p2 = Some (p1, h') \<and> rep h' p1 (Node Leaf (p1, d1) r) \<and> dom h' = dom h - {p2}"
proof -
  obtain t1 t2 where t: "p = p1" "p1 \<noteq> 0" "h p1 = Some t1" "person.truncate t1 = d1" "left t1 = 0" "right t1 = p2"
      "p2 \<noteq> 0" "h p2 = Some t2" "person.truncate t2 = d2" "left t2 = 0" "rep h (right t2) r"
    using assms(1) by (auto simp: rep_0)
  have keys: "key t1 < key t2" using t(4,9) assms(3) by auto
  then have up: "\<not> compare t2 t1 < 0" "0 < compare t2 t1" "\<not> compare t2 t2 < 0" "\<not> 0 < compare t2 t2"
    by (simp_all add: compare_key)
  have "deleteNode h p2 p2 = Some (right t2, h(p2 := None))"
    using t(7,8,10) up(3,4) by (subst deleteNode.simps) (simp add: Let_def)
  then have "deleteNode h p p2 = Some (p1, (h(p2 := None))(p1 \<mapsto> t1\<lparr>right := right t2\<rparr>))"
    using t(1-3,6,8) up(1,2) assms(2) by (subst deleteNode.simps) (simp add: Let_def)
  moreover have "rep ((h(p2 := None))(p1 \<mapsto> t1\<lparr>right := right t2\<rparr>)) (right t2) r"
    by (rule rep_frame[OF _ t(11)]) (use assms(4,5) in auto)
  ultimately show ?thesis using t(2-5) assms(2) by (auto simp: rep_0)
qed

lemma test_delete_passes:
  assumes "tests_ok b T (p1 # p2 # p3 # ps)"
  shows "\<exists>b' T'. test_delete_contact junk b = Some (Inr b') \<and> tests_ok b' T' ps"
proof -
  let ?s = "''Test 3: delete contact    ''" and ?before = "[NL] @ ''Before deletion (3):''" and ?after = "[NL] @ ''After deletion (2):''"
  define d1 d2 d3 where d: "d1 = junk\<lparr>lastname := ''AAA'', name := ''A''\<rparr>" "d2 = junk\<lparr>lastname := ''BBB'', name := ''B''\<rparr>"
    "d3 = junk\<lparr>lastname := ''CCC'', name := ''C''\<rparr>"
  have keys: "key d1 < key d2" "\<not> key d2 < key d1" "\<not> key d3 < key d1" "\<not> key d3 < key d2"
    by (simp_all add: d key_def)
  obtain b1 where b1: "clear_book (print ?s b) = Some b1" "tests_ok b1 Leaf (p1 # p2 # p3 # ps)"
    using clear_tests[of "print ?s b" T "p1 # p2 # p3 # ps"] assms(1) by auto
  obtain b2 where b2: "insert_new d1 b1 = Some (p1, b2)" "tests_ok b2 (Node Leaf (p1, d1) Leaf) (p2 # p3 # ps)"
    using insert_tests[OF b1(2)] by auto
  obtain b3 where b3: "insert_new d2 b2 = Some (p2, b3)" "tests_ok b3 (Node Leaf (p1, d1) (Node Leaf (p2, d2) Leaf)) (p3 # ps)"
    using insert_tests[OF b2(2), of d2] keys by auto
  let ?T = "Node Leaf (p1, d1) (Node Leaf (p2, d2) (Node Leaf (p3, d3) Leaf))"
  obtain b4 where b4: "insert_new d3 b3 = Some (p3, b4)" "tests_ok b4 ?T ps"
    using insert_tests[OF b3(2), of d3] keys by auto
  obtain b5 where b5: "printTreeStructure (print ?before b4) = Some b5" "tests_ok b5 ?T ps"
    using structure_tests[of "print ?before b4" ?T ps] b4(2) by auto
  have "rep (nodes b5) (root b5) ?T" "p1 \<noteq> p2" "p3 \<noteq> p1" "p3 \<noteq> p2" using b5(2) by (auto simp: tests_ok_def book_ok_def)
  then obtain h where h: "deleteNode (nodes b5) (root b5) p2 = Some (p1, h)"
      "rep h p1 (Node Leaf (p1, d1) (Node Leaf (p3, d3) Leaf))" "dom h = dom (nodes b5) - {p2}"
    using delete_second[of "nodes b5" "root b5" p1 d1 p2 d2 "Node Leaf (p3, d3) Leaf"] keys(1) by auto
  let ?b6 = "b5\<lparr>nodes := h, root := p1\<rparr>" and ?T6 = "Node Leaf (p1, d1) (Node Leaf (p3, d3) Leaf)"
  have b6: "tests_ok ?b6 ?T6 ps"
    using h(2,3) b5(2) by (auto simp: tests_ok_def book_ok_def)
  obtain b7 where b7: "printTreeStructure (print ?after ?b6) = Some b7" "tests_ok b7 ?T6 ps"
    using structure_tests[of "print ?after ?b6" ?T6 ps] b6 by auto
  from count_tests[OF b5(2)] count_tests[OF b6] have n: "countNodes (nodes b5) (root b5) = Some 3" "countNodes h p1 = Some 2"
    by simp_all
  have "test_delete_contact junk b = Some (Inr (print (''Done!'' @ [NL]) b7))"
    unfolding test_delete_contact_def d[symmetric] by (simp add: b1(1) b2(1) b3(1) b4(1) b5(1) b7(1) n h(1) del: append_Cons append_Nil)
  with b7(2) show ?thesis by auto
qed

lemma balance_tests:
  assumes "tests_ok b T (p # ps)" "2 \<le> size T"
  shows "\<exists>b' T'. balanceTree b = Some b' \<and> tests_ok b' T' ps \<and> size T' = size T"
proof -
  have b: "book_ok b T" "p \<noteq> 0" "malloc b = (p, b\<lparr>mallocs := ps\<rparr>)" "dom (nodes b) = set (addrs T)"
    using assms(1) by (auto simp: tests_ok_def malloc_def)
  obtain h r where h: "balanceTree b = Some (b\<lparr>mallocs := ps, nodes := h, root := r\<rparr>)" "rep h r (halves (inorder T))"
      "same_persons h (nodes b)"
    using balanceTree_cases[OF b(1)] assms(2) b(2,3) by auto
  have "h q = None \<longleftrightarrow> nodes b q = None" for q using h(3) unfolding same_persons_def by (metis map_option_is_None)
  then have "dom h = dom (nodes b)" by (simp add: dom_def)
  moreover have "size (halves (inorder T)) = size T" by (metis persons_halves(1) length_addrs(2))
  ultimately show ?thesis
    using h(1,2) b assms(1) by (auto simp: tests_ok_def book_ok_def persons_halves)
qed

lemma test_balance_passes:
  assumes "tests_ok b T (p1 # p2 # p3 # p4 # ps)"
  shows "\<exists>b' T'. test_balance junk b = Some (Inr b') \<and> tests_ok b' T' ps"
proof -
  let ?s = "''Test 4: balance tree    ''" and ?before = "[NL] @ ''Before balancing:''" and ?after = "[NL] @ ''After balancing:''"
  obtain b1 where b1: "clear_book (print ?s b) = Some b1" "tests_ok b1 Leaf (p1 # p2 # p3 # p4 # ps)"
    using clear_tests[of "print ?s b" T "p1 # p2 # p3 # p4 # ps"] assms(1) by auto
  define c1 c2 c3 where c: "c1 = junk\<lparr>lastname := ''Z'', name := ''Z''\<rparr>" "c2 = junk\<lparr>lastname := ''Y'', name := ''Y''\<rparr>"
    "c3 = junk\<lparr>lastname := ''X'', name := ''X''\<rparr>"
  obtain b2 where b2: "insert_new c1 b1 = Some (p1, b2)" "tests_ok b2 (tins (p1, c1) Leaf) (p2 # p3 # p4 # ps)"
    using insert_tests[OF b1(2)] by blast
  obtain b3 where b3: "insert_new c2 b2 = Some (p2, b3)" "tests_ok b3 (tins (p2, c2) (tins (p1, c1) Leaf)) (p3 # p4 # ps)"
    using insert_tests[OF b2(2)] by blast
  define T4 where "T4 = tins (p3, c3) (tins (p2, c2) (tins (p1, c1) Leaf))"
  obtain b4 where b4: "insert_new c3 b3 = Some (p3, b4)" "tests_ok b4 T4 (p4 # ps)"
    using insert_tests[OF b3(2)] unfolding T4_def by blast
  have T4: "size T4 = 3" by (simp add: T4_def del: tins.simps)
  obtain b5 where b5: "printTreeStructure (print ?before b4) = Some b5" "tests_ok b5 T4 (p4 # ps)"
    using structure_tests[of "print ?before b4" T4 "p4 # ps"] b4(2) by auto
  obtain b6 T6 where b6: "balanceTree b5 = Some b6" "tests_ok b6 T6 ps" "size T6 = 3"
    using balance_tests[OF b5(2)] T4 by auto
  obtain b7 where b7: "printTreeStructure (print ?after b6) = Some b7" "tests_ok b7 T6 ps"
    using structure_tests[of "print ?after b6" T6 ps] b6 by auto
  have n: "countNodes (nodes b7) (root b7) = Some 3" using count_tests[OF b7(2)] b6(3) by simp
  have "test_balance junk b = Some (Inr (print (''Done!'' @ [NL]) b7))"
    unfolding test_balance_def c[symmetric] by (simp add: b1(1) b2(1) b3(1) b4(1) b5(1) b6(1) b7(1) n del: append_Cons append_Nil)
  with b7(2) show ?thesis by auto
qed

text \<open>
  All five tests pass, whatever fresh nodes contain and whichever distinct addresses they get, with 38
  allocations that succeed: no assertion fails, nothing faults, and at the end every node has been freed.
\<close>

theorem tests_pass:
  assumes "distinct ptrs" "0 \<notin> set ptrs" "38 \<le> length ptrs"
  shows "\<exists>b. tests_main junk ptrs = Some (Inr b) \<and> nodes b = Map.empty \<and> root b = 0 \<and> mallocs b = drop 38 ptrs"
proof -
  let ?b0 = "print ([NL] @ ''    Tests!!!    '' @ [NL, NL])
    \<lparr>nodes = Map.empty, root = 0, operationCount = 0, mallocs = ptrs, stdin = [], printed = []\<rparr>"
  have start: "tests_ok ?b0 Leaf ptrs" using assms by (simp add: tests_ok_def book_ok_def rep_0)
  have len: "15 \<le> length (drop 1 ptrs)" "15 \<le> length (drop 23 ptrs)" using assms(3) by simp_all
  have tl_drop: "drop n ptrs = ptrs ! n # drop (Suc n) ptrs" if "n < 38" for n
    using that assms(3) by (simp add: Cons_nth_drop_Suc)
  obtain b1 T1 where b1: "test_add_contact ?b0 = Some (Inr b1)" "tests_ok b1 T1 (drop 1 ptrs)"
    using test_add_passes[of ?b0 Leaf "ptrs ! 0" "drop 1 ptrs"] start tl_drop[of 0] by auto
  obtain b2 T2 where b2: "test_multiple_contacts b1 = Some (Inr b2)" "tests_ok b2 T2 (drop 16 ptrs)"
    using test_multiple_passes[OF b1(2) len(1)] by auto
  obtain b3 T3 where b3: "test_delete_contact junk b2 = Some (Inr b3)" "tests_ok b3 T3 (drop 19 ptrs)"
    using test_delete_passes[of b2 T2 "ptrs ! 16" "ptrs ! 17" "ptrs ! 18" "drop 19 ptrs" junk] b2(2) tl_drop[of 16] tl_drop[of 17] tl_drop[of 18]
    by auto
  obtain b4 T4 where b4: "test_balance junk b3 = Some (Inr b4)" "tests_ok b4 T4 (drop 23 ptrs)"
    using test_balance_passes[of b3 T3 "ptrs ! 19" "ptrs ! 20" "ptrs ! 21" "ptrs ! 22" "drop 23 ptrs" junk] b3(2)
      tl_drop[of 19] tl_drop[of 20] tl_drop[of 21] tl_drop[of 22] by auto
  obtain b5 T5 where b5: "test_periodic_balancing b4 = Some (Inr b5)" "tests_ok b5 T5 (drop 38 ptrs)"
    using test_periodic_passes[OF b4(2) len(2)] by auto
  obtain b6 where b6: "clear_book b5 = Some b6" "tests_ok b6 Leaf (drop 38 ptrs)"
    using clear_tests[OF b5(2)] by auto
  have "tests_main junk ptrs = Some (Inr (print ([NL] @ ''  All tests DONE!!!  '' @ [NL]) b6))"
    unfolding tests_main_def by (simp add: b1(1) b2(1) b3(1) b4(1) b5(1) b6(1) del: append_Cons append_Nil)
  with b6(2) show ?thesis by (auto simp: tests_ok_def book_ok_def rep_0)
qed

text \<open>
  The last test announces a tree that was rebalanced after ten operations. It is not: \<open>insert\<close> neither
  counts operations nor balances, and the tree of the eleven contacts is ten nodes high.
\<close>

lemma periodic_test_unbalanced:
  "\<exists>b T. insert_periodic [0..<11]
      \<lparr>nodes = Map.empty, root = 0, operationCount = 0, mallocs = [1..<12], stdin = [], printed = []\<rparr> = Some b \<and>
    book_ok b T \<and> size T = 11 \<and> height T = 10"
proof -
  let ?b0 = "\<lparr>nodes = Map.empty, root = 0, operationCount = 0, mallocs = [1..<12], stdin = [], printed = []\<rparr>"
  let ?T = "fold tins (zip [1..<12] (map periodic_contact [0..<11])) Leaf"
  have "tests_ok ?b0 Leaf [1..<12]" by (simp add: tests_ok_def book_ok_def rep_0)
  from periodic_tests[OF this, of "[0..<11]"] obtain b where "insert_periodic [0..<11] ?b0 = Some b" "book_ok b ?T"
    by (auto simp: tests_ok_def)
  moreover have "height ?T = 10" by code_simp
  moreover have "size ?T = 11" by simp
  ultimately show ?thesis by blast
qed

end
