(* ===== verification/Table_Interface.thy ===== *)
theory Table_Interface
  imports C_Prelude
begin

text \<open>
  The contract of a bounded table without duplicates: an array of fixed capacity with a count of
  live entries, an insertion that ignores an entry already present and one that does not fit, and
  a removal that takes out the first match and closes the gap. The broker's subscription and
  publisher tables and the firewall's block list promise it; each interprets the locale on its
  own operations and takes its properties from here.
\<close>

datatype 'e table_op = Ins 'e | Del 'e

fun table_run :: "('e \<Rightarrow> 't \<Rightarrow> 't) \<Rightarrow> ('e \<Rightarrow> 't \<Rightarrow> 't) \<Rightarrow> 'e table_op list \<Rightarrow> 't \<Rightarrow> 't" where
  "table_run ins del [] t = t"
| "table_run ins del (Ins e # ops) t = table_run ins del ops (ins e t)"
| "table_run ins del (Del e # ops) t = table_run ins del ops (del e t)"

text \<open>The abstract table: the set of entries the operations leave, as long as there is room.\<close>

fun set_run :: "'e table_op list \<Rightarrow> 'e set \<Rightarrow> 'e set" where
  "set_run [] S = S"
| "set_run (Ins e # ops) S = set_run ops (insert e S)"
| "set_run (Del e # ops) S = set_run ops (S - {e})"

text \<open>The abstract table of a given size: an entry that does not fit any more is not taken.\<close>

fun capped_run :: "nat \<Rightarrow> 'e table_op list \<Rightarrow> 'e set \<Rightarrow> 'e set" where
  "capped_run cap [] S = S"
| "capped_run cap (Ins e # ops) S = capped_run cap ops (if card S < cap then insert e S else S)"
| "capped_run cap (Del e # ops) S = capped_run cap ops (S - {e})"

fun ins_count :: "'e table_op list \<Rightarrow> nat" where
  "ins_count [] = 0"
| "ins_count (Ins e # ops) = Suc (ins_count ops)"
| "ins_count (Del e # ops) = ins_count ops"

locale bounded_table =
  fixes entries :: "'t \<Rightarrow> 'e list"
    and wf :: "'t \<Rightarrow> bool"
    and cap :: nat
    and ins :: "'e \<Rightarrow> 't \<Rightarrow> 't"
    and del :: "'e \<Rightarrow> 't \<Rightarrow> 't"
  assumes wf_cap: "wf t \<Longrightarrow> length (entries t) \<le> cap"
    and entries_ins: "wf t \<Longrightarrow> entries (ins e t) =
      (if e \<in> set (entries t) \<or> cap \<le> length (entries t) then entries t else entries t @ [e])"
    and entries_del: "wf t \<Longrightarrow> entries (del e t) = remove1 e (entries t)"
    and wf_ins: "wf t \<Longrightarrow> wf (ins e t)"
    and wf_del: "wf t \<Longrightarrow> wf (del e t)"
begin

lemma distinct_ins: "wf t \<Longrightarrow> distinct (entries t) \<Longrightarrow> distinct (entries (ins e t))"
  by (simp add: entries_ins)

lemma distinct_del: "wf t \<Longrightarrow> distinct (entries t) \<Longrightarrow> distinct (entries (del e t))"
  by (simp add: entries_del)

lemma run_wf_distinct:
  "wf t \<Longrightarrow> distinct (entries t) \<Longrightarrow>
   wf (table_run ins del ops t) \<and> distinct (entries (table_run ins del ops t))"
proof (induction ops arbitrary: t)
  case (Cons a ops)
  then show ?case by (cases a) (simp_all add: wf_ins wf_del distinct_ins distinct_del)
qed simp

lemma member_ins: "wf t \<Longrightarrow> length (entries t) < cap \<Longrightarrow> e \<in> set (entries (ins e t))"
  by (simp add: entries_ins)

lemma ins_full: "wf t \<Longrightarrow> cap \<le> length (entries t) \<Longrightarrow> entries (ins e t) = entries t"
  by (simp add: entries_ins)

lemma ins_idem: "wf t \<Longrightarrow> entries (ins e (ins e t)) = entries (ins e t)"
  by (simp add: entries_ins wf_ins)

lemma not_member_del: "wf t \<Longrightarrow> distinct (entries t) \<Longrightarrow> e \<notin> set (entries (del e t))"
  by (simp add: entries_del)

lemma set_ins: "wf t \<Longrightarrow> length (entries t) < cap \<Longrightarrow> set (entries (ins e t)) = insert e (set (entries t))"
  by (auto simp: entries_ins)

lemma set_del: "wf t \<Longrightarrow> distinct (entries t) \<Longrightarrow> set (entries (del e t)) = set (entries t) - {e}"
  by (simp add: entries_del)

lemma del_ins_new:
  "wf t \<Longrightarrow> e \<notin> set (entries t) \<Longrightarrow> length (entries t) < cap \<Longrightarrow>
   entries (del e (ins e t)) = entries t"
  by (simp add: entries_del entries_ins wf_ins remove1_append)

lemma length_ins_le: "wf t \<Longrightarrow> length (entries (ins e t)) \<le> Suc (length (entries t))"
  by (simp add: entries_ins)

lemma length_del_le: "wf t \<Longrightarrow> length (entries (del e t)) \<le> length (entries t)"
  by (simp add: entries_del length_remove1)

text \<open>With room for every insertion the table refines the set it stands for.\<close>

lemma run_refines_set:
  "wf t \<Longrightarrow> distinct (entries t) \<Longrightarrow> length (entries t) + ins_count ops \<le> cap \<Longrightarrow>
   set (entries (table_run ins del ops t)) = set_run ops (set (entries t))"
proof (induction ops arbitrary: t)
  case (Cons a ops)
  show ?case
  proof (cases a)
    case (Ins e)
    have "length (entries (ins e t)) + ins_count ops \<le> cap"
      using Cons.prems Ins length_ins_le[of t e] by simp
    then show ?thesis
      using Cons.IH[of "ins e t"] Cons.prems Ins by (simp add: wf_ins distinct_ins set_ins)
  next
    case (Del e)
    have "length (entries (del e t)) + ins_count ops \<le> cap"
      using Cons.prems Del length_del_le[of t e] by simp
    then show ?thesis
      using Cons.IH[of "del e t"] Cons.prems Del by (simp add: wf_del distinct_del set_del)
  qed
qed simp

text \<open>Whatever the operations, it refines the set of its size.\<close>

lemma run_refines_capped:
  "wf t \<Longrightarrow> distinct (entries t) \<Longrightarrow> set (entries (table_run ins del ops t)) = capped_run cap ops (set (entries t))"
proof (induction ops arbitrary: t)
  case (Cons a ops)
  show ?case
  proof (cases a)
    case (Ins e)
    have "set (entries (ins e t)) = (if card (set (entries t)) < cap then insert e (set (entries t)) else set (entries t))"
      using Cons.prems wf_cap[of t] by (auto simp: entries_ins distinct_card)
    then show ?thesis using Cons.IH[of "ins e t"] Cons.prems Ins by (simp add: wf_ins distinct_ins)
  next
    case (Del e)
    then show ?thesis using Cons.IH[of "del e t"] Cons.prems by (simp add: wf_del distinct_del set_del)
  qed
qed simp

end

end
