(* ===== verification/Broker.thy ===== *)
theory Broker
  imports C_Decimal Table_Interface
begin

text \<open>
  module3/02: a publish/subscribe broker over one System V message queue. The broker's tables and
  message handler (broker.c), the message parsers (utils.c), and the two clients (publisher.c,
  subscriber.c) as the messages they put on the queue. The queue is a list of messages; type 1 is
  addressed to the broker, type \<open>pid\<close> to the subscriber with that process id. A client's read
  and write of its buffers and the broker's are checked: \<open>None\<close> is undefined behaviour.
\<close>

section \<open>Data (broker.h)\<close>

definition MAX_TOPIC_LEN :: nat where "MAX_TOPIC_LEN = 64"
definition MAX_PAYLOAD_LEN :: nat where "MAX_PAYLOAD_LEN = 256"
definition MAX_PID_LIST :: nat where "MAX_PID_LIST = 100"
definition MAX_SUBSCRIPTIONS :: nat where "MAX_SUBSCRIPTIONS = 200"
definition COMMAND_LEN :: nat where "COMMAND_LEN = 32"
definition MTEXT_LEN :: nat where "MTEXT_LEN = 512"

lemmas broker_sizes [simp] = MAX_TOPIC_LEN_def MAX_PAYLOAD_LEN_def COMMAND_LEN_def MTEXT_LEN_def

record msgbuf =
  mtype :: int
  mtext :: string

record subscription =
  sub_pid :: int
  sub_topic :: string

text \<open>\<open>struct publisher\<close> has the one field \<open>pid\<close>; the tables are whole arrays with a count.\<close>

record broker =
  subscriptions :: "subscription list"
  sub_count :: nat
  publishers :: "int list"
  pub_count :: nat
  mqueue :: "msgbuf list"
  kills :: "int list"
  bout :: "string list"

definition say :: "string \<Rightarrow> broker \<Rightarrow> broker" where
  "say s b = b\<lparr>bout := bout b @ [s]\<rparr>"

lemma say_frame [simp]:
  "subscriptions (say s b) = subscriptions b" "sub_count (say s b) = sub_count b"
  "publishers (say s b) = publishers b" "pub_count (say s b) = pub_count b"
  "mqueue (say s b) = mqueue b" "kills (say s b) = kills b"
  by (simp_all add: say_def)

section \<open>Parsing (utils.c)\<close>

text \<open>
  \<open>parse_message\<close> returns 0 (\<open>Some None\<close>) when a comma is missing; its copies go into the
  caller's arrays of 32, 64 and 256 bytes.
\<close>

definition parse_message :: "string \<Rightarrow> (string \<times> int \<times> string \<times> string) option option" where
  "parse_message input = do {
     temp \<leftarrow> strcpy_into MTEXT_LEN input;
     case strchr temp (CHR '','') of
       None \<Rightarrow> Some None
     | Some p1 \<Rightarrow> do {
         command \<leftarrow> strcpy_into COMMAND_LEN (take p1 temp);
         let p2 = drop (Suc p1) temp;
         case strchr p2 (CHR '','') of
           None \<Rightarrow> Some None
         | Some p3 \<Rightarrow> do {
             let pid = atoi (take p3 p2);
             let p4 = drop (Suc p3) p2;
             case strchr p4 (CHR '','') of
               None \<Rightarrow> do {
                 topic \<leftarrow> strcpy_into MAX_TOPIC_LEN p4;
                 Some (Some (command, pid, topic, []))
               }
             | Some p5 \<Rightarrow> do {
                 topic \<leftarrow> strcpy_into MAX_TOPIC_LEN (take p5 p4);
                 payload \<leftarrow> strcpy_into MAX_PAYLOAD_LEN (drop (Suc p5) p4);
                 Some (Some (command, pid, topic, payload))
               }
           }
       }
   }"

definition parse_received_message :: "string \<Rightarrow> (string \<times> string) option" where
  "parse_received_message input = do {
     temp \<leftarrow> strcpy_into MTEXT_LEN input;
     case strchr temp (CHR '','') of
       None \<Rightarrow> do {
         payload \<leftarrow> strcpy_into MAX_PAYLOAD_LEN input;
         Some (''unknown'', payload)
       }
     | Some p \<Rightarrow> do {
         topic \<leftarrow> strcpy_into MAX_TOPIC_LEN (take p temp);
         payload \<leftarrow> strcpy_into MAX_PAYLOAD_LEN (drop (Suc p) temp);
         Some (topic, payload)
       }
   }"

section \<open>Tables (broker.c)\<close>

text \<open>
  \<open>find_subscribers\<close> appends to the caller's array \<open>found_pids\<close>, which has
  \<open>MAX_PID_LIST\<close> slots.
\<close>

function find_subs :: "string \<Rightarrow> subscription list \<Rightarrow> nat \<Rightarrow> nat \<Rightarrow> int list \<Rightarrow> nat \<Rightarrow>
    (int list \<times> nat) option" where
  "find_subs topic subs i n found cnt =
     (if i < n then
        (if strcmp (sub_topic (subs ! i)) topic = 0
         then do {
           found' \<leftarrow> aset found cnt (sub_pid (subs ! i));
           find_subs topic subs (Suc i) n found' (Suc cnt)
         }
         else find_subs topic subs (Suc i) n found cnt)
      else Some (found, cnt))"
  by pat_completeness auto
termination
  by (relation "measure (\<lambda>(topic, subs, i, n, found, cnt). n - i)") auto

declare find_subs.simps [simp del]

definition find_subscribers :: "string \<Rightarrow> broker \<Rightarrow> (int list \<times> nat) option" where
  "find_subscribers topic b =
     find_subs topic (subscriptions b) 0 (sub_count b) (replicate MAX_PID_LIST 0) 0"

definition remove_subscription :: "int \<Rightarrow> string \<Rightarrow> broker \<Rightarrow> broker" where
  "remove_subscription pid topic b =
     (case find_from (\<lambda>s. sub_pid s = pid \<and> strcmp (sub_topic s) topic = 0)
             (subscriptions b) 0 (sub_count b) of
        None \<Rightarrow> b
      | Some i \<Rightarrow> b\<lparr>subscriptions := shift_down (subscriptions b) i (sub_count b),
                    sub_count := sub_count b - 1\<rparr>)"

definition remove_publisher :: "int \<Rightarrow> broker \<Rightarrow> broker" where
  "remove_publisher pid b =
     (case find_from (\<lambda>p. p = pid) (publishers b) 0 (pub_count b) of
        None \<Rightarrow> b
      | Some i \<Rightarrow> b\<lparr>publishers := shift_down (publishers b) i (pub_count b),
                    pub_count := pub_count b - 1\<rparr>)"

section \<open>The message handler (run_broker)\<close>

definition do_subscribe :: "int \<Rightarrow> string \<Rightarrow> broker \<Rightarrow> broker" where
  "do_subscribe pid topic b =
     (let already = (find_from (\<lambda>s. sub_pid s = pid \<and> strcmp (sub_topic s) topic = 0)
                       (subscriptions b) 0 (sub_count b) \<noteq> None)
      in if \<not> already \<and> sub_count b < MAX_SUBSCRIPTIONS
         then say (''Subscriber '' @ show_int pid @ '' subscribed to '' @ topic)
                (b\<lparr>subscriptions := (subscriptions b)[sub_count b := \<lparr>sub_pid = pid, sub_topic = topic\<rparr>],
                   sub_count := Suc (sub_count b)\<rparr>)
         else b)"

definition do_unsubscribe :: "int \<Rightarrow> string \<Rightarrow> broker \<Rightarrow> broker" where
  "do_unsubscribe pid topic b =
     say (''Subscriber '' @ show_int pid @ '' unsubscribed from '' @ topic)
       (remove_subscription pid topic b)"

definition do_register :: "int \<Rightarrow> string \<Rightarrow> broker \<Rightarrow> broker" where
  "do_register pid topic b =
     (let already = (find_from (\<lambda>p. p = pid) (publishers b) 0 (pub_count b) \<noteq> None)
      in if \<not> already \<and> pub_count b < MAX_PID_LIST
         then say (''Publisher '' @ show_int pid @ '' registered on '' @ topic)
                (b\<lparr>publishers := (publishers b)[pub_count b := pid], pub_count := Suc (pub_count b)\<rparr>)
         else b)"

text \<open>\<open>msgsnd\<close> refuses a message type below 1 (EINVAL); otherwise the message is queued.\<close>

definition msgsnd :: "msgbuf \<Rightarrow> broker \<Rightarrow> broker option" where
  "msgsnd m b = (if mtype m < 1 then None else Some (b\<lparr>mqueue := mqueue b @ [m]\<rparr>))"

fun forward :: "int list \<Rightarrow> string \<Rightarrow> broker \<Rightarrow> broker" where
  "forward [] text b = b"
| "forward (p # ps) text b =
     (case msgsnd \<lparr>mtype = p, mtext = text\<rparr> b of
        None \<Rightarrow> forward ps text (say ''msgsnd'' b)
      | Some b' \<Rightarrow> forward ps text (say (''Sent to subscriber '' @ show_int p) b'))"

definition do_send :: "int \<Rightarrow> string \<Rightarrow> string \<Rightarrow> broker \<Rightarrow> broker option" where
  "do_send pid topic payload b = do {
     let b1 = say (''Message on '' @ topic @ '' from '' @ show_int pid @ '': '' @ payload) b;
     (subscribers, sub_found) \<leftarrow> find_subscribers topic b1;
     let out_text = snprintf_into MTEXT_LEN (topic @ '','' @ payload);
     let b2 = forward (take sub_found subscribers) out_text b1;
     Some (if sub_found = 0 then say (''No subscribers for topic '' @ topic) b2 else b2)
   }"

definition handle_message :: "string \<Rightarrow> broker \<Rightarrow> broker option" where
  "handle_message text b = do {
     r \<leftarrow> parse_message text;
     case r of
       None \<Rightarrow> Some (say (''Failed to parse: '' @ text) b)
     | Some (command, pid, topic, payload) \<Rightarrow>
         if strcmp command ''subscribe'' = 0 then Some (do_subscribe pid topic b)
         else if strcmp command ''unsubscribe'' = 0 then Some (do_unsubscribe pid topic b)
         else if strcmp command ''register'' = 0 then Some (do_register pid topic b)
         else if strcmp command ''send'' = 0 then do_send pid topic payload b
         else Some b
   }"

text \<open>
  \<open>msgrcv\<close> with type \<open>t > 0\<close> takes the first message of that type and blocks (\<open>None\<close>) when
  there is none. The loop runs until it blocks; the fuel bounds the messages handled.
\<close>

fun msgrcv :: "int \<Rightarrow> msgbuf list \<Rightarrow> (msgbuf \<times> msgbuf list) option" where
  "msgrcv t [] = None"
| "msgrcv t (m # q) = (if mtype m = t then Some (m, q)
                       else map_option (\<lambda>(r, q'). (r, m # q')) (msgrcv t q))"

fun broker_loop :: "nat \<Rightarrow> broker \<Rightarrow> broker option" where
  "broker_loop 0 b = None"
| "broker_loop (Suc n) b =
     (case msgrcv 1 (mqueue b) of
        None \<Rightarrow> Some b
      | Some (m, q) \<Rightarrow> Option.bind (handle_message (mtext m) (b\<lparr>mqueue := q\<rparr>)) (broker_loop n))"

datatype broker_exit = FtokFailed | AlreadyRunning | MsggetFailed
datatype msgget_result = MsgExists | MsgError | MsgCreated

definition broker_start :: "bool \<Rightarrow> msgget_result \<Rightarrow> broker_exit + broker" where
  "broker_start ftok_ok msgget =
     (if \<not> ftok_ok then Inl FtokFailed
      else case msgget of
        MsgExists \<Rightarrow> Inl AlreadyRunning
      | MsgError \<Rightarrow> Inl MsggetFailed
      | MsgCreated \<Rightarrow>
          Inr \<lparr>subscriptions = replicate MAX_SUBSCRIPTIONS \<lparr>sub_pid = 0, sub_topic = []\<rparr>,
               sub_count = 0, publishers = replicate MAX_PID_LIST 0, pub_count = 0,
               mqueue = [], kills = [], bout = []\<rparr>)"

text \<open>The handler of SIGINT and SIGTERM: every publisher and every subscription is signalled.\<close>

definition broker_signal_handler :: "broker \<Rightarrow> broker" where
  "broker_signal_handler b =
     b\<lparr>kills := kills b @ take (pub_count b) (publishers b)
                 @ map sub_pid (take (sub_count b) (subscriptions b)),
       mqueue := []\<rparr>"

section \<open>The clients (publisher.c, subscriber.c)\<close>

definition register_msg :: "int \<Rightarrow> string \<Rightarrow> msgbuf" where
  "register_msg pid topic =
     \<lparr>mtype = 1, mtext = snprintf_into MTEXT_LEN (''register,'' @ show_int pid @ '','' @ topic)\<rparr>"

definition send_msg :: "int \<Rightarrow> string \<Rightarrow> string \<Rightarrow> msgbuf" where
  "send_msg pid topic input =
     \<lparr>mtype = 1,
      mtext = snprintf_into MTEXT_LEN (''send,'' @ show_int pid @ '','' @ topic @ '','' @ input)\<rparr>"

definition subscribe_msg :: "int \<Rightarrow> string \<Rightarrow> msgbuf" where
  "subscribe_msg pid topic =
     \<lparr>mtype = 1, mtext = snprintf_into MTEXT_LEN (''subscribe,'' @ show_int pid @ '','' @ topic)\<rparr>"

definition unsubscribe_msg :: "int \<Rightarrow> string \<Rightarrow> msgbuf" where
  "unsubscribe_msg pid topic =
     \<lparr>mtype = 1, mtext = snprintf_into MTEXT_LEN (''unsubscribe,'' @ show_int pid @ '','' @ topic)\<rparr>"

text \<open>
  The publisher's input loop: the messages sent for the bytes on standard input. \<open>ok\<close> says
  whether the next \<open>msgsnd\<close> succeeds, given what was sent before.
\<close>

function publisher_loop :: "(msgbuf list \<Rightarrow> bool) \<Rightarrow> int \<Rightarrow> string \<Rightarrow> string \<Rightarrow> msgbuf list \<Rightarrow>
    msgbuf list" where
  "publisher_loop ok pid topic inp sent =
     (case fgets 256 inp of
        None \<Rightarrow> sent
      | Some (l, rest) \<Rightarrow>
          (let input = chomp l in
           if strcmp input ''quit'' = 0 then sent
           else if length input = 0 then publisher_loop ok pid topic rest sent
           else if \<not> ok sent then sent
           else publisher_loop ok pid topic rest (sent @ [send_msg pid topic input])))"
  by pat_completeness auto
termination
  by (relation "measure (\<lambda>(ok, pid, topic, inp, sent). length inp)") (auto dest: fgets_progress)

declare publisher_loop.simps [simp del]

definition run_publisher :: "(msgbuf list \<Rightarrow> bool) \<Rightarrow> int \<Rightarrow> string \<Rightarrow> string \<Rightarrow> msgbuf list" where
  "run_publisher ok pid topic inp =
     (if \<not> ok [] then [] else publisher_loop ok pid topic inp [register_msg pid topic])"

text \<open>The subscriber splits its argument at commas into at most ten topics of 64 bytes.\<close>

fun split_topics :: "nat \<Rightarrow> string \<Rightarrow> string list option" where
  "split_topics 0 s = Some []"
| "split_topics (Suc room) s =
     (case strtok '','' s of
        None \<Rightarrow> Some []
      | Some (token, rest) \<Rightarrow> do {
          t \<leftarrow> strcpy_into 64 token;
          ts \<leftarrow> split_topics room rest;
          Some (t # ts)
        })"

definition subscriber_requests :: "int \<Rightarrow> string \<Rightarrow> msgbuf list option" where
  "subscriber_requests pid topics_str =
     map_option (map (subscribe_msg pid)) (split_topics 10 topics_str)"

definition subscriber_farewell :: "int \<Rightarrow> string \<Rightarrow> msgbuf list option" where
  "subscriber_farewell pid topics_str =
     map_option (map (unsubscribe_msg pid)) (split_topics 10 topics_str)"

text \<open>What the subscriber prints for the next message queued for it.\<close>

definition subscriber_receive :: "int \<Rightarrow> msgbuf list \<Rightarrow> (string \<times> string) option" where
  "subscriber_receive pid q = do {
     (m, _) \<leftarrow> msgrcv pid q;
     parse_received_message (mtext m)
   }"

end
