(* ===== verification/Step_Interface.thy ===== *)
theory Step_Interface
  imports C_Prelude
begin

text \<open>
  Programs of several processes as step functions: an event names the process that is given the
  processor (and what it is given from outside), and the step says what happens. The interface states
  what a component proves of its step function, an invariant, a measure, what it means to be stuck,
  and what follows for every schedule.
\<close>

section \<open>Steps and schedules\<close>

text \<open>
  The outcome of a step: the process waits or has ended, does something undefined (a bad pointer, a
  buffer overrun), or goes on.
\<close>

datatype 'a outcome = Blocked | Fault | Stepped 'a

definition or_fault :: "'a option \<Rightarrow> 'a outcome" where
  "or_fault r = (case r of None \<Rightarrow> Fault | Some x \<Rightarrow> Stepped x)"

lemma or_fault_iff [simp]:
  "or_fault r = Stepped x \<longleftrightarrow> r = Some x" "or_fault r = Fault \<longleftrightarrow> r = None" "or_fault r \<noteq> Blocked"
  by (simp_all add: or_fault_def split: option.splits)

lemma or_fault_Some [simp]: "or_fault (Some x) = Stepped x"
  by simp

text \<open>A schedule is a list of events; a process that cannot step is passed over.\<close>

fun run_steps :: "('e \<Rightarrow> 's \<Rightarrow> 's outcome) \<Rightarrow> 'e list \<Rightarrow> 's \<Rightarrow> 's option" where
  "run_steps step [] s = Some s"
| "run_steps step (e # es) s =
     (case step e s of Stepped s1 \<Rightarrow> run_steps step es s1 | Blocked \<Rightarrow> run_steps step es s | Fault \<Rightarrow> None)"

lemma run_steps_append:
  "run_steps step (es @ fs) s = Option.bind (run_steps step es s) (run_steps step fs)"
  by (induction es arbitrary: s) (auto split: outcome.splits)

lemma run_steps_trans:
  "run_steps step es s = Some s1 \<Longrightarrow> run_steps step fs s1 = Some s2 \<Longrightarrow> run_steps step (es @ fs) s = Some s2"
  by (simp add: run_steps_append)

definition stuck :: "('e \<Rightarrow> 's \<Rightarrow> 's outcome) \<Rightarrow> 's \<Rightarrow> bool" where
  "stuck step s \<longleftrightarrow> (\<forall>e. step e s = Blocked)"

lemma run_steps_stuck: "stuck step s \<Longrightarrow> run_steps step es s = Some s"
  by (induction es) (simp_all add: stuck_def)

text \<open>The number of events of a schedule that made a process step.\<close>

fun steps_made :: "('e \<Rightarrow> 's \<Rightarrow> 's outcome) \<Rightarrow> 'e list \<Rightarrow> 's \<Rightarrow> nat" where
  "steps_made step [] s = 0"
| "steps_made step (e # es) s =
     (case step e s of Stepped s1 \<Rightarrow> Suc (steps_made step es s1) | Blocked \<Rightarrow> steps_made step es s | Fault \<Rightarrow> 0)"

section \<open>The interface\<close>

locale step_invariant =
  fixes step :: "'e \<Rightarrow> 's \<Rightarrow> 's outcome"
    and good :: "'s \<Rightarrow> bool"
  assumes no_fault: "good s \<Longrightarrow> step e s \<noteq> Fault"
    and keeps: "good s \<Longrightarrow> step e s = Stepped s' \<Longrightarrow> good s'"
begin

lemma run_good: "good s \<Longrightarrow> \<exists>s'. run_steps step es s = Some s' \<and> good s'"
proof (induction es arbitrary: s)
  case (Cons e es)
  then show ?case using no_fault keeps by (cases "step e s") auto
qed simp

lemma run_goodD: "good s \<Longrightarrow> run_steps step es s = Some s' \<Longrightarrow> good s'"
  using run_good[of s es] by auto

end

locale step_measure = step_invariant +
  fixes left_to_do :: "'s \<Rightarrow> nat"
  assumes decreases: "good s \<Longrightarrow> step e s = Stepped s' \<Longrightarrow> left_to_do s' < left_to_do s"
begin

lemma schedule_bounded: "good s \<Longrightarrow> steps_made step es s \<le> left_to_do s"
proof (induction es arbitrary: s)
  case (Cons e es)
  show ?case
  proof (cases "step e s")
    case (Stepped s1)
    then have "steps_made step es s1 \<le> left_to_do s1" "left_to_do s1 < left_to_do s"
      using Cons keeps decreases by blast+
    with Stepped show ?thesis by simp
  qed (use Cons no_fault in auto)
qed simp

lemma reaches_stuck:
  assumes "good s"
  shows "\<exists>es s'. run_steps step es s = Some s' \<and> stuck step s'"
  using assms
proof (induction "left_to_do s" arbitrary: s rule: less_induct)
  case less
  show ?case
  proof (cases "stuck step s")
    case True
    then show ?thesis by (intro exI[of _ "[]"]) auto
  next
    case False
    then obtain e s1 where e: "step e s = Stepped s1"
      using no_fault[OF less.prems] unfolding stuck_def by (metis outcome.exhaust)
    then obtain es s' where "run_steps step es s1 = Some s'" "stuck step s'"
      using less.hyps[of s1] decreases keeps less.prems by blast
    with e show ?thesis by (intro exI[of _ "e # es"] exI[of _ s']) simp
  qed
qed

end

end
