(* ===== verification/Broker_System.thy ===== *)
theory Broker_System
  imports Broker Step_Interface
begin

text \<open>
  module3/02 as its processes run together: the command line (main.c), the broker, publishers and
  subscribers around the one message queue. A process steps from one call that can block to the
  next: \<open>msgsnd\<close> waits while the queue has no room (\<open>qbytes\<close> is the kernel's limit \<open>msg_qbytes\<close>),
  \<open>msgrcv\<close> while there is no message of the type. A schedule picks the process that goes on.
\<close>

section \<open>The command line (main.c)\<close>

datatype mode = RunBroker | RunPublisher string | RunSubscriber string | Usage "string list"

definition usage_lines :: "string \<Rightarrow> string list" where
  "usage_lines prog =
     [''Usage:'' @ [NL], ''  '' @ prog @ '' -b                    (broker mode)'' @ [NL],
      ''  '' @ prog @ '' -p <topic>            (publisher mode)'' @ [NL],
      ''  '' @ prog @ '' -s <topic1,topic2,...> (subscriber mode)'' @ [NL], [NL] @ ''Examples:'' @ [NL],
      ''  '' @ prog @ '' -b'' @ [NL], ''  '' @ prog @ '' -p news'' @ [NL], ''  '' @ prog @ '' -s news,sports,weather'' @ [NL]]"

definition broker_main :: "string list \<Rightarrow> mode" where
  "broker_main argv =
     (if length argv < 2 then Usage (usage_lines (hd argv))
      else if strcmp (argv ! 1) ''-b'' = 0 then RunBroker
      else if strcmp (argv ! 1) ''-p'' = 0 then
        (if length argv < 3
         then Usage [''Publisher: Please specify topic'' @ [NL], ''Usage: '' @ hd argv @ '' -p <topic>'' @ [NL]]
         else RunPublisher (argv ! 2))
      else if strcmp (argv ! 1) ''-s'' = 0 then
        (if length argv < 3
         then Usage [''Subscriber: Please specify topics (comma-separated)'' @ [NL],
                     ''Usage: '' @ hd argv @ '' -s <topic1,topic2,...>'' @ [NL]]
         else RunSubscriber (argv ! 2))
      else Usage [''Unknown option: '' @ argv ! 1 @ [NL],
                  ''Use -b (broker), -p (publisher), or -s (subscriber)'' @ [NL]])"

section \<open>The processes\<close>

text \<open>The broker waits for a message or has copies of one still to send.\<close>

datatype broker_pc = B_Wait | B_Forward "int list" string

datatype publisher_pc = P_Register | P_Typing | P_Stopped

record publisher =
  pub_pid :: int
  pub_topic :: string
  pub_pc :: publisher_pc
  pub_in :: string
  pub_sent :: "string list"

datatype subscriber_pc = S_Request "string list" | S_Waiting | S_Stopped

record subscriber =
  s_pid :: int
  s_topics :: "string list"
  s_pc :: subscriber_pc
  s_shown :: "(string \<times> string) list"

text \<open>Both clients first look up the queue; without a broker they exit.\<close>

datatype client_exit = ClientFtok | NoBroker

definition publisher_start :: "bool \<Rightarrow> bool \<Rightarrow> int \<Rightarrow> string \<Rightarrow> string \<Rightarrow> client_exit + publisher" where
  "publisher_start ftok_ok msgget_ok pid topic inp =
     (if \<not> ftok_ok then Inl ClientFtok
      else if \<not> msgget_ok then Inl NoBroker
      else Inr \<lparr>pub_pid = pid, pub_topic = topic, pub_pc = P_Register, pub_in = inp, pub_sent = []\<rparr>)"

text \<open>\<open>None\<close>: a topic does not fit into its 64 bytes.\<close>

definition subscriber_start :: "bool \<Rightarrow> bool \<Rightarrow> int \<Rightarrow> string \<Rightarrow> (client_exit + subscriber) option" where
  "subscriber_start ftok_ok msgget_ok pid topics_str =
     (if \<not> ftok_ok then Some (Inl ClientFtok)
      else if \<not> msgget_ok then Some (Inl NoBroker)
      else map_option (\<lambda>ts. Inr \<lparr>s_pid = pid, s_topics = ts, s_pc = S_Request ts, s_shown = []\<rparr>)
             (split_topics 10 topics_str))"

record broker_system =
  bk :: broker
  bk_pc :: broker_pc
  pubs :: "publisher list"
  subs :: "subscriber list"

definition queue_bytes :: "msgbuf list \<Rightarrow> nat" where
  "queue_bytes q = sum_list (map (\<lambda>m. Suc (length (mtext m))) q)"

definition has_room :: "nat \<Rightarrow> msgbuf \<Rightarrow> broker \<Rightarrow> bool" where
  "has_room qbytes m b \<longleftrightarrow> queue_bytes (mqueue b) + Suc (length (mtext m)) \<le> qbytes"

text \<open>A send waits for room.\<close>

definition queue_send :: "nat \<Rightarrow> msgbuf \<Rightarrow> broker \<Rightarrow> broker outcome" where
  "queue_send qbytes m b =
     (if has_room qbytes m b then Stepped (b\<lparr>mqueue := mqueue b @ [m]\<rparr>) else Blocked)"

text \<open>The broker's messages of type \<open>send\<close> are forwarded copy by copy; all others only change its tables.\<close>

definition broker_receive :: "string \<Rightarrow> broker \<Rightarrow> (broker \<times> broker_pc) option" where
  "broker_receive text b = do {
     r \<leftarrow> parse_message text;
     case r of
       Some (command, pid, topic, payload) \<Rightarrow>
         if strcmp command ''send'' = 0 then do {
           let b1 = say (''Message on '' @ topic @ '' from '' @ show_int pid @ '': '' @ payload) b;
           (subscribers, sub_found) \<leftarrow> find_subscribers topic b1;
           Some (if sub_found = 0 then (say (''No subscribers for topic '' @ topic) b1, B_Wait)
                 else (b1, B_Forward (take sub_found subscribers) (snprintf_into MTEXT_LEN (topic @ '','' @ payload))))
         }
         else map_option (\<lambda>b'. (b', B_Wait)) (handle_message text b)
     | None \<Rightarrow> map_option (\<lambda>b'. (b', B_Wait)) (handle_message text b)
   }"

definition broker_step :: "nat \<Rightarrow> broker_system \<Rightarrow> broker_system outcome" where
  "broker_step qbytes s =
     (case bk_pc s of
        B_Wait \<Rightarrow>
          (case msgrcv 1 (mqueue (bk s)) of
             None \<Rightarrow> Blocked
           | Some (m, q) \<Rightarrow>
               or_fault (map_option (\<lambda>(b, pc). s\<lparr>bk := b, bk_pc := pc\<rparr>)
                 (broker_receive (mtext m) ((bk s)\<lparr>mqueue := q\<rparr>))))
      | B_Forward [] text \<Rightarrow> Stepped (s\<lparr>bk_pc := B_Wait\<rparr>)
      | B_Forward (p # ps) text \<Rightarrow>
          (if p < 1 then Stepped (s\<lparr>bk := say ''msgsnd'' (bk s), bk_pc := B_Forward ps text\<rparr>)
           else case queue_send qbytes \<lparr>mtype = p, mtext = text\<rparr> (bk s) of
                  Stepped b \<Rightarrow> Stepped (s\<lparr>bk := say (''Sent to subscriber '' @ show_int p) b, bk_pc := B_Forward ps text\<rparr>)
                | Blocked \<Rightarrow> Blocked | Fault \<Rightarrow> Fault))"

text \<open>A line is read into 256 bytes and sent, unless it is empty; \<open>quit\<close> or the end of input stops.\<close>

definition publisher_step :: "nat \<Rightarrow> publisher \<Rightarrow> broker \<Rightarrow> (publisher \<times> broker) outcome" where
  "publisher_step qbytes p b =
     (case pub_pc p of
        P_Register \<Rightarrow>
          (case queue_send qbytes (register_msg (pub_pid p) (pub_topic p)) b of
             Stepped b' \<Rightarrow> Stepped (p\<lparr>pub_pc := P_Typing\<rparr>, b') | Blocked \<Rightarrow> Blocked | Fault \<Rightarrow> Fault)
      | P_Typing \<Rightarrow>
          (case fgets 256 (pub_in p) of
             None \<Rightarrow> Stepped (p\<lparr>pub_pc := P_Stopped\<rparr>, b)
           | Some (l, rest) \<Rightarrow>
               (let input = chomp l in
                if strcmp input ''quit'' = 0 then Stepped (p\<lparr>pub_in := rest, pub_pc := P_Stopped\<rparr>, b)
                else if length input = 0 then Stepped (p\<lparr>pub_in := rest\<rparr>, b)
                else case queue_send qbytes (send_msg (pub_pid p) (pub_topic p) input) b of
                       Stepped b' \<Rightarrow> Stepped (p\<lparr>pub_in := rest, pub_sent := pub_sent p @ [input]\<rparr>, b')
                     | Blocked \<Rightarrow> Blocked | Fault \<Rightarrow> Fault))
      | P_Stopped \<Rightarrow> Blocked)"

definition subscriber_step :: "nat \<Rightarrow> subscriber \<Rightarrow> broker \<Rightarrow> (subscriber \<times> broker) outcome" where
  "subscriber_step qbytes u b =
     (case s_pc u of
        S_Request [] \<Rightarrow> Stepped (u\<lparr>s_pc := S_Waiting\<rparr>, b)
      | S_Request (t # ts) \<Rightarrow>
          (case queue_send qbytes (subscribe_msg (s_pid u) t) b of
             Stepped b' \<Rightarrow> Stepped (u\<lparr>s_pc := S_Request ts\<rparr>, b') | Blocked \<Rightarrow> Blocked | Fault \<Rightarrow> Fault)
      | S_Waiting \<Rightarrow>
          (case msgrcv (s_pid u) (mqueue b) of
             None \<Rightarrow> Blocked
           | Some (m, q) \<Rightarrow>
               or_fault (map_option (\<lambda>r. (u\<lparr>s_shown := s_shown u @ [r]\<rparr>, b\<lparr>mqueue := q\<rparr>))
                 (parse_received_message (mtext m))))
      | S_Stopped \<Rightarrow> Blocked)"

text \<open>
  \<open>Interrupt\<close> is SIGINT at a subscriber: it exits, and does not unsubscribe.
\<close>

datatype broker_event = Serve | Publish nat | Attend nat | Interrupt nat

definition broker_sys_step :: "nat \<Rightarrow> broker_event \<Rightarrow> broker_system \<Rightarrow> broker_system outcome" where
  "broker_sys_step qbytes e s =
     (case e of
        Serve \<Rightarrow> broker_step qbytes s
      | Publish i \<Rightarrow>
          (if i < length (pubs s)
           then case publisher_step qbytes (pubs s ! i) (bk s) of
                  Stepped (p, b) \<Rightarrow> Stepped (s\<lparr>pubs := (pubs s)[i := p], bk := b\<rparr>)
                | Blocked \<Rightarrow> Blocked | Fault \<Rightarrow> Fault
           else Blocked)
      | Attend i \<Rightarrow>
          (if i < length (subs s)
           then case subscriber_step qbytes (subs s ! i) (bk s) of
                  Stepped (u, b) \<Rightarrow> Stepped (s\<lparr>subs := (subs s)[i := u], bk := b\<rparr>)
                | Blocked \<Rightarrow> Blocked | Fault \<Rightarrow> Fault
           else Blocked)
      | Interrupt i \<Rightarrow>
          (if i < length (subs s) then Stepped (s\<lparr>subs := (subs s)[i := (subs s ! i)\<lparr>s_pc := S_Stopped\<rparr>]\<rparr>)
           else Blocked))"

definition broker_sys_start :: "broker \<Rightarrow> publisher list \<Rightarrow> subscriber list \<Rightarrow> broker_system" where
  "broker_sys_start b ps us = \<lparr>bk = b, bk_pc = B_Wait, pubs = ps, subs = us\<rparr>"

end
