(* ===== verification/Broker_Props.thy ===== *)
theory Broker_Props
  imports Broker
begin

text \<open>
  What the broker of module3/02 guarantees: its tables stay within their arrays and without
  duplicates, and stand for the set of requests received (by the bounded-table contract); a
  request that respects the buffer sizes is handled without undefined behaviour; what a publisher
  sends reaches every subscriber of the topic unchanged; the message loop implements the service its
  clients expect; and one topic with more than a hundred subscribers overflows the array of \<open>do_send\<close>.
\<close>

section \<open>The tables\<close>

definition live_subs :: "broker \<Rightarrow> subscription list" where
  "live_subs b = take (sub_count b) (subscriptions b)"

definition live_pubs :: "broker \<Rightarrow> int list" where
  "live_pubs b = take (pub_count b) (publishers b)"

definition broker_wf :: "broker \<Rightarrow> bool" where
  "broker_wf b \<longleftrightarrow> length (subscriptions b) = MAX_SUBSCRIPTIONS \<and> sub_count b \<le> MAX_SUBSCRIPTIONS \<and>
     length (publishers b) = MAX_PID_LIST \<and> pub_count b \<le> MAX_PID_LIST"

lemma live_say [simp]: "live_subs (say s b) = live_subs b" "live_pubs (say s b) = live_pubs b"
  "broker_wf (say s b) = broker_wf b"
  by (simp_all add: live_subs_def live_pubs_def broker_wf_def)

lemma live_mqueue [simp]:
  "live_subs (b\<lparr>mqueue := q\<rparr>) = live_subs b" "live_pubs (b\<lparr>mqueue := q\<rparr>) = live_pubs b"
  "broker_wf (b\<lparr>mqueue := q\<rparr>) = broker_wf b"
  by (simp_all add: live_subs_def live_pubs_def broker_wf_def)

lemma subscription_eq: "sub_pid s = p \<and> sub_topic s = t \<longleftrightarrow> s = \<lparr>sub_pid = p, sub_topic = t\<rparr>"
  by (cases s) auto

lemma subscription_eta [simp]: "\<lparr>sub_pid = sub_pid e, sub_topic = sub_topic e\<rparr> = e"
  by (cases e) simp

lemma live_bounds:
  "broker_wf b \<Longrightarrow> length (live_subs b) \<le> MAX_SUBSCRIPTIONS"
  "broker_wf b \<Longrightarrow> length (live_pubs b) \<le> MAX_PID_LIST"
  by (simp_all add: live_subs_def live_pubs_def broker_wf_def)

lemma remove_subscription_wf: "broker_wf b \<Longrightarrow> broker_wf (remove_subscription p t b)"
  by (auto simp: broker_wf_def remove_subscription_def split: option.splits)

lemma remove_subscription_live:
  assumes "broker_wf b"
  shows "live_subs (remove_subscription p t b) = remove1 \<lparr>sub_pid = p, sub_topic = t\<rparr> (live_subs b)"
proof -
  let ?P = "\<lambda>s. sub_pid s = p \<and> strcmp (sub_topic s) t = 0"
  have P: "?P = (\<lambda>s. s = \<lparr>sub_pid = p, sub_topic = t\<rparr>)"
    by (auto simp: subscription_eq fun_eq_iff)
  have n: "sub_count b \<le> length (subscriptions b)" using assms by (simp add: broker_wf_def)
  show ?thesis
  proof (cases "find_from ?P (subscriptions b) 0 (sub_count b)")
    case None
    then have "\<lparr>sub_pid = p, sub_topic = t\<rparr> \<notin> set (live_subs b)"
      using n by (auto simp: find_from_None_take P live_subs_def)
    with None show ?thesis by (simp add: remove_subscription_def remove1_idem)
  next
    case (Some i)
    then have "live_subs (remove_subscription p t b) = remove_first ?P (live_subs b)"
      using shift_down_remove_first[OF Some n] by (simp add: remove_subscription_def live_subs_def)
    then show ?thesis by (simp only: P remove_first_eq)
  qed
qed

lemma remove_publisher_wf: "broker_wf b \<Longrightarrow> broker_wf (remove_publisher p b)"
  by (auto simp: broker_wf_def remove_publisher_def split: option.splits)

lemma remove_publisher_live:
  assumes "broker_wf b"
  shows "live_pubs (remove_publisher p b) = remove1 p (live_pubs b)"
proof -
  have n: "pub_count b \<le> length (publishers b)" using assms by (simp add: broker_wf_def)
  show ?thesis
  proof (cases "find_from (\<lambda>x. x = p) (publishers b) 0 (pub_count b)")
    case None
    then have "p \<notin> set (live_pubs b)"
      using n by (auto simp: find_from_None_take live_pubs_def)
    with None show ?thesis by (simp add: remove_publisher_def remove1_idem)
  next
    case (Some i)
    then show ?thesis
      using shift_down_remove_first[OF Some n]
      by (simp add: remove_publisher_def live_pubs_def remove_first_eq)
  qed
qed

lemma do_subscribe_wf: "broker_wf b \<Longrightarrow> broker_wf (do_subscribe p t b)"
  by (auto simp: broker_wf_def do_subscribe_def Let_def)

lemma do_subscribe_live:
  assumes "broker_wf b"
  shows "live_subs (do_subscribe p t b) =
    (if \<lparr>sub_pid = p, sub_topic = t\<rparr> \<in> set (live_subs b) \<or> MAX_SUBSCRIPTIONS \<le> length (live_subs b)
     then live_subs b else live_subs b @ [\<lparr>sub_pid = p, sub_topic = t\<rparr>])"
proof -
  have n: "sub_count b \<le> length (subscriptions b)" and len: "length (live_subs b) = sub_count b"
    and l: "length (subscriptions b) = MAX_SUBSCRIPTIONS"
    using assms by (simp_all add: broker_wf_def live_subs_def)
  have found: "find_from (\<lambda>s. sub_pid s = p \<and> strcmp (sub_topic s) t = 0) (subscriptions b) 0 (sub_count b)
      = None \<longleftrightarrow> \<lparr>sub_pid = p, sub_topic = t\<rparr> \<notin> set (live_subs b)"
    using n by (auto simp: find_from_None_take live_subs_def subscription_eq)
  show ?thesis
  proof (cases "\<lparr>sub_pid = p, sub_topic = t\<rparr> \<notin> set (live_subs b) \<and> sub_count b < MAX_SUBSCRIPTIONS")
    case True
    then show ?thesis
      using found l by (simp add: do_subscribe_def len) (simp add: live_subs_def take_Suc_list_update)
  next
    case False
    then show ?thesis
      using found by (auto simp: do_subscribe_def len Let_def)
  qed
qed

lemma do_unsubscribe_wf: "broker_wf b \<Longrightarrow> broker_wf (do_unsubscribe p t b)"
  by (simp add: do_unsubscribe_def remove_subscription_wf)

lemma do_unsubscribe_live:
  "broker_wf b \<Longrightarrow> live_subs (do_unsubscribe p t b) = remove1 \<lparr>sub_pid = p, sub_topic = t\<rparr> (live_subs b)"
  by (simp add: do_unsubscribe_def remove_subscription_live)

lemma do_register_wf: "broker_wf b \<Longrightarrow> broker_wf (do_register p t b)"
  by (auto simp: broker_wf_def do_register_def Let_def)

lemma do_register_live:
  assumes "broker_wf b"
  shows "live_pubs (do_register p t b) =
    (if p \<in> set (live_pubs b) \<or> MAX_PID_LIST \<le> length (live_pubs b)
     then live_pubs b else live_pubs b @ [p])"
proof -
  have n: "pub_count b \<le> length (publishers b)" and len: "length (live_pubs b) = pub_count b"
    and l: "length (publishers b) = MAX_PID_LIST"
    using assms by (simp_all add: broker_wf_def live_pubs_def)
  have found: "find_from (\<lambda>x. x = p) (publishers b) 0 (pub_count b) = None \<longleftrightarrow> p \<notin> set (live_pubs b)"
    using n by (auto simp: find_from_None_take live_pubs_def)
  show ?thesis
  proof (cases "p \<notin> set (live_pubs b) \<and> pub_count b < MAX_PID_LIST")
    case True
    then show ?thesis
      using found l by (simp add: do_register_def len) (simp add: live_pubs_def take_Suc_list_update)
  next
    case False
    then show ?thesis
      using found by (auto simp: do_register_def len Let_def)
  qed
qed

interpretation subs: bounded_table live_subs broker_wf MAX_SUBSCRIPTIONS
  "\<lambda>e. do_subscribe (sub_pid e) (sub_topic e)" "\<lambda>e. do_unsubscribe (sub_pid e) (sub_topic e)"
  by unfold_locales
     (simp_all add: live_bounds do_subscribe_live do_unsubscribe_live do_subscribe_wf do_unsubscribe_wf)

interpretation pubs: bounded_table live_pubs broker_wf MAX_PID_LIST
  "\<lambda>p. do_register p []" remove_publisher
  by unfold_locales
     (simp_all add: live_bounds do_register_live remove_publisher_live do_register_wf remove_publisher_wf)

text \<open>Each of the two tables is untouched by the other's operations.\<close>

lemma tables_frame [simp]:
  "live_pubs (do_subscribe p t b) = live_pubs b" "live_pubs (do_unsubscribe p t b) = live_pubs b"
  "live_subs (do_register p t b) = live_subs b"
  by (simp_all add: do_subscribe_def do_unsubscribe_def remove_subscription_def do_register_def
      live_pubs_def live_subs_def Let_def split: option.splits)

section \<open>Subscribers of a topic and forwarding\<close>

definition subscribers_of :: "string \<Rightarrow> broker \<Rightarrow> int list" where
  "subscribers_of topic b = map sub_pid (filter (\<lambda>s. sub_topic s = topic) (live_subs b))"

lemma subscribers_say [simp]: "subscribers_of t (say s b) = subscribers_of t b"
  by (simp add: subscribers_of_def)

lemma subscribers_mqueue [simp]: "subscribers_of t (b\<lparr>mqueue := q\<rparr>) = subscribers_of t b"
  by (simp add: subscribers_of_def)

lemma find_subs_spec:
  assumes "n \<le> length subs" "i \<le> n" "cnt \<le> length found"
  shows "find_subs topic subs i n found cnt =
    (let pids = map sub_pid (filter (\<lambda>s. sub_topic s = topic) (drop i (take n subs)))
     in if cnt + length pids \<le> length found
        then Some (take cnt found @ pids @ drop (cnt + length pids) found, cnt + length pids)
        else None)"
  using assms
proof (induction topic subs i n found cnt rule: find_subs.induct)
  case (1 topic subs i n found cnt)
  show ?case
  proof (cases "i < n")
    case False
    then show ?thesis using "1.prems" by (subst find_subs.simps) simp
  next
    case True
    then have d: "drop i (take n subs) = subs ! i # drop (Suc i) (take n subs)"
      using "1.prems" by (simp add: Cons_nth_drop_Suc[symmetric])
    show ?thesis
    proof (cases "sub_topic (subs ! i) = topic")
      case False
      then show ?thesis
        using True "1.IH"(2) "1.prems" d by (subst find_subs.simps) simp
    next
      case match: True
      show ?thesis
      proof (cases "cnt < length found")
        case False
        then show ?thesis
          using True match "1.prems" d by (subst find_subs.simps) (simp add: aset_def Let_def)
      next
        case room: True
        then have "aset found cnt (sub_pid (subs ! i)) = Some (found[cnt := sub_pid (subs ! i)])"
          by simp
        then show ?thesis
          using True match room "1.IH"(1)[OF True] "1.prems" d
          by (subst find_subs.simps)
             (simp add: Let_def take_Suc_list_update)
      qed
    qed
  qed
qed

lemma find_subscribers_spec:
  assumes "broker_wf b"
  shows "find_subscribers topic b =
    (if length (subscribers_of topic b) \<le> MAX_PID_LIST
     then Some (subscribers_of topic b @ replicate (MAX_PID_LIST - length (subscribers_of topic b)) 0,
                length (subscribers_of topic b))
     else None)"
  using assms find_subs_spec[of "sub_count b" "subscriptions b" 0 0 "replicate MAX_PID_LIST 0" topic]
  by (simp add: find_subscribers_def broker_wf_def subscribers_of_def live_subs_def Let_def)

lemma forward_tables [simp]:
  "live_subs (forward ps text b) = live_subs b" "live_pubs (forward ps text b) = live_pubs b"
  "broker_wf (forward ps text b) = broker_wf b"
  by (induction ps "text" b rule: forward.induct) (auto simp: msgsnd_def split: option.splits if_splits)

lemma forward_mqueue:
  "mqueue (forward ps text b) =
   mqueue b @ map (\<lambda>p. \<lparr>mtype = p, mtext = text\<rparr>) (filter (\<lambda>p. 1 \<le> p) ps)"
  by (induction ps "text" b rule: forward.induct) (auto simp: msgsnd_def split: option.splits if_splits)

lemma do_send_spec:
  assumes "broker_wf b"
  shows "do_send pid topic payload b = None \<longleftrightarrow> MAX_PID_LIST < length (subscribers_of topic b)"
    and "do_send pid topic payload b = Some b' \<Longrightarrow>
      live_subs b' = live_subs b \<and> live_pubs b' = live_pubs b \<and> broker_wf b' \<and>
      mqueue b' = mqueue b @ map (\<lambda>p. \<lparr>mtype = p, mtext = snprintf_into MTEXT_LEN (topic @ '','' @ payload)\<rparr>)
        (filter (\<lambda>p. 1 \<le> p) (subscribers_of topic b))"
proof -
  show "do_send pid topic payload b = None \<longleftrightarrow> MAX_PID_LIST < length (subscribers_of topic b)"
    using assms find_subscribers_spec[of "say s b" topic for s] by (auto simp: do_send_def Let_def)
next
  assume "do_send pid topic payload b = Some b'"
  then show "live_subs b' = live_subs b \<and> live_pubs b' = live_pubs b \<and> broker_wf b' \<and>
      mqueue b' = mqueue b @ map (\<lambda>p. \<lparr>mtype = p, mtext = snprintf_into MTEXT_LEN (topic @ '','' @ payload)\<rparr>)
        (filter (\<lambda>p. 1 \<le> p) (subscribers_of topic b))"
    using assms find_subscribers_spec[of "say s b" topic for s]
    by (auto simp: do_send_def Let_def forward_mqueue split: if_splits)
qed

section \<open>Parsing what the clients format\<close>

lemma parse_message_short:
  assumes "CHR '','' \<notin> set cmd" "length cmd < 32" "CHR '','' \<notin> set topic" "length topic < 64"
    and "- (2 ^ 31) \<le> pid" "pid < 2 ^ 31"
  shows "parse_message (cmd @ '','' @ show_int pid @ '','' @ topic) = Some (Some (cmd, pid, topic, []))"
proof -
  have "atoi (show_int pid) = pid" using atoi_show_int[of pid "[]"] assms by simp
  moreover have "length (show_int pid) \<le> 11" using assms by (intro length_show_int)
  ultimately show ?thesis
    using assms by (simp add: parse_message_def)
qed

lemma parse_message_long:
  assumes "CHR '','' \<notin> set cmd" "length cmd < 32" "CHR '','' \<notin> set topic" "length topic < 64"
    and "- (2 ^ 31) \<le> pid" "pid < 2 ^ 31" "length payload < 256"
  shows "parse_message (cmd @ '','' @ show_int pid @ '','' @ topic @ '','' @ payload) =
    Some (Some (cmd, pid, topic, payload))"
proof -
  have "atoi (show_int pid) = pid" using atoi_show_int[of pid "[]"] assms by simp
  moreover have "length (show_int pid) \<le> 11" using assms by (intro length_show_int)
  ultimately show ?thesis
    using assms by (simp add: parse_message_def)
qed

lemma parse_received:
  assumes "CHR '','' \<notin> set topic" "length topic < 64" "length payload < 256"
  shows "parse_received_message (topic @ '','' @ payload) = Some (topic, payload)"
  using assms by (simp add: parse_received_message_def)

definition pid_ok :: "int \<Rightarrow> bool" where
  "pid_ok pid \<longleftrightarrow> 1 < pid \<and> pid < 2 ^ 31"

definition topic_ok :: "string \<Rightarrow> bool" where
  "topic_ok topic \<longleftrightarrow> CHR '','' \<notin> set topic \<and> length topic < 64"

lemma parse_client_messages:
  assumes "pid_ok pid" "topic_ok topic"
  shows "parse_message (mtext (subscribe_msg pid topic)) = Some (Some (''subscribe'', pid, topic, []))"
    and "parse_message (mtext (unsubscribe_msg pid topic)) = Some (Some (''unsubscribe'', pid, topic, []))"
    and "parse_message (mtext (register_msg pid topic)) = Some (Some (''register'', pid, topic, []))"
    and "length input < 256 \<Longrightarrow>
      parse_message (mtext (send_msg pid topic input)) = Some (Some (''send'', pid, topic, input))"
proof -
  have len: "length (show_int pid) \<le> 11" using assms by (intro length_show_int) (auto simp: pid_ok_def)
  have pid: "- (2 ^ 31) \<le> pid" "pid < 2 ^ 31" using assms by (auto simp: pid_ok_def)
  have t: "CHR '','' \<notin> set topic" "length topic < 64" using assms by (auto simp: topic_ok_def)
  show "parse_message (mtext (subscribe_msg pid topic)) = Some (Some (''subscribe'', pid, topic, []))"
    using parse_message_short[OF _ _ t pid, of "''subscribe''"] len t by (simp add: subscribe_msg_def)
  show "parse_message (mtext (unsubscribe_msg pid topic)) = Some (Some (''unsubscribe'', pid, topic, []))"
    using parse_message_short[OF _ _ t pid, of "''unsubscribe''"] len t by (simp add: unsubscribe_msg_def)
  show "parse_message (mtext (register_msg pid topic)) = Some (Some (''register'', pid, topic, []))"
    using parse_message_short[OF _ _ t pid, of "''register''"] len t by (simp add: register_msg_def)
  assume "length input < 256"
  then show "parse_message (mtext (send_msg pid topic input)) = Some (Some (''send'', pid, topic, input))"
    using parse_message_long[OF _ _ t pid, of "''send''" input] len t by (simp add: send_msg_def)
qed

lemma handle_client_messages:
  assumes "pid_ok pid" "topic_ok topic"
  shows "handle_message (mtext (subscribe_msg pid topic)) b = Some (do_subscribe pid topic b)"
    and "handle_message (mtext (unsubscribe_msg pid topic)) b = Some (do_unsubscribe pid topic b)"
    and "handle_message (mtext (register_msg pid topic)) b = Some (do_register pid topic b)"
    and "length input < 256 \<Longrightarrow>
      handle_message (mtext (send_msg pid topic input)) b = do_send pid topic input b"
  using parse_client_messages[OF assms] by (simp_all add: handle_message_def)

section \<open>The message loop\<close>

definition tables_ok :: "broker \<Rightarrow> bool" where
  "tables_ok b \<longleftrightarrow> broker_wf b \<and> distinct (live_subs b) \<and> distinct (live_pubs b)"

lemma tables_ok_say [simp]: "tables_ok (say s b) = tables_ok b"
  by (simp add: tables_ok_def)

lemma tables_ok_mqueue [simp]: "tables_ok (b\<lparr>mqueue := q\<rparr>) = tables_ok b"
  by (simp add: tables_ok_def)

lemma tables_ok_subscribe: "tables_ok b \<Longrightarrow> tables_ok (do_subscribe p t b)"
  using subs.distinct_ins[of b "\<lparr>sub_pid = p, sub_topic = t\<rparr>"]
  by (simp add: tables_ok_def do_subscribe_wf)

lemma tables_ok_unsubscribe: "tables_ok b \<Longrightarrow> tables_ok (do_unsubscribe p t b)"
  using subs.distinct_del[of b "\<lparr>sub_pid = p, sub_topic = t\<rparr>"]
  by (simp add: tables_ok_def do_unsubscribe_wf)

lemma tables_ok_register: "tables_ok b \<Longrightarrow> tables_ok (do_register p t b)"
  using pubs.distinct_ins[of b p] by (simp add: tables_ok_def do_register_wf do_register_live)

lemma handle_message_cases:
  assumes "handle_message s b = Some b'"
  obtains (unparsed) "parse_message s = Some None" "b' = say (''Failed to parse: '' @ s) b"
  | (subscribe) p t where "b' = do_subscribe p t b"
  | (unsubscribe) p t where "b' = do_unsubscribe p t b"
  | (register) p t where "b' = do_register p t b"
  | (send) p t x where "do_send p t x b = Some b'"
  | (other) "b' = b"
proof -
  from assms obtain r where r: "parse_message s = Some r"
    by (auto simp: handle_message_def bind_eq_Some_conv)
  show thesis
  proof (cases r)
    case None
    with assms r show ?thesis by (intro unparsed) (simp_all add: handle_message_def)
  next
    case (Some q)
    obtain c p t x where q: "q = (c, p, t, x)" by (cases q)
    have "(if c = ''subscribe'' then Some (do_subscribe p t b)
           else if c = ''unsubscribe'' then Some (do_unsubscribe p t b)
           else if c = ''register'' then Some (do_register p t b)
           else if c = ''send'' then do_send p t x b else Some b) = Some b'"
      using assms r Some q by (auto simp: handle_message_def split: if_splits)
    then show ?thesis
      using subscribe unsubscribe register send other by (metis option.inject)
  qed
qed

lemma handle_message_tables_ok:
  assumes "tables_ok b" "handle_message s b = Some b'"
  shows "tables_ok b'"
  using assms(2)
proof (cases rule: handle_message_cases)
  case (send p t x)
  with assms(1) do_send_spec(2)[of b p t x b'] show ?thesis by (auto simp: tables_ok_def)
qed (use assms(1) in \<open>simp_all add: tables_ok_subscribe tables_ok_unsubscribe tables_ok_register\<close>)

lemma msgrcv_None_iff: "msgrcv t q = None \<longleftrightarrow> (\<forall>m \<in> set q. mtype m \<noteq> t)"
  by (induction q) auto

lemma msgrcv_first: "mtype m = t \<Longrightarrow> \<forall>x \<in> set q. mtype x \<noteq> t \<Longrightarrow> msgrcv t (q @ m # q') = Some (m, q @ q')"
  by (induction q) auto

lemma msgrcv_SomeD:
  "msgrcv t q = Some (m, q') \<Longrightarrow>
   \<exists>q1 q2. q = q1 @ m # q2 \<and> q' = q1 @ q2 \<and> mtype m = t \<and> (\<forall>x \<in> set q1. mtype x \<noteq> t)"
proof (induction q arbitrary: q')
  case (Cons x q)
  show ?case
  proof (cases "mtype x = t")
    case True
    with Cons.prems show ?thesis by (auto intro: exI[of _ "[]"])
  next
    case False
    with Cons.prems obtain q'' where "msgrcv t q = Some (m, q'')" "q' = x # q''" by auto
    with Cons.IH obtain q1 q2 where "q = q1 @ m # q2" "q'' = q1 @ q2" "mtype m = t"
      "\<forall>y \<in> set q1. mtype y \<noteq> t" by blast
    with False \<open>q' = x # q''\<close> show ?thesis by (intro exI[of _ "x # q1"] exI[of _ q2]) auto
  qed
qed simp

text \<open>A text one of whose parts does not fit the handler's arrays: the text itself, or what stands before the
  first comma, between the second and the third, and after the third.\<close>

definition field_of :: "string \<Rightarrow> string" where "field_of = takeWhile (\<lambda>c. c \<noteq> CHR '','')"
definition rest_of :: "string \<Rightarrow> string option" where
  "rest_of s = (case dropWhile (\<lambda>c. c \<noteq> CHR '','') s of [] \<Rightarrow> None | c # r \<Rightarrow> Some r)"

definition overlong :: "string \<Rightarrow> bool" where
  "overlong s \<longleftrightarrow> 512 \<le> length s \<or>
     (case rest_of s of None \<Rightarrow> False | Some r \<Rightarrow> 32 \<le> length (field_of s) \<or>
       (case rest_of r of None \<Rightarrow> False | Some t \<Rightarrow> 64 \<le> length (field_of t) \<or>
         (case rest_of t of None \<Rightarrow> False | Some x \<Rightarrow> 256 \<le> length x)))"

lemma rest_of_strchr:
  "rest_of s = map_option (\<lambda>i. drop (Suc i) s) (strchr s (CHR '',''))"
  "strchr s (CHR '','') = Some i \<Longrightarrow> take i s = field_of s"
  "CHR '','' \<notin> set s \<Longrightarrow> field_of s = s"
proof -
  have d: "drop (length (takeWhile P s)) s = dropWhile P s" for P by (simp add: dropWhile_eq_drop)
  show "rest_of s = map_option (\<lambda>i. drop (Suc i) s) (strchr s (CHR '',''))"
  proof (cases "CHR '','' \<in> set s")
    case True
    then obtain c r where "dropWhile (\<lambda>c. c \<noteq> CHR '','') s = c # r"
      by (cases "dropWhile (\<lambda>c. c \<noteq> CHR '','') s") (auto simp: dropWhile_eq_Nil_conv)
    moreover from this have "drop (Suc (length (takeWhile (\<lambda>c. c \<noteq> CHR '','') s))) s = r"
      using d[of "\<lambda>c. c \<noteq> CHR '',''"] by (metis drop_Suc list.sel(3) tl_drop)
    ultimately show ?thesis using True by (simp add: rest_of_def strchr_def)
  next
    case False
    then have "dropWhile (\<lambda>c. c \<noteq> CHR '','') s = []" by (auto simp: dropWhile_eq_Nil_conv)
    with False show ?thesis unfolding rest_of_def by (simp only: list.case strchr_absent option.map not_False_eq_True)
  qed
  show "strchr s (CHR '','') = Some i \<Longrightarrow> take i s = field_of s"
    by (auto simp: strchr_def field_of_def takeWhile_eq_take[symmetric] split: if_splits)
  show "CHR '','' \<notin> set s \<Longrightarrow> field_of s = s"
    by (auto simp: field_of_def takeWhile_eq_all_conv)
qed

lemma strcpy_into_bind: "strcpy_into n s \<bind> f = (if length s < n then f s else None)"
  by (simp add: strcpy_into_def)

lemma parse_message_None_iff: "parse_message s = None \<longleftrightarrow> overlong s"
proof (cases "strchr s (CHR '','')")
  case None
  then show ?thesis by (simp add: parse_message_def overlong_def rest_of_strchr(1) strcpy_into_bind)
next
  case s: (Some i)
  let ?r = "drop (Suc i) s"
  show ?thesis
  proof (cases "strchr ?r (CHR '','')")
    case None
    with s rest_of_strchr(2)[OF s] show ?thesis
      by (simp add: parse_message_def overlong_def rest_of_strchr(1) strcpy_into_bind not_less Let_def)
  next
    case r: (Some j)
    let ?t = "drop (Suc j) ?r"
    show ?thesis
    proof (cases "strchr ?t (CHR '','')")
      case None
      moreover from this have "field_of ?t = ?t" by (intro rest_of_strchr(3)) simp
      ultimately show ?thesis using s r rest_of_strchr(2)[OF s]
        by (simp only: parse_message_def overlong_def rest_of_strchr(1) strcpy_into_bind not_less Let_def option.case option.map)
           (simp add: not_less)
    next
      case t: (Some k)
      with s r rest_of_strchr(2)[OF s] rest_of_strchr(2)[OF t] show ?thesis
        by (simp only: parse_message_def overlong_def rest_of_strchr(1) strcpy_into_bind not_less Let_def option.case option.map)
           (simp add: not_less)
    qed
  qed
qed

text \<open>
  C10. Whatever text a client queues, with the tables within their arrays (counts at most 200 and 100) and
  free of duplicates: handling it is undefined exactly when a part of it does not fit the handler's arrays
  or it sends on a topic with more than 100 subscribers, and in every other case the tables stay within
  their arrays and free of duplicates.
\<close>

theorem handler_faults_exactly:
  assumes "broker_wf b" "distinct (live_subs b)" "distinct (live_pubs b)"
  shows "(handle_message s b = None \<longleftrightarrow> overlong s \<or>
      (\<exists>p t x. parse_message s = Some (Some (''send'', p, t, x)) \<and>
        100 < length (filter (\<lambda>e. sub_topic e = t) (live_subs b)))) \<and>
    (\<forall>b'. handle_message s b = Some b' \<longrightarrow>
      broker_wf b' \<and> distinct (live_subs b') \<and> distinct (live_pubs b'))"
proof -
  have ok: "tables_ok b" using assms by (simp add: tables_ok_def)
  have "handle_message s b = None \<longleftrightarrow> parse_message s = None \<or>
      (\<exists>p t x. parse_message s = Some (Some (''send'', p, t, x)) \<and> do_send p t x b = None)"
  proof (cases "parse_message s")
    case (Some r)
    show ?thesis
    proof (cases r)
      case (Some q)
      obtain c p t x where "q = (c, p, t, x)" by (cases q)
      with Some \<open>parse_message s = Some r\<close> show ?thesis by (simp add: handle_message_def)
    qed (simp add: handle_message_def Some)
  qed (simp add: handle_message_def)
  then show ?thesis
    using handle_message_tables_ok[OF ok] do_send_spec(1)[OF assms(1)]
    by (auto simp: parse_message_None_iff tables_ok_def subscribers_of_def MAX_PID_LIST_def)
qed

text \<open>The empty broker, as \<open>run_broker\<close> starts.\<close>

definition broker_empty :: broker where
  "broker_empty = \<lparr>subscriptions = replicate MAX_SUBSCRIPTIONS \<lparr>sub_pid = 0, sub_topic = []\<rparr>,
     sub_count = 0, publishers = replicate MAX_PID_LIST 0, pub_count = 0,
     mqueue = [], kills = [], bout = []\<rparr>"

lemma broker_start_empty: "broker_start True MsgCreated = Inr broker_empty"
  by (simp add: broker_start_def broker_empty_def)

lemma tables_ok_empty: "tables_ok broker_empty" "live_subs broker_empty = []" "live_pubs broker_empty = []"
  by (simp_all add: tables_ok_def broker_empty_def broker_wf_def live_subs_def live_pubs_def)

definition request_msg :: "subscription table_op \<Rightarrow> msgbuf" where
  "request_msg r = (case r of Ins s \<Rightarrow> subscribe_msg (sub_pid s) (sub_topic s)
                    | Del s \<Rightarrow> unsubscribe_msg (sub_pid s) (sub_topic s))"

definition op_entry :: "'e table_op \<Rightarrow> 'e" where
  "op_entry r = (case r of Ins e \<Rightarrow> e | Del e \<Rightarrow> e)"

lemma requests_mqueue [simp]:
  "do_subscribe p t (b\<lparr>mqueue := q\<rparr>) = (do_subscribe p t b)\<lparr>mqueue := q\<rparr>"
  "do_unsubscribe p t (b\<lparr>mqueue := q\<rparr>) = (do_unsubscribe p t b)\<lparr>mqueue := q\<rparr>"
  by (simp_all add: do_subscribe_def do_unsubscribe_def remove_subscription_def say_def Let_def
      split: option.splits)

lemma table_run_mqueue:
  "table_run (\<lambda>e. do_subscribe (sub_pid e) (sub_topic e)) (\<lambda>e. do_unsubscribe (sub_pid e) (sub_topic e))
     ops (b\<lparr>mqueue := q\<rparr>) =
   (table_run (\<lambda>e. do_subscribe (sub_pid e) (sub_topic e)) (\<lambda>e. do_unsubscribe (sub_pid e) (sub_topic e))
     ops b)\<lparr>mqueue := q\<rparr>"
proof (induction ops arbitrary: b)
  case (Cons a ops)
  then show ?case by (cases a) simp_all
qed simp

lemma loop_requests:
  assumes "broker_wf b" "mqueue b = map request_msg ops"
    and "\<forall>r \<in> set ops. pid_ok (sub_pid (op_entry r)) \<and> topic_ok (sub_topic (op_entry r))"
  shows "\<exists>b'. broker_loop (Suc (length ops)) b = Some b' \<and> mqueue b' = [] \<and>
    live_subs b' = live_subs (table_run (\<lambda>e. do_subscribe (sub_pid e) (sub_topic e))
      (\<lambda>e. do_unsubscribe (sub_pid e) (sub_topic e)) ops b)"
  using assms
proof (induction ops arbitrary: b)
  case (Cons r ops)
  let ?b = "b\<lparr>mqueue := map request_msg ops\<rparr>"
  have type1: "mtype (request_msg r) = 1"
    by (cases r) (simp_all add: request_msg_def subscribe_msg_def unsubscribe_msg_def)
  have ok: "pid_ok (sub_pid (op_entry r))" "topic_ok (sub_topic (op_entry r))" using Cons.prems by auto
  define f where "f = (case r of Ins e \<Rightarrow> do_subscribe (sub_pid e) (sub_topic e)
    | Del e \<Rightarrow> do_unsubscribe (sub_pid e) (sub_topic e))"
  have h: "handle_message (mtext (request_msg r)) ?b = Some (f ?b)"
    using handle_client_messages(1,2)[OF ok, of ?b]
    by (cases r) (simp_all add: request_msg_def op_entry_def f_def)
  have "broker_wf (f ?b)" using Cons.prems
    by (cases r) (simp_all add: f_def do_subscribe_wf do_unsubscribe_wf)
  moreover have "mqueue (f ?b) = map request_msg ops" by (cases r) (simp_all add: f_def)
  ultimately obtain b' where b': "broker_loop (Suc (length ops)) (f ?b) = Some b'" "mqueue b' = []"
    "live_subs b' = live_subs (table_run (\<lambda>e. do_subscribe (sub_pid e) (sub_topic e))
      (\<lambda>e. do_unsubscribe (sub_pid e) (sub_topic e)) ops (f ?b))"
    using Cons.IH[of "f ?b"] Cons.prems by auto
  have "broker_loop (Suc (length (r # ops))) b = Some b'"
    using Cons.prems type1 h b'(1) by simp
  moreover have "live_subs b' = live_subs (table_run (\<lambda>e. do_subscribe (sub_pid e) (sub_topic e))
      (\<lambda>e. do_unsubscribe (sub_pid e) (sub_topic e)) (r # ops) b)"
    using b'(3) by (cases r) (simp_all add: f_def table_run_mqueue)
  ultimately show ?case using b'(2) by blast
qed simp

text \<open>
  C8. Subscribe and unsubscribe requests, queued in any order, are all handled, and leave in the
  table exactly the set of subscriptions the sequence of requests describes (each insertion and
  removal of a set), as long as the 200 slots have room for the insertions.
\<close>

theorem subscription_requests_refine_set:
  assumes "tables_ok b" "mqueue b = map request_msg ops"
    and "\<forall>r \<in> set ops. pid_ok (sub_pid (op_entry r)) \<and> topic_ok (sub_topic (op_entry r))"
    and "length (live_subs b) + ins_count ops \<le> MAX_SUBSCRIPTIONS"
  shows "\<exists>b'. broker_loop (Suc (length ops)) b = Some b' \<and> mqueue b' = [] \<and>
    set (live_subs b') = set_run ops (set (live_subs b))"
proof -
  from assms have "broker_wf b" "distinct (live_subs b)" by (auto simp: tables_ok_def)
  with loop_requests[OF _ assms(2,3)] subs.run_refines_set[of b ops] assms(4)
  show ?thesis by auto
qed

section \<open>Delivery\<close>

definition copies :: "string \<Rightarrow> int list \<Rightarrow> string \<Rightarrow> msgbuf list" where
  "copies topic ps l = map (\<lambda>p. \<lparr>mtype = p, mtext = topic @ '','' @ l\<rparr>) ps"

lemma do_send_copies:
  assumes "broker_wf b" "topic_ok topic" "length l < 256"
    and "length (subscribers_of topic b) \<le> MAX_PID_LIST" "\<forall>p \<in> set (subscribers_of topic b). 1 < p"
  obtains b' where "do_send pid topic l b = Some b'" "live_subs b' = live_subs b" "broker_wf b'"
    "mqueue b' = mqueue b @ copies topic (subscribers_of topic b) l"
proof -
  obtain b' where b': "do_send pid topic l b = Some b'"
    using do_send_spec(1)[OF assms(1), of pid topic l] assms(4) by fastforce
  have "snprintf_into MTEXT_LEN (topic @ '','' @ l) = topic @ '','' @ l"
    using assms(2,3) by (simp add: topic_ok_def)
  moreover have "filter (\<lambda>p. 1 \<le> p) (subscribers_of topic b) = subscribers_of topic b"
    using assms(5) by (auto simp: filter_id_conv)
  ultimately show thesis
    using that[OF b'] do_send_spec(2)[OF assms(1) b'] by (simp add: copies_def)
qed

lemma loop_sends:
  assumes "broker_wf b" "pid_ok pid" "topic_ok topic" "\<forall>l \<in> set ls. length l < 256"
    and "length (subscribers_of topic b) \<le> MAX_PID_LIST" "\<forall>p \<in> set (subscribers_of topic b). 1 < p"
    and "mqueue b = map (send_msg pid topic) ls @ fwd" "\<forall>m \<in> set fwd. mtype m \<noteq> 1"
  shows "\<exists>b'. broker_loop (Suc (length ls)) b = Some b' \<and> live_subs b' = live_subs b \<and>
    mqueue b' = fwd @ concat (map (copies topic (subscribers_of topic b)) ls)"
  using assms
proof (induction ls arbitrary: b fwd)
  case Nil
  then have "msgrcv 1 (mqueue b) = None" by (simp add: msgrcv_None_iff)
  with Nil show ?case by simp
next
  case (Cons l ls)
  let ?b = "b\<lparr>mqueue := map (send_msg pid topic) ls @ fwd\<rparr>"
  have r: "msgrcv 1 (mqueue b) = Some (send_msg pid topic l, map (send_msg pid topic) ls @ fwd)"
    using Cons.prems(7) by (simp add: send_msg_def)
  obtain b1 where b1: "do_send pid topic l ?b = Some b1" "live_subs b1 = live_subs b" "broker_wf b1"
    "mqueue b1 = map (send_msg pid topic) ls @ fwd @ copies topic (subscribers_of topic b) l"
    using do_send_copies[of ?b topic l pid thesis] Cons.prems(1,3-6) by simp
  have h: "handle_message (mtext (send_msg pid topic l)) ?b = Some b1"
    using handle_client_messages(4)[OF Cons.prems(2,3), of l ?b] Cons.prems(4) b1(1) by simp
  have s1: "subscribers_of topic b1 = subscribers_of topic b"
    using b1(2) by (simp add: subscribers_of_def)
  have "\<forall>m \<in> set (fwd @ copies topic (subscribers_of topic b) l). mtype m \<noteq> 1"
    using Cons.prems(6,8) by (auto simp: copies_def)
  then obtain b' where "broker_loop (Suc (length ls)) b1 = Some b'" "live_subs b' = live_subs b1"
    "mqueue b' = (fwd @ copies topic (subscribers_of topic b) l) @
       concat (map (copies topic (subscribers_of topic b)) ls)"
    using Cons.IH[OF b1(3) Cons.prems(2,3), of "fwd @ copies topic (subscribers_of topic b) l"]
      Cons.prems(4-6) b1(4) s1 by auto
  then show ?case using r h b1(2) by simp
qed

text \<open>A publisher's session: every line but empty ones is sent, in order.\<close>

definition line_ok :: "string \<Rightarrow> bool" where
  "line_ok l \<longleftrightarrow> l \<noteq> [] \<and> l \<noteq> ''quit'' \<and> NL \<notin> set l \<and> NUL \<notin> set l \<and> length l < 255"

lemma publisher_loop_lines:
  "\<forall>l \<in> set ls. line_ok l \<Longrightarrow>
   publisher_loop (\<lambda>_. True) pid topic (concat (map (\<lambda>l. l @ [NL]) ls)) sent =
   sent @ map (send_msg pid topic) ls"
proof (induction ls arbitrary: sent)
  case Nil
  then show ?case by (subst publisher_loop.simps) (simp add: fgets_def)
next
  case (Cons l ls)
  have ok: "line_ok l" using Cons.prems by simp
  have "fgets 256 (l @ NL # concat (map (\<lambda>l. l @ [NL]) ls)) =
      Some (l @ [NL], concat (map (\<lambda>l. l @ [NL]) ls))"
    using ok by (intro fgets_line) (auto simp: line_ok_def)
  then have "publisher_loop (\<lambda>_. True) pid topic (concat (map (\<lambda>l. l @ [NL]) (l # ls))) sent =
      publisher_loop (\<lambda>_. True) pid topic (concat (map (\<lambda>l. l @ [NL]) ls)) (sent @ [send_msg pid topic l])"
    using ok by (subst publisher_loop.simps) (simp add: line_ok_def)
  also have "\<dots> = sent @ map (send_msg pid topic) (l # ls)"
    using Cons by simp
  finally show ?case .
qed

lemma register_live_subs [simp]: "subscribers_of t (do_register p s b) = subscribers_of t b"
  by (simp add: subscribers_of_def)

lemma do_register_mqueue [simp]: "mqueue (do_register p t b) = mqueue b"
  by (simp add: do_register_def Let_def)

lemma copies_simps:
  "copies topic [] l = []"
  "copies topic (q # ps) l = \<lparr>mtype = q, mtext = topic @ '','' @ l\<rparr> # copies topic ps l"
  by (simp_all add: copies_def)

lemma copies_none: "p \<notin> set ps \<Longrightarrow> filter (\<lambda>m. mtype m = p) (copies topic ps l) = []"
  by (auto simp: copies_def filter_empty_conv)

lemma copies_to:
  "distinct ps \<Longrightarrow> p \<in> set ps \<Longrightarrow>
   filter (\<lambda>m. mtype m = p) (copies topic ps l) = [\<lparr>mtype = p, mtext = topic @ '','' @ l\<rparr>]"
proof (induction ps)
  case (Cons q ps)
  then show ?case by (auto simp: copies_simps copies_none)
qed simp

lemma distinct_subscribers: "distinct (live_subs b) \<Longrightarrow> distinct (subscribers_of topic b)"
  unfolding subscribers_of_def distinct_map
  by (auto simp: inj_on_def subscription_eq intro!: subscription.equality)

text \<open>
  End to end: the lines typed into a publisher reach each subscriber of its topic complete,
  unchanged and in order. The publisher's messages are queued, the broker's loop handles them all
  without undefined behaviour, and what the subscriber's process id then finds in the queue parses
  back to the topic and exactly those lines.
\<close>

lemma publish_delivers:
  assumes "tables_ok b" "pid_ok pid" "topic_ok topic" "\<forall>l \<in> set ls. line_ok l"
    and "mqueue b = run_publisher (\<lambda>_. True) pid topic (concat (map (\<lambda>l. l @ [NL]) ls))"
    and "length (subscribers_of topic b) \<le> MAX_PID_LIST" "\<forall>q \<in> set (subscribers_of topic b). 1 < q"
    and "p \<in> set (subscribers_of topic b)"
  shows "\<exists>b'. broker_loop (Suc (Suc (length ls))) b = Some b' \<and>
    map (\<lambda>m. parse_received_message (mtext m)) (filter (\<lambda>m. mtype m = p) (mqueue b')) =
    map (\<lambda>l. Some (topic, l)) ls"
proof -
  let ?q = "map (send_msg pid topic) ls"
  have q: "mqueue b = register_msg pid topic # ?q"
    using assms(5) publisher_loop_lines[OF assms(4)] by (simp add: run_publisher_def)
  let ?b = "do_register pid topic (b\<lparr>mqueue := ?q\<rparr>)"
  have step: "broker_loop (Suc (Suc (length ls))) b = broker_loop (Suc (length ls)) ?b"
    using q handle_client_messages(3)[OF assms(2,3), of "b\<lparr>mqueue := ?q\<rparr>"]
    by (simp add: register_msg_def)
  have wf: "broker_wf ?b" using assms(1) by (simp add: do_register_wf tables_ok_def)
  have len: "\<forall>l \<in> set ls. length l < 256" using assms(4) by (auto simp: line_ok_def)
  obtain b' where b': "broker_loop (Suc (length ls)) ?b = Some b'"
    "mqueue b' = concat (map (copies topic (subscribers_of topic b)) ls)"
    using loop_sends[OF wf assms(2,3) len, of "[]"] assms(6,7) by auto
  have "distinct (subscribers_of topic b)"
    using assms(1) by (simp add: tables_ok_def distinct_subscribers)
  then have "filter (\<lambda>m. mtype m = p) (mqueue b') = map (\<lambda>l. \<lparr>mtype = p, mtext = topic @ '','' @ l\<rparr>) ls"
    unfolding b'(2) using assms(8) by (induction ls) (simp_all add: copies_to)
  then have "map (\<lambda>m. parse_received_message (mtext m)) (filter (\<lambda>m. mtype m = p) (mqueue b')) =
    map (\<lambda>l. Some (topic, l)) ls"
    using assms(3) len parse_received[of topic] by (auto simp: topic_ok_def)
  with step b'(1) show ?thesis by auto
qed

section \<open>The message loop implements the service\<close>

text \<open>
  What the clients ask for and what the broker promises them, over the list of subscriptions and the list
  of publishers: a request is ignored when it is there already or does not fit, a removal takes the entry
  out, and a publication makes one copy for each subscriber of the topic, unless more than 100 have
  subscribed to it.
\<close>

datatype client_call = Subscribe int string | Unsubscribe int string | Register int string | Announce int string string

fun call_msg :: "client_call \<Rightarrow> msgbuf" where
  "call_msg (Subscribe p t) = subscribe_msg p t"
| "call_msg (Unsubscribe p t) = unsubscribe_msg p t"
| "call_msg (Register p t) = register_msg p t"
| "call_msg (Announce p t x) = send_msg p t x"

fun call_ok :: "client_call \<Rightarrow> bool" where
  "call_ok (Subscribe p t) = (pid_ok p \<and> topic_ok t)"
| "call_ok (Unsubscribe p t) = (pid_ok p \<and> topic_ok t)"
| "call_ok (Register p t) = (pid_ok p \<and> topic_ok t)"
| "call_ok (Announce p t x) = (pid_ok p \<and> topic_ok t \<and> length x < 256)"

fun service :: "client_call list \<Rightarrow> subscription list \<Rightarrow> int list \<Rightarrow>
    (subscription list \<times> int list \<times> msgbuf list) option" where
  "service [] S P = Some (S, P, [])"
| "service (Subscribe p t # cs) S P =
     (let s = \<lparr>sub_pid = p, sub_topic = t\<rparr> in
      service cs (if s \<in> set S \<or> 200 \<le> length S then S else S @ [s]) P)"
| "service (Unsubscribe p t # cs) S P = service cs (remove1 \<lparr>sub_pid = p, sub_topic = t\<rparr> S) P"
| "service (Register p t # cs) S P = service cs S (if p \<in> set P \<or> 100 \<le> length P then P else P @ [p])"
| "service (Announce p t x # cs) S P =
     (let to = filter (\<lambda>s. sub_topic s = t) S in
      if 100 < length to then None
      else map_option (\<lambda>(S', P', out). (S', P', map (\<lambda>s. \<lparr>mtype = sub_pid s, mtext = t @ '','' @ x\<rparr>) to @ out))
             (service cs S P))"

definition for_broker :: "broker \<Rightarrow> msgbuf list" where
  "for_broker b = filter (\<lambda>m. mtype m = 1) (mqueue b)"

definition not_for_broker :: "broker \<Rightarrow> msgbuf list" where
  "not_for_broker b = filter (\<lambda>m. mtype m \<noteq> 1) (mqueue b)"

lemma msgrcv_for_broker:
  "msgrcv 1 (mqueue b) = None \<longleftrightarrow> for_broker b = []"
  "for_broker b = m # ms \<Longrightarrow> \<exists>q. msgrcv 1 (mqueue b) = Some (m, q) \<and> filter (\<lambda>m. mtype m = 1) q = ms \<and>
     filter (\<lambda>m. mtype m \<noteq> 1) q = not_for_broker b"
proof -
  show none: "msgrcv 1 (mqueue b) = None \<longleftrightarrow> for_broker b = []"
    by (simp add: msgrcv_None_iff for_broker_def filter_empty_conv)
  assume fb: "for_broker b = m # ms"
  then obtain m' q where r: "msgrcv 1 (mqueue b) = Some (m', q)" using none by fastforce
  then obtain q1 q2 where "mqueue b = q1 @ m' # q2" "q = q1 @ q2" "mtype m' = 1" "\<forall>x \<in> set q1. mtype x \<noteq> 1"
    using msgrcv_SomeD by blast
  with fb r show "\<exists>q. msgrcv 1 (mqueue b) = Some (m, q) \<and> filter (\<lambda>m. mtype m = 1) q = ms \<and>
     filter (\<lambda>m. mtype m \<noteq> 1) q = not_for_broker b"
    by (auto simp: for_broker_def not_for_broker_def filter_empty_conv[THEN iffD2])
qed

lemma queue_parts [simp]:
  "for_broker (b\<lparr>mqueue := q\<rparr>) = filter (\<lambda>m. mtype m = 1) q" "for_broker (say s b) = for_broker b"
  "not_for_broker (b\<lparr>mqueue := q\<rparr>) = filter (\<lambda>m. mtype m \<noteq> 1) q" "not_for_broker (say s b) = not_for_broker b"
  by (simp_all add: for_broker_def not_for_broker_def)

lemma call_step:
  assumes "tables_ok b" "\<forall>s \<in> set (live_subs b). 1 < sub_pid s" "call_ok c"
  obtains (fault) "handle_message (mtext (call_msg c)) b = None" "service (c # cs) (live_subs b) (live_pubs b) = None"
  | (ok) b' copies where "handle_message (mtext (call_msg c)) b = Some b'" "tables_ok b'" "\<forall>s \<in> set (live_subs b'). 1 < sub_pid s"
    "for_broker b' = for_broker b" "not_for_broker b' = not_for_broker b @ copies"
    "service (c # cs) (live_subs b) (live_pubs b) =
      map_option (\<lambda>(S, P, out). (S, P, copies @ out)) (service cs (live_subs b') (live_pubs b'))"
proof -
  have wf: "broker_wf b" using assms(1) by (simp add: tables_ok_def)
  have mq: "mqueue (do_subscribe p t b) = mqueue b" "mqueue (do_unsubscribe p t b) = mqueue b"
    "mqueue (do_register p t b) = mqueue b" for p t
    by (simp_all add: do_subscribe_def do_unsubscribe_def do_register_def remove_subscription_def Let_def split: option.splits)
  have same: "map_option (\<lambda>(S, P, out). (S, P, [] @ out)) x = x" for x :: "('a \<times> 'b \<times> 'c list) option"
    by (cases x) auto
  show thesis
  proof (cases c)
    case (Subscribe p t)
    then show ?thesis
      using assms handle_client_messages(1)[of p t b] mq(1)[of p t]
      by (intro ok[of "do_subscribe p t b" "[]"])
         (auto simp: tables_ok_subscribe for_broker_def not_for_broker_def do_subscribe_live[OF wf] pid_ok_def
           MAX_SUBSCRIPTIONS_def Let_def same[simplified])
  next
    case (Unsubscribe p t)
    then show ?thesis
      using assms handle_client_messages(2)[of p t b] mq(2)[of p t]
      by (intro ok[of "do_unsubscribe p t b" "[]"])
         (auto simp: tables_ok_unsubscribe for_broker_def not_for_broker_def do_unsubscribe_live[OF wf] pid_ok_def
           same[simplified] dest: notin_set_remove1[THEN contrapos_pp])
  next
    case (Register p t)
    then show ?thesis
      using assms handle_client_messages(3)[of p t b] mq(3)[of p t]
      by (intro ok[of "do_register p t b" "[]"])
         (auto simp: tables_ok_register for_broker_def not_for_broker_def do_register_live[OF wf] pid_ok_def
           MAX_PID_LIST_def same[simplified])
  next
    case (Announce p t x)
    then have h: "handle_message (mtext (call_msg c)) b = do_send p t x b" and t: "length t < 64" "length x < 256"
      using assms(3) handle_client_messages(4)[of p t x b] by (simp_all add: topic_ok_def)
    show ?thesis
    proof (cases "do_send p t x b")
      case None
      then show ?thesis using h Announce do_send_spec(1)[OF wf, of p t x]
        by (intro fault) (simp_all add: subscribers_of_def MAX_PID_LIST_def)
    next
      case (Some b')
      have few: "\<not> 100 < length (filter (\<lambda>s. sub_topic s = t) (live_subs b))"
        using do_send_spec(1)[OF wf, of p t x] Some by (auto simp: subscribers_of_def MAX_PID_LIST_def)
      note b' = do_send_spec(2)[OF wf Some]
      have "filter (\<lambda>p. 1 \<le> p) (subscribers_of t b) = subscribers_of t b"
        using assms(2) by (intro filter_True) (force simp: subscribers_of_def)
      then have q: "mqueue b' = mqueue b @ map (\<lambda>s. \<lparr>mtype = sub_pid s, mtext = t @ '','' @ x\<rparr>)
          (filter (\<lambda>s. sub_topic s = t) (live_subs b))"
        using b' t by (simp add: subscribers_of_def comp_def)
      have "for_broker b' = for_broker b" "not_for_broker b' = not_for_broker b @
          map (\<lambda>s. \<lparr>mtype = sub_pid s, mtext = t @ '','' @ x\<rparr>) (filter (\<lambda>s. sub_topic s = t) (live_subs b))"
        using assms(2) by (force simp: for_broker_def not_for_broker_def q filter_empty_conv filter_id_conv)+
      then show ?thesis
        using h Some Announce assms(1,2) b' few by (intro ok[of b']) (auto simp: tables_ok_def Let_def)
    qed
  qed
qed

text \<open>
  C9. The message loop does what the service promises: started on a queue whose messages for the broker
  are requests and publications as its clients format them (process numbers above 1 and below 2^31, topics
  of fewer than 64 characters without a comma, lines of fewer than 256), between messages for subscribers,
  and with tables without duplicates and subscribers with numbers above 1, it takes
  one pass per message (plus the final receive that blocks) and then its tables are those of the service
  and the queue holds the messages for subscribers it held before followed by the copies the service
  makes, in order; it runs into undefined behaviour exactly when a publication meets more than 100
  subscribers of its topic.
\<close>

theorem broker_loop_serves:
  assumes "tables_ok b" "\<forall>s \<in> set (live_subs b). 1 < sub_pid s"
    and "for_broker b = map call_msg calls" "\<forall>c \<in> set calls. call_ok c"
  shows "map_option (\<lambda>b'. (live_subs b', live_pubs b', mqueue b')) (broker_loop (Suc (length calls)) b) =
    map_option (\<lambda>(S, P, copies). (S, P, not_for_broker b @ copies)) (service calls (live_subs b) (live_pubs b))"
  using assms
proof (induction calls arbitrary: b)
  case Nil
  then have "mqueue b = not_for_broker b" by (auto simp: for_broker_def not_for_broker_def filter_empty_conv filter_id_conv)
  with Nil show ?case using msgrcv_for_broker(1)[of b] by simp
next
  case (Cons c cs)
  obtain q where q: "msgrcv 1 (mqueue b) = Some (call_msg c, q)" "filter (\<lambda>m. mtype m = 1) q = map call_msg cs"
      "filter (\<lambda>m. mtype m \<noteq> 1) q = not_for_broker b"
    using msgrcv_for_broker(2)[of b] Cons.prems(3) by fastforce
  let ?b = "b\<lparr>mqueue := q\<rparr>"
  have b: "tables_ok ?b" "\<forall>s \<in> set (live_subs ?b). 1 < sub_pid s" "call_ok c" using Cons.prems by simp_all
  show ?case
    using b
  proof (cases rule: call_step[where cs = cs])
    case fault
    with q(1) show ?thesis by simp
  next
    case (ok b' copies)
    have "map_option (\<lambda>b'. (live_subs b', live_pubs b', mqueue b')) (broker_loop (Suc (length cs)) b') =
        map_option (\<lambda>(S, P, out). (S, P, not_for_broker b' @ out)) (service cs (live_subs b') (live_pubs b'))"
      using ok q Cons.prems by (intro Cons.IH) simp_all
    with ok q show ?thesis by (simp add: option.map_comp comp_def case_prod_unfold del: service.simps)
  qed
qed

section \<open>Overflow of the subscriber array\<close>

text \<open>
  The two capacities do not match: the table takes 200 subscriptions, the array that
  \<open>find_subscribers\<close> fills has 100 slots. Started from an empty broker, more than a hundred
  subscribers of one topic (with room in the table) make the next message on that topic write
  past the end of the array.
\<close>

lemma send_overflows_pid_array:
  assumes "broker_start True MsgCreated = Inr b0"
    and "distinct ps" "MAX_PID_LIST < length ps" "length ps \<le> MAX_SUBSCRIPTIONS"
    and "pid_ok pid" "topic_ok topic" "length input < 256"
  shows "handle_message (mtext (send_msg pid topic input))
    (fold (\<lambda>p. do_subscribe p topic) ps b0) = None"
proof -
  let ?ops = "map (\<lambda>p. Ins \<lparr>sub_pid = p, sub_topic = topic\<rparr>) ps"
  let ?run = "table_run (\<lambda>e. do_subscribe (sub_pid e) (sub_topic e))
      (\<lambda>e. do_unsubscribe (sub_pid e) (sub_topic e))"
  let ?b = "fold (\<lambda>p. do_subscribe p topic) ps b0"
  have b0: "b0 = broker_empty" using assms(1) by (simp add: broker_start_empty)
  have run: "?run (map (\<lambda>p. Ins \<lparr>sub_pid = p, sub_topic = topic\<rparr>) qs) b =
      fold (\<lambda>p. do_subscribe p topic) qs b" for qs b
    by (induction qs arbitrary: b) auto
  have "ins_count ?ops = length ps"
    by (induction ps) auto
  moreover have "broker_wf b0" "distinct (live_subs b0)" "live_subs b0 = []"
    using tables_ok_empty by (auto simp: b0 tables_ok_def)
  moreover have "set_run (map (\<lambda>p. Ins \<lparr>sub_pid = p, sub_topic = topic\<rparr>) qs) S =
      S \<union> (\<lambda>p. \<lparr>sub_pid = p, sub_topic = topic\<rparr>) ` set qs" for qs and S :: "subscription set"
    by (induction qs arbitrary: S) auto
  ultimately have wf: "broker_wf ?b" "distinct (live_subs ?b)"
    and set: "set (live_subs ?b) = (\<lambda>p. \<lparr>sub_pid = p, sub_topic = topic\<rparr>) ` set ps"
    using subs.run_refines_set[of b0 ?ops] subs.run_wf_distinct[of b0 ?ops] assms(4)
    by (simp_all add: run)
  then have "filter (\<lambda>s. sub_topic s = topic) (live_subs ?b) = live_subs ?b"
    by (intro filter_True) auto
  then have "length (subscribers_of topic ?b) = card (set (live_subs ?b))"
    using wf by (simp add: subscribers_of_def distinct_card)
  also have "\<dots> = length ps"
    using assms(2) unfolding set by (subst card_image) (auto simp: inj_on_def distinct_card)
  finally have "MAX_PID_LIST < length (subscribers_of topic ?b)" using assms(3) by simp
  then have "do_send pid topic input ?b = None"
    using do_send_spec(1)[OF wf(1)] by blast
  then show ?thesis
    by (simp only: handle_client_messages(4)[OF assms(5,6,7)])
qed

section \<open>Concrete instances\<close>

lemma pid_topic_ok_examples [simp]: "pid_ok 5" "pid_ok 6" "pid_ok 7" "topic_ok ''news''" "topic_ok ''sport''"
  by (simp_all add: pid_ok_def topic_ok_def)

lemma handler_faults_exactly_witness:
  "tables_ok broker_empty \<and> handle_message (replicate 600 CHR ''x'') broker_empty = None \<and>
   handle_message ''subscribe,5,news'' broker_empty \<noteq> None"
proof -
  have e: "tables_ok broker_empty" by (rule tables_ok_empty)
  then have h: "handle_message s broker_empty = None \<longleftrightarrow> overlong s \<or> (\<exists>p t x. parse_message s = Some (Some (''send'', p, t, x)) \<and>
        100 < length (filter (\<lambda>e. sub_topic e = t) (live_subs broker_empty)))" for s
    using handler_faults_exactly[of broker_empty s] by (simp add: tables_ok_def)
  have "overlong (replicate 600 CHR ''x'')" by (simp add: overlong_def)
  moreover have "\<not> overlong ''subscribe,5,news''" by code_simp
  ultimately show ?thesis using e h tables_ok_empty(2) by simp
qed

lemma subscription_requests_refine_set_witness:
  "\<exists>b'. broker_loop 4 (broker_empty\<lparr>mqueue := [subscribe_msg 5 ''news'', subscribe_msg 6 ''news'',
       unsubscribe_msg 5 ''news'']\<rparr>) = Some b' \<and> set (live_subs b') = {\<lparr>sub_pid = 6, sub_topic = ''news''\<rparr>}"
proof -
  let ?s = "\<lparr>sub_pid = 5, sub_topic = ''news''\<rparr>" and ?t = "\<lparr>sub_pid = 6, sub_topic = ''news''\<rparr>"
  let ?ops = "[Ins ?s, Ins ?t, Del ?s]"
  let ?b = "broker_empty\<lparr>mqueue := map request_msg ?ops\<rparr>"
  have "tables_ok ?b" "mqueue ?b = map request_msg ?ops"
    "\<forall>r \<in> set ?ops. pid_ok (sub_pid (op_entry r)) \<and> topic_ok (sub_topic (op_entry r))"
    "length (live_subs ?b) + ins_count ?ops \<le> MAX_SUBSCRIPTIONS"
    using tables_ok_empty by (simp_all add: op_entry_def MAX_SUBSCRIPTIONS_def)
  from subscription_requests_refine_set[OF this] obtain b' where
    b': "broker_loop (Suc (length ?ops)) ?b = Some b'" "set (live_subs b') = set_run ?ops (set (live_subs ?b))"
    by blast
  have "set (live_subs b') = {?t}" unfolding b'(2) by (simp add: tables_ok_empty insert_Diff_if)
  with b'(1) show ?thesis
    by (intro exI[of _ b']) (simp add: request_msg_def eval_nat_numeral del: broker_loop.simps)
qed

lemma broker_loop_serves_witness:
  "\<exists>b'. broker_loop 3 (broker_empty\<lparr>mqueue := [subscribe_msg 5 ''news'', send_msg 7 ''news'' ''hi'']\<rparr>) = Some b' \<and>
     live_subs b' = [\<lparr>sub_pid = 5, sub_topic = ''news''\<rparr>] \<and> mqueue b' = [\<lparr>mtype = 5, mtext = ''news,hi''\<rparr>]"
proof -
  let ?b = "broker_empty\<lparr>mqueue := [subscribe_msg 5 ''news'', send_msg 7 ''news'' ''hi'']\<rparr>"
  let ?calls = "[Subscribe 5 ''news'', Announce 7 ''news'' ''hi'']"
  have fb: "for_broker ?b = map call_msg ?calls" "not_for_broker ?b = []" by (simp_all add: subscribe_msg_def send_msg_def)
  have "map_option (\<lambda>b'. (live_subs b', live_pubs b', mqueue b')) (broker_loop (Suc (length ?calls)) ?b) =
      Some ([\<lparr>sub_pid = 5, sub_topic = ''news''\<rparr>], [], [\<lparr>mtype = 5, mtext = ''news,hi''\<rparr>])"
    using broker_loop_serves[of ?b ?calls] fb tables_ok_empty by simp
  then show ?thesis by (auto simp: eval_nat_numeral simp del: broker_loop.simps)
qed

end
