(* ===== verification/Broker_System_Props.thy ===== *)
theory Broker_System_Props
  imports Broker_System Broker_Props
begin

text \<open>
  The broker, publishers and subscribers under every schedule: nothing faults, and what a subscriber
  is shown of a topic is an unbroken run of what its publisher sent (the interface \<open>step_invariant\<close>,
  interpreted with the flow of lines through the queue as invariant). But an interrupted subscriber
  never takes its messages, and they fill the queue for everyone.
\<close>

section \<open>The messages on the queue\<close>

datatype request = Reg int string | Sub int string | Pub int string string | Copy int string string

fun wire :: "request \<Rightarrow> msgbuf" where
  "wire (Reg p t) = register_msg p t"
| "wire (Sub p t) = subscribe_msg p t"
| "wire (Pub p t l) = send_msg p t l"
| "wire (Copy p t l) = \<lparr>mtype = p, mtext = t @ '','' @ l\<rparr>"

fun addressee :: "request \<Rightarrow> int" where
  "addressee (Copy p t l) = p"
| "addressee r = 1"

lemma mtype_wire [simp]: "mtype (wire r) = addressee r"
  by (cases r) (simp_all add: register_msg_def subscribe_msg_def send_msg_def)

lemma msgrcv_wire:
  "msgrcv t (map wire aq) = Some (m, q) \<Longrightarrow>
   \<exists>q1 r q2. aq = q1 @ r # q2 \<and> m = wire r \<and> q = map wire (q1 @ q2) \<and> addressee r = t \<and> (\<forall>x \<in> set q1. addressee x \<noteq> t)"
proof (induction aq arbitrary: q)
  case (Cons a aq)
  show ?case
  proof (cases "addressee a = t")
    case True
    with Cons.prems show ?thesis by (intro exI[of _ "[]"]) auto
  next
    case False
    with Cons.prems obtain q' where "msgrcv t (map wire aq) = Some (m, q')" "q = wire a # q'" by auto
    with Cons.IH obtain q1 r q2 where "aq = q1 @ r # q2" "m = wire r" "q' = map wire (q1 @ q2)" "addressee r = t"
        "\<forall>x \<in> set q1. addressee x \<noteq> t"
      by blast
    with False \<open>q = wire a # q'\<close> show ?thesis by (intro exI[of _ "a # q1"] exI[of _ r] exI[of _ q2]) auto
  qed
qed simp

text \<open>The publishers and subscribers: their process ids and topics.\<close>

type_synonym parties = "(int \<times> string) list \<times> (int \<times> string list) list"

definition parties_ok :: "parties \<Rightarrow> bool" where
  "parties_ok ps \<longleftrightarrow> (\<forall>x \<in> set (fst ps). pid_ok (fst x) \<and> topic_ok (snd x)) \<and>
     (\<forall>x \<in> set (snd ps). pid_ok (fst x) \<and> (\<forall>t \<in> set (snd x). topic_ok t)) \<and>
     distinct (map fst (snd ps)) \<and> length (snd ps) \<le> MAX_PID_LIST"

fun request_ok :: "parties \<Rightarrow> request \<Rightarrow> bool" where
  "request_ok ps (Reg p t) = ((p, t) \<in> set (fst ps))"
| "request_ok ps (Sub p t) = (\<exists>ts. (p, ts) \<in> set (snd ps) \<and> t \<in> set ts)"
| "request_ok ps (Pub p t l) = ((p, t) \<in> set (fst ps) \<and> length l < 256)"
| "request_ok ps (Copy p t l) = (p \<in> fst ` set (snd ps) \<and> topic_ok t \<and> length l < 256)"

definition parties_of :: "broker_system \<Rightarrow> parties" where
  "parties_of s = (map (\<lambda>p. (pub_pid p, pub_topic p)) (pubs s), map (\<lambda>u. (s_pid u, s_topics u)) (subs s))"

lemma request_addressee: "parties_ok ps \<Longrightarrow> request_ok ps r \<Longrightarrow> addressee r \<noteq> 1 \<Longrightarrow> \<exists>p t l. r = Copy p t l"
  by (cases r) auto

lemma copy_addressee: "parties_ok ps \<Longrightarrow> request_ok ps (Copy p t l) \<Longrightarrow> 1 < p"
  by (auto simp: parties_ok_def pid_ok_def)

section \<open>The broker's side\<close>

definition entries_ok :: "parties \<Rightarrow> broker \<Rightarrow> bool" where
  "entries_ok ps b \<longleftrightarrow> (\<forall>e \<in> set (live_subs b). sub_pid e \<in> fst ` set (snd ps))"

lemma few_subscribers:
  assumes "parties_ok ps" "tables_ok b" "entries_ok ps b"
  shows "length (subscribers_of t b) \<le> MAX_PID_LIST" "distinct (subscribers_of t b)"
    "set (subscribers_of t b) \<subseteq> fst ` set (snd ps)"
proof -
  show d: "distinct (subscribers_of t b)" using assms(2) by (intro distinct_subscribers) (simp add: tables_ok_def)
  show s: "set (subscribers_of t b) \<subseteq> fst ` set (snd ps)" using assms(3) by (auto simp: subscribers_of_def entries_ok_def)
  have "length (subscribers_of t b) = card (set (subscribers_of t b))" using d by (simp add: distinct_card)
  also have "\<dots> \<le> card (set (map fst (snd ps)))" using s by (intro card_mono) auto
  also have "\<dots> \<le> length (snd ps)" using card_length[of "map fst (snd ps)"] by simp
  finally show "length (subscribers_of t b) \<le> MAX_PID_LIST" using assms(1) by (simp add: parties_ok_def)
qed

lemma tables_mqueue [simp]:
  "mqueue (do_register p t b) = mqueue b" "mqueue (do_subscribe p t b) = mqueue b"
  by (simp_all add: do_register_def do_subscribe_def Let_def)

lemma receive_table_request:
  assumes "parties_ok ps" "request_ok ps r" "\<And>p t l. r \<noteq> Pub p t l" "addressee r = 1" "tables_ok b" "entries_ok ps b"
  obtains b' where "broker_receive (mtext (wire r)) b = Some (b', B_Wait)" "tables_ok b'" "entries_ok ps b'"
    "mqueue b' = mqueue b" "set (live_subs b) \<subseteq> set (live_subs b')"
proof (cases r)
  case (Reg p t)
  then have "pid_ok p" "topic_ok t" using assms(1,2) by (auto simp: parties_ok_def)
  with Reg assms(5,6) show ?thesis
    using that[of "do_register p t b"] handle_client_messages(3)[of p t b] parse_client_messages(3)[of p t]
    by (simp add: broker_receive_def tables_ok_register entries_ok_def)
next
  case (Sub p t)
  then have p: "pid_ok p" "topic_ok t" "p \<in> fst ` set (snd ps)" using assms(1,2) by (force simp: parties_ok_def)+
  have "broker_wf b" using assms(5) by (simp add: tables_ok_def)
  then have "entries_ok ps (do_subscribe p t b)" "set (live_subs b) \<subseteq> set (live_subs (do_subscribe p t b))"
    using assms(6) p(3) by (auto simp: entries_ok_def do_subscribe_live split: if_splits)
  with Sub assms(5) p show ?thesis
    using that[of "do_subscribe p t b"] handle_client_messages(1)[of p t b] parse_client_messages(1)[of p t]
    by (simp add: broker_receive_def tables_ok_subscribe)
qed (use assms(1-4) copy_addressee in fastforce)+

lemma receive_published:
  assumes "parties_ok ps" "request_ok ps (Pub p t l)" "tables_ok b" "entries_ok ps b"
  obtains b' pc where "broker_receive (mtext (wire (Pub p t l))) b = Some (b', pc)" "tables_ok b'" "mqueue b' = mqueue b"
    "live_subs b' = live_subs b"
    "pc = (if subscribers_of t b = [] then B_Wait else B_Forward (subscribers_of t b) (t @ '','' @ l))"
proof -
  let ?b1 = "say (''Message on '' @ t @ '' from '' @ show_int p @ '': '' @ l) b"
  have "pid_ok p" and t: "topic_ok t" and l: "length l < 256" using assms(1,2) by (auto simp: parties_ok_def)
  then have "parse_message (mtext (wire (Pub p t l))) = Some (Some (''send'', p, t, l))"
    using parse_client_messages(4) by simp
  moreover have "snprintf_into MTEXT_LEN (t @ '','' @ l) = t @ '','' @ l" using t l by (simp add: topic_ok_def)
  moreover have "find_subscribers t (say m b) = Some (subscribers_of t b @
      replicate (MAX_PID_LIST - length (subscribers_of t b)) 0, length (subscribers_of t b))" for m
    using few_subscribers(1)[OF assms(1,3,4), of t] find_subscribers_spec[of "say m b" t] assms(3) by (simp add: tables_ok_def)
  ultimately have "broker_receive (mtext (wire (Pub p t l))) b =
      Some (if subscribers_of t b = [] then (say (''No subscribers for topic '' @ t) ?b1, B_Wait)
            else (?b1, B_Forward (subscribers_of t b) (t @ '','' @ l)))"
    by (simp add: broker_receive_def Let_def)
  then show ?thesis using that[of "if subscribers_of t b = [] then say (''No subscribers for topic '' @ t) ?b1 else ?b1"] assms(3)
    by (simp split: if_splits)
qed

section \<open>The flow of lines from a publisher to a subscriber\<close>

text \<open>The copies the broker has in its hand: to whom, of which topic and line.\<close>

type_synonym hand = "(int list \<times> string \<times> string) option"

fun hand_pc :: "hand \<Rightarrow> broker_pc" where
  "hand_pc None = B_Wait"
| "hand_pc (Some (qs, t, l)) = B_Forward qs (t @ '','' @ l)"

definition asking :: "subscriber \<Rightarrow> bool" where
  "asking u \<longleftrightarrow> (case s_pc u of S_Request ts \<Rightarrow> set ts \<subseteq> set (s_topics u) | _ \<Rightarrow> True)"

definition system_ok :: "parties \<Rightarrow> broker_system \<Rightarrow> request list \<Rightarrow> hand \<Rightarrow> bool" where
  "system_ok ps s aq h \<longleftrightarrow> parties_ok ps \<and> parties_of s = ps \<and> tables_ok (bk s) \<and> entries_ok ps (bk s) \<and>
     mqueue (bk s) = map wire aq \<and> (\<forall>r \<in> set aq. request_ok ps r) \<and> bk_pc s = hand_pc h \<and>
     (\<forall>qs t l. h = Some (qs, t, l) \<longrightarrow> distinct qs \<and> set qs \<subseteq> fst ` set (snd ps) \<and> topic_ok t \<and> length l < 256) \<and>
     (\<forall>u \<in> set (subs s). asking u)"

definition published :: "string \<Rightarrow> request list \<Rightarrow> string list" where
  "published t aq = concat (map (\<lambda>r. case r of Pub p t' l \<Rightarrow> if t' = t then [l] else [] | _ \<Rightarrow> []) aq)"

definition copied_to :: "int \<Rightarrow> string \<Rightarrow> request list \<Rightarrow> string list" where
  "copied_to p t aq = concat (map (\<lambda>r. case r of Copy p' t' l \<Rightarrow> if p' = p \<and> t' = t then [l] else [] | _ \<Rightarrow> []) aq)"

definition in_hand :: "int \<Rightarrow> string \<Rightarrow> hand \<Rightarrow> string list" where
  "in_hand p t h = (case h of None \<Rightarrow> [] | Some (qs, t', l) \<Rightarrow> if t' = t \<and> p \<in> set qs then [l] else [])"

definition shown_of :: "string \<Rightarrow> subscriber \<Rightarrow> string list" where
  "shown_of t u = map snd (filter (\<lambda>(t', l). t' = t) (s_shown u))"

lemma flow_simps [simp]:
  "published t (aq @ bq) = published t aq @ published t bq" "copied_to p t (aq @ bq) = copied_to p t aq @ copied_to p t bq"
  "published t [] = []" "copied_to p t [] = []" "in_hand p t None = []"
  by (simp_all add: published_def copied_to_def in_hand_def)

lemma flow_Cons:
  "published t (r # aq) = published t [r] @ published t aq" "copied_to p t (r # aq) = copied_to p t [r] @ copied_to p t aq"
  by (simp_all add: published_def copied_to_def)

lemma flow_one:
  "published t [Reg p t1] = []" "published t [Sub p t1] = []" "published t [Copy p t1 l] = []"
  "published t [Pub p t1 l] = (if t1 = t then [l] else [])"
  "copied_to q t [Reg p t1] = []" "copied_to q t [Sub p t1] = []" "copied_to q t [Pub p t1 l] = []"
  "copied_to q t [Copy p t1 l] = (if p = q \<and> t1 = t then [l] else [])"
  by (simp_all add: published_def copied_to_def)

text \<open>What is on its way from the \<open>i\<close>-th publisher, the only one of its topic, to the \<open>j\<close>-th subscriber.\<close>

definition arrived :: "nat \<Rightarrow> nat \<Rightarrow> broker_system \<Rightarrow> request list \<Rightarrow> hand \<Rightarrow> string list" where
  "arrived i j s aq h =
     (let t = pub_topic (pubs s ! i); p = s_pid (subs s ! j)
      in shown_of t (subs s ! j) @ copied_to p t aq @ in_hand p t h)"

definition line_flow :: "nat \<Rightarrow> nat \<Rightarrow> broker_system \<Rightarrow> request list \<Rightarrow> hand \<Rightarrow> bool" where
  "line_flow i j s aq h \<longleftrightarrow>
     (\<exists>before. pub_sent (pubs s ! i) = before @ arrived i j s aq h @ published (pub_topic (pubs s ! i)) aq) \<and>
     (\<lparr>sub_pid = s_pid (subs s ! j), sub_topic = pub_topic (pubs s ! i)\<rparr> \<notin> set (live_subs (bk s)) \<longrightarrow> arrived i j s aq h = [])"

definition sole_publisher :: "parties \<Rightarrow> nat \<Rightarrow> bool" where
  "sole_publisher ps i \<longleftrightarrow> i < length (fst ps) \<and>
     (\<forall>k < length (fst ps). k \<noteq> i \<longrightarrow> snd (fst ps ! k) \<noteq> snd (fst ps ! i))"

definition flow_inv :: "parties \<Rightarrow> nat \<Rightarrow> nat \<Rightarrow> broker_system \<Rightarrow> bool" where
  "flow_inv ps i j s \<longleftrightarrow> sole_publisher ps i \<and> j < length (snd ps) \<and>
     (\<exists>aq h. system_ok ps s aq h \<and> line_flow i j s aq h)"

section \<open>Every step keeps the flow\<close>

lemma published_none: "\<forall>x \<in> set q. addressee x \<noteq> 1 \<Longrightarrow> published t q = []"
  by (auto simp: published_def split: request.splits)

lemma copied_none: "\<forall>x \<in> set q. addressee x \<noteq> p \<Longrightarrow> copied_to p t q = []"
  by (auto simp: copied_to_def split: request.splits)

lemma queue_send_wire:
  "queue_send n m b \<noteq> Fault" "queue_send n m b = Stepped b' \<Longrightarrow> b' = b\<lparr>mqueue := mqueue b @ [m]\<rparr>"
  by (auto simp: queue_send_def split: if_splits)

lemma parties_of_frame [simp]:
  "parties_of (s\<lparr>bk := b\<rparr>) = parties_of s" "parties_of (s\<lparr>bk_pc := pc\<rparr>) = parties_of s"
  by (simp_all add: parties_of_def)

lemma parties_of_update:
  "k < length (pubs s) \<Longrightarrow> pub_pid p = pub_pid (pubs s ! k) \<Longrightarrow> pub_topic p = pub_topic (pubs s ! k) \<Longrightarrow>
   parties_of (s\<lparr>pubs := (pubs s)[k := p]\<rparr>) = parties_of s"
  "k < length (subs s) \<Longrightarrow> s_pid u = s_pid (subs s ! k) \<Longrightarrow> s_topics u = s_topics (subs s ! k) \<Longrightarrow>
   parties_of (s\<lparr>subs := (subs s)[k := u]\<rparr>) = parties_of s"
  by (auto simp: parties_of_def list_eq_iff_nth_eq nth_list_update)

lemma entries_frame [simp]: "entries_ok ps (b\<lparr>mqueue := q\<rparr>) = entries_ok ps b" "entries_ok ps (say l b) = entries_ok ps b"
  by (simp_all add: entries_ok_def)

lemma member_parties:
  "parties_of s = ps \<Longrightarrow> k < length (pubs s) \<Longrightarrow> (pub_pid (pubs s ! k), pub_topic (pubs s ! k)) \<in> set (fst ps)"
  "parties_of s = ps \<Longrightarrow> k < length (subs s) \<Longrightarrow> (s_pid (subs s ! k), s_topics (subs s ! k)) \<in> set (snd ps)"
  by (auto simp: parties_of_def)

lemma serve_flow:
  assumes "system_ok ps s aq h" "line_flow i j s aq h" "sole_publisher ps i" "j < length (snd ps)"
  shows "broker_step n s = Blocked \<or> (\<exists>s'. broker_step n s = Stepped s' \<and> flow_inv ps i j s')"
proof (cases h)
  case None
  show ?thesis
  proof (cases "msgrcv 1 (mqueue (bk s))")
    case None
    with \<open>h = None\<close> assms(1) show ?thesis by (simp add: broker_step_def system_ok_def)
  next
    case (Some mq)
    obtain m q where mq: "mq = (m, q)" by (cases mq)
    with Some assms(1) obtain q1 r q2 where q: "aq = q1 @ r # q2" "m = wire r" "q = map wire (q1 @ q2)" "addressee r = 1"
        "\<forall>x \<in> set q1. addressee x \<noteq> 1"
      using msgrcv_wire[of 1 aq m q] by (auto simp: system_ok_def)
    let ?b = "(bk s)\<lparr>mqueue := map wire (q1 @ q2)\<rparr>"
    have ok: "parties_ok ps" "request_ok ps r" "tables_ok ?b" "entries_ok ps ?b" "bk_pc s = B_Wait"
      using assms(1) q(1) \<open>h = None\<close> by (auto simp: system_ok_def)
    have flow: "published t aq = published t [r] @ published t (q1 @ q2)" for t
      using published_none[OF q(5)] q(1) by (simp add: flow_Cons(1)[of t r q2])
    have step: "broker_step n s = Stepped (s\<lparr>bk := b, bk_pc := pc\<rparr>)" if "broker_receive (mtext (wire r)) ?b = Some (b, pc)" for b pc
      using that ok(5) Some mq q by (simp add: broker_step_def)
    show ?thesis
    proof (cases "\<exists>p t l. r = Pub p t l")
      case False
      obtain b' where b': "broker_receive (mtext (wire r)) ?b = Some (b', B_Wait)" "tables_ok b'" "entries_ok ps b'"
          "mqueue b' = mqueue ?b" "set (live_subs ?b) \<subseteq> set (live_subs b')"
        using receive_table_request[OF ok(1,2) _ q(4) ok(3,4)] False by blast
      let ?s = "s\<lparr>bk := b', bk_pc := B_Wait\<rparr>"
      have "system_ok ps ?s (q1 @ q2) None" using assms(1) b' q(1) by (auto simp: system_ok_def)
      have "published t [r] = [] \<and> copied_to p t [r] = []" for p t
        using q(4) False copy_addressee[OF ok(1)] ok(2) by (cases r) (auto simp: flow_one)
      then have same: "copied_to p t aq = copied_to p t (q1 @ q2)" "published t [r] = []" for p t
        using q(1) flow_Cons(2)[of p t r q2] by simp_all
      have "arrived i j ?s (q1 @ q2) None = arrived i j s aq h" "published t (q1 @ q2) = published t aq" for t
        using same flow \<open>h = None\<close> by (simp_all add: arrived_def Let_def)
      then have "line_flow i j ?s (q1 @ q2) None"
        using assms(2) subsetD[OF b'(5)] by (auto simp: line_flow_def simp del: flow_simps)
      with \<open>system_ok ps ?s (q1 @ q2) None\<close> show ?thesis using step[OF b'(1)] assms(3,4) by (auto simp: flow_inv_def)
    next
      case True
      then obtain p t l where r: "r = Pub p t l" by blast
      obtain b' pc where b': "broker_receive (mtext (wire r)) ?b = Some (b', pc)" "tables_ok b'" "mqueue b' = mqueue ?b"
          "live_subs b' = live_subs ?b"
          "pc = (if subscribers_of t ?b = [] then B_Wait else B_Forward (subscribers_of t ?b) (t @ '','' @ l))"
        using receive_published[of ps p t l ?b] ok r by metis
      define h' :: hand where "h' = (if subscribers_of t ?b = [] then None else Some (subscribers_of t ?b, t, l))"
      let ?s = "s\<lparr>bk := b', bk_pc := pc\<rparr>"
      have "topic_ok t" "length l < 256" using ok(1,2) r by (auto simp: parties_ok_def)
      then have "system_ok ps ?s (q1 @ q2) h'"
        using assms(1) b' q(1) few_subscribers(2,3)[OF ok(1,3,4), of t]
        by (auto simp: system_ok_def h'_def entries_ok_def)
      have same: "copied_to p' t' aq = copied_to p' t' (q1 @ q2)" for p' t'
        using q(1) r by (simp add: flow_Cons(2)[of p' t' "Pub p t l" q2] flow_one)
      have mem: "p' \<in> set (subscribers_of t ?b) \<longleftrightarrow> \<lparr>sub_pid = p', sub_topic = t\<rparr> \<in> set (live_subs (bk s))" for p'
        by (force simp: subscribers_of_def)
      let ?p = "s_pid (subs s ! j)" and ?t = "pub_topic (pubs s ! i)"
      have hand: "in_hand ?p ?t h' = (if t = ?t \<and> ?p \<in> set (subscribers_of t ?b) then [l] else [])"
        by (auto simp: in_hand_def h'_def)
      have "arrived i j ?s (q1 @ q2) h' = arrived i j s aq h @ in_hand ?p ?t h'"
        using same \<open>h = None\<close> by (simp add: arrived_def Let_def)
      moreover have "published ?t aq = (if t = ?t then [l] else []) @ published ?t (q1 @ q2)"
        using flow[of ?t] r by (simp add: flow_one)
      ultimately have "line_flow i j ?s (q1 @ q2) h'"
        using assms(2) b'(4) mem[of ?p] hand
        by (cases "t = ?t \<and> ?p \<in> set (subscribers_of t ?b)") (auto simp: line_flow_def simp del: flow_simps)
      with \<open>system_ok ps ?s (q1 @ q2) h'\<close> show ?thesis using step[OF b'(1)] assms(3,4) by (auto simp: flow_inv_def)
    qed
  qed
next
  case (Some x)
  then obtain qs t l where h: "h = Some (qs, t, l)" by (cases x) auto
  let ?p = "s_pid (subs s ! j)" and ?t = "pub_topic (pubs s ! i)"
  have pc: "bk_pc s = B_Forward qs (t @ '','' @ l)"
    and hand: "distinct qs" "set qs \<subseteq> fst ` set (snd ps)" "topic_ok t" "length l < 256"
    using assms(1) h by (auto simp: system_ok_def)
  show ?thesis
  proof (cases qs)
    case Nil
    let ?s = "s\<lparr>bk_pc := B_Wait\<rparr>"
    have "system_ok ps ?s aq None" using assms(1) h by (auto simp: system_ok_def)
    moreover have "arrived i j ?s aq None = arrived i j s aq h" using Nil h by (simp add: arrived_def in_hand_def)
    then have "line_flow i j ?s aq None" using assms(2) by (simp add: line_flow_def)
    ultimately show ?thesis using pc Nil assms(3,4) by (auto simp: broker_step_def flow_inv_def)
  next
    case (Cons p qs')
    have p: "1 < p" "request_ok ps (Copy p t l)" using Cons hand assms(1) copy_addressee[of ps p t l] by (auto simp: system_ok_def)
    let ?m = "wire (Copy p t l)"
    let ?b = "say (''Sent to subscriber '' @ show_int p) ((bk s)\<lparr>mqueue := mqueue (bk s) @ [?m]\<rparr>)"
    let ?s = "s\<lparr>bk := ?b, bk_pc := B_Forward qs' (t @ '','' @ l)\<rparr>"
    have "system_ok ps ?s (aq @ [Copy p t l]) (Some (qs', t, l))"
      using assms(1) h Cons hand p(2) by (auto simp: system_ok_def)
    moreover have "arrived i j ?s (aq @ [Copy p t l]) (Some (qs', t, l)) = arrived i j s aq h"
      using h Cons hand(1) by (auto simp: arrived_def in_hand_def Let_def flow_one)
    then have "line_flow i j ?s (aq @ [Copy p t l]) (Some (qs', t, l))"
      using assms(2) by (simp add: line_flow_def flow_one)
    ultimately have "flow_inv ps i j ?s" using assms(3,4) by (auto simp: flow_inv_def)
    then show ?thesis
      using pc Cons p(1) queue_send_wire[of n ?m "bk s"] by (cases "queue_send n ?m (bk s)") (auto simp: broker_step_def)
  qed
qed

lemma queue_add:
  assumes "system_ok ps s aq h" "request_ok ps r"
  shows "system_ok ps (s\<lparr>bk := (bk s)\<lparr>mqueue := mqueue (bk s) @ [wire r]\<rparr>\<rparr>) (aq @ [r]) h"
  using assms by (auto simp: system_ok_def)

lemma publish_flow:
  assumes "system_ok ps s aq h" "line_flow i j s aq h" "sole_publisher ps i" "j < length (snd ps)"
  shows "broker_sys_step n (Publish k) s = Blocked \<or>
    (\<exists>s'. broker_sys_step n (Publish k) s = Stepped s' \<and> flow_inv ps i j s')"
proof (cases "k < length (pubs s)")
  case True
  let ?p = "pubs s ! k"
  have party: "(pub_pid ?p, pub_topic ?p) \<in> set (fst ps)"
    using assms(1) True by (intro member_parties) (simp_all add: system_ok_def)
  have i: "i < length (pubs s)" using assms(1,3) by (auto simp: system_ok_def sole_publisher_def parties_of_def)
  have other: "k = i \<or> pub_topic ?p \<noteq> pub_topic (pubs s ! i)"
    using assms(1,3) True by (auto simp: system_ok_def sole_publisher_def parties_of_def)
  have quiet: "flow_inv ps i j (s\<lparr>pubs := (pubs s)[k := p'], bk := bk s\<rparr>)"
    if "pub_pid p' = pub_pid ?p" "pub_topic p' = pub_topic ?p" "pub_sent p' = pub_sent ?p" for p'
  proof -
    have same: "pub_topic ((pubs s)[k := p'] ! i) = pub_topic (pubs s ! i)" "pub_sent ((pubs s)[k := p'] ! i) = pub_sent (pubs s ! i)"
      using that True by (cases "k = i"; simp)+
    have "system_ok ps (s\<lparr>pubs := (pubs s)[k := p'], bk := bk s\<rparr>) aq h"
      using assms(1) parties_of_update(1)[OF True that(1,2)] by (simp add: system_ok_def)
    moreover have "line_flow i j (s\<lparr>pubs := (pubs s)[k := p'], bk := bk s\<rparr>) aq h"
      using assms(2) same by (simp add: line_flow_def arrived_def Let_def)
    ultimately show ?thesis using assms(3,4) by (auto simp: flow_inv_def)
  qed
  have sent: "flow_inv ps i j (s\<lparr>pubs := (pubs s)[k := p'], bk := (bk s)\<lparr>mqueue := mqueue (bk s) @ [wire r]\<rparr>\<rparr>)"
    if p': "pub_pid p' = pub_pid ?p" "pub_topic p' = pub_topic ?p"
      and r: "request_ok ps r" "\<And>p t. copied_to p t [r] = []" "pub_sent p' = pub_sent ?p @ published (pub_topic ?p) [r]"
        "\<And>t. t \<noteq> pub_topic ?p \<Longrightarrow> published t [r] = []" for p' r
  proof -
    let ?s = "s\<lparr>pubs := (pubs s)[k := p'], bk := (bk s)\<lparr>mqueue := mqueue (bk s) @ [wire r]\<rparr>\<rparr>"
    have same: "pub_topic ((pubs s)[k := p'] ! i) = pub_topic (pubs s ! i)"
      "pub_sent ((pubs s)[k := p'] ! i) = pub_sent (pubs s ! i) @ published (pub_topic (pubs s ! i)) [r]"
      using p' r(3,4) other True by (cases "k = i"; simp)+
    have "system_ok ps (s\<lparr>bk := (bk s)\<lparr>mqueue := mqueue (bk s) @ [wire r]\<rparr>\<rparr>) (aq @ [r]) h"
      by (rule queue_add[OF assms(1) r(1)])
    then have "system_ok ps ?s (aq @ [r]) h"
      using parties_of_update(1)[OF True p'(1,2)] by (simp add: system_ok_def parties_of_def)
    moreover have "arrived i j ?s (aq @ [r]) h = arrived i j s aq h" using same r(2) by (simp add: arrived_def Let_def)
    then have "line_flow i j ?s (aq @ [r]) h"
      using assms(2) same by (auto simp: line_flow_def simp flip: append_assoc)
    ultimately show ?thesis using assms(3,4) by (auto simp: flow_inv_def)
  qed
  have out: "publisher_step n ?p (bk s) = Blocked \<or>
      (\<exists>p' b'. publisher_step n ?p (bk s) = Stepped (p', b') \<and> flow_inv ps i j (s\<lparr>pubs := (pubs s)[k := p'], bk := b'\<rparr>))"
  proof (cases "pub_pc ?p")
    case P_Register
    let ?r = "Reg (pub_pid ?p) (pub_topic ?p)"
    have "flow_inv ps i j (s\<lparr>pubs := (pubs s)[k := ?p\<lparr>pub_pc := P_Typing\<rparr>], bk := (bk s)\<lparr>mqueue := mqueue (bk s) @ [wire ?r]\<rparr>\<rparr>)"
      using party by (intro sent) (simp_all add: flow_one)
    then show ?thesis
      using queue_send_wire[of n "wire ?r" "bk s"] P_Register
      by (cases "queue_send n (wire ?r) (bk s)") (auto simp: publisher_step_def)
  next
    case P_Typing
    show ?thesis
    proof (cases "fgets 256 (pub_in ?p)")
      case None
      with P_Typing show ?thesis using quiet[of "?p\<lparr>pub_pc := P_Stopped\<rparr>"] by (simp add: publisher_step_def)
    next
      case (Some lr)
      obtain l rest where lr: "lr = (l, rest)" by (cases lr)
      let ?r = "Pub (pub_pid ?p) (pub_topic ?p) (chomp l)"
      let ?p' = "?p\<lparr>pub_in := rest, pub_sent := pub_sent ?p @ [chomp l]\<rparr>"
      have "length (chomp l) < 256"
        using fgets_bounds(1)[of 256 "pub_in ?p" l rest] Some lr length_chomp_le[of l] by simp
      then have "flow_inv ps i j (s\<lparr>pubs := (pubs s)[k := ?p'], bk := (bk s)\<lparr>mqueue := mqueue (bk s) @ [wire ?r]\<rparr>\<rparr>)"
        using party by (intro sent) (simp_all add: flow_one)
      then show ?thesis
        using queue_send_wire[of n "wire ?r" "bk s"] P_Typing Some lr quiet[of "?p\<lparr>pub_in := rest\<rparr>"]
          quiet[of "?p\<lparr>pub_in := rest, pub_pc := P_Stopped\<rparr>"]
        by (cases "queue_send n (wire ?r) (bk s)") (auto simp: publisher_step_def Let_def)
    qed
  qed (simp add: publisher_step_def)
  with True show ?thesis by (auto simp: broker_sys_step_def)
qed (simp add: broker_sys_step_def)

lemma subscriber_update:
  assumes "system_ok ps s aq h" "k < length (subs s)"
    and "s_pid u = s_pid (subs s ! k)" "s_topics u = s_topics (subs s ! k)" "asking u"
  shows "system_ok ps (s\<lparr>subs := (subs s)[k := u]\<rparr>) aq h"
proof -
  have "\<forall>v \<in> set ((subs s)[k := u]). asking v"
    using assms(1,5) set_update_subset_insert[of "subs s" k u] by (auto simp: system_ok_def)
  then show ?thesis using assms(1) parties_of_update(2)[OF assms(2-4)] by (simp add: system_ok_def)
qed

lemma attend_flow:
  assumes "system_ok ps s aq h" "line_flow i j s aq h" "sole_publisher ps i" "j < length (snd ps)"
  shows "broker_sys_step n (Attend k) s = Blocked \<or>
    (\<exists>s'. broker_sys_step n (Attend k) s = Stepped s' \<and> flow_inv ps i j s')"
proof (cases "k < length (subs s)")
  case True
  let ?u = "subs s ! k" and ?t = "pub_topic (pubs s ! i)"
  have party: "(s_pid ?u, s_topics ?u) \<in> set (snd ps)"
    using assms(1) True by (intro member_parties) (simp_all add: system_ok_def)
  have ps: "parties_ok ps" using assms(1) by (simp add: system_ok_def)
  have pids: "s_pid ?u = s_pid (subs s ! j) \<longleftrightarrow> k = j"
  proof -
    have "map fst (snd ps) = map s_pid (subs s)" using assms(1) by (auto simp: system_ok_def parties_of_def)
    with ps True assms(4) show ?thesis
      using nth_eq_iff_index_eq[of "map s_pid (subs s)" k j] by (auto simp: parties_ok_def dest: map_eq_imp_length_eq)
  qed
  have kept: "system_ok ps (s\<lparr>subs := (subs s)[k := u']\<rparr>) aq h"
    if "s_pid u' = s_pid ?u" "s_topics u' = s_topics ?u" "asking u'" for u'
    by (rule subscriber_update[OF assms(1) True that])
  have out: "subscriber_step n ?u (bk s) = Blocked \<or>
      (\<exists>u' b'. subscriber_step n ?u (bk s) = Stepped (u', b') \<and> flow_inv ps i j (s\<lparr>subs := (subs s)[k := u'], bk := b'\<rparr>))"
  proof (cases "s_pc ?u")
    case (S_Request ts)
    have "asking ?u" using assms(1) True by (simp add: system_ok_def)
    then have ts: "set ts \<subseteq> set (s_topics ?u)" using S_Request by (simp add: asking_def)
    show ?thesis
    proof (cases ts)
      case Nil
      let ?u' = "?u\<lparr>s_pc := S_Waiting\<rparr>"
      let ?s = "s\<lparr>subs := (subs s)[k := ?u'], bk := bk s\<rparr>"
      have "(subs s)[k := ?u'] ! j = (if k = j then ?u' else subs s ! j)" using True by (simp add: nth_list_update)
      then have "line_flow i j ?s aq h" using assms(2) by (auto simp: line_flow_def arrived_def shown_of_def Let_def)
      moreover have "system_ok ps ?s aq h" using kept[of ?u'] by (simp add: asking_def)
      ultimately show ?thesis using S_Request Nil assms(3,4) by (auto simp: subscriber_step_def flow_inv_def)
    next
      case (Cons t ts')
      let ?u' = "?u\<lparr>s_pc := S_Request ts'\<rparr>" and ?r = "Sub (s_pid ?u) t"
      let ?s = "s\<lparr>subs := (subs s)[k := ?u'], bk := (bk s)\<lparr>mqueue := mqueue (bk s) @ [wire ?r]\<rparr>\<rparr>"
      have "(subs s)[k := ?u'] ! j = (if k = j then ?u' else subs s ! j)" using True by (simp add: nth_list_update)
      then have "line_flow i j ?s (aq @ [?r]) h"
        using assms(2) by (auto simp: line_flow_def arrived_def shown_of_def Let_def flow_one)
      moreover have "request_ok ps ?r" using party ts Cons by auto
      then have "system_ok ps ?s (aq @ [?r]) h"
        using queue_add[OF kept[of ?u'], of ?r] ts Cons by (simp add: asking_def)
      ultimately have "flow_inv ps i j ?s" using assms(3,4) by (auto simp: flow_inv_def)
      then show ?thesis
        using queue_send_wire[of n "wire ?r" "bk s"] S_Request Cons
        by (cases "queue_send n (wire ?r) (bk s)") (auto simp: subscriber_step_def)
    qed
  next
    case S_Waiting
    show ?thesis
    proof (cases "msgrcv (s_pid ?u) (mqueue (bk s))")
      case None
      with S_Waiting show ?thesis by (simp add: subscriber_step_def)
    next
      case (Some mq)
      obtain m q where mq: "mq = (m, q)" by (cases mq)
      with Some assms(1) obtain q1 r q2 where q: "aq = q1 @ r # q2" "m = wire r" "q = map wire (q1 @ q2)" "addressee r = s_pid ?u"
          "\<forall>x \<in> set q1. addressee x \<noteq> s_pid ?u"
        using msgrcv_wire[of "s_pid ?u" aq m q] by (auto simp: system_ok_def)
      have "1 < s_pid ?u" using party ps by (auto simp: parties_ok_def pid_ok_def)
      moreover have rok: "request_ok ps r" using assms(1) q(1) by (auto simp: system_ok_def)
      ultimately obtain t l where r: "r = Copy (s_pid ?u) t l" using request_addressee[OF ps rok] q(4) by auto
      then have rcv: "parse_received_message (mtext m) = Some (t, l)"
        using rok q(2) parse_received[of t l] by (auto simp: topic_ok_def)
      let ?u' = "?u\<lparr>s_shown := s_shown ?u @ [(t, l)]\<rparr>"
      let ?s = "s\<lparr>subs := (subs s)[k := ?u'], bk := (bk s)\<lparr>mqueue := map wire (q1 @ q2)\<rparr>\<rparr>"
      have upd: "(subs s)[k := ?u'] ! j = (if k = j then ?u' else subs s ! j)" using True by (simp add: nth_list_update)
      have "copied_to (s_pid ?u) ?t aq = (if t = ?t then [l] else []) @ copied_to (s_pid ?u) ?t (q1 @ q2)"
        using copied_none[OF q(5)] q(1) r flow_Cons(2)[of "s_pid ?u" ?t r q2] by (simp add: flow_one)
      moreover have "copied_to p ?t aq = copied_to p ?t (q1 @ q2)" if "p \<noteq> s_pid ?u" for p
        using that q(1) r flow_Cons(2)[of p ?t r q2] by (simp add: flow_one)
      moreover have "published t' aq = published t' (q1 @ q2)" for t'
        using q(1) r flow_Cons(1)[of t' r q2] by (simp add: flow_one)
      ultimately have "arrived i j ?s (q1 @ q2) h = arrived i j s aq h" "published ?t (q1 @ q2) = published ?t aq"
        using upd pids by (cases "k = j"; auto simp: arrived_def shown_of_def Let_def)+
      then have "line_flow i j ?s (q1 @ q2) h" using assms(2) upd by (auto simp: line_flow_def simp del: flow_simps)
      moreover have "system_ok ps ?s (q1 @ q2) h" using kept[of ?u'] S_Waiting q(1) by (simp add: system_ok_def asking_def)
      ultimately have "flow_inv ps i j ?s" using assms(3,4) by (auto simp: flow_inv_def)
      then show ?thesis using S_Waiting Some mq q(3) rcv by (simp add: subscriber_step_def)
    qed
  qed (simp add: subscriber_step_def)
  with True show ?thesis by (auto simp: broker_sys_step_def)
qed (simp add: broker_sys_step_def)

lemma interrupt_flow:
  assumes "system_ok ps s aq h" "line_flow i j s aq h" "sole_publisher ps i" "j < length (snd ps)"
  shows "broker_sys_step n (Interrupt k) s = Blocked \<or>
    (\<exists>s'. broker_sys_step n (Interrupt k) s = Stepped s' \<and> flow_inv ps i j s')"
proof (cases "k < length (subs s)")
  case True
  let ?u' = "(subs s ! k)\<lparr>s_pc := S_Stopped\<rparr>"
  let ?s = "s\<lparr>subs := (subs s)[k := ?u']\<rparr>"
  have "system_ok ps ?s aq h" by (rule subscriber_update[OF assms(1) True]) (simp_all add: asking_def)
  moreover have "(subs s)[k := ?u'] ! j = (if k = j then ?u' else subs s ! j)" using True by (simp add: nth_list_update)
  then have "line_flow i j ?s aq h" using assms(2) by (auto simp: line_flow_def arrived_def shown_of_def Let_def)
  ultimately show ?thesis using True assms(3,4) by (auto simp: broker_sys_step_def flow_inv_def)
qed (simp add: broker_sys_step_def)

lemma sys_step_flow:
  assumes "flow_inv ps i j s"
  shows "broker_sys_step n e s = Blocked \<or> (\<exists>s'. broker_sys_step n e s = Stepped s' \<and> flow_inv ps i j s')"
proof -
  obtain aq h where a: "system_ok ps s aq h" "line_flow i j s aq h" "sole_publisher ps i" "j < length (snd ps)"
    using assms by (auto simp: flow_inv_def)
  show ?thesis
  proof (cases e)
    case Serve
    then show ?thesis using serve_flow[OF a] by (simp add: broker_sys_step_def)
  qed (use publish_flow[OF a] attend_flow[OF a] interrupt_flow[OF a] in simp_all)
qed

interpretation brokering: step_invariant "broker_sys_step n" "flow_inv ps i j" for n ps i j
  using sys_step_flow by unfold_locales (metis outcome.distinct(5) outcome.distinct(1), metis outcome.inject outcome.distinct(3))

section \<open>Delivery under every schedule\<close>

definition starts :: "broker_system \<Rightarrow> bool" where
  "starts s \<longleftrightarrow> bk s = broker_empty \<and> bk_pc s = B_Wait \<and>
     (\<forall>p \<in> set (pubs s). pub_pc p = P_Register \<and> pub_sent p = []) \<and>
     (\<forall>u \<in> set (subs s). s_pc u = S_Request (s_topics u) \<and> s_shown u = [])"

lemma flow_start:
  assumes "parties_ok (parties_of s)" "sole_publisher (parties_of s) i" "j < length (subs s)" "starts s"
  shows "flow_inv (parties_of s) i j s"
proof -
  have b: "bk s = broker_empty" "bk_pc s = B_Wait" using assms(4) by (simp_all add: starts_def)
  have "system_ok (parties_of s) s [] None"
    using assms(1,4) b tables_ok_empty by (auto simp: system_ok_def starts_def entries_ok_def asking_def broker_empty_def)
  moreover have "pub_sent (pubs s ! i) = []" "s_shown (subs s ! j) = []"
    using assms(2-4) by (auto simp: starts_def sole_publisher_def parties_of_def)
  then have "line_flow i j s [] None" by (simp add: line_flow_def arrived_def shown_of_def)
  ultimately show ?thesis using assms(2,3) by (auto simp: flow_inv_def parties_of_def)
qed

text \<open>
  C11. Let there be at most 100 subscribers, with distinct process numbers, all process numbers above 1 (the
  broker's message type) and below 2^31, and topics of fewer than 64 characters without a comma; all start
  with an empty broker. Then whatever the schedule and however small the queue, no process meets undefined
  behaviour, and each subscriber is shown of a topic with one publisher an unbroken run of the lines this
  publisher has sent: none lost in between, doubled, changed or out of order. When the queue is empty and the
  broker waits, the run reaches up to the last line sent. With 101 subscribers of a topic the broker
  overflows an array (\<open>send_overflows_pid_array\<close>).
\<close>

theorem broker_delivers_in_order:
  assumes "parties_ok (parties_of s)" "sole_publisher (parties_of s) i" "j < length (subs s)" "starts s"
  shows "\<exists>s' before after. run_steps (broker_sys_step n) es s = Some s' \<and>
    pub_sent (pubs s' ! i) = before @ shown_of (pub_topic (pubs s ! i)) (subs s' ! j) @ after \<and>
    (mqueue (bk s') = [] \<and> bk_pc s' = B_Wait \<longrightarrow> after = [])"
proof -
  obtain s' where s': "run_steps (broker_sys_step n) es s = Some s'" "flow_inv (parties_of s) i j s'"
    using brokering.run_good[OF flow_start[OF assms]] by blast
  then obtain aq h before where f: "system_ok (parties_of s) s' aq h"
      "pub_sent (pubs s' ! i) = before @ arrived i j s' aq h @ published (pub_topic (pubs s' ! i)) aq"
    by (auto simp: flow_inv_def line_flow_def)
  have same: "fst (parties_of s') = fst (parties_of s)" and i: "i < length (fst (parties_of s))"
    using f(1) assms(2) by (simp_all add: system_ok_def sole_publisher_def)
  have "snd (fst (parties_of s') ! i) = snd (fst (parties_of s) ! i)" by (simp add: same)
  moreover have "i < length (pubs s)" "i < length (pubs s')" using i same by (auto simp: parties_of_def dest: map_eq_imp_length_eq)
  ultimately have t: "pub_topic (pubs s' ! i) = pub_topic (pubs s ! i)" by (simp add: parties_of_def)
  let ?t = "pub_topic (pubs s ! i)" and ?p = "s_pid (subs s' ! j)"
  have "h = None" if "bk_pc s' = B_Wait" using f(1) that by (cases h rule: hand_pc.cases) (auto simp: system_ok_def)
  moreover have "aq = []" if "mqueue (bk s') = []" using f(1) that by (simp add: system_ok_def)
  ultimately have "mqueue (bk s') = [] \<and> bk_pc s' = B_Wait \<longrightarrow> copied_to ?p ?t aq @ in_hand ?p ?t h @ published ?t aq = []"
    by auto
  moreover have "pub_sent (pubs s' ! i) =
      before @ shown_of ?t (subs s' ! j) @ copied_to ?p ?t aq @ in_hand ?p ?t h @ published ?t aq"
    using f(2) t by (simp add: arrived_def Let_def)
  ultimately show ?thesis using s'(1) by blast
qed

definition one_each :: "string \<Rightarrow> broker_system" where
  "one_each inp = broker_sys_start broker_empty
     [\<lparr>pub_pid = 2, pub_topic = ''t'', pub_pc = P_Register, pub_in = inp, pub_sent = []\<rparr>]
     [\<lparr>s_pid = 3, s_topics = [''t''], s_pc = S_Request [''t''], s_shown = []\<rparr>]"

lemma one_each_starts:
  "parties_ok (parties_of (one_each inp))" "sole_publisher (parties_of (one_each inp)) 0" "starts (one_each inp)"
  by (simp_all add: parties_ok_def one_each_def broker_sys_start_def parties_of_def pid_ok_def topic_ok_def
      sole_publisher_def starts_def MAX_PID_LIST_def)

lemma broker_delivers_in_order_witness:
  "\<exists>s' before after. run_steps (broker_sys_step 16384) [Attend 0, Serve, Publish 0, Attend 0, Publish 0, Serve, Serve, Serve]
      (one_each (''x'' @ [NL])) = Some s' \<and>
    pub_sent (pubs s' ! 0) = before @ shown_of ''t'' (subs s' ! 0) @ after"
proof -
  have "pub_topic (pubs (one_each (''x'' @ [NL])) ! 0) = ''t''" "0 < length (subs (one_each (''x'' @ [NL])))"
    by (simp_all add: one_each_def broker_sys_start_def)
  with broker_delivers_in_order[OF one_each_starts(1,2) _ one_each_starts(3)] show ?thesis by fastforce
qed

section \<open>An interrupted subscriber fills the queue\<close>

lemma show_small_int: "show_int 2 = ''2''" "show_int 3 = ''3''"
  by code_simp+

lemma small_messages:
  "wire (Reg 2 ''t'') = \<lparr>mtype = 1, mtext = ''register,2,t''\<rparr>" "wire (Sub 3 ''t'') = \<lparr>mtype = 1, mtext = ''subscribe,3,t''\<rparr>"
  "wire (Pub 2 ''t'' ''x'') = \<lparr>mtype = 1, mtext = ''send,2,t,x''\<rparr>" "wire (Copy 3 ''t'' ''x'') = \<lparr>mtype = 3, mtext = ''t,x''\<rparr>"
  by (simp_all add: register_msg_def subscribe_msg_def send_msg_def show_small_int)

definition lines_x :: "nat \<Rightarrow> string" where
  "lines_x m = concat (replicate m (''x'' @ [NL]))"

text \<open>The only subscriber is gone and \<open>k\<close> copies wait for it; the publisher has \<open>m\<close> lines to send.\<close>

definition filled :: "nat \<Rightarrow> nat \<Rightarrow> broker_system \<Rightarrow> bool" where
  "filled k m s \<longleftrightarrow> mqueue (bk s) = replicate k (wire (Copy 3 ''t'' ''x'')) \<and> bk_pc s = B_Wait \<and>
     tables_ok (bk s) \<and> live_subs (bk s) = [\<lparr>sub_pid = 3, sub_topic = ''t''\<rparr>] \<and>
     (\<exists>sent. pubs s = [\<lparr>pub_pid = 2, pub_topic = ''t'', pub_pc = P_Typing, pub_in = lines_x m, pub_sent = sent\<rparr>]) \<and>
     subs s = [\<lparr>s_pid = 3, s_topics = [''t''], s_pc = S_Stopped, s_shown = []\<rparr>]"

lemma lines_x_read: "fgets 256 (lines_x (Suc m)) = Some (''x'' @ [NL], lines_x m)" "chomp (''x'' @ [NL]) = ''x''"
proof -
  have "NL \<noteq> CHR ''x''" "NUL \<noteq> CHR ''x''" by (simp_all add: NL_def NUL_def)
  then show "fgets 256 (lines_x (Suc m)) = Some (''x'' @ [NL], lines_x m)" "chomp (''x'' @ [NL]) = ''x''"
    using fgets_line[of "''x''" 256 "lines_x m"] by (simp_all add: lines_x_def chomp_eq_takeWhile)
qed

lemma queue_bytes_filled: "filled k m s \<Longrightarrow> queue_bytes (mqueue (bk s)) = 4 * k"
  using small_messages(4) by (simp add: filled_def queue_bytes_def sum_list_replicate)

lemma fill_round:
  assumes "filled k (Suc m) s" "4 * k + 11 \<le> n"
  obtains s' where "run_steps (broker_sys_step n) [Publish 0, Serve, Serve, Serve] s = Some s'" "filled (Suc k) m s'"
proof -
  let ?c = "wire (Copy 3 ''t'' ''x'')" and ?x = "wire (Pub 2 ''t'' ''x'')"
  obtain sent where p: "pubs s = [\<lparr>pub_pid = 2, pub_topic = ''t'', pub_pc = P_Typing, pub_in = lines_x (Suc m), pub_sent = sent\<rparr>]"
    using assms(1) by (auto simp: filled_def)
  let ?p = "\<lparr>pub_pid = 2, pub_topic = ''t'', pub_pc = P_Typing, pub_in = lines_x m, pub_sent = sent @ [''x'']\<rparr>"
  have q: "mqueue (bk s) = replicate k ?c" "bk_pc s = B_Wait" using assms(1) by (simp_all add: filled_def)
  let ?b1 = "(bk s)\<lparr>mqueue := replicate k ?c @ [?x]\<rparr>"
  let ?s1 = "s\<lparr>pubs := [?p], bk := ?b1\<rparr>"
  have "has_room n ?x (bk s)"
    using assms(2) queue_bytes_filled[OF assms(1)] small_messages(3) by (simp add: has_room_def)
  then have 1: "broker_sys_step n (Publish 0) s = Stepped ?s1"
    using p q lines_x_read by (simp add: broker_sys_step_def publisher_step_def Let_def queue_send_def)
  let ?b2 = "(bk s)\<lparr>mqueue := replicate k ?c\<rparr>"
  have ok: "tables_ok ?b2" "entries_ok ([(2, ''t'')], [(3, [''t''])]) ?b2" "subscribers_of ''t'' ?b2 = [3]"
    using assms(1) by (simp_all add: filled_def entries_ok_def subscribers_of_def)
  obtain b3 where b3: "broker_receive (mtext ?x) ?b2 = Some (b3, B_Forward [3] ''t,x'')" "tables_ok b3"
      "mqueue b3 = replicate k ?c" "live_subs b3 = live_subs (bk s)"
    using receive_published[of "([(2, ''t'')], [(3, [''t''])])" 2 "''t''" "''x''" ?b2] ok
    by (auto simp: parties_ok_def pid_ok_def topic_ok_def MAX_PID_LIST_def)
  have "mtype ?x = 1" "mtype ?c = 3" by (simp_all only: mtype_wire addressee.simps)
  then have "msgrcv 1 (replicate k ?c @ [?x]) = Some (?x, replicate k ?c)"
    using msgrcv_first[of ?x 1 "replicate k ?c" "[]"] by (simp del: wire.simps)
  then have 2: "broker_sys_step n Serve ?s1 = Stepped (?s1\<lparr>bk := b3, bk_pc := B_Forward [3] ''t,x''\<rparr>)"
    using q b3(1) by (simp add: broker_sys_step_def broker_step_def)
  have "has_room n ?c b3"
    using assms(2) queue_bytes_filled[OF assms(1)] b3(3) q(1) small_messages(4) by (simp add: has_room_def)
  then have 3: "broker_sys_step n Serve (?s1\<lparr>bk := b3, bk_pc := B_Forward [3] ''t,x''\<rparr>) =
      Stepped (?s1\<lparr>bk := say (''Sent to subscriber '' @ show_int 3) (b3\<lparr>mqueue := replicate k ?c @ [?c]\<rparr>), bk_pc := B_Forward [] ''t,x''\<rparr>)"
    using b3(3) by (simp add: broker_sys_step_def broker_step_def queue_send_def)
  let ?s4 = "?s1\<lparr>bk := say (''Sent to subscriber '' @ show_int 3) (b3\<lparr>mqueue := replicate k ?c @ [?c]\<rparr>), bk_pc := B_Wait\<rparr>"
  have "run_steps (broker_sys_step n) [Publish 0, Serve, Serve, Serve] s = Some ?s4"
    using 1 2 3 by (simp add: broker_sys_step_def broker_step_def)
  moreover have "filled (Suc k) m ?s4"
    using assms(1) b3 by (simp add: filled_def replicate_append_same)
  ultimately show ?thesis by (rule that)
qed

lemma fill_queue:
  assumes "filled k (Suc m) s" "n < 4 * (k + m) + 11"
  shows "\<exists>es s' k' m'. run_steps (broker_sys_step n) es s = Some s' \<and> filled k' (Suc m') s' \<and> n < 4 * k' + 11"
  using assms
proof (induction m arbitrary: k s)
  case 0
  then show ?case by (intro exI[of _ "[]"]) auto
next
  case (Suc m)
  show ?case
  proof (cases "n < 4 * k + 11")
    case True
    with Suc.prems show ?thesis by (intro exI[of _ "[]"]) auto
  next
    case False
    then obtain s1 where s1: "run_steps (broker_sys_step n) [Publish 0, Serve, Serve, Serve] s = Some s1" "filled (Suc k) (Suc m) s1"
      using fill_round[OF Suc.prems(1), of n] by auto
    then obtain es s' k' m' where "run_steps (broker_sys_step n) es s1 = Some s'" "filled k' (Suc m') s'" "n < 4 * k' + 11"
      using Suc.IH[OF s1(2)] Suc.prems(2) by auto
    with run_steps_trans[OF s1(1)] show ?thesis by blast
  qed
qed

lemma filled_stuck:
  assumes "filled k (Suc m) s" "n < 4 * k + 11"
  shows "broker_sys_step n e s \<in> {Blocked, Stepped s}"
proof (cases e)
  case Serve
  have "msgrcv 1 (mqueue (bk s)) = None" using assms(1) by (auto simp: filled_def msgrcv_None_iff)
  with Serve assms(1) show ?thesis by (simp add: broker_sys_step_def broker_step_def filled_def)
next
  case (Publish i)
  have "\<not> has_room n (wire (Pub 2 ''t'' ''x'')) (bk s)"
    using assms(2) queue_bytes_filled[OF assms(1)] small_messages(3) by (simp add: has_room_def)
  with Publish assms(1) lines_x_read show ?thesis
    by (auto simp: broker_sys_step_def publisher_step_def filled_def Let_def queue_send_def)
qed (use assms(1) in \<open>auto simp: broker_sys_step_def subscriber_step_def filled_def\<close>)

lemma receive_requests:
  assumes "pid_ok p" "topic_ok t"
  shows "broker_receive (mtext (wire (Reg p t))) b = Some (do_register p t b, B_Wait)"
    and "broker_receive (mtext (wire (Sub p t))) b = Some (do_subscribe p t b, B_Wait)"
  using parse_client_messages[OF assms] handle_client_messages[OF assms, where b = b] by (simp_all add: broker_receive_def)

lemma mqueue_same: "mqueue b = q \<Longrightarrow> b\<lparr>mqueue := q\<rparr> = b"
  by (cases b) simp

lemma reach_filled:
  assumes "14 \<le> n"
  shows "\<exists>s. run_steps (broker_sys_step n) [Attend 0, Serve, Interrupt 0, Publish 0, Serve] (one_each (lines_x m)) = Some s \<and> filled 0 m s"
proof -
  let ?s = "one_each (lines_x m)" and ?sub = "wire (Sub 3 ''t'')" and ?reg = "wire (Reg 2 ''t'')"
  let ?b1 = "broker_empty\<lparr>mqueue := [?sub]\<rparr>" and ?b2 = "do_subscribe 3 ''t'' broker_empty"
  have ok: "pid_ok 3" "pid_ok 2" "topic_ok ''t''" by (simp_all add: pid_ok_def topic_ok_def)
  have e: "mqueue broker_empty = []" "broker_wf broker_empty"
    using tables_ok_empty(1) by (simp_all add: broker_empty_def tables_ok_def)
  have live: "live_subs ?b2 = [\<lparr>sub_pid = 3, sub_topic = ''t''\<rparr>]" "tables_ok ?b2" "mqueue ?b2 = []"
    using e tables_ok_empty by (simp_all add: do_subscribe_live tables_ok_subscribe MAX_SUBSCRIPTIONS_def)
  have t: "mtype ?sub = 1" "mtype ?reg = 1" by (simp_all only: mtype_wire addressee.simps)
  have room: "has_room n ?sub broker_empty" "has_room n ?reg ?b2"
    using assms small_messages(1,2) e live(3) by (simp_all add: has_room_def queue_bytes_def)
  show ?thesis
    using room t e live receive_requests[OF ok(1,3), of broker_empty] receive_requests[OF ok(2,3), of ?b2]
    by (simp add: one_each_def broker_sys_start_def broker_sys_step_def subscriber_step_def publisher_step_def queue_send_def
        broker_step_def filled_def tables_ok_register mqueue_same)
qed

text \<open>
  C12. A subscriber that is interrupted does not unsubscribe, so copies for it pile up: with a queue of any size
  that holds a request, a publisher with enough lines to send and this one subscriber, a schedule leads to a state
  in which the publisher has lines left and no process can ever do anything any more.
\<close>

theorem interrupted_subscriber_blocks_all:
  assumes "14 \<le> n" "n \<le> m"
  shows "\<exists>es s. run_steps (broker_sys_step n) es (one_each (lines_x m)) = Some s \<and>
    pub_in (pubs s ! 0) \<noteq> [] \<and> pub_pc (pubs s ! 0) = P_Typing \<and> (\<forall>e. broker_sys_step n e s \<in> {Blocked, Stepped s})"
proof -
  obtain s1 where s1: "run_steps (broker_sys_step n) [Attend 0, Serve, Interrupt 0, Publish 0, Serve] (one_each (lines_x m)) = Some s1"
      "filled 0 m s1"
    using reach_filled[OF assms(1)] by blast
  obtain m1 where m1: "m = Suc m1" "n < 4 * m1 + 11" using assms by (cases m) auto
  then obtain es s k' m' where s: "run_steps (broker_sys_step n) es s1 = Some s" "filled k' (Suc m') s" "n < 4 * k' + 11"
    using fill_queue[of 0 m1 s1 n] s1(2) by auto
  have "pub_in (pubs s ! 0) \<noteq> []" "pub_pc (pubs s ! 0) = P_Typing" using s(2) by (auto simp: filled_def lines_x_def)
  with run_steps_trans[OF s1(1) s(1)] filled_stuck[OF s(2,3)] show ?thesis by blast
qed

lemma interrupted_subscriber_blocks_all_witness:
  "\<exists>es s. run_steps (broker_sys_step 16384) es (one_each (lines_x 20000)) = Some s \<and>
    (\<forall>e. broker_sys_step 16384 e s \<in> {Blocked, Stepped s})"
  using interrupted_subscriber_blocks_all[of 16384 20000] by auto

end
