(* ===== verification/Tcp_Chat.thy ===== *)
theory Tcp_Chat
  imports C_Decimal "HOL-Library.AList"
begin

text \<open>
  module3/07: the TCP chat with file transfer: chat_utils.c, the epoll server (server.c) and the
  client (client.c). One \<open>Message\<close> of fixed size travels per \<open>send_all\<close>; its string fields are
  the C strings in its arrays, \<open>data\<close> the bytes of its data array. Fields the code leaves unset are
  empty or 0 here. Files are named by their name below the storage directory and written without
  buffering; \<open>printf\<close> is left out in the server.
\<close>

section \<open>chat.h and chat_utils.c\<close>

definition BUFFER_SIZE :: nat where "BUFFER_SIZE = 4096"
definition MAX_NICKNAME :: nat where "MAX_NICKNAME = 50"
definition MAX_CLIENTS :: nat where "MAX_CLIENTS = 100"
definition FILENAME_SIZE :: nat where "FILENAME_SIZE = 256"

datatype msg_type = MSG_JOIN | MSG_LEAVE | MSG_CHAT | MSG_FILE | MSG_FILE_DATA | MSG_FILE_END
  | MSG_FILE_LIST | MSG_FILE_GET | MSG_FILE_INFO | MSG_OTHER int

definition type_code :: "msg_type \<Rightarrow> int" where
  "type_code t = (case t of MSG_JOIN \<Rightarrow> 1 | MSG_LEAVE \<Rightarrow> 2 | MSG_CHAT \<Rightarrow> 3 | MSG_FILE \<Rightarrow> 4 | MSG_FILE_DATA \<Rightarrow> 5
     | MSG_FILE_END \<Rightarrow> 6 | MSG_FILE_LIST \<Rightarrow> 7 | MSG_FILE_GET \<Rightarrow> 8 | MSG_FILE_INFO \<Rightarrow> 9 | MSG_OTHER n \<Rightarrow> n)"

record Message =
  type :: msg_type
  nickname :: string
  msg_data :: string
  data_len :: int
  total_size :: int
  filename :: string

definition blank :: "msg_type \<Rightarrow> Message" where
  "blank t = \<lparr>type = t, nickname = [], msg_data = [], data_len = 0, total_size = 0, filename = []\<rparr>"

definition safe_strcpy :: "string \<Rightarrow> nat \<Rightarrow> string" where
  "safe_strcpy src n = strncpy_term n src"

text \<open>
  \<open>send_all\<close> against a list of what successive \<open>send\<close> calls do; the result comes with the bytes
  handed to the kernel. \<open>None\<close>: the calls listed do not finish it.
\<close>

datatype send_result = Sent nat | SendAgain | SendFail

fun send_all :: "send_result list \<Rightarrow> string \<Rightarrow> nat \<Rightarrow> (int \<times> string) option" where
  "send_all [] buf total_sent = (if total_sent < length buf then None else Some (0, take total_sent buf))"
| "send_all (r # rs) buf total_sent =
     (if total_sent < length buf then
        (case r of
           SendAgain \<Rightarrow> send_all rs buf total_sent
         | SendFail \<Rightarrow> Some (-1, take total_sent buf)
         | Sent k \<Rightarrow> if k = 0 then Some (-1, take total_sent buf) else send_all rs buf (total_sent + k))
      else Some (0, take total_sent buf))"

text \<open>The pieces \<open>fread\<close> returns with a buffer of \<open>n\<close> bytes.\<close>

function chunks :: "nat \<Rightarrow> string \<Rightarrow> string list" where
  "chunks n s = (if n = 0 \<or> s = [] then [] else take n s # chunks n (drop n s))"
  by pat_completeness auto
termination
  by (relation "measure (\<lambda>(n, s). length s)") auto

declare chunks.simps [simp del]

section \<open>Server: state\<close>

record client =
  c_fd :: int
  c_nick :: string

record receiver =
  r_file :: "string option"
  r_filename :: string
  r_bytes :: int
  r_total :: int
  r_receiving :: bool
  r_sender :: int

text \<open>
  \<open>live\<close> are the sockets on which \<open>send_all\<close> succeeds, \<open>sent\<close> what was sent to which socket,
  \<open>files\<close> the storage directory in the order \<open>readdir\<close> returns it, \<open>can_open\<close> the names
  \<open>fopen\<close> can create.
\<close>

record server =
  clients :: "client list"
  client_count :: nat
  epoll :: "int set"
  live :: "int set"
  sent :: "(int \<times> Message) list"
  files :: "(string \<times> string) list"
  can_open :: "string \<Rightarrow> bool"
  rcv :: receiver

definition send_to :: "int \<Rightarrow> Message \<Rightarrow> server \<Rightarrow> int \<times> server" where
  "send_to fd m s = (if fd \<in> live s then (0, s\<lparr>sent := sent s @ [(fd, m)]\<rparr>) else (-1, s))"

section \<open>Server: the client table\<close>

text \<open>
  The part of \<open>remove_client\<close> before its broadcast: find the client, close its socket, close the
  gap; the message announces the departure. \<open>broadcast\<close> is \<open>broadcast_message\<close> from index \<open>i\<close> on,
  with the call of \<open>remove_client\<close> (and its own broadcast) for a failed send; the decrement of the
  index there and the increment of the loop cancel out.
\<close>

definition drop_client :: "int \<Rightarrow> server \<Rightarrow> (Message \<times> server) option" where
  "drop_client fd s =
     (case find_from (\<lambda>c. c_fd c = fd) (clients s) 0 (client_count s) of
        None \<Rightarrow> None
      | Some i \<Rightarrow>
          (let nick = safe_strcpy (c_nick (clients s ! i)) MAX_NICKNAME;
               msg = (blank MSG_LEAVE)\<lparr>nickname := nick,
                       msg_data := snprintf_into BUFFER_SIZE (''['' @ nick @ ''] left the chat'')\<rparr>
           in Some (msg, s\<lparr>epoll := epoll s - {fd}, live := live s - {fd},
                           clients := shift_down (clients s) i (client_count s),
                           client_count := client_count s - 1\<rparr>)))"

partial_function (option) broadcast :: "nat \<Rightarrow> Message \<Rightarrow> int \<Rightarrow> server \<Rightarrow> server option" where
  "broadcast i msg sender_fd s =
     (if client_count s \<le> i then Some s
      else let fd = c_fd (clients s ! i) in
        if fd = sender_fd then broadcast (Suc i) msg sender_fd s
        else let (r, s1) = send_to fd msg s in
          if r = -1
          then Option.bind (case drop_client fd s1 of
                   None \<Rightarrow> Some s1
                 | Some (leave, s2) \<Rightarrow> broadcast 0 leave (-1) s2)
                 (\<lambda>s3. broadcast i msg sender_fd s3)
          else broadcast (Suc i) msg sender_fd s1)"

declare broadcast.simps [code]

definition broadcast_message :: "Message \<Rightarrow> int \<Rightarrow> server \<Rightarrow> server option" where
  "broadcast_message msg sender_fd s = broadcast 0 msg sender_fd s"

definition remove_client :: "int \<Rightarrow> server \<Rightarrow> server option" where
  "remove_client fd s =
     (case drop_client fd s of
        None \<Rightarrow> Some s
      | Some (msg, s1) \<Rightarrow> broadcast_message msg (-1) s1)"

definition add_client :: "int \<Rightarrow> string \<Rightarrow> server \<Rightarrow> server option" where
  "add_client fd nick s =
     (if MAX_CLIENTS \<le> client_count s
      then Some (s\<lparr>epoll := epoll s - {fd}, live := live s - {fd}\<rparr>)
      else (let nick' = safe_strcpy nick MAX_NICKNAME;
                s1 = s\<lparr>clients := (clients s)[client_count s := \<lparr>c_fd = fd, c_nick = nick'\<rparr>],
                       client_count := Suc (client_count s)\<rparr>;
                msg = (blank MSG_JOIN)\<lparr>nickname := nick',
                       msg_data := snprintf_into BUFFER_SIZE (''['' @ nick @ ''] joined the chat'')\<rparr>
            in broadcast_message msg fd s1))"

section \<open>Server: files\<close>

definition receiver_idle :: receiver where
  "receiver_idle = \<lparr>r_file = None, r_filename = [], r_bytes = 0, r_total = 0, r_receiving = False, r_sender = -1\<rparr>"

definition reset_file_receiver :: "server \<Rightarrow> server" where
  "reset_file_receiver s = s\<lparr>rcv := receiver_idle\<rparr>"

definition start_file_receive :: "string \<Rightarrow> int \<Rightarrow> int \<Rightarrow> server \<Rightarrow> server" where
  "start_file_receive fname tot sender s =
     (let s1 = (if r_receiving (rcv s) \<and> strcmp (r_filename (rcv s)) fname \<noteq> 0
                then reset_file_receiver s else s)
      in if \<not> r_receiving (rcv s1) \<or> strcmp (r_filename (rcv s1)) fname \<noteq> 0
         then if \<not> can_open s1 fname
              then s1\<lparr>rcv := (rcv s1)\<lparr>r_file := None\<rparr>\<rparr>
              else s1\<lparr>files := AList.update fname [] (files s1),
                      rcv := \<lparr>r_file = Some fname, r_filename = safe_strcpy fname FILENAME_SIZE, r_bytes = 0,
                              r_total = tot, r_receiving = True, r_sender = sender\<rparr>\<rparr>
         else s1)"

text \<open>
  \<open>fwrite(data, 1, data_len, file)\<close> reads \<open>data_len\<close> bytes of the 4096-byte data array, a negative
  length being a huge one.
\<close>

definition data_bytes :: "Message \<Rightarrow> string option" where
  "data_bytes m =
     (if data_len m < 0 \<or> int BUFFER_SIZE < data_len m then None
      else Some (take (nat (data_len m)) (msg_data m @ replicate BUFFER_SIZE NUL)))"

definition append_file_data :: "string \<Rightarrow> Message \<Rightarrow> server \<Rightarrow> server option" where
  "append_file_data fname m s =
     (let s1 = (if \<not> r_receiving (rcv s) \<or> strcmp (r_filename (rcv s)) fname \<noteq> 0
                then start_file_receive fname 0 (-1) s else s)
      in case r_file (rcv s1) of
           None \<Rightarrow> Some s1
         | Some path \<Rightarrow> do {
             bytes \<leftarrow> data_bytes m;
             let old = (case map_of (files s1) path of None \<Rightarrow> [] | Some c \<Rightarrow> c);
             let r = (rcv s1)\<lparr>r_bytes := r_bytes (rcv s1) + data_len m\<rparr>;
             let s2 = s1\<lparr>files := AList.update path (old @ bytes) (files s1)\<rparr>;
             Some (if 0 < r_total r \<and> r_total r \<le> r_bytes r
                   then s2\<lparr>rcv := r\<lparr>r_file := None, r_receiving := False\<rparr>\<rparr>
                   else s2\<lparr>rcv := r\<rparr>)
           })"

definition finish_file_receive :: "server \<Rightarrow> server" where
  "finish_file_receive s =
     (if r_receiving (rcv s) \<and> r_file (rcv s) \<noteq> None
      then s\<lparr>rcv := (rcv s)\<lparr>r_file := None, r_receiving := False\<rparr>\<rparr>
      else s)"

text \<open>\<open>strcat\<close> into the 4096-byte data array of the response.\<close>

definition file_lines :: "(string \<times> string) list \<Rightarrow> string" where
  "file_lines fs = concat (map (\<lambda>(nm, c). snprintf_into BUFFER_SIZE
     ('' '' @ nm @ '' ('' @ show_nat (length c) @ '' bytes)'' @ [NL])) fs)"

definition list_files_in_storage :: "(string \<times> string) list option \<Rightarrow> string option" where
  "list_files_in_storage dir =
     (let header = ''   Files on server:'' @ [NL] in
      case dir of
        None \<Rightarrow> strcpy_into BUFFER_SIZE (header @ ''No files available'' @ [NL])
      | Some fs \<Rightarrow> strcpy_into BUFFER_SIZE (header @ file_lines fs
          @ (if fs = [] then ''No files available'' @ [NL] else []) @ '' '' @ [NL]))"

definition file_messages :: "string \<Rightarrow> string \<Rightarrow> string \<Rightarrow> Message list" where
  "file_messages nick fname content =
     (let base = (blank MSG_FILE)\<lparr>nickname := safe_strcpy nick MAX_NICKNAME,
                   filename := safe_strcpy fname FILENAME_SIZE, total_size := int32_of (int (length content))\<rparr>
      in base # map (\<lambda>c. base\<lparr>type := MSG_FILE_DATA, msg_data := c, data_len := int (length c)\<rparr>)
                    (chunks BUFFER_SIZE content)
         @ [base\<lparr>type := MSG_FILE_END\<rparr>])"

fun send_list :: "int \<Rightarrow> Message list \<Rightarrow> server \<Rightarrow> server" where
  "send_list fd [] s = s"
| "send_list fd (m # ms) s = send_list fd ms (snd (send_to fd m s))"

definition send_file_to_client :: "int \<Rightarrow> string \<Rightarrow> server \<Rightarrow> int \<times> server" where
  "send_file_to_client fd fname s =
     (case map_of (files s) fname of
        None \<Rightarrow> (-1, s)
      | Some content \<Rightarrow> (0, send_list fd (file_messages ''SERVER'' fname content) s))"

section \<open>Server: messages and connections\<close>

datatype recv_result = RecvClosed | RecvShort | RecvMsg Message

definition handle_client_message :: "int \<Rightarrow> recv_result \<Rightarrow> server \<Rightarrow> server option" where
  "handle_client_message fd r s =
     (case r of
        RecvClosed \<Rightarrow> remove_client fd s
      | RecvShort \<Rightarrow> Some s
      | RecvMsg msg \<Rightarrow>
          (case type msg of
             MSG_JOIN \<Rightarrow> add_client fd (nickname msg) s
           | MSG_CHAT \<Rightarrow> broadcast_message msg fd s
           | MSG_FILE \<Rightarrow> do {
               let s1 = start_file_receive (filename msg) (total_size msg) fd s;
               s2 \<leftarrow> (if 0 < data_len msg then append_file_data (filename msg) msg s1 else Some s1);
               broadcast_message msg fd s2
             }
           | MSG_FILE_DATA \<Rightarrow> do {
               let s1 = (if \<not> r_receiving (rcv s) \<or> strcmp (r_filename (rcv s)) (filename msg) \<noteq> 0
                         then start_file_receive (filename msg) (total_size msg) fd s else s);
               s2 \<leftarrow> append_file_data (filename msg) msg s1;
               broadcast_message msg fd s2
             }
           | MSG_FILE_END \<Rightarrow> broadcast_message msg fd (finish_file_receive s)
           | MSG_LEAVE \<Rightarrow> remove_client fd s
           | MSG_FILE_LIST \<Rightarrow> do {
               text \<leftarrow> list_files_in_storage (Some (files s));
               Some (snd (send_to fd ((blank MSG_FILE_INFO)\<lparr>msg_data := text\<rparr>) s))
             }
           | MSG_FILE_GET \<Rightarrow> Some (snd (send_file_to_client fd (filename msg) s))
           | MSG_FILE_INFO \<Rightarrow> Some s
           | MSG_OTHER n \<Rightarrow> Some s))"

text \<open>\<open>accept\<close> gives a descriptor or fails; a new connection is not in the table until its JOIN.\<close>

definition handle_new_connection :: "int option \<Rightarrow> bool \<Rightarrow> server \<Rightarrow> server" where
  "handle_new_connection accepted epoll_ok s =
     (case accepted of
        None \<Rightarrow> s
      | Some fd \<Rightarrow> if epoll_ok then s\<lparr>epoll := insert fd (epoll s), live := insert fd (live s)\<rparr> else s)"

definition cleanup_files :: "server \<Rightarrow> server" where
  "cleanup_files s =
     s\<lparr>files := [],
       rcv := (if r_file (rcv s) \<noteq> None then (rcv s)\<lparr>r_file := None, r_receiving := False\<rparr> else rcv s)\<rparr>"

definition server_signal_handler :: "server \<Rightarrow> server option" where
  "server_signal_handler s = do {
     let msg = (blank MSG_LEAVE)\<lparr>nickname := ''SERVER'', msg_data := ''Server is shutting down''\<rparr>;
     s1 \<leftarrow> broadcast_message msg (-1) s;
     Some (cleanup_files s1)
   }"

definition server_start :: "(string \<Rightarrow> bool) \<Rightarrow> server" where
  "server_start ok = \<lparr>clients = replicate MAX_CLIENTS \<lparr>c_fd = 0, c_nick = []\<rparr>, client_count = 0, epoll = {},
     live = {}, sent = [], files = [], can_open = ok, rcv = receiver_idle\<rparr>"

text \<open>
  The event loop with edge-triggered notification: an arrival marks its socket ready, one
  \<open>epoll_wait\<close> reports it once and the handler receives one message; with nothing to receive
  \<open>recv\<close> fails, which the handler takes for the end of the connection.
\<close>

record event_loop =
  srv :: server
  inbuf :: "int \<Rightarrow> recv_result list"
  ready :: "int list"

definition arrive :: "int \<Rightarrow> recv_result \<Rightarrow> event_loop \<Rightarrow> event_loop" where
  "arrive fd r e = e\<lparr>inbuf := (inbuf e)(fd := inbuf e fd @ [r]),
     ready := (if fd \<in> set (ready e) then ready e else ready e @ [fd])\<rparr>"

definition dispatch :: "event_loop \<Rightarrow> event_loop option" where
  "dispatch e =
     (case ready e of
        [] \<Rightarrow> None
      | fd # rest \<Rightarrow>
          (case inbuf e fd of
             [] \<Rightarrow> map_option (\<lambda>s. e\<lparr>srv := s, ready := rest\<rparr>) (handle_client_message fd RecvClosed (srv e))
           | r # queued \<Rightarrow> do {
               s \<leftarrow> handle_client_message fd r (srv e);
               Some (e\<lparr>srv := s, inbuf := (inbuf e)(fd := queued), ready := rest\<rparr>)
             }))"

text \<open>What was sent to one socket.\<close>

definition msgs_to :: "int \<Rightarrow> (int \<times> Message) list \<Rightarrow> Message list" where
  "msgs_to fd xs = map snd (filter (\<lambda>x. fst x = fd) xs)"

section \<open>Client\<close>

definition send_message :: "string \<Rightarrow> msg_type \<Rightarrow> string \<Rightarrow> Message" where
  "send_message nick t text =
     (blank t)\<lparr>nickname := safe_strcpy nick MAX_NICKNAME, msg_data := safe_strcpy text BUFFER_SIZE,
       data_len := int (length text), total_size := int (length text)\<rparr>"

text \<open>The static variables of \<open>receive_file\<close> and the files of the received directory.\<close>

record rx =
  current_file :: string
  rx_file :: "string option"
  rx_bytes :: int
  rx_total :: int
  disk :: "string \<rightharpoonup> string"

definition rx_open :: "(string \<Rightarrow> bool) \<Rightarrow> string \<Rightarrow> int \<Rightarrow> rx \<Rightarrow> rx" where
  "rx_open ok fname tot x =
     (let nm = safe_strcpy fname FILENAME_SIZE in
      x\<lparr>current_file := nm, rx_total := tot, rx_bytes := 0,
        rx_file := (if ok nm then Some nm else None),
        disk := (if ok nm then (disk x)(nm \<mapsto> []) else disk x)\<rparr>)"

definition rx_write :: "Message \<Rightarrow> rx \<Rightarrow> rx option" where
  "rx_write m x =
     (case rx_file x of
        None \<Rightarrow> Some x
      | Some nm \<Rightarrow> do {
          bytes \<leftarrow> data_bytes m;
          old \<leftarrow> disk x nm;
          Some (x\<lparr>disk := (disk x)(nm \<mapsto> old @ bytes), rx_bytes := rx_bytes x + data_len m\<rparr>)
        })"

definition receive_file :: "(string \<Rightarrow> bool) \<Rightarrow> Message \<Rightarrow> rx \<Rightarrow> rx option" where
  "receive_file ok m x =
     (case type m of
        MSG_FILE \<Rightarrow>
          (let x1 = rx_open ok (filename m) (total_size m) x
           in if rx_file x1 \<noteq> None \<and> 0 < data_len m then rx_write m x1 else Some x1)
      | MSG_FILE_DATA \<Rightarrow>
          (let x1 = (if rx_file x = None then rx_open ok (filename m) (total_size m) x else x)
           in if rx_file x1 = None then Some x1
              else let x2 = (if strcmp (current_file x1) (filename m) \<noteq> 0
                             then rx_open ok (filename m) (total_size m) x1 else x1)
                   in do {
                        x3 \<leftarrow> rx_write m x2;
                        Some (if rx_file x3 \<noteq> None \<and> rx_total x3 \<le> rx_bytes x3
                              then x3\<lparr>rx_file := None\<rparr> else x3)
                      })
      | MSG_FILE_END \<Rightarrow> Some (x\<lparr>rx_file := None\<rparr>)
      | _ \<Rightarrow> Some x)"

text \<open>\<open>send_file\<close>, for the content of the local file or none when it cannot be opened.\<close>

definition send_file :: "string \<Rightarrow> string \<Rightarrow> string option \<Rightarrow> Message list" where
  "send_file nick fname file =
     (case file of None \<Rightarrow> [] | Some content \<Rightarrow> file_messages nick fname content)"

text \<open>What a typed line sends; \<open>fs\<close> are the local files.\<close>

definition handle_user_input :: "string \<Rightarrow> (string \<rightharpoonup> string) \<Rightarrow> string \<Rightarrow> Message list \<times> string" where
  "handle_user_input nick fs inp =
     (case fgets BUFFER_SIZE inp of
        None \<Rightarrow> ([], inp)
      | Some (l, rest) \<Rightarrow>
          (let input = chomp l in
           if length input = 0 then ([], rest)
           else if hd input = CHR ''/'' then
             (if strncmp input ''/file '' 6 = 0 then
                (send_file nick (drop 6 input) (fs (drop 6 input)), rest)
              else if strcmp input ''/list'' = 0 then
                ([(blank MSG_FILE_LIST)\<lparr>nickname := safe_strcpy nick MAX_NICKNAME\<rparr>], rest)
              else if strncmp input ''/get '' 5 = 0 then
                ([(blank MSG_FILE_GET)\<lparr>nickname := safe_strcpy nick MAX_NICKNAME,
                    filename := safe_strcpy (drop 5 input) FILENAME_SIZE\<rparr>], rest)
              else ([], rest))
           else ([send_message nick MSG_CHAT input], rest)))"

text \<open>What the client prints for a message of the server, and its file state after it.\<close>

definition handle_server_message :: "(string \<Rightarrow> bool) \<Rightarrow> string \<Rightarrow> Message \<Rightarrow> rx \<Rightarrow> (string \<times> rx) option" where
  "handle_server_message ok nick m x =
     (case type m of
        MSG_JOIN \<Rightarrow> Some (cstr (msg_data m) @ [NL], x)
      | MSG_LEAVE \<Rightarrow> Some (cstr (msg_data m) @ [NL], x)
      | MSG_CHAT \<Rightarrow> Some (if strcmp (nickname m) nick \<noteq> 0
                         then ''['' @ nickname m @ '']: '' @ cstr (msg_data m) @ [NL] else [], x)
      | MSG_FILE \<Rightarrow> map_option (Pair []) (receive_file ok m x)
      | MSG_FILE_DATA \<Rightarrow> map_option (Pair []) (receive_file ok m x)
      | MSG_FILE_END \<Rightarrow> map_option (Pair []) (receive_file ok m x)
      | MSG_FILE_INFO \<Rightarrow> Some ([NL] @ cstr (msg_data m) @ [NL], x)
      | t \<Rightarrow> Some (''Unknown message type: '' @ show_int (type_code t) @ [NL], x))"

definition join_message :: "string \<Rightarrow> Message" where
  "join_message nick = (blank MSG_JOIN)\<lparr>nickname := safe_strcpy nick MAX_NICKNAME\<rparr>"

end
