(* ===== verification/Tcp_Chat_System.thy ===== *)
theory Tcp_Chat_System
  imports Tcp_Chat Step_Interface
begin

text \<open>
  module3/07 with its processes running together: the server's event loop, its listening socket, and
  clients in their \<open>select\<close> loops. The messages a client sends wait in the server's buffer of its
  connection; what the server sends to it and the client has not received yet is the rest of
  \<open>msgs_to\<close> its descriptor. Connections are numbered by the descriptor \<open>accept\<close> will give them.

  TCP may deliver a message to the server in two parts (\<open>Cut\<close>, \<open>Rest\<close>; clients receive whole ones), and
  the connection of a client that has gone may be reset (\<open>Reset\<close>) before the server has read its end;
  from then on \<open>send\<close> on it fails with ECONNRESET, or with EPIPE and its signal, which ends a server
  that neither ignores it nor passes MSG_NOSIGNAL. A client that dies of the same signal is a client
  that leaves.
\<close>

section \<open>A client\<close>

datatype user_pc = U_Off | U_On | U_Gone

text \<open>
  \<open>u_buf\<close> is the buffer of \<open>stdin\<close>, \<open>u_chunks\<close> what the following reads of descriptor 0 will return;
  \<open>u_taken\<close> counts the messages received, \<open>u_sent\<close> are those sent.
\<close>

record user =
  u_fd :: int
  u_nick :: string
  u_pc :: user_pc
  u_buf :: string
  u_chunks :: "string list"
  u_sent :: "Message list"
  u_taken :: nat
  u_rx :: rx
  u_files :: "string \<rightharpoonup> string"
  u_can :: "string \<Rightarrow> bool"
  u_out :: "string list"

definition client_usage :: "string \<Rightarrow> string list" where
  "client_usage prog = [''Example: '' @ prog @ '' 127.0.0.1 Alice'' @ [NL]]"

definition client_banner :: "string \<Rightarrow> string \<Rightarrow> string list" where
  "client_banner ip nick =
     [''   TCP Chat Client '' @ [NL], ''Server: '' @ ip @ '':51000'' @ [NL], ''Nickname: '' @ nick @ [NL],
      ''Files: received_files/'' @ [NL]]"

definition client_main ::
  "string list \<Rightarrow> int \<Rightarrow> string list \<Rightarrow> (string \<rightharpoonup> string) \<Rightarrow> (string \<Rightarrow> bool) \<Rightarrow> string list + user" where
  "client_main argv fd typed fs can =
     (if length argv \<noteq> 3 then Inl (client_usage (hd argv))
      else let nick = safe_strcpy (argv ! 2) MAX_NICKNAME in
        Inr \<lparr>u_fd = fd, u_nick = nick, u_pc = U_Off, u_buf = [], u_chunks = typed, u_sent = [], u_taken = 0,
             u_rx = \<lparr>current_file = [], rx_file = None, rx_bytes = 0, rx_total = 0, disk = Map.empty\<rparr>,
             u_files = fs, u_can = can, u_out = client_banner (argv ! 1) nick\<rparr>)"

text \<open>\<open>fgets\<close> reads descriptor 0 until its buffer has a whole line, or as much as it may return.\<close>

fun fill_stdin :: "nat \<Rightarrow> string \<Rightarrow> string list \<Rightarrow> string \<times> string list" where
  "fill_stdin n buf [] = (buf, [])"
| "fill_stdin n buf (c # cs) =
     (if NL \<in> set buf \<or> n \<le> Suc (length buf) then (buf, c # cs) else fill_stdin n (buf @ c) cs)"

definition user_types :: "user \<Rightarrow> Message list \<times> user" where
  "user_types u =
     (let (buf, cs) = fill_stdin BUFFER_SIZE (u_buf u) (u_chunks u);
          (ms, rest) = handle_user_input (u_nick u) (u_files u) buf
      in (ms, u\<lparr>u_buf := rest, u_chunks := cs, u_sent := u_sent u @ ms\<rparr>))"

section \<open>The whole chat\<close>

text \<open>
  \<open>backlog\<close> are the connections not accepted yet; the listening socket is edge-triggered too, so
  \<open>listen_ready\<close> is set by an arrival and cleared by the one \<open>accept\<close> it leads to. \<open>split\<close> are the
  connections on which the second part of a message is under way, \<open>broken\<close> those on which \<open>send\<close>
  raises SIGPIPE.
\<close>

record chat_system =
  loop :: event_loop
  backlog :: "int list"
  listen_ready :: bool
  up :: bool
  users :: "user list"
  split :: "int \<rightharpoonup> Message"
  broken :: "int set"

definition hung_up :: "int \<Rightarrow> chat_system \<Rightarrow> bool" where
  "hung_up fd s \<longleftrightarrow> fd \<notin> set (backlog s) \<and> fd \<notin> epoll (srv (loop s))"

text \<open>What is sent on a connection the server has closed is lost; before \<open>accept\<close> it only waits.\<close>

definition post :: "int \<Rightarrow> recv_result \<Rightarrow> chat_system \<Rightarrow> chat_system" where
  "post fd r s =
     (if hung_up fd s then s
      else if fd \<in> epoll (srv (loop s)) then s\<lparr>loop := arrive fd r (loop s)\<rparr>
      else s\<lparr>loop := (loop s)\<lparr>inbuf := (inbuf (loop s))(fd := inbuf (loop s) fd @ [r])\<rparr>\<rparr>)"

definition post_all :: "int \<Rightarrow> Message list \<Rightarrow> chat_system \<Rightarrow> chat_system" where
  "post_all fd ms s = fold (\<lambda>m. post fd (RecvMsg m)) ms s"

definition set_user :: "nat \<Rightarrow> user \<Rightarrow> chat_system \<Rightarrow> chat_system" where
  "set_user i u s = s\<lparr>users := (users s)[i := u]\<rparr>"

text \<open>The client connects and introduces itself; without a server it exits.\<close>

definition user_joins :: "nat \<Rightarrow> chat_system \<Rightarrow> chat_system" where
  "user_joins i s =
     (let u = users s ! i; m = join_message (u_nick u) in
      if up s
      then post (u_fd u) (RecvMsg m)
             (set_user i (u\<lparr>u_pc := U_On, u_sent := u_sent u @ [m]\<rparr>)
               (s\<lparr>backlog := backlog s @ [u_fd u], listen_ready := True\<rparr>))
      else set_user i (u\<lparr>u_pc := U_Gone\<rparr>) s)"

definition unread :: "user \<Rightarrow> chat_system \<Rightarrow> Message list" where
  "unread u s = drop (u_taken u) (msgs_to (u_fd u) (sent (srv (loop s))))"

text \<open>The part of the loop for the socket: a message, or the end of the connection.\<close>

definition user_reads :: "nat \<Rightarrow> chat_system \<Rightarrow> chat_system option" where
  "user_reads i s =
     (let u = users s ! i in
      case unread u s of
        m # _ \<Rightarrow> do {
          (out, x) \<leftarrow> handle_server_message (u_can u) (u_nick u) m (u_rx u);
          Some (set_user i (u\<lparr>u_taken := Suc (u_taken u), u_rx := x, u_out := u_out u @ [out]\<rparr>) s)
        }
      | [] \<Rightarrow> Some (set_user i (u\<lparr>u_pc := U_Gone, u_out := u_out u @ [''Server disconnected'' @ [NL]]\<rparr>) s))"

text \<open>
  One round of the \<open>select\<close> loop: \<open>typed\<close> says whether descriptor 0 is ready. The socket is ready when
  there is something to receive or the server has closed it.
\<close>

definition user_selects :: "nat \<Rightarrow> bool \<Rightarrow> chat_system \<Rightarrow> chat_system outcome" where
  "user_selects i typed s =
     (let u = users s ! i; sock = (unread u s \<noteq> [] \<or> hung_up (u_fd u) s) in
      if \<not> typed \<and> \<not> sock then Blocked
      else let (ms, u') = (if typed then user_types u else ([], u));
               s1 = post_all (u_fd u) ms (set_user i u' s)
           in if sock then or_fault (user_reads i s1) else Stepped s1)"

text \<open>
  The server: \<open>epoll_wait\<close> reports the listening socket or the connection that has waited longest; a
  connection closed meanwhile is no longer reported.
\<close>

definition server_accepts :: "chat_system \<Rightarrow> chat_system outcome" where
  "server_accepts s =
     (if \<not> up s \<or> \<not> listen_ready s then Blocked
      else case backlog s of
             [] \<Rightarrow> Stepped (s\<lparr>listen_ready := False\<rparr>)
           | fd # rest \<Rightarrow>
               (let l = loop s; s1 = handle_new_connection (Some fd) True (srv l) in
                Stepped (s\<lparr>loop := l\<lparr>srv := s1, ready := (if inbuf l fd \<noteq> [] then ready l @ [fd] else ready l)\<rparr>,
                           backlog := rest, listen_ready := False\<rparr>)))"

text \<open>
  A handler runs as if \<open>send\<close> worked on the broken connections too; if it did use one, the server was
  killed there: what it would have sent after that is cut off and its sockets are closed. \<open>after_sends\<close>
  gives the state \<open>s'\<close> the handler leads to from \<open>s\<close>, \<open>v\<close> being its server, or the end of the server.
\<close>

definition sending :: "int set \<Rightarrow> server \<Rightarrow> server" where
  "sending bs v = v\<lparr>live := live v \<union> bs\<rparr>"

definition after_sends :: "server \<Rightarrow> chat_system \<Rightarrow> chat_system \<Rightarrow> chat_system" where
  "after_sends v s' s =
     (let old = sent (srv (loop s)); new = drop (length old) (sent v) in
      if \<exists>x \<in> set new. fst x \<in> broken s
      then s'\<lparr>loop := (loop s')\<lparr>srv := v\<lparr>sent := old @ takeWhile (\<lambda>x. fst x \<notin> broken s) new, epoll := {}, live := {}\<rparr>\<rparr>,
              backlog := [], up := False\<rparr>
      else s'\<lparr>loop := (loop s')\<lparr>srv := (srv (loop s'))\<lparr>live := live (srv (loop s')) - broken s\<rparr>\<rparr>\<rparr>)"

definition server_serves :: "chat_system \<Rightarrow> chat_system outcome" where
  "server_serves s =
     (if \<not> up s then Blocked
      else case ready (loop s) of
             [] \<Rightarrow> Blocked
           | fd # rest \<Rightarrow>
               (if fd \<in> epoll (srv (loop s))
                then or_fault (map_option (\<lambda>l. after_sends (srv l) (s\<lparr>loop := l\<rparr>) s)
                       (dispatch ((loop s)\<lparr>srv := sending (broken s) (srv (loop s))\<rparr>)))
                else Stepped (s\<lparr>loop := (loop s)\<lparr>ready := rest\<rparr>\<rparr>)))"

text \<open>
  SIGINT at the server: it says so to everyone, removes the stored files and exits; killed while it
  says so, it leaves them.
\<close>

definition server_stops :: "chat_system \<Rightarrow> chat_system outcome" where
  "server_stops s =
     (if \<not> up s then Blocked
      else let v0 = sending (broken s) (srv (loop s)) in
        case server_signal_handler v0 of
          None \<Rightarrow> Fault
        | Some v \<Rightarrow>
            (let s' = s\<lparr>loop := (loop s)\<lparr>srv := v\<lparr>epoll := {}, live := {}\<rparr>\<rparr>, backlog := [], up := False\<rparr> in
             Stepped (after_sends (v\<lparr>files := files v0, rcv := rcv v0\<rparr>) s' s)))"

text \<open>
  The newest message of a client has come only in part: the rest follows, joining it in the server's
  buffer, or alone when the first part has been read. Nothing else arrives from the client in between,
  nor while a part is unread.
\<close>

definition whole :: "int \<Rightarrow> chat_system \<Rightarrow> bool" where
  "whole fd s \<longleftrightarrow> split s fd = None \<and> RecvShort \<notin> set (inbuf (loop s) fd)"

definition cut_message :: "int \<Rightarrow> chat_system \<Rightarrow> chat_system outcome" where
  "cut_message fd s =
     (let q = inbuf (loop s) fd in
      if q = [] \<or> \<not> whole fd s then Blocked
      else case last q of
             RecvMsg m \<Rightarrow> Stepped (s\<lparr>loop := (loop s)\<lparr>inbuf := (inbuf (loop s))(fd := butlast q @ [RecvShort])\<rparr>,
                                    split := (split s)(fd \<mapsto> m)\<rparr>)
           | _ \<Rightarrow> Blocked)"

definition rest_arrives :: "int \<Rightarrow> chat_system \<Rightarrow> chat_system outcome" where
  "rest_arrives fd s =
     (case split s fd of
        None \<Rightarrow> Blocked
      | Some m \<Rightarrow>
          (let q = inbuf (loop s) fd; s1 = s\<lparr>split := (split s)(fd := None)\<rparr> in
           Stepped (if q \<noteq> [] \<and> last q = RecvShort
                    then post fd (RecvMsg m) (s1\<lparr>loop := (loop s1)\<lparr>inbuf := (inbuf (loop s1))(fd := butlast q)\<rparr>\<rparr>)
                    else post fd RecvShort s1)))"

text \<open>A reset is an event of the connection as well.\<close>

definition connection_reset :: "int \<Rightarrow> bool \<Rightarrow> chat_system \<Rightarrow> chat_system" where
  "connection_reset fd pipe s =
     s\<lparr>loop := (loop s)\<lparr>srv := (srv (loop s))\<lparr>live := live (srv (loop s)) - {fd}\<rparr>,
         ready := (if fd \<in> set (ready (loop s)) then ready (loop s) else ready (loop s) @ [fd])\<rparr>,
       broken := (if pipe then insert fd (broken s) else broken s)\<rparr>"

datatype chat_event = Join nat | Select nat bool | Leave nat | Accept | Serve | Shutdown
  | Cut nat | Rest nat | Reset nat bool

definition chat_sys_step :: "chat_event \<Rightarrow> chat_system \<Rightarrow> chat_system outcome" where
  "chat_sys_step e s =
     (case e of
        Join i \<Rightarrow> (if i < length (users s) \<and> u_pc (users s ! i) = U_Off then Stepped (user_joins i s) else Blocked)
      | Select i typed \<Rightarrow>
          (if i < length (users s) \<and> u_pc (users s ! i) = U_On \<and> (typed \<longrightarrow> whole (u_fd (users s ! i)) s)
           then user_selects i typed s else Blocked)
      | Leave i \<Rightarrow>
          (if i < length (users s) \<and> u_pc (users s ! i) = U_On \<and> whole (u_fd (users s ! i)) s
           then (let u = users s ! i in Stepped (post (u_fd u) RecvClosed (set_user i (u\<lparr>u_pc := U_Gone\<rparr>) s)))
           else Blocked)
      | Accept \<Rightarrow> server_accepts s
      | Serve \<Rightarrow> server_serves s
      | Shutdown \<Rightarrow> server_stops s
      | Cut i \<Rightarrow> (if i < length (users s) then cut_message (u_fd (users s ! i)) s else Blocked)
      | Rest i \<Rightarrow> (if i < length (users s) then rest_arrives (u_fd (users s ! i)) s else Blocked)
      | Reset i pipe \<Rightarrow>
          (if i < length (users s) \<and> u_pc (users s ! i) = U_Gone \<and> u_fd (users s ! i) \<in> live (srv (loop s))
           then Stepped (connection_reset (u_fd (users s ! i)) pipe s) else Blocked))"

definition chat_start :: "(string \<Rightarrow> bool) \<Rightarrow> user list \<Rightarrow> chat_system" where
  "chat_start ok us =
     \<lparr>loop = \<lparr>srv = server_start ok, inbuf = (\<lambda>_. []), ready = []\<rparr>, backlog = [], listen_ready = False, up = True,
      users = us, split = Map.empty, broken = {}\<rparr>"

end
