(* ===== verification/Tcp_Chat_Server.thy ===== *)
theory Tcp_Chat_Server
  imports Tcp_Chat
begin

text \<open>
  The client table of the TCP server as the list of its live entries, and what a broadcast does to
  it: it always comes back, removes only clients whose socket is dead, and delivers to the others.
\<close>

definition table :: "server \<Rightarrow> client list" where
  "table s = take (client_count s) (clients s)"

definition srv_wf :: "server \<Rightarrow> bool" where
  "srv_wf s \<longleftrightarrow> length (clients s) = MAX_CLIENTS \<and> client_count s \<le> MAX_CLIENTS"

lemma length_table: "srv_wf s \<Longrightarrow> length (table s) = client_count s"
  by (simp add: table_def srv_wf_def)

lemma table_nth: "srv_wf s \<Longrightarrow> i < client_count s \<Longrightarrow> clients s ! i = table s ! i"
  by (simp add: table_def)

text \<open>What a table change leaves alone.\<close>

definition same_files :: "server \<Rightarrow> server \<Rightarrow> bool" where
  "same_files s' s \<longleftrightarrow> files s' = files s \<and> rcv s' = rcv s \<and> can_open s' = can_open s"

lemma drop_client_None: "srv_wf s \<Longrightarrow> drop_client fd s = None \<longleftrightarrow> fd \<notin> c_fd ` set (table s)"
proof -
  assume "srv_wf s"
  then have "find_from (\<lambda>c. c_fd c = fd) (clients s) 0 (client_count s) = None \<longleftrightarrow> fd \<notin> c_fd ` set (table s)"
    by (subst find_from_None_take) (auto simp: srv_wf_def table_def)
  moreover have "drop_client fd s = None \<longleftrightarrow> find_from (\<lambda>c. c_fd c = fd) (clients s) 0 (client_count s) = None"
    by (simp add: drop_client_def Let_def split: option.splits)
  ultimately show ?thesis by simp
qed

lemma drop_client_Some:
  assumes "srv_wf s" "drop_client fd s = Some (m, s2)"
  shows "table s2 = remove_first (\<lambda>c. c_fd c = fd) (table s)" "srv_wf s2" "Suc (client_count s2) = client_count s"
    "live s2 = live s - {fd}" "sent s2 = sent s" "same_files s2 s" "type m = MSG_LEAVE"
proof -
  obtain i where i: "find_from (\<lambda>c. c_fd c = fd) (clients s) 0 (client_count s) = Some i"
    using assms(2) by (auto simp: drop_client_def split: option.splits)
  have le: "client_count s \<le> length (clients s)" using assms(1) by (simp add: srv_wf_def)
  have "i < client_count s" using i by (simp add: find_from_Some_iff)
  then show "table s2 = remove_first (\<lambda>c. c_fd c = fd) (table s)" "srv_wf s2" "Suc (client_count s2) = client_count s"
      "live s2 = live s - {fd}" "sent s2 = sent s" "same_files s2 s" "type m = MSG_LEAVE"
    using shift_down_remove_first[OF i le] i assms
    by (auto simp: drop_client_def table_def srv_wf_def same_files_def blank_def Let_def)
qed

lemma remove_first_filter: "(\<And>x. P x \<Longrightarrow> \<not> Q x) \<Longrightarrow> filter Q (remove_first P xs) = filter Q xs"
  by (induction xs) auto

lemma take_remove_first: "\<forall>x \<in> set (take k xs). \<not> P x \<Longrightarrow> take k (remove_first P xs) = take k xs"
proof (induction xs arbitrary: k)
  case (Cons x xs)
  show ?case
  proof (cases k)
    case (Suc j)
    with Cons.prems have "\<not> P x" "\<forall>y \<in> set (take j xs). \<not> P y" by auto
    with Cons.IH Suc show ?thesis by simp
  qed simp
qed simp

section \<open>A broadcast returns\<close>

text \<open>Everything sent that is not the announcement of a departure.\<close>

definition not_leave :: "(int \<times> Message) list \<Rightarrow> (int \<times> Message) list" where
  "not_leave xs = filter (\<lambda>x. type (snd x) \<noteq> MSG_LEAVE) xs"

lemma not_leave_append [simp]: "not_leave (xs @ ys) = not_leave xs @ not_leave ys" "not_leave [] = []"
  by (simp_all add: not_leave_def)

definition bcast_ok :: "server \<Rightarrow> server \<Rightarrow> bool" where
  "bcast_ok s s' \<longleftrightarrow> srv_wf s' \<and> client_count s' \<le> client_count s \<and> live s' = live s \<and> same_files s' s \<and>
     filter (\<lambda>c. c_fd c \<in> live s) (table s') = filter (\<lambda>c. c_fd c \<in> live s) (table s) \<and>
     set (table s') \<subseteq> set (table s) \<and>
     (\<forall>k. (\<forall>c \<in> set (take k (table s)). c_fd c \<in> live s) \<longrightarrow> take k (table s') = take k (table s))"

lemma bcast_ok_refl [simp]: "srv_wf s \<Longrightarrow> bcast_ok s s"
  by (simp add: bcast_ok_def same_files_def)

lemma bcast_ok_trans: "bcast_ok s s1 \<Longrightarrow> bcast_ok s1 s2 \<Longrightarrow> bcast_ok s s2"
proof -
  assume 1: "bcast_ok s s1" and 2: "bcast_ok s1 s2"
  have "take k (table s2) = take k (table s)" if "\<forall>c \<in> set (take k (table s)). c_fd c \<in> live s" for k
    using 1 2 that by (simp add: bcast_ok_def)
  moreover have "set (table s2) \<subseteq> set (table s)" using 1 2 by (auto simp: bcast_ok_def)
  ultimately show ?thesis using 1 2 by (simp add: bcast_ok_def same_files_def)
qed

lemma bcast_ok_sent: "srv_wf s \<Longrightarrow> bcast_ok s (s\<lparr>sent := x\<rparr>)"
  by (simp add: bcast_ok_def same_files_def srv_wf_def table_def)

lemma bcast_ok_drop:
  assumes "srv_wf s" "drop_client fd s = Some (m, s2)" "fd \<notin> live s"
  shows "bcast_ok s s2"
proof -
  note d = drop_client_Some[OF assms(1,2)]
  have "set (table s2) \<subseteq> set (table s)" unfolding d(1) by (rule set_remove_first_subset)
  moreover have "take k (table s2) = take k (table s)" if "\<forall>c \<in> set (take k (table s)). c_fd c \<in> live s" for k
    unfolding d(1) using that assms(3) by (intro take_remove_first) auto
  moreover have "filter (\<lambda>c. c_fd c \<in> live s) (table s2) = filter (\<lambda>c. c_fd c \<in> live s) (table s)"
    unfolding d(1) using assms(3) by (intro remove_first_filter) auto
  ultimately show ?thesis using d assms(3) by (auto simp: bcast_ok_def)
qed

text \<open>The steps of a broadcast at index \<open>i\<close>.\<close>

lemma broadcast_end: "client_count s \<le> i \<Longrightarrow> broadcast i m sd s = Some s"
  by (subst broadcast.simps) simp

lemma broadcast_sender: "i < client_count s \<Longrightarrow> c_fd (clients s ! i) = sd \<Longrightarrow> broadcast i m sd s = broadcast (Suc i) m sd s"
  by (subst broadcast.simps) (simp add: Let_def)

lemma broadcast_live:
  "i < client_count s \<Longrightarrow> c_fd (clients s ! i) \<noteq> sd \<Longrightarrow> c_fd (clients s ! i) \<in> live s \<Longrightarrow>
   broadcast i m sd s = broadcast (Suc i) m sd (s\<lparr>sent := sent s @ [(c_fd (clients s ! i), m)]\<rparr>)"
  by (subst broadcast.simps) (simp add: send_to_def Let_def)

lemma broadcast_dead:
  "i < client_count s \<Longrightarrow> c_fd (clients s ! i) \<noteq> sd \<Longrightarrow> c_fd (clients s ! i) \<notin> live s \<Longrightarrow>
   drop_client (c_fd (clients s ! i)) s = Some (leave, s2) \<Longrightarrow>
   broadcast i m sd s = Option.bind (broadcast 0 leave (-1) s2) (broadcast i m sd)"
  by (subst broadcast.simps) (simp add: send_to_def Let_def)

text \<open>The measure: the number of clients first, then what is left of the loop.\<close>

definition bcast_measure :: "nat \<Rightarrow> server \<Rightarrow> nat" where
  "bcast_measure i s = (MAX_CLIENTS + 1) * client_count s + (client_count s - i)"

lemma bcast_measure_count: "srv_wf s \<Longrightarrow> srv_wf s' \<Longrightarrow> client_count s' < client_count s \<Longrightarrow> bcast_measure j s' < bcast_measure i s"
proof -
  assume "srv_wf s" "srv_wf s'" and c: "client_count s' < client_count s"
  then have "client_count s' \<le> MAX_CLIENTS" by (simp add: srv_wf_def)
  then have "client_count s' - j \<le> MAX_CLIENTS" by linarith
  moreover have "(MAX_CLIENTS + 1) * Suc (client_count s') \<le> (MAX_CLIENTS + 1) * client_count s"
    using c by (intro mult_le_mono2) simp
  ultimately show ?thesis by (simp add: bcast_measure_def)
qed

lemma broadcast_total:
  assumes "srv_wf s"
  shows "\<exists>s' xs. broadcast i m sd s = Some s' \<and> bcast_ok s s' \<and> sent s' = sent s @ xs \<and>
    (type m = MSG_LEAVE \<longrightarrow> not_leave xs = [])"
  using assms
proof (induction "bcast_measure i s" arbitrary: i m sd s rule: less_induct)
  case less
  show ?case
  proof (cases "i < client_count s")
    case False
    then show ?thesis using less.prems by (auto simp: broadcast_end)
  next
    case True
    let ?fd = "c_fd (clients s ! i)"
    have next_i: "bcast_measure (Suc i) s < bcast_measure i s" using True by (simp add: bcast_measure_def)
    consider "?fd = sd" | "?fd \<noteq> sd" "?fd \<in> live s" | "?fd \<noteq> sd" "?fd \<notin> live s" by blast
    then show ?thesis
    proof cases
      case 1
      then show ?thesis using less.hyps[OF next_i less.prems] broadcast_sender[OF True] by metis
    next
      case 2
      let ?s = "s\<lparr>sent := sent s @ [(?fd, m)]\<rparr>"
      have wf: "srv_wf ?s" using less.prems by (simp add: srv_wf_def)
      have "bcast_measure (Suc i) ?s < bcast_measure i s" using next_i by (simp add: bcast_measure_def)
      from less.hyps[OF this wf, of m sd] obtain s' xs where
        "broadcast (Suc i) m sd ?s = Some s'" "bcast_ok ?s s'" "sent s' = sent ?s @ xs"
        "type m = MSG_LEAVE \<longrightarrow> not_leave xs = []" by blast
      moreover have "bcast_ok s s'" using bcast_ok_trans[OF bcast_ok_sent[OF less.prems]] \<open>bcast_ok ?s s'\<close> by blast
      ultimately show ?thesis using broadcast_live[OF True 2, of m] by (auto simp: not_leave_def)
    next
      case 3
      have "clients s ! i \<in> set (table s)" using True table_nth[OF less.prems True] length_table[OF less.prems] by simp
      then obtain leave s2 where d: "drop_client ?fd s = Some (leave, s2)"
        using drop_client_None[OF less.prems, of ?fd] by (cases "drop_client ?fd s") auto
      note D = drop_client_Some[OF less.prems d]
      have "bcast_measure 0 s2 < bcast_measure i s" using bcast_measure_count[OF less.prems D(2)] D(3) by simp
      from less.hyps[OF this D(2), of leave "-1"] obtain s3 xs where
        s3: "broadcast 0 leave (-1) s2 = Some s3" "bcast_ok s2 s3" "sent s3 = sent s2 @ xs" "not_leave xs = []"
        using D(7) by blast
      have wf3: "srv_wf s3" and "client_count s3 \<le> client_count s2" using s3(2) by (simp_all add: bcast_ok_def)
      then have "bcast_measure i s3 < bcast_measure i s" using bcast_measure_count[OF less.prems wf3] D(3) by simp
      from less.hyps[OF this wf3, of m sd] obtain s' ys where
        s': "broadcast i m sd s3 = Some s'" "bcast_ok s3 s'" "sent s' = sent s3 @ ys"
          "type m = MSG_LEAVE \<longrightarrow> not_leave ys = []" by blast
      have "bcast_ok s s'"
        using bcast_ok_trans[OF bcast_ok_trans[OF bcast_ok_drop[OF less.prems d 3(2)] s3(2)] s'(2)] .
      moreover have "broadcast i m sd s = Some s'" using broadcast_dead[OF True 3 d] s3(1) s'(1) by simp
      ultimately show ?thesis using s3(3,4) s'(3,4) D(5) by auto
    qed
  qed
qed

section \<open>What a broadcast delivers\<close>

lemma broadcast_delivers:
  assumes "srv_wf s" "type m \<noteq> MSG_LEAVE" "\<forall>c \<in> set (take i (table s)). c_fd c \<in> live s"
    and "sd \<in> live s \<or> sd \<notin> c_fd ` set (table s)"
  shows "\<exists>s' xs. broadcast i m sd s = Some s' \<and> bcast_ok s s' \<and> sent s' = sent s @ xs \<and>
    not_leave xs = map (\<lambda>c. (c_fd c, m)) (filter (\<lambda>c. c_fd c \<in> live s \<and> c_fd c \<noteq> sd) (drop i (table s)))"
  using assms
proof (induction "bcast_measure i s" arbitrary: i s rule: less_induct)
  case less
  note wf = less.prems(1)
  show ?case
  proof (cases "i < client_count s")
    case False
    then show ?thesis using wf length_table[OF wf] by (auto simp: broadcast_end)
  next
    case True
    define c where "c = clients s ! i"
    let ?fd = "c_fd (clients s ! i)"
    have c: "table s ! i = c" "i < length (table s)" using True table_nth[OF wf True] length_table[OF wf] by (simp_all add: c_def)
    then have drop: "drop i (table s) = c # drop (Suc i) (table s)" "take (Suc i) (table s) = take i (table s) @ [c]"
      by (simp_all add: Cons_nth_drop_Suc[symmetric] take_Suc_conv_app_nth)
    have cin: "c \<in> set (table s)" using c nth_mem by fastforce
    have next_i: "bcast_measure (Suc i) s < bcast_measure i s" using True by (simp add: bcast_measure_def)
    consider "?fd = sd" | "?fd \<noteq> sd" "?fd \<in> live s" | "?fd \<noteq> sd" "?fd \<notin> live s" by blast
    then show ?thesis
    proof cases
      case 1
      then have "sd \<in> live s" using less.prems(4) cin by (auto simp: c_def)
      then have "\<forall>c \<in> set (take (Suc i) (table s)). c_fd c \<in> live s" using less.prems(3) drop(2) 1 by (auto simp: c_def)
      from less.hyps[OF next_i wf less.prems(2) this less.prems(4)] show ?thesis
        using broadcast_sender[OF True 1] drop(1) 1 by (simp add: c_def)
    next
      case 2
      let ?s = "s\<lparr>sent := sent s @ [(?fd, m)]\<rparr>"
      have t: "table ?s = table s" "live ?s = live s" "srv_wf ?s" using wf by (simp_all add: table_def srv_wf_def)
      have "bcast_measure (Suc i) ?s < bcast_measure i s" using next_i by (simp add: bcast_measure_def)
      moreover have "\<forall>c \<in> set (take (Suc i) (table ?s)). c_fd c \<in> live ?s"
        using less.prems(3) drop(2) 2 by (auto simp: c_def t)
      ultimately obtain s' xs where s': "broadcast (Suc i) m sd ?s = Some s'" "bcast_ok ?s s'" "sent s' = sent ?s @ xs"
        "not_leave xs = map (\<lambda>c. (c_fd c, m)) (filter (\<lambda>c. c_fd c \<in> live s \<and> c_fd c \<noteq> sd) (drop (Suc i) (table s)))"
        using less.hyps[of "Suc i" ?s] less.prems(2,4) t by auto
      have "bcast_ok s s'" using bcast_ok_trans[OF bcast_ok_sent[OF wf] s'(2)] .
      moreover have "not_leave ((?fd, m) # xs) = map (\<lambda>c. (c_fd c, m))
          (filter (\<lambda>c. c_fd c \<in> live s \<and> c_fd c \<noteq> sd) (drop i (table s)))"
        using s'(4) drop(1) 2 less.prems(2) by (simp add: not_leave_def c_def)
      ultimately show ?thesis using broadcast_live[OF True 2, of m] s'(1,3) by auto
    next
      case 3
      obtain leave s2 where d: "drop_client ?fd s = Some (leave, s2)"
        using drop_client_None[OF wf, of ?fd] cin by (cases "drop_client ?fd s") (auto simp: c_def)
      note D = drop_client_Some[OF wf d]
      from broadcast_total[OF D(2), of 0 leave "-1"] D(7) obtain s3 xs where
        s3: "broadcast 0 leave (-1) s2 = Some s3" "bcast_ok s2 s3" "sent s3 = sent s2 @ xs" "not_leave xs = []" by blast
      have ok: "bcast_ok s s3" using bcast_ok_trans[OF bcast_ok_drop[OF wf d 3(2)] s3(2)] .
      then have s3': "srv_wf s3" "live s3 = live s" "take i (table s3) = take i (table s)"
          "filter (\<lambda>c. c_fd c \<in> live s) (table s3) = filter (\<lambda>c. c_fd c \<in> live s) (table s)"
          "set (table s3) \<subseteq> set (table s)"
        using less.prems(3) by (simp_all add: bcast_ok_def)
      have "client_count s3 \<le> client_count s2" using s3(2) by (simp add: bcast_ok_def)
      then have "bcast_measure i s3 < bcast_measure i s" using bcast_measure_count[OF wf s3'(1)] D(3) by simp
      moreover have "sd \<in> live s3 \<or> sd \<notin> c_fd ` set (table s3)" using less.prems(4) s3'(2,5) by blast
      ultimately obtain s' ys where s': "broadcast i m sd s3 = Some s'" "bcast_ok s3 s'" "sent s' = sent s3 @ ys"
        "not_leave ys = map (\<lambda>c. (c_fd c, m)) (filter (\<lambda>c. c_fd c \<in> live s \<and> c_fd c \<noteq> sd) (drop i (table s3)))"
        using less.hyps[of i s3] less.prems(2,3) s3' by auto
      have "filter (\<lambda>c. c_fd c \<in> live s) (drop i (table s3)) = filter (\<lambda>c. c_fd c \<in> live s) (drop i (table s))"
        using s3'(3,4) by (metis append_eq_append_conv append_take_drop_id filter_append)
      then have "filter (\<lambda>c. c_fd c \<in> live s \<and> c_fd c \<noteq> sd) (drop i (table s3)) =
          filter (\<lambda>c. c_fd c \<in> live s \<and> c_fd c \<noteq> sd) (drop i (table s))"
        by (metis (no_types, lifting) filter_filter filter_cong)
      moreover have "broadcast i m sd s = Some s'" using broadcast_dead[OF True 3 d] s3(1) s'(1) by simp
      moreover have "bcast_ok s s'" using bcast_ok_trans[OF ok s'(2)] .
      ultimately show ?thesis using s'(3,4) s3(3,4) D(5) by auto
    qed
  qed
qed

end
