(* ===== verification/Tcp_Chat_Props.thy ===== *)
theory Tcp_Chat_Props
  imports Tcp_Chat_Server
begin

text \<open>
  The properties of the TCP chat: who receives what, file transfer from end to end, and the
  conditions under which the server loses messages or overflows a buffer.
\<close>

section \<open>Chat messages\<close>

definition peers :: "int \<Rightarrow> server \<Rightarrow> client list" where
  "peers fd s = filter (\<lambda>c. c_fd c \<in> live s \<and> c_fd c \<noteq> fd) (table s)"

text \<open>
  A chat message of a client whose own connection works is delivered to every other client with a
  working connection, once for each entry of the table and in its order, whatever other sockets
  turn out to be dead on the way; the clients dropped by it are only dead ones, and the call
  always comes back although \<open>broadcast_message\<close> and \<open>remove_client\<close> call each other.
\<close>

lemma chat_reaches_live_clients:
  assumes "srv_wf s" "fd \<in> live s" "type m = MSG_CHAT"
  shows "\<exists>s' xs. handle_client_message fd (RecvMsg m) s = Some s' \<and> sent s' = sent s @ xs \<and>
    not_leave xs = map (\<lambda>c. (c_fd c, m)) (peers fd s) \<and>
    srv_wf s' \<and> filter (\<lambda>c. c_fd c \<in> live s) (table s') = filter (\<lambda>c. c_fd c \<in> live s) (table s) \<and>
    set (table s') \<subseteq> set (table s)"
  using broadcast_delivers[of s m 0 fd] assms
  by (auto simp: handle_client_message_def broadcast_message_def peers_def bcast_ok_def)

text \<open>Three clients, the first two dead.\<close>

definition three_clients :: "int set \<Rightarrow> server" where
  "three_clients alive = (server_start (\<lambda>_. True))
     \<lparr>clients := [\<lparr>c_fd = 4, c_nick = ''a''\<rparr>, \<lparr>c_fd = 5, c_nick = ''b''\<rparr>, \<lparr>c_fd = 6, c_nick = ''c''\<rparr>]
        @ replicate 97 \<lparr>c_fd = 0, c_nick = []\<rparr>,
      client_count := 3, live := alive\<rparr>"

lemma three_clients_simps [simp]:
  "srv_wf (three_clients A)" "live (three_clients A) = A" "sent (three_clients A) = []"
  "table (three_clients A) = [\<lparr>c_fd = 4, c_nick = ''a''\<rparr>, \<lparr>c_fd = 5, c_nick = ''b''\<rparr>, \<lparr>c_fd = 6, c_nick = ''c''\<rparr>]"
  "client_count (three_clients A) = 3" "rcv (three_clients A) = receiver_idle" "can_open (three_clients A) = (\<lambda>_. True)"
  "files (three_clients A) = []"
  by (simp_all add: three_clients_def srv_wf_def table_def server_start_def MAX_CLIENTS_def eval_nat_numeral)

section \<open>A skipped client\<close>

lemma broadcast_nobody: "client_count s = 0 \<Longrightarrow> broadcast i m sd s = Some s"
  by (simp add: broadcast_end)

text \<open>
  When the sender of a message is itself dead and stands before another dead client in the table,
  the client after them misses the message, although its connection works: removing the other
  client announces its departure to the sender too, whose removal shifts the table under the
  index of the first loop. Only departures reach the third client.
\<close>

lemma broadcast_skips_live_client:
  assumes "srv_wf s" "table s = [a, b, c]" "distinct [c_fd a, c_fd b, c_fd c]" "-1 \<notin> {c_fd a, c_fd b, c_fd c}"
    and "c_fd a \<notin> live s" "c_fd b \<notin> live s" "c_fd c \<in> live s" "type m \<noteq> MSG_LEAVE"
  shows "\<exists>s' xs. broadcast_message m (c_fd a) s = Some s' \<and> table s' = [c] \<and> sent s' = sent s @ xs \<and>
    not_leave xs = [] \<and> xs \<noteq> []"
proof -
  have n: "client_count s = 3" using length_table[OF assms(1)] assms(2) by simp
  have nth: "clients s ! 0 = a" "clients s ! 1 = b"
    using table_nth[OF assms(1), of 0] table_nth[OF assms(1), of 1] n assms(2) by simp_all
  from drop_client_None[OF assms(1), of "c_fd b"] obtain lb s1 where d1: "drop_client (c_fd b) s = Some (lb, s1)"
    using assms(2) by (cases "drop_client (c_fd b) s") auto
  note D1 = drop_client_Some[OF assms(1) d1]
  have t1: "table s1 = [a, c]" "client_count s1 = 2" "live s1 = live s" using D1(1,3,4) assms n by auto
  have n1: "clients s1 ! 0 = a" using table_nth[OF D1(2), of 0] t1 by simp
  from drop_client_None[OF D1(2), of "c_fd a"] obtain la s2 where d2: "drop_client (c_fd a) s1 = Some (la, s2)"
    using t1 by (cases "drop_client (c_fd a) s1") auto
  note D2 = drop_client_Some[OF D1(2) d2]
  have t2: "table s2 = [c]" "client_count s2 = 1" "live s2 = live s" using D2(1,3,4) assms t1 by auto
  have n2: "clients s2 ! 0 = c" using table_nth[OF D2(2), of 0] t2 by simp
  have toc: "broadcast 0 l (-1) s2' = Some (s2'\<lparr>sent := sent s2' @ [(c_fd c, l)]\<rparr>)"
    if "client_count s2' = 1" "clients s2' ! 0 = c" "live s2' = live s" for l s2'
    using that assms(4,7) broadcast_live[of 0 s2' "-1" l] by (simp add: broadcast_end)
  let ?s3 = "s2\<lparr>sent := sent s2 @ [(c_fd c, la)]\<rparr>"
  let ?s4 = "?s3\<lparr>sent := sent ?s3 @ [(c_fd c, lb)]\<rparr>"
  have in1: "broadcast 0 lb (-1) s1 = Some ?s4"
    using broadcast_dead[of 0 s1 "-1" la s2 lb] n1 t1 d2 assms(4,5) toc[of s2 la] toc[of ?s3 lb] t2 n2 by simp
  have "broadcast 1 m (c_fd a) s = Some ?s4"
    using broadcast_dead[of 1 s "c_fd a" lb s1 m] nth n d1 assms(3,6) in1 t2(2) by (simp add: broadcast_end)
  then have "broadcast_message m (c_fd a) s = Some ?s4"
    using broadcast_sender[of 0 s "c_fd a" m] nth n by (simp add: broadcast_message_def)
  moreover have "table ?s4 = [c]" using t2(1) by (simp add: table_def)
  moreover have "not_leave [(c_fd c, la), (c_fd c, lb)] = []" using D1(7) D2(7) by (simp add: not_leave_def)
  ultimately show ?thesis using D1(5) D2(5) by (intro exI[of _ ?s4] exI[of _ "[(c_fd c, la), (c_fd c, lb)]"]) simp
qed

section \<open>Edge-triggered events\<close>

text \<open>
  Two messages that a client sends before the server gets to the first are reported as one event,
  and the handler reads one message: the second stays in the socket with no event left to wake
  the loop, until the client sends again.
\<close>

lemma second_message_waits:
  assumes "ready e = []" "inbuf e fd = []" "dispatch (arrive fd r2 (arrive fd r1 e)) = Some e'"
  shows "inbuf e' fd = [r2] \<and> ready e' = [] \<and> dispatch e' = None"
  using assms by (auto simp: dispatch_def arrive_def bind_eq_Some_conv)

section \<open>send_all\<close>

text \<open>
  \<open>send_all\<close> over any behaviour of \<open>send\<close>: it returns 0 exactly when the kernel has taken the whole
  buffer, in order, and -1 exactly when it stopped at a proper prefix.
\<close>

lemma send_all_all_or_prefix:
  assumes "send_all rs buf 0 = Some (r, out)"
  shows "(r = 0 \<and> out = buf) \<or> (r = -1 \<and> strict_prefix out buf)"
proof -
  have "(r = 0 \<and> out = buf) \<or> (r = -1 \<and> strict_prefix out buf)" if "send_all rs buf n = Some (r, out)" for n
    using that
  proof (induction rs arbitrary: n)
    case (Cons r rs)
    have "strict_prefix (take n buf) buf" if "n < length buf"
    proof -
      have "length (take n buf) \<noteq> length buf" using that by simp
      then have "take n buf \<noteq> buf" by metis
      then show ?thesis by (simp add: strict_prefix_def take_is_prefix)
    qed
    with Cons show ?case by (auto split: send_result.splits if_splits)
  qed (auto split: if_splits)
  with assms show ?thesis by blast
qed

section \<open>File transfer\<close>

lemma concat_chunks: "0 < n \<Longrightarrow> concat (chunks n s) = s"
proof (induction n s rule: chunks.induct)
  case (1 n s)
  then show ?case by (subst chunks.simps) auto
qed

lemma chunks_bounds: "c \<in> set (chunks n s) \<Longrightarrow> c \<noteq> [] \<and> length c \<le> n"
proof (induction n s rule: chunks.induct)
  case (1 n s)
  show ?case
  proof (cases "n = 0 \<or> s = []")
    case False
    then have "chunks n s = take n s # chunks n (drop n s)" by (subst chunks.simps) simp
    with 1 False show ?thesis by auto
  qed (use 1(2) in \<open>simp add: chunks.simps\<close>)
qed

lemma chunks_Nil: "0 < n \<Longrightarrow> chunks n s = [] \<longleftrightarrow> s = []"
  by (subst chunks.simps) simp

text \<open>What a file message does to the storage, before it is passed on.\<close>

definition store_msg :: "int \<Rightarrow> Message \<Rightarrow> server \<Rightarrow> server option" where
  "store_msg fd msg s =
     (case type msg of
        MSG_FILE \<Rightarrow>
          (let s1 = start_file_receive (filename msg) (total_size msg) fd s
           in if 0 < data_len msg then append_file_data (filename msg) msg s1 else Some s1)
      | MSG_FILE_DATA \<Rightarrow>
          append_file_data (filename msg) msg
            (if \<not> r_receiving (rcv s) \<or> strcmp (r_filename (rcv s)) (filename msg) \<noteq> 0
             then start_file_receive (filename msg) (total_size msg) fd s else s)
      | _ \<Rightarrow> Some (finish_file_receive s))"

lemma handle_file_message:
  "type m \<in> {MSG_FILE, MSG_FILE_DATA, MSG_FILE_END} \<Longrightarrow>
   handle_client_message fd (RecvMsg m) s = Option.bind (store_msg fd m s) (broadcast_message m fd)"
  by (auto simp: handle_client_message_def store_msg_def Let_def)

text \<open>The part of the state a file message does not look at.\<close>

definition with_net :: "server \<Rightarrow> server \<Rightarrow> server" where
  "with_net s t = t\<lparr>clients := clients s, client_count := client_count s, epoll := epoll s, live := live s, sent := sent s\<rparr>"

lemma with_net_simps [simp]:
  "files (with_net s t) = files t" "rcv (with_net s t) = rcv t" "can_open (with_net s t) = can_open t"
  "live (with_net s t) = live s" "sent (with_net s t) = sent s" "table (with_net s t) = table s"
  "srv_wf (with_net s t) = srv_wf s" "with_net t t = t"
  by (simp_all add: with_net_def table_def srv_wf_def)

lemma start_with_net: "start_file_receive f n fd (with_net s t) = with_net s (start_file_receive f n fd t)"
  by (simp add: start_file_receive_def with_net_def reset_file_receiver_def Let_def)

lemma append_with_net: "append_file_data f m (with_net s t) = map_option (with_net s) (append_file_data f m t)"
proof -
  have "(if \<not> r_receiving (rcv (with_net s t)) \<or> strcmp (r_filename (rcv (with_net s t))) f \<noteq> 0
      then start_file_receive f 0 (-1) (with_net s t) else with_net s t) =
    with_net s (if \<not> r_receiving (rcv t) \<or> strcmp (r_filename (rcv t)) f \<noteq> 0 then start_file_receive f 0 (-1) t else t)"
    by (simp add: start_with_net)
  then show ?thesis
    unfolding append_file_data_def Let_def
    by (simp only:) (simp add: with_net_def option.map_comp bind_map_option comp_def split: option.splits bind_splits)
qed

lemma store_with_net: "store_msg fd m (with_net s t) = map_option (with_net s) (store_msg fd m t)"
proof -
  have "finish_file_receive (with_net s t) = with_net s (finish_file_receive t)"
    by (simp add: finish_file_receive_def with_net_def)
  then show ?thesis by (auto simp: store_msg_def start_with_net append_with_net Let_def split: msg_type.splits)
qed

lemma same_files_with_net: "same_files s' s \<Longrightarrow> s' = with_net s' s"
  by (simp add: same_files_def with_net_def)

fun handle_all :: "int \<Rightarrow> Message list \<Rightarrow> server \<Rightarrow> server option" where
  "handle_all fd [] s = Some s"
| "handle_all fd (m # ms) s = Option.bind (handle_client_message fd (RecvMsg m) s) (handle_all fd ms)"

fun store_all :: "int \<Rightarrow> Message list \<Rightarrow> server \<Rightarrow> server option" where
  "store_all fd [] s = Some s"
| "store_all fd (m # ms) s = Option.bind (store_msg fd m s) (store_all fd ms)"

definition net_ok :: "server \<Rightarrow> server \<Rightarrow> bool" where
  "net_ok s s' \<longleftrightarrow> srv_wf s' \<and> live s' = live s \<and> set (table s') \<subseteq> set (table s) \<and>
     filter (\<lambda>c. c_fd c \<in> live s) (table s') = filter (\<lambda>c. c_fd c \<in> live s) (table s)"

lemma peers_net_ok: "net_ok s s' \<Longrightarrow> peers fd s' = peers fd s"
proof -
  assume "net_ok s s'"
  then have "filter (\<lambda>c. c_fd c \<noteq> fd) (filter (\<lambda>c. c_fd c \<in> live s) (table s')) =
      filter (\<lambda>c. c_fd c \<noteq> fd) (filter (\<lambda>c. c_fd c \<in> live s) (table s))" "live s' = live s"
    by (simp_all add: net_ok_def)
  then show ?thesis by (simp add: peers_def conj_commute)
qed

lemma handle_file_step:
  assumes "srv_wf s" "fd \<in> live s" "type m \<in> {MSG_FILE, MSG_FILE_DATA, MSG_FILE_END}"
    and "store_msg fd m t = Some t1" "same_files s t"
  shows "\<exists>s' xs. handle_client_message fd (RecvMsg m) s = Some s' \<and> net_ok s s' \<and> same_files s' t1 \<and>
    sent s' = sent s @ xs \<and> not_leave xs = map (\<lambda>c. (c_fd c, m)) (peers fd s)"
proof -
  have "store_msg fd m s = Some (with_net s t1)"
    using store_with_net[of fd m s t] same_files_with_net[OF assms(5)] assms(4) by simp
  moreover have "type m \<noteq> MSG_LEAVE" using assms(3) by auto
  ultimately show ?thesis
    using broadcast_delivers[of "with_net s t1" m 0 fd] assms(1,2) handle_file_message[OF assms(3)]
    by (auto simp: broadcast_message_def bcast_ok_def net_ok_def same_files_def peers_def)
qed

lemma handle_all_files:
  assumes "srv_wf s" "fd \<in> live s" "\<forall>m \<in> set ms. type m \<in> {MSG_FILE, MSG_FILE_DATA, MSG_FILE_END}"
    and "store_all fd ms t = Some t'" "same_files s t"
  shows "\<exists>s' xs. handle_all fd ms s = Some s' \<and> net_ok s s' \<and> same_files s' t' \<and> sent s' = sent s @ xs \<and>
    not_leave xs = concat (map (\<lambda>m. map (\<lambda>c. (c_fd c, m)) (peers fd s)) ms)"
  using assms
proof (induction ms arbitrary: s t)
  case (Cons m ms)
  obtain t1 where t1: "store_msg fd m t = Some t1" "store_all fd ms t1 = Some t'"
    using Cons.prems(4) by (auto simp: bind_eq_Some_conv)
  obtain s1 xs where s1: "handle_client_message fd (RecvMsg m) s = Some s1" "net_ok s s1" "same_files s1 t1"
      "sent s1 = sent s @ xs" "not_leave xs = map (\<lambda>c. (c_fd c, m)) (peers fd s)"
    using handle_file_step[OF Cons.prems(1,2) _ t1(1) Cons.prems(5)] Cons.prems(3) by auto
  have "srv_wf s1" "fd \<in> live s1" using s1(2) Cons.prems(2) by (simp_all add: net_ok_def)
  from Cons.IH[OF this _ t1(2) s1(3)] Cons.prems(3) obtain s' ys where
    s': "handle_all fd ms s1 = Some s'" "net_ok s1 s'" "same_files s' t'" "sent s' = sent s1 @ ys"
      "not_leave ys = concat (map (\<lambda>m. map (\<lambda>c. (c_fd c, m)) (peers fd s1)) ms)" by auto
  have "net_ok s s'" using s1(2) s'(2) by (auto simp: net_ok_def)
  with s1 s' peers_net_ok[OF s1(2), of fd] show ?case by simp
qed (auto simp: net_ok_def)

text \<open>A server in the middle of receiving a file.\<close>

definition receiving :: "string \<Rightarrow> string \<Rightarrow> int \<Rightarrow> int \<Rightarrow> server \<Rightarrow> bool" where
  "receiving fname content b n s \<longleftrightarrow> r_file (rcv s) = Some fname \<and> r_filename (rcv s) = fname \<and>
     r_bytes (rcv s) = b \<and> r_total (rcv s) = n \<and> r_receiving (rcv s) \<and> map_of (files s) fname = Some content"

definition data_msg :: "Message \<Rightarrow> string \<Rightarrow> Message" where
  "data_msg base c = base\<lparr>type := MSG_FILE_DATA, msg_data := c, data_len := int (length c)\<rparr>"

lemma data_bytes_msg: "length c \<le> BUFFER_SIZE \<Longrightarrow> data_bytes (data_msg base c) = Some c"
  by (simp add: data_bytes_def data_msg_def)

lemma store_chunk:
  assumes "receiving fname old b n s" "filename base = fname" "length c \<le> BUFFER_SIZE"
  shows "\<exists>s'. store_msg fd (data_msg base c) s = Some s' \<and>
    map_of (files s') = (map_of (files s))(fname \<mapsto> old @ c) \<and> can_open s' = can_open s \<and>
    (if 0 < n \<and> n \<le> b + int (length c) then \<not> r_receiving (rcv s') \<and> r_file (rcv s') = None
     else receiving fname (old @ c) (b + int (length c)) n s')"
  using assms data_bytes_msg[OF assms(3), of base]
  by (auto simp: store_msg_def data_msg_def receiving_def append_file_data_def Let_def update_conv')

lemma store_chunks:
  assumes "receiving fname old b n s" "filename base = fname" "cs \<noteq> []"
    and "\<forall>c \<in> set cs. c \<noteq> [] \<and> length c \<le> BUFFER_SIZE" "n = b + int (length (concat cs))" "0 \<le> b"
  shows "\<exists>s'. store_all fd (map (data_msg base) cs) s = Some s' \<and> \<not> r_receiving (rcv s') \<and>
    map_of (files s') = (map_of (files s))(fname \<mapsto> old @ concat cs)"
  using assms
proof (induction cs arbitrary: s old b)
  case (Cons c cs)
  obtain s1 where s1: "store_msg fd (data_msg base c) s = Some s1"
      "map_of (files s1) = (map_of (files s))(fname \<mapsto> old @ c)"
      "if 0 < n \<and> n \<le> b + int (length c) then \<not> r_receiving (rcv s1) \<and> r_file (rcv s1) = None
       else receiving fname (old @ c) (b + int (length c)) n s1"
    using store_chunk[OF Cons.prems(1,2), of c fd] Cons.prems(4) by auto
  show ?case
  proof (cases "cs = []")
    case True
    then have "0 < n \<and> n \<le> b + int (length c)" using Cons.prems(4-6) by (cases c) auto
    with True s1 show ?thesis by (simp add: fun_eq_iff)
  next
    case False
    then have "0 < length (concat cs)" using Cons.prems(4) by (cases cs) auto
    then have "receiving fname (old @ c) (b + int (length c)) n s1"
      using s1(3) Cons.prems(5) by (auto split: if_splits)
    from Cons.IH[OF this Cons.prems(2) False] Cons.prems(4-6) s1(1,2) show ?thesis by (auto simp: fun_eq_iff)
  qed
qed simp

lemma store_whole_file:
  assumes "\<not> r_receiving (rcv s)" "can_open s fname" "length fname < FILENAME_SIZE" "length content < 2 ^ 31"
  shows "\<exists>s'. store_all fd (file_messages nick fname content) s = Some s' \<and> \<not> r_receiving (rcv s') \<and>
    map_of (files s') = (map_of (files s))(fname \<mapsto> content)"
proof -
  define base where "base = (blank MSG_FILE)\<lparr>nickname := safe_strcpy nick MAX_NICKNAME,
    filename := fname, total_size := int (length content)\<rparr>"
  have fn: "safe_strcpy fname FILENAME_SIZE = fname" using assms(3) by (simp add: safe_strcpy_def strncpy_term_def)
  have "int32_of (int (length content)) = int (length content)"
    using assms(4) by (intro int32_of_id) simp_all
  then have ms: "file_messages nick fname content = base # map (data_msg base) (chunks BUFFER_SIZE content) @ [base\<lparr>type := MSG_FILE_END\<rparr>]"
    by (simp add: file_messages_def Let_def base_def fn data_msg_def[abs_def])
  have base: "filename base = fname" "type base = MSG_FILE" "data_len base = 0" "total_size base = int (length content)"
    by (simp_all add: base_def blank_def)
  define s1 where "s1 = start_file_receive fname (int (length content)) fd s"
  have s1: "receiving fname [] 0 (int (length content)) s1" "map_of (files s1) = (map_of (files s))(fname \<mapsto> [])"
    using assms(1,2) by (auto simp: s1_def start_file_receive_def receiving_def fn update_conv')
  have first: "store_msg fd base s = Some s1" using base by (simp add: store_msg_def s1_def)
  have append: "store_all fd (xs @ ys) t = Option.bind (store_all fd xs t) (store_all fd ys)" for xs ys t
  proof (induction xs arbitrary: t)
    case (Cons m xs)
    then show ?case by (cases "store_msg fd m t") simp_all
  qed simp
  have last: "store_all fd [base\<lparr>type := MSG_FILE_END\<rparr>] t = Some (finish_file_receive t)" for t
    by (simp add: store_msg_def)
  show ?thesis
  proof (cases "content = []")
    case True
    then have "\<not> r_receiving (rcv (finish_file_receive s1))" using s1(1) by (simp add: finish_file_receive_def receiving_def)
    moreover have "file_messages nick fname content = [base, base\<lparr>type := MSG_FILE_END\<rparr>]"
      using ms True by (simp add: chunks.simps)
    then have "store_all fd (file_messages nick fname content) s = Some (finish_file_receive s1)"
      using first by (simp add: store_msg_def)
    moreover have "files (finish_file_receive s1) = files s1" by (simp add: finish_file_receive_def)
    ultimately show ?thesis using True s1(2) by simp
  next
    case False
    have "chunks BUFFER_SIZE content \<noteq> []" "concat (chunks BUFFER_SIZE content) = content"
      using False chunks_Nil concat_chunks by (simp_all add: BUFFER_SIZE_def)
    then obtain s2 where s2: "store_all fd (map (data_msg base) (chunks BUFFER_SIZE content)) s1 = Some s2"
        "\<not> r_receiving (rcv s2)" "map_of (files s2) = (map_of (files s1))(fname \<mapsto> content)"
      using store_chunks[OF s1(1) base(1), of "chunks BUFFER_SIZE content" fd] chunks_bounds by force
    then have "store_all fd (file_messages nick fname content) s = Some (finish_file_receive s2)"
      using first append[of "map (data_msg base) (chunks BUFFER_SIZE content)" "[base\<lparr>type := MSG_FILE_END\<rparr>]" s1]
        last[of s2] by (simp only: ms store_all.simps(2) bind.bind_lunit)
    moreover have "finish_file_receive s2 = s2" using s2(2) by (simp add: finish_file_receive_def)
    ultimately show ?thesis using s2(2,3) s1(2) by simp
  qed
qed

section \<open>Receiving a file\<close>

fun receive_all :: "(string \<Rightarrow> bool) \<Rightarrow> Message list \<Rightarrow> rx \<Rightarrow> rx option" where
  "receive_all ok [] x = Some x"
| "receive_all ok (m # ms) x = Option.bind (receive_file ok m x) (receive_all ok ms)"

lemma receive_all_append: "receive_all ok (xs @ ys) x = Option.bind (receive_all ok xs x) (receive_all ok ys)"
proof (induction xs arbitrary: x)
  case (Cons m xs)
  then show ?case by (cases "receive_file ok m x") simp_all
qed simp

lemma receive_all_leaves: "receive_all ok (filter (\<lambda>m. type m \<noteq> MSG_LEAVE) ms) x = receive_all ok ms x"
proof (induction ms arbitrary: x)
  case (Cons m ms)
  have "type m = MSG_LEAVE \<Longrightarrow> receive_file ok m x = Some x" by (simp add: receive_file_def)
  with Cons show ?case by (cases "receive_file ok m x") auto
qed simp

definition rx_receiving :: "string \<Rightarrow> string \<Rightarrow> int \<Rightarrow> int \<Rightarrow> rx \<Rightarrow> bool" where
  "rx_receiving fname content b n x \<longleftrightarrow> rx_file x = Some fname \<and> current_file x = fname \<and> rx_bytes x = b \<and>
     rx_total x = n \<and> disk x fname = Some content"

lemma receive_chunk:
  assumes "rx_receiving fname old b n x" "filename base = fname" "length c \<le> BUFFER_SIZE"
  shows "\<exists>x'. receive_file ok (data_msg base c) x = Some x' \<and> disk x' = (disk x)(fname \<mapsto> old @ c) \<and>
    (n \<le> b + int (length c) \<or> rx_receiving fname (old @ c) (b + int (length c)) n x')"
  using assms data_bytes_msg[OF assms(3), of base]
  by (simp add: receive_file_def data_msg_def rx_receiving_def rx_write_def Let_def)

lemma receive_chunks:
  assumes "rx_receiving fname old b n x" "filename base = fname" "cs \<noteq> []"
    and "\<forall>c \<in> set cs. c \<noteq> [] \<and> length c \<le> BUFFER_SIZE" "n = b + int (length (concat cs))"
  shows "\<exists>x'. receive_all ok (map (data_msg base) cs) x = Some x' \<and> disk x' = (disk x)(fname \<mapsto> old @ concat cs)"
  using assms
proof (induction cs arbitrary: x old b)
  case (Cons c cs)
  obtain x1 where x1: "receive_file ok (data_msg base c) x = Some x1" "disk x1 = (disk x)(fname \<mapsto> old @ c)"
      "n \<le> b + int (length c) \<or> rx_receiving fname (old @ c) (b + int (length c)) n x1"
    using receive_chunk[OF Cons.prems(1,2), of c ok] Cons.prems(4) by auto
  show ?case
  proof (cases "cs = []")
    case True
    with x1 show ?thesis by (simp add: fun_eq_iff)
  next
    case False
    then have "0 < length (concat cs)" using Cons.prems(4) by (cases cs) auto
    then have "rx_receiving fname (old @ c) (b + int (length c)) n x1" using x1(3) Cons.prems(5) by auto
    from Cons.IH[OF this Cons.prems(2) False] Cons.prems(4,5) x1(1,2) show ?thesis by (auto simp: fun_eq_iff)
  qed
qed simp

lemma receive_whole_file:
  assumes "ok fname" "length fname < FILENAME_SIZE" "length content < 2 ^ 31"
  shows "\<exists>x'. receive_all ok (file_messages nick fname content) x = Some x' \<and> disk x' = (disk x)(fname \<mapsto> content)"
proof -
  define base where "base = (blank MSG_FILE)\<lparr>nickname := safe_strcpy nick MAX_NICKNAME,
    filename := fname, total_size := int (length content)\<rparr>"
  have fn: "safe_strcpy fname FILENAME_SIZE = fname" using assms(2) by (simp add: safe_strcpy_def strncpy_term_def)
  have "int32_of (int (length content)) = int (length content)"
    using assms(3) by (intro int32_of_id) simp_all
  then have ms: "file_messages nick fname content = base # map (data_msg base) (chunks BUFFER_SIZE content) @ [base\<lparr>type := MSG_FILE_END\<rparr>]"
    by (simp add: file_messages_def Let_def base_def fn data_msg_def[abs_def])
  have base: "filename base = fname" "type base = MSG_FILE" "data_len base = 0" "total_size base = int (length content)"
    by (simp_all add: base_def blank_def)
  define x1 where "x1 = rx_open ok fname (int (length content)) x"
  have first: "receive_file ok base x = Some x1" using base by (simp add: receive_file_def x1_def Let_def)
  have x1: "rx_receiving fname [] 0 (int (length content)) x1" "disk x1 = (disk x)(fname \<mapsto> [])"
    using assms(1) by (simp_all add: x1_def rx_open_def rx_receiving_def fn)
  have last: "receive_all ok [base\<lparr>type := MSG_FILE_END\<rparr>] y = Some (y\<lparr>rx_file := None\<rparr>)" for y
    by (simp add: receive_file_def)
  have "\<exists>x2. receive_all ok (map (data_msg base) (chunks BUFFER_SIZE content)) x1 = Some x2 \<and>
      disk x2 = (disk x)(fname \<mapsto> content)"
  proof (cases "content = []")
    case True
    with x1 show ?thesis by (simp add: chunks.simps)
  next
    case False
    have "chunks BUFFER_SIZE content \<noteq> []" "concat (chunks BUFFER_SIZE content) = content"
      using False chunks_Nil concat_chunks by (simp_all add: BUFFER_SIZE_def)
    then show ?thesis
      using receive_chunks[OF x1(1) base(1), of "chunks BUFFER_SIZE content" ok] chunks_bounds x1(2) by force
  qed
  then obtain x2 where x2: "receive_all ok (map (data_msg base) (chunks BUFFER_SIZE content)) x1 = Some x2"
      "disk x2 = (disk x)(fname \<mapsto> content)" by blast
  then have "receive_all ok (file_messages nick fname content) x = Some (x2\<lparr>rx_file := None\<rparr>)"
    using first last[of x2] by (simp only: ms receive_all.simps(2) receive_all_append bind.bind_lunit)
  with x2(2) show ?thesis by auto
qed

lemma msgs_to_broadcasts:
  assumes "distinct (map c_fd P)" "c \<in> set P"
  shows "msgs_to (c_fd c) (concat (map (\<lambda>m. map (\<lambda>c. (c_fd c, m)) P) ms)) = ms"
proof -
  have "msgs_to (c_fd c) (map (\<lambda>c. (c_fd c, m)) P) = [m]" for m
    using assms
  proof (induction P)
    case (Cons d P)
    have none: "c_fd c \<notin> c_fd ` set Q \<Longrightarrow> msgs_to (c_fd c) (map (\<lambda>c. (c_fd c, m)) Q) = []" for Q
      by (induction Q) (auto simp: msgs_to_def)
    show ?case
    proof (cases "c_fd d = c_fd c")
      case True
      then have "msgs_to (c_fd c) (map (\<lambda>c. (c_fd c, m)) P) = []" using Cons.prems none by auto
      with True show ?thesis by (simp add: msgs_to_def)
    next
      case False
      then have "c \<in> set P" using Cons.prems by auto
      with Cons.IH Cons.prems False show ?thesis by (simp add: msgs_to_def)
    qed
  qed simp
  then show ?thesis by (induction ms) (simp_all add: msgs_to_def)
qed

lemma msgs_to_not_leave: "filter (\<lambda>m. type m \<noteq> MSG_LEAVE) (msgs_to fd xs) = msgs_to fd (not_leave xs)"
  by (simp add: msgs_to_def not_leave_def filter_map comp_def conj_commute)

text \<open>
  C13. A file of less than 2^31 bytes sent with \<open>/file\<close> while the server receives no other (its receiver is
  idle, and nothing is handled between the messages of the file) arrives everywhere: after the server
  has handled its messages the storage holds the file byte for byte (and every other file as before), and
  each other client with a working connection that processes what it was sent has the same bytes under
  the same name.
\<close>

theorem upload_reaches_everyone:
  assumes "srv_wf s" "fd \<in> live s" "distinct (map c_fd (table s))" "\<not> r_receiving (rcv s)"
    and "can_open s fname" "length fname < FILENAME_SIZE" "length content < 2 ^ 31"
  shows "\<exists>s' xs. handle_all fd (file_messages nick fname content) s = Some s' \<and> sent s' = sent s @ xs \<and>
    map_of (files s') = (map_of (files s))(fname \<mapsto> content) \<and> \<not> r_receiving (rcv s') \<and>
    (\<forall>c \<in> set (peers fd s). \<forall>ok x. ok fname \<longrightarrow>
       (\<exists>x'. receive_all ok (msgs_to (c_fd c) xs) x = Some x' \<and> disk x' = (disk x)(fname \<mapsto> content)))"
proof -
  let ?ms = "file_messages nick fname content"
  obtain t where t: "store_all fd ?ms s = Some t" "\<not> r_receiving (rcv t)" "map_of (files t) = (map_of (files s))(fname \<mapsto> content)"
    using store_whole_file[OF assms(4-7)] by blast
  have types: "\<forall>m \<in> set ?ms. type m \<in> {MSG_FILE, MSG_FILE_DATA, MSG_FILE_END}"
    by (auto simp: file_messages_def Let_def blank_def)
  have "same_files s s" by (simp add: same_files_def)
  from handle_all_files[OF assms(1,2) types t(1) this] obtain s' xs where
    s': "handle_all fd ?ms s = Some s'" "same_files s' t" "sent s' = sent s @ xs"
      "not_leave xs = concat (map (\<lambda>m. map (\<lambda>c. (c_fd c, m)) (peers fd s)) ?ms)" by blast
  have "distinct (map c_fd (peers fd s))" using assms(3) by (simp add: peers_def distinct_map_filter)
  then have to_peer: "filter (\<lambda>m. type m \<noteq> MSG_LEAVE) (msgs_to (c_fd c) xs) = ?ms" if "c \<in> set (peers fd s)" for c
    using that msgs_to_broadcasts by (simp add: msgs_to_not_leave s'(4))
  have "\<exists>x'. receive_all ok (msgs_to (c_fd c) xs) x = Some x' \<and> disk x' = (disk x)(fname \<mapsto> content)"
    if "c \<in> set (peers fd s)" "ok fname" for c ok x
    using receive_whole_file[of ok fname content nick x] to_peer[OF that(1)] that(2) assms(6,7)
      receive_all_leaves[of ok "msgs_to (c_fd c) xs" x] by simp
  with s' t(2,3) show ?thesis by (intro exI[of _ s'] exI[of _ xs]) (simp add: same_files_def)
qed

lemma upload_reaches_everyone_witness:
  "\<exists>s'. handle_all 4 (file_messages ''a'' ''f.txt'' ''data'') (three_clients {4, 6}) = Some s' \<and>
     map_of (files s') ''f.txt'' = Some ''data''"
  using upload_reaches_everyone[of "three_clients {4, 6}" 4 "''f.txt''" "''data''" "''a''"]
  by (auto simp: receiver_idle_def FILENAME_SIZE_def)

text \<open>
  C14. A stored file fetched with \<open>/get\<close> comes back byte for byte: the messages the server sends to the
  client that asked make \<open>receive_file\<close> store exactly its content.
\<close>

theorem download_returns_file:
  assumes "fd \<in> live s" "map_of (files s) fname = Some content" "length fname < FILENAME_SIZE" "length content < 2 ^ 31"
    and "type m = MSG_FILE_GET" "filename m = fname" "ok fname"
  shows "\<exists>s' xs x'. handle_client_message fd (RecvMsg m) s = Some s' \<and> sent s' = sent s @ map (Pair fd) xs \<and>
    receive_all ok xs x = Some x' \<and> disk x' = (disk x)(fname \<mapsto> content)"
proof -
  have send: "send_list fd ms t = t\<lparr>sent := sent t @ map (Pair fd) ms\<rparr>" if "fd \<in> live t" for ms t
    using that by (induction ms arbitrary: t) (simp_all add: send_to_def)
  have "handle_client_message fd (RecvMsg m) s =
      Some (s\<lparr>sent := sent s @ map (Pair fd) (file_messages ''SERVER'' fname content)\<rparr>)"
    using assms(1,2,5,6) send by (simp add: handle_client_message_def send_file_to_client_def)
  with receive_whole_file[of ok fname content "''SERVER''" x] assms(3,4,7) show ?thesis by force
qed

lemma download_returns_file_witness:
  "\<exists>s' xs x'. handle_client_message 4 (RecvMsg ((blank MSG_FILE_GET)\<lparr>filename := ''f''\<rparr>))
       ((three_clients {4})\<lparr>files := [(''f'', ''data'')]\<rparr>) = Some s' \<and> sent s' = map (Pair 4) xs \<and>
     receive_all (\<lambda>_. True) xs \<lparr>current_file = [], rx_file = None, rx_bytes = 0, rx_total = 0, disk = Map.empty\<rparr> = Some x' \<and>
     disk x' ''f'' = Some ''data''"
proof -
  let ?s = "(three_clients {4})\<lparr>files := [(''f'', ''data'')]\<rparr>"
  let ?x = "\<lparr>current_file = [], rx_file = None, rx_bytes = 0, rx_total = 0, disk = Map.empty\<rparr>"
  obtain s' xs x' where "handle_client_message 4 (RecvMsg ((blank MSG_FILE_GET)\<lparr>filename := ''f''\<rparr>)) ?s = Some s'"
      "sent s' = map (Pair 4) xs" "receive_all (\<lambda>_. True) xs ?x = Some x'" "disk x' = (disk ?x)(''f'' \<mapsto> ''data'')"
    using download_returns_file[of 4 ?s "''f''" "''data''" "(blank MSG_FILE_GET)\<lparr>filename := ''f''\<rparr>" "\<lambda>_. True" ?x]
    by (auto simp: FILENAME_SIZE_def blank_def)
  then show ?thesis by (intro exI[of _ s'] exI[of _ xs] exI[of _ x']) simp
qed

section \<open>Where the server goes wrong\<close>

text \<open>
  There is one \<open>file_receiver\<close> for all clients. While it receives one file, a piece of another file,
  of which earlier pieces are already stored, makes it start that other file anew: what was
  stored of it is lost and only the new piece remains.
\<close>

lemma interleaved_upload_loses_data:
  assumes "srv_wf s" "fd \<in> live s" "receiving f old b n s" "g \<noteq> f" "can_open s g" "length g < FILENAME_SIZE"
    and "map_of (files s) g = Some earlier" "filename base = g" "length c \<le> BUFFER_SIZE"
  shows "\<exists>s'. handle_client_message fd (RecvMsg (data_msg base c)) s = Some s' \<and> map_of (files s') g = Some c"
proof -
  have g: "safe_strcpy g FILENAME_SIZE = g" using assms(6) by (simp add: safe_strcpy_def strncpy_term_def)
  define s1 where "s1 = start_file_receive g (total_size base) fd s"
  have s1: "receiving g [] 0 (total_size base) s1"
    using assms(3-5) by (auto simp: s1_def start_file_receive_def receiving_def reset_file_receiver_def
        receiver_idle_def g Let_def update_conv')
  obtain s2 where s2: "store_msg fd (data_msg base c) s1 = Some s2" "map_of (files s2) g = Some c"
    using store_chunk[OF s1 assms(8,9), of fd] by auto
  have "store_msg fd (data_msg base c) s = store_msg fd (data_msg base c) s1"
    using assms(3,4,8) s1 by (simp add: store_msg_def data_msg_def receiving_def s1_def)
  moreover have "same_files s s" by (simp add: same_files_def)
  moreover have "type (data_msg base c) = MSG_FILE_DATA" by (simp add: data_msg_def)
  ultimately show ?thesis
    using handle_file_step[OF assms(1,2), of "data_msg base c" s s2] s2 by (auto simp: same_files_def)
qed

lemma length_file_lines:
  "\<forall>f \<in> set fs. length (fst f) < FILENAME_SIZE \<Longrightarrow> sum_list (map (\<lambda>f. length (fst f) + 12) fs) \<le> length (file_lines fs)"
proof (induction fs)
  case (Cons f fs)
  obtain nm c where f: "f = (nm, c)" by (cases f)
  have "1 \<le> length (show_nat (length c))" using show_nat_nonempty[of "length c"] by (cases "show_nat (length c)") auto
  then have "length nm + 12 \<le> length ('' '' @ nm @ '' ('' @ show_nat (length c) @ '' bytes)'' @ [NL])" by simp
  moreover have "length nm + 12 \<le> BUFFER_SIZE - 1" using Cons.prems f by (simp add: FILENAME_SIZE_def BUFFER_SIZE_def)
  ultimately have "length nm + 12 \<le> length (snprintf_into BUFFER_SIZE ('' '' @ nm @ '' ('' @ show_nat (length c) @ '' bytes)'' @ [NL]))"
    by (simp add: snprintf_into_def)
  with Cons f show ?case by (simp add: file_lines_def)
qed simp

text \<open>
  \<open>list_files_in_storage\<close> ignores the size of its buffer: once the names of the stored files, with
  twelve bytes more for each, make 4096 bytes, a client asking for the list makes the server
  write beyond the data array of its response.
\<close>

lemma file_list_overflows:
  assumes "type m = MSG_FILE_LIST" "\<forall>f \<in> set (files s). length (fst f) < FILENAME_SIZE"
    and "BUFFER_SIZE \<le> sum_list (map (\<lambda>f. length (fst f) + 12) (files s))"
  shows "handle_client_message fd (RecvMsg m) s = None"
proof -
  have "BUFFER_SIZE \<le> length (file_lines (files s))" using length_file_lines[OF assms(2)] assms(3) by linarith
  then show ?thesis
    using assms(1) by (simp add: handle_client_message_def list_files_in_storage_def strcpy_into_def Let_def)
qed

text \<open>
  The length of a piece comes from the network and is not checked: one that is negative or above
  4096 makes the server write memory beyond the message to the file.
\<close>

lemma data_length_unchecked:
  assumes "type m = MSG_FILE_DATA" "data_len m < 0 \<or> int BUFFER_SIZE < data_len m" "\<not> r_receiving (rcv s)"
    and "can_open s (filename m)" "length (filename m) < FILENAME_SIZE"
  shows "handle_client_message fd (RecvMsg m) s = None"
proof -
  have g: "safe_strcpy (filename m) FILENAME_SIZE = filename m" using assms(5) by (simp add: safe_strcpy_def strncpy_term_def)
  show ?thesis
    using assms by (simp add: handle_client_message_def start_file_receive_def append_file_data_def
        data_bytes_def g Let_def del: disj_not1)
qed

end
