(* ===== verification/Tcp_Chat_System_Props.thy ===== *)
theory Tcp_Chat_System_Props
  imports Tcp_Chat_System Tcp_Chat_Props
begin

text \<open>
  The TCP chat under every schedule of connections, typing, \<open>select\<close> rounds, events at the server and
  departures in which messages come whole and no connection is reset: nothing faults, and what one client is sent of the lines typed at another is an
  unbroken run of them, in order (the interface \<open>step_invariant\<close>, interpreted with the flow of
  lines as invariant).
\<close>

section \<open>What is typed\<close>

text \<open>All a client sends for what is typed at it.\<close>

function typed_requests :: "string \<Rightarrow> (string \<rightharpoonup> string) \<Rightarrow> string \<Rightarrow> Message list" where
  "typed_requests nick fs inp =
     (case fgets BUFFER_SIZE inp of
        None \<Rightarrow> []
      | Some (l, rest) \<Rightarrow> fst (handle_user_input nick fs inp) @ typed_requests nick fs rest)"
  by pat_completeness auto
termination
  by (relation "measure (\<lambda>(nick, fs, inp). length inp)") (auto simp: BUFFER_SIZE_def dest: fgets_progress)

declare typed_requests.simps [simp del]

lemma handle_user_input_rest:
  "snd (handle_user_input nick fs inp) = (case fgets BUFFER_SIZE inp of None \<Rightarrow> inp | Some (l, rest) \<Rightarrow> rest)"
  by (auto simp: handle_user_input_def Let_def split: option.splits)

lemma typed_requests_step:
  "handle_user_input nick fs inp = (ms, rest) \<Longrightarrow> typed_requests nick fs inp = ms @ typed_requests nick fs rest"
proof -
  assume h: "handle_user_input nick fs inp = (ms, rest)"
  show ?thesis
  proof (cases "fgets BUFFER_SIZE inp")
    case None
    then have "ms = []" "rest = inp" using h by (simp_all add: handle_user_input_def)
    with None show ?thesis by (simp add: typed_requests.simps)
  next
    case (Some lr)
    then show ?thesis using h handle_user_input_rest[of nick fs inp]
      by (cases lr) (simp add: typed_requests.simps[of nick fs inp])
  qed
qed

text \<open>More input behind a whole line does not change what is read.\<close>

lemma line_of_more: "NL \<in> set a \<or> k \<le> length a \<Longrightarrow> line_of k (a @ b) = (fst (line_of k a), snd (line_of k a) @ b)"
  by (induction k a rule: line_of.induct) (auto simp: case_prod_unfold Let_def)

lemma fgets_more:
  "a \<noteq> [] \<Longrightarrow> NL \<in> set a \<or> n \<le> Suc (length a) \<Longrightarrow> fgets n (a @ b) = map_option (\<lambda>(l, r). (l, r @ b)) (fgets n a)"
proof -
  assume a: "a \<noteq> []" "NL \<in> set a \<or> n \<le> Suc (length a)"
  then have "NL \<in> set a \<or> n - 1 \<le> length a" by auto
  with a(1) show ?thesis using line_of_more[of a "n - 1" b] by (simp add: fgets_def case_prod_unfold Let_def)
qed

lemma handle_user_input_more:
  assumes "a \<noteq> []" "NL \<in> set a \<or> BUFFER_SIZE \<le> Suc (length a)"
  shows "handle_user_input nick fs (a @ b) = (fst (handle_user_input nick fs a), snd (handle_user_input nick fs a) @ b)"
  using fgets_more[OF assms, of b]
  by (cases "fgets BUFFER_SIZE a") (auto simp: handle_user_input_def Let_def case_prod_unfold)

lemma fill_stdin_spec:
  "fill_stdin n buf cs = (buf', cs') \<Longrightarrow>
   buf' @ concat cs' = buf @ concat cs \<and> (cs' = [] \<or> NL \<in> set buf' \<or> n \<le> Suc (length buf'))"
  by (induction n buf cs rule: fill_stdin.induct) (auto split: if_splits)

definition typed :: "user \<Rightarrow> string" where
  "typed u = u_buf u @ concat (u_chunks u)"

definition to_send :: "user \<Rightarrow> Message list" where
  "to_send u = typed_requests (u_nick u) (u_files u) (typed u)"

text \<open>However the input comes in pieces, the client sends what is typed, line by line.\<close>

lemma user_types_spec:
  assumes "user_types u = (ms, u')"
  shows "to_send u = ms @ to_send u'" "u_sent u' = u_sent u @ ms" "u_nick u' = u_nick u" "u_fd u' = u_fd u"
    "u_pc u' = u_pc u" "u_taken u' = u_taken u" "u_rx u' = u_rx u" "u_files u' = u_files u" "u_out u' = u_out u"
proof -
  obtain buf cs where f: "fill_stdin BUFFER_SIZE (u_buf u) (u_chunks u) = (buf, cs)" by fastforce
  obtain rest where h: "handle_user_input (u_nick u) (u_files u) buf = (ms, rest)"
    and u': "u' = u\<lparr>u_buf := rest, u_chunks := cs, u_sent := u_sent u @ ms\<rparr>"
    using assms f by (auto simp: user_types_def split: prod.splits)
  note F = fill_stdin_spec[OF f]
  have "handle_user_input (u_nick u) (u_files u) (buf @ concat cs) = (ms, rest @ concat cs)"
  proof (cases "cs = []")
    case False
    then have "NL \<in> set buf \<or> BUFFER_SIZE \<le> Suc (length buf)" "buf \<noteq> []" using F by (auto simp: BUFFER_SIZE_def)
    with handle_user_input_more[of buf] h show ?thesis by simp
  qed (use h in simp)
  then show "to_send u = ms @ to_send u'"
    using typed_requests_step F u' by (simp add: to_send_def typed_def)
qed (use assms in \<open>auto simp: user_types_def split: prod.splits\<close>)

text \<open>What a client sends carries its name, and its file pieces fit the data array.\<close>

definition message_fine :: "Message \<Rightarrow> bool" where
  "message_fine m \<longleftrightarrow> type m \<in> {MSG_FILE, MSG_FILE_DATA} \<longrightarrow> 0 \<le> data_len m \<and> data_len m \<le> int BUFFER_SIZE"

lemma file_messages_fine:
  "m \<in> set (file_messages nick f c) \<Longrightarrow>
   message_fine m \<and> nickname m = safe_strcpy nick MAX_NICKNAME \<and> type m \<in> {MSG_FILE, MSG_FILE_DATA, MSG_FILE_END}"
  by (auto simp: file_messages_def message_fine_def blank_def Let_def dest: chunks_bounds)

lemma typed_message_kinds:
  assumes "m \<in> set (fst (handle_user_input nick fs inp))"
  shows "message_fine m" "nickname m = safe_strcpy nick MAX_NICKNAME"
    "type m \<in> {MSG_CHAT, MSG_FILE, MSG_FILE_DATA, MSG_FILE_END, MSG_FILE_LIST, MSG_FILE_GET}"
proof -
  have "message_fine m \<and> nickname m = safe_strcpy nick MAX_NICKNAME \<and>
      type m \<in> {MSG_CHAT, MSG_FILE, MSG_FILE_DATA, MSG_FILE_END, MSG_FILE_LIST, MSG_FILE_GET}"
  proof (cases "\<exists>f c. m \<in> set (file_messages nick f c)")
    case True
    then show ?thesis using file_messages_fine by blast
  next
    case False
    then show ?thesis using assms
      by (auto simp: handle_user_input_def Let_def send_message_def send_file_def blank_def message_fine_def
            split: option.splits if_splits)
  qed
  then show "message_fine m" "nickname m = safe_strcpy nick MAX_NICKNAME"
    "type m \<in> {MSG_CHAT, MSG_FILE, MSG_FILE_DATA, MSG_FILE_END, MSG_FILE_LIST, MSG_FILE_GET}" by blast+
qed

section \<open>The server while every client's connection works\<close>

definition all_live :: "server \<Rightarrow> bool" where
  "all_live v \<longleftrightarrow> srv_wf v \<and> c_fd ` set (table v) \<subseteq> live v"

lemma broadcast_all_live:
  assumes "all_live v"
  shows "broadcast i m fd v =
    Some (v\<lparr>sent := sent v @ map (\<lambda>c. (c_fd c, m)) (filter (\<lambda>c. c_fd c \<noteq> fd) (drop i (table v)))\<rparr>)"
  using assms
proof (induction "client_count v - i" arbitrary: i v)
  case 0
  then show ?case using length_table[of v] by (simp add: broadcast_end all_live_def)
next
  case (Suc k)
  then have i: "i < client_count v" and wf: "srv_wf v" by (simp_all add: all_live_def)
  define c where "c = clients v ! i"
  have c: "drop i (table v) = c # drop (Suc i) (table v)" "c \<in> set (table v)"
    using i table_nth[OF wf i] length_table[OF wf] by (auto simp: c_def Cons_nth_drop_Suc[symmetric])
  show ?case
  proof (cases "c_fd c = fd")
    case True
    then show ?thesis using Suc.hyps(1)[of v "Suc i"] Suc.hyps(2) Suc.prems broadcast_sender[OF i, of fd m] c(1)
      by (simp add: c_def)
  next
    case False
    let ?v = "v\<lparr>sent := sent v @ [(c_fd c, m)]\<rparr>"
    have v: "all_live ?v" "table ?v = table v" "client_count ?v = client_count v"
      using Suc.prems by (simp_all add: all_live_def srv_wf_def table_def)
    have "c_fd c \<in> live v" using Suc.prems c(2) by (auto simp: all_live_def)
    then show ?thesis using False Suc.hyps(1)[of ?v "Suc i"] Suc.hyps(2) v broadcast_live[OF i, of fd m] c(1)
      by (simp add: c_def)
  qed
qed

text \<open>
  What one call of the handler may do to the table: nothing, add the client, or drop it; it sends
  messages of other kinds than chat, and leaves the set of working connections to the table.
\<close>

definition no_chats :: "(int \<times> Message) list \<Rightarrow> bool" where
  "no_chats xs \<longleftrightarrow> (\<forall>x \<in> set xs. type (snd x) \<noteq> MSG_CHAT \<and> message_fine (snd x))"

definition quietly :: "server \<Rightarrow> server \<Rightarrow> bool" where
  "quietly v v' \<longleftrightarrow> (\<exists>xs. sent v' = sent v @ xs \<and> no_chats xs)"

definition same_clients :: "server \<Rightarrow> server \<Rightarrow> bool" where
  "same_clients v v' \<longleftrightarrow> clients v' = clients v \<and> client_count v' = client_count v \<and> epoll v' = epoll v \<and> live v' = live v"

lemma same_clients_table: "same_clients v v' \<Longrightarrow> table v' = table v \<and> (srv_wf v' \<longleftrightarrow> srv_wf v) \<and> (all_live v' \<longleftrightarrow> all_live v)"
  by (simp add: same_clients_def table_def srv_wf_def all_live_def)

lemma quietly_refl [simp]: "quietly v v" "quietly v (v\<lparr>files := f\<rparr>)" "quietly v (v\<lparr>rcv := r\<rparr>)"
  by (auto simp: quietly_def no_chats_def)

lemma quietly_broadcast:
  assumes "all_live v" "type m \<noteq> MSG_CHAT" "message_fine m"
  shows "\<exists>v'. broadcast_message m fd v = Some v' \<and> quietly v v' \<and> same_clients v v'"
  using assms by (auto simp: broadcast_message_def broadcast_all_live quietly_def no_chats_def same_clients_def)

lemma start_same: "same_clients v (start_file_receive f n fd v)" "sent (start_file_receive f n fd v) = sent v"
  by (simp_all add: start_file_receive_def reset_file_receiver_def same_clients_def Let_def)

lemma append_same:
  assumes "0 \<le> data_len m" "data_len m \<le> int BUFFER_SIZE"
  shows "\<exists>v'. append_file_data f m v = Some v' \<and> same_clients v v' \<and> sent v' = sent v"
proof -
  define v1 where "v1 = (if \<not> r_receiving (rcv v) \<or> strcmp (r_filename (rcv v)) f \<noteq> 0 then start_file_receive f 0 (-1) v else v)"
  have v1: "same_clients v v1" "sent v1 = sent v"
    by (auto simp: v1_def start_same) (simp add: same_clients_def)
  obtain b where "data_bytes m = Some b" using assms by (simp add: data_bytes_def)
  then show ?thesis using v1 unfolding append_file_data_def v1_def[symmetric]
    by (cases "r_file (rcv v1)") (auto simp: same_clients_def Let_def)
qed

lemma same_clients_trans: "same_clients u v \<Longrightarrow> same_clients v w \<Longrightarrow> same_clients u w"
  by (simp add: same_clients_def)

lemma quietly_sent: "quietly v v' \<Longrightarrow> sent v = sent u \<Longrightarrow> quietly u v'"
  by (simp add: quietly_def)

lemma send_list_quiet:
  "\<forall>m \<in> set ms. type m \<noteq> MSG_CHAT \<and> message_fine m \<Longrightarrow> quietly v (send_list fd ms v) \<and> same_clients v (send_list fd ms v)"
proof (induction ms arbitrary: v)
  case (Cons m ms)
  have "quietly v (snd (send_to fd m v))" "same_clients v (snd (send_to fd m v))"
    using Cons.prems by (auto simp: send_to_def quietly_def no_chats_def same_clients_def)
  moreover have "quietly (snd (send_to fd m v)) (send_list fd (m # ms) v)"
      "same_clients (snd (send_to fd m v)) (send_list fd (m # ms) v)"
    using Cons.IH[of "snd (send_to fd m v)"] Cons.prems by auto
  ultimately show ?case by (auto simp: quietly_def no_chats_def same_clients_def)
qed (simp add: same_clients_def)

lemma file_handler_same:
  assumes "all_live v" "message_fine m" "type m \<in> {MSG_FILE, MSG_FILE_DATA, MSG_FILE_END, MSG_FILE_GET}"
  shows "\<exists>v'. handle_client_message fd (RecvMsg m) v = Some v' \<and> quietly v v' \<and> same_clients v v'"
proof -
  have send: "\<exists>v'. broadcast_message m fd v1 = Some v' \<and> quietly v v' \<and> same_clients v v'"
    if "same_clients v v1" "sent v1 = sent v" "type m \<noteq> MSG_CHAT" for v1
    using quietly_broadcast[of v1 m fd] that assms(1,2) same_clients_table[OF that(1)] quietly_sent same_clients_trans by blast
  from assms(3) consider "type m = MSG_FILE" | "type m = MSG_FILE_DATA" | "type m = MSG_FILE_END" | "type m = MSG_FILE_GET"
    by auto
  then show ?thesis
  proof cases
    case 1
    define v1 where "v1 = start_file_receive (filename m) (total_size m) fd v"
    have v1: "same_clients v v1" "sent v1 = sent v" by (simp_all add: v1_def start_same)
    obtain v2 where "append_file_data (filename m) m v1 = Some v2" "same_clients v1 v2" "sent v2 = sent v1"
      using append_same[of m "filename m" v1] assms(2) 1 by (auto simp: message_fine_def)
    with v1 show ?thesis using 1 send[of v1] send[of v2] same_clients_trans[OF v1(1)]
      by (auto simp: handle_client_message_def v1_def[symmetric])
  next
    case 2
    define v1 where "v1 = (if \<not> r_receiving (rcv v) \<or> strcmp (r_filename (rcv v)) (filename m) \<noteq> 0
                         then start_file_receive (filename m) (total_size m) fd v else v)"
    have v1: "same_clients v v1" "sent v1 = sent v"
      by (auto simp: v1_def start_same) (simp add: same_clients_def)
    obtain v2 where "append_file_data (filename m) m v1 = Some v2" "same_clients v1 v2" "sent v2 = sent v1"
      using append_same[of m "filename m" v1] assms(2) 2 by (auto simp: message_fine_def)
    moreover have "handle_client_message fd (RecvMsg m) v =
        Option.bind (append_file_data (filename m) m v1) (broadcast_message m fd)"
      using 2 by (simp add: handle_client_message_def v1_def Let_def)
    ultimately show ?thesis using v1 2 send[of v2] same_clients_trans[OF v1(1)] by simp
  next
    case 3
    have "same_clients v (finish_file_receive v)" "sent (finish_file_receive v) = sent v"
      by (simp_all add: finish_file_receive_def same_clients_def)
    with 3 send[of "finish_file_receive v"] show ?thesis by (simp add: handle_client_message_def)
  next
    case 4
    have "\<forall>x \<in> set (file_messages n f c). type x \<noteq> MSG_CHAT \<and> message_fine x" for n f c
      using file_messages_fine by fastforce
    with 4 send_list_quiet show ?thesis
      by (auto simp: handle_client_message_def send_file_to_client_def same_clients_def split: option.splits)
  qed
qed

lemma join_handler:
  assumes "all_live v" "fd \<in> live v" "client_count v < MAX_CLIENTS" "type m = MSG_JOIN"
  shows "\<exists>v'. handle_client_message fd (RecvMsg m) v = Some v' \<and> quietly v v' \<and> all_live v' \<and>
    map c_fd (table v') = map c_fd (table v) @ [fd] \<and> epoll v' = epoll v \<and> live v' = live v"
proof -
  let ?nick = "safe_strcpy (nickname m) MAX_NICKNAME"
  let ?v1 = "v\<lparr>clients := (clients v)[client_count v := \<lparr>c_fd = fd, c_nick = ?nick\<rparr>], client_count := Suc (client_count v)\<rparr>"
  have wf: "srv_wf v" using assms(1) by (simp add: all_live_def)
  then have "client_count v < length (clients v)" using assms(3) by (simp add: srv_wf_def)
  then have t: "table ?v1 = table v @ [\<lparr>c_fd = fd, c_nick = ?nick\<rparr>]" by (simp add: table_def take_Suc_list_update)
  have live1: "all_live ?v1" using assms(1-3) t by (simp add: all_live_def srv_wf_def)
  let ?msg = "(blank MSG_JOIN)\<lparr>nickname := ?nick, msg_data := snprintf_into BUFFER_SIZE (''['' @ nickname m @ ''] joined the chat'')\<rparr>"
  have h: "handle_client_message fd (RecvMsg m) v = broadcast_message ?msg fd ?v1"
    using assms(3,4) by (simp add: handle_client_message_def add_client_def Let_def)
  obtain v' where v': "broadcast_message ?msg fd ?v1 = Some v'" "quietly ?v1 v'" "same_clients ?v1 v'"
    using quietly_broadcast[OF live1, of ?msg fd] by (auto simp: blank_def message_fine_def)
  have "quietly v v'" using quietly_sent[OF v'(2), of v] by simp
  with h v' live1 t same_clients_table[OF v'(3)] show ?thesis by (auto simp: same_clients_def)
qed

lemma close_handler:
  assumes "all_live v" "distinct (map c_fd (table v))"
  shows "\<exists>v'. handle_client_message fd RecvClosed v = Some v' \<and> quietly v v' \<and> all_live v' \<and>
    map c_fd (table v') = filter (\<lambda>f. f \<noteq> fd) (map c_fd (table v)) \<and> live v' \<subseteq> live v \<and>
    epoll v - {fd} \<subseteq> epoll v' \<and> epoll v' \<subseteq> epoll v \<and> (epoll v \<subseteq> live v \<longrightarrow> epoll v' \<subseteq> live v')"
proof (cases "drop_client fd v")
  case None
  then have "fd \<notin> set (map c_fd (table v))" using drop_client_None[of v fd] assms(1) by (simp add: all_live_def)
  then have "filter (\<lambda>f. f \<noteq> fd) (map c_fd (table v)) = map c_fd (table v)" by (intro filter_True) auto
  with None show ?thesis using assms(1) by (simp add: handle_client_message_def remove_client_def)
next
  case (Some ml)
  then obtain m v2 where d: "drop_client fd v = Some (m, v2)" by (cases ml) auto
  note D = drop_client_Some[OF _ d]
  have wf: "srv_wf v" using assms(1) by (simp add: all_live_def)
  have e: "epoll v2 = epoll v - {fd}" "type m = MSG_LEAVE"
    using d by (auto simp: drop_client_def blank_def Let_def split: option.splits)
  have fds: "map c_fd (remove_first (\<lambda>c. c_fd c = fd) cs) = filter (\<lambda>f. f \<noteq> fd) (map c_fd cs)"
    if "distinct (map c_fd cs)" for cs
    using that
  proof (induction cs)
    case (Cons c cs)
    then show ?case by (cases "c_fd c = fd") (auto intro!: sym[OF filter_True])
  qed simp
  then have t: "map c_fd (table v2) = filter (\<lambda>f. f \<noteq> fd) (map c_fd (table v))" using D(1)[OF wf] assms(2) by simp
  have live2: "all_live v2"
  proof -
    have "f \<in> live v2" if "f \<in> set (map c_fd (table v2))" for f
      using that t D(4)[OF wf] assms(1) by (auto simp: all_live_def)
    then show ?thesis using D(2)[OF wf] by (auto simp: all_live_def)
  qed
  obtain v' where v': "broadcast_message m (-1) v2 = Some v'" "quietly v2 v'" "same_clients v2 v'"
    using quietly_broadcast[OF live2, of m "-1"] e(2) by (auto simp: message_fine_def)
  have "quietly v v'" using quietly_sent[OF v'(2), of v] D(5)[OF wf] by simp
  moreover have "handle_client_message fd RecvClosed v = Some v'" using d v'(1) by (simp add: handle_client_message_def remove_client_def)
  moreover have "table v' = table v2" "all_live v'" "epoll v' = epoll v - {fd}" "live v' = live v - {fd}"
    using v'(3) live2 e(1) D(4)[OF wf] same_clients_table[OF v'(3)] by (simp_all add: same_clients_def)
  ultimately show ?thesis using t by auto
qed

lemma chat_handler:
  assumes "all_live v" "type m = MSG_CHAT"
  shows "handle_client_message fd (RecvMsg m) v =
    Some (v\<lparr>sent := sent v @ map (\<lambda>c. (c_fd c, m)) (filter (\<lambda>c. c_fd c \<noteq> fd) (table v))\<rparr>)"
  using assms by (simp add: handle_client_message_def broadcast_message_def broadcast_all_live)

section \<open>The state of the chat\<close>

definition queued :: "int \<Rightarrow> chat_system \<Rightarrow> recv_result list" where
  "queued fd s = inbuf (loop s) fd"

definition in_chat :: "int \<Rightarrow> chat_system \<Rightarrow> bool" where
  "in_chat fd s \<longleftrightarrow> fd \<in> set (map c_fd (table (srv (loop s))))"

definition joins :: "recv_result list \<Rightarrow> nat" where
  "joins q = length (filter (\<lambda>r. case r of RecvMsg m \<Rightarrow> type m = MSG_JOIN | _ \<Rightarrow> False) q)"

text \<open>What a client may send: its name is its own, and it never asks for the list of files.\<close>

definition own_message :: "string \<Rightarrow> Message \<Rightarrow> bool" where
  "own_message nick m \<longleftrightarrow> nickname m = nick \<and> message_fine m \<and>
     type m \<in> {MSG_JOIN, MSG_CHAT, MSG_FILE, MSG_FILE_DATA, MSG_FILE_END, MSG_FILE_GET}"

definition queue_fits :: "user \<Rightarrow> recv_result list \<Rightarrow> bool" where
  "queue_fits u q \<longleftrightarrow> joins q \<le> 1 \<and>
     (\<forall>r \<in> set q. (\<exists>m. r = RecvMsg m \<and> own_message (u_nick u) m) \<or> r = RecvClosed \<and> u_pc u = U_Gone)"

definition no_list :: "user \<Rightarrow> bool" where
  "no_list u \<longleftrightarrow> MSG_FILE_LIST \<notin> type ` set (to_send u)"

definition rx_fine :: "rx \<Rightarrow> bool" where
  "rx_fine x \<longleftrightarrow> (\<forall>f. rx_file x = Some f \<longrightarrow> disk x f \<noteq> None)"

text \<open>What a client prints for a message; its screen shows, in order, the messages it has received.\<close>

definition printed :: "string \<Rightarrow> Message \<Rightarrow> string" where
  "printed nick m =
     (case type m of
        MSG_JOIN \<Rightarrow> cstr (msg_data m) @ [NL]
      | MSG_LEAVE \<Rightarrow> cstr (msg_data m) @ [NL]
      | MSG_CHAT \<Rightarrow> if nickname m \<noteq> nick then ''['' @ nickname m @ '']: '' @ cstr (msg_data m) @ [NL] else []
      | MSG_FILE \<Rightarrow> [] | MSG_FILE_DATA \<Rightarrow> [] | MSG_FILE_END \<Rightarrow> []
      | MSG_FILE_INFO \<Rightarrow> [NL] @ cstr (msg_data m) @ [NL]
      | t \<Rightarrow> ''Unknown message type: '' @ show_int (type_code t) @ [NL])"

definition sent_to :: "user \<Rightarrow> chat_system \<Rightarrow> Message list" where
  "sent_to u s = msgs_to (u_fd u) (sent (srv (loop s)))"

definition screen_ok :: "user \<Rightarrow> chat_system \<Rightarrow> bool" where
  "screen_ok u s \<longleftrightarrow> u_taken u \<le> length (sent_to u s) \<and>
     (\<exists>start fin. u_out u = start @ map (printed (u_nick u)) (take (u_taken u) (sent_to u s)) @ fin \<and>
        (u_pc u \<noteq> U_Gone \<longrightarrow> fin = []))"

definition user_ok :: "user \<Rightarrow> chat_system \<Rightarrow> bool" where
  "user_ok u s \<longleftrightarrow> length (u_nick u) < MAX_NICKNAME \<and> no_list u \<and> rx_fine (u_rx u) \<and> queue_fits u (queued (u_fd u) s) \<and>
     (0 < joins (queued (u_fd u) s) \<longrightarrow> \<not> in_chat (u_fd u) s) \<and>
     (u_pc u = U_Off \<longrightarrow> queued (u_fd u) s = [] \<and> \<not> in_chat (u_fd u) s \<and> u_fd u \<notin> set (backlog s) \<and>
        u_fd u \<notin> epoll (srv (loop s))) \<and>
     (u_pc u = U_On \<and> up s \<longrightarrow> \<not> hung_up (u_fd u) s) \<and> screen_ok u s"

text \<open>The server's side.\<close>

definition server_ok :: "int set \<Rightarrow> chat_system \<Rightarrow> bool" where
  "server_ok fds s \<longleftrightarrow>
     (let v = srv (loop s) in
      srv_wf v \<and> distinct (map c_fd (table v)) \<and> set (map c_fd (table v)) \<subseteq> fds \<and>
      (up s \<longrightarrow> all_live v) \<and> (\<not> up s \<longrightarrow> epoll v = {} \<and> backlog s = []) \<and> epoll v \<subseteq> live v \<and> (\<forall>x \<in> set (sent v). message_fine (snd x)) \<and>
      (\<forall>fd. fd \<notin> fds \<longrightarrow> queued fd s = []) \<and>
      distinct (ready (loop s)) \<and> (\<forall>fd \<in> set (ready (loop s)). queued fd s \<noteq> []) \<and>
      distinct (backlog s) \<and> set (backlog s) \<inter> set (ready (loop s)) = {} \<and> set (backlog s) \<inter> epoll v = {})"

definition chat_ok :: "chat_system \<Rightarrow> bool" where
  "chat_ok s \<longleftrightarrow> distinct (map u_fd (users s)) \<and> length (users s) \<le> MAX_CLIENTS \<and>
     server_ok (u_fd ` set (users s)) s \<and> (\<forall>u \<in> set (users s). user_ok u s)"

section \<open>The flow of lines from one client to another\<close>

definition chats :: "string \<Rightarrow> Message list \<Rightarrow> string list" where
  "chats nick ms = map msg_data (filter (\<lambda>m. type m = MSG_CHAT \<and> nickname m = nick) ms)"

definition messages_in :: "recv_result list \<Rightarrow> Message list" where
  "messages_in q = concat (map (\<lambda>r. case r of RecvMsg m \<Rightarrow> [m] | _ \<Rightarrow> []) q)"

text \<open>The lines of the \<open>i\<close>-th client the server has sent to the \<open>j\<close>-th.\<close>

definition passed_on :: "nat \<Rightarrow> nat \<Rightarrow> chat_system \<Rightarrow> string list" where
  "passed_on i j s = chats (u_nick (users s ! i)) (msgs_to (u_fd (users s ! j)) (sent (srv (loop s))))"

definition chat_waiting :: "nat \<Rightarrow> chat_system \<Rightarrow> string list" where
  "chat_waiting i s = chats (u_nick (users s ! i)) (messages_in (queued (u_fd (users s ! i)) s))"

definition chat_to_come :: "nat \<Rightarrow> chat_system \<Rightarrow> string list" where
  "chat_to_come i s = chats (u_nick (users s ! i)) (to_send (users s ! i))"

definition before_joining :: "user \<Rightarrow> chat_system \<Rightarrow> bool" where
  "before_joining u s \<longleftrightarrow> u_pc u = U_Off \<or> 0 < joins (queued (u_fd u) s)"

definition chat_flow :: "string list \<Rightarrow> nat \<Rightarrow> nat \<Rightarrow> chat_system \<Rightarrow> bool" where
  "chat_flow lines i j s \<longleftrightarrow> i < length (users s) \<and> j < length (users s) \<and> i \<noteq> j \<and>
     (\<forall>k < length (users s). k \<noteq> i \<longrightarrow> u_nick (users s ! k) \<noteq> u_nick (users s ! i)) \<and>
     (\<exists>missed skipped lost. lines = missed @ passed_on i j s @ skipped @ chat_waiting i s @ lost @ chat_to_come i s \<and>
        (in_chat (u_fd (users s ! j)) s \<longrightarrow> skipped = []) \<and> (up s \<longrightarrow> lost = [])) \<and>
     (before_joining (users s ! j) s \<longrightarrow> passed_on i j s = [])"

lemma chats_append [simp]: "chats nick (xs @ ys) = chats nick xs @ chats nick ys" "chats nick [] = []"
  by (simp_all add: chats_def)

lemma messages_in_simps [simp]:
  "messages_in [] = []" "messages_in (RecvMsg m # q) = m # messages_in q" "messages_in (RecvClosed # q) = messages_in q"
  "messages_in (p @ q) = messages_in p @ messages_in q"
  by (simp_all add: messages_in_def)

lemma joins_simps [simp]:
  "joins [] = 0" "joins (RecvMsg m # q) = (if type m = MSG_JOIN then Suc (joins q) else joins q)"
  "joins (RecvClosed # q) = joins q" "joins (p @ q) = joins p + joins q"
  by (simp_all add: joins_def)

lemma msgs_to_append [simp]: "msgs_to fd (xs @ ys) = msgs_to fd xs @ msgs_to fd ys" "msgs_to fd [] = []"
  by (simp_all add: msgs_to_def)

lemma chats_none: "\<forall>m \<in> set ms. type m \<noteq> MSG_CHAT \<or> nickname m \<noteq> nick \<Longrightarrow> chats nick ms = []"
  by (auto simp: chats_def filter_empty_conv)

lemma no_chats_to: "no_chats xs \<Longrightarrow> chats nick (msgs_to fd xs) = []"
  by (intro chats_none) (auto simp: no_chats_def msgs_to_def)

section \<open>Steps of the clients\<close>

text \<open>What a step at one connection must leave alone of the others.\<close>

definition elsewhere_same :: "int \<Rightarrow> chat_system \<Rightarrow> chat_system \<Rightarrow> bool" where
  "elsewhere_same fd s s' \<longleftrightarrow> up s' = up s \<and> (\<exists>xs. sent (srv (loop s')) = sent (srv (loop s)) @ xs) \<and>
     (\<forall>f. f \<noteq> fd \<longrightarrow> queued f s' = queued f s \<and> in_chat f s' = in_chat f s \<and>
        (f \<in> set (backlog s') \<longleftrightarrow> f \<in> set (backlog s)) \<and> (f \<in> epoll (srv (loop s')) \<longleftrightarrow> f \<in> epoll (srv (loop s))))"

lemma screen_ok_more:
  "screen_ok u s \<Longrightarrow> sent (srv (loop s')) = sent (srv (loop s)) @ xs \<Longrightarrow> screen_ok u s'"
  by (simp add: screen_ok_def sent_to_def)

text \<open>A client that ends may print one thing more.\<close>

lemma screen_ok_gone:
  assumes "screen_ok u s" "u_pc u = U_On"
  shows "screen_ok (u\<lparr>u_pc := U_Gone, u_out := u_out u @ fin\<rparr>) s" "screen_ok (u\<lparr>u_pc := U_Gone\<rparr>) s"
proof -
  obtain start where o: "u_taken u \<le> length (sent_to u s)"
      "u_out u = start @ map (printed (u_nick u)) (take (u_taken u) (sent_to u s))"
    using assms by (auto simp: screen_ok_def)
  have same: "sent_to (u\<lparr>u_pc := U_Gone, u_out := x\<rparr>) s = sent_to u s" "sent_to (u\<lparr>u_pc := U_Gone\<rparr>) s = sent_to u s" for x
    by (simp_all add: sent_to_def)
  show "screen_ok (u\<lparr>u_pc := U_Gone, u_out := u_out u @ fin\<rparr>) s" unfolding screen_ok_def same
    using o by (intro conjI exI[of _ start] exI[of _ fin]) simp_all
  show "screen_ok (u\<lparr>u_pc := U_Gone\<rparr>) s" unfolding screen_ok_def same
    using o by (intro conjI exI[of _ start] exI[of _ "[]"]) simp_all
qed

lemma user_ok_elsewhere: "user_ok x s \<Longrightarrow> u_fd x \<noteq> fd \<Longrightarrow> elsewhere_same fd s s' \<Longrightarrow> user_ok x s'"
  by (auto simp: user_ok_def elsewhere_same_def hung_up_def intro: screen_ok_more)

lemma chat_ok_update:
  assumes "chat_ok s" "k < length (users s)" "users s' = (users s)[k := u']" "u_fd u' = u_fd (users s ! k)"
    and "server_ok (u_fd ` set (users s)) s'" "user_ok u' s'" "elsewhere_same (u_fd u') s s'"
  shows "chat_ok s'"
proof -
  have fds: "map u_fd (users s') = map u_fd (users s)"
    using assms(2-4) by (simp add: map_update list_eq_iff_nth_eq nth_list_update)
  then have set: "u_fd ` set (users s') = u_fd ` set (users s)" by (metis set_map)
  have "user_ok x s'" if x: "x \<in> set (users s')" for x
  proof -
    obtain l where l: "l < length (users s)" "x = (users s)[k := u'] ! l"
      using x by (auto simp: assms(3) in_set_conv_nth)
    show ?thesis
    proof (cases "l = k")
      case False
      then have "x = users s ! l" "u_fd x \<noteq> u_fd u'"
        using l assms(1,2,4) by (auto simp: chat_ok_def distinct_conv_nth)
      then show ?thesis using user_ok_elsewhere[of x s "u_fd u'" s'] assms(1,7) l by (auto simp: chat_ok_def)
    qed (use l assms(2,6) in simp)
  qed
  moreover have "length (users s') = length (users s)" using assms(3) by simp
  ultimately show ?thesis using assms(1,5) fds set by (simp add: chat_ok_def)
qed

text \<open>What is put into the server's buffer of a connection.\<close>

definition posted :: "int \<Rightarrow> recv_result list \<Rightarrow> chat_system \<Rightarrow> chat_system" where
  "posted fd rs s =
     (if hung_up fd s \<or> rs = [] then s
      else s\<lparr>loop := (loop s)\<lparr>inbuf := (inbuf (loop s))(fd := inbuf (loop s) fd @ rs),
             ready := (if fd \<in> epoll (srv (loop s)) \<and> fd \<notin> set (ready (loop s)) then ready (loop s) @ [fd] else ready (loop s))\<rparr>\<rparr>)"

lemma post_posted: "post fd r s = posted fd [r] s"
  by (simp add: post_def posted_def arrive_def)

lemma posted_posted: "posted fd qs (posted fd rs s) = posted fd (rs @ qs) s"
  by (simp add: posted_def hung_up_def)

lemma post_all_posted: "post_all fd ms s = posted fd (map RecvMsg ms) s"
proof (induction ms arbitrary: s)
  case Nil
  then show ?case by (simp add: post_all_def posted_def)
next
  case (Cons m ms)
  then show ?case by (simp add: post_all_def post_posted posted_posted)
qed

lemma posted_simps [simp]:
  "users (posted fd rs s) = users s" "backlog (posted fd rs s) = backlog s" "up (posted fd rs s) = up s"
  "srv (loop (posted fd rs s)) = srv (loop s)" "in_chat f (posted fd rs s) = in_chat f s"
  "queued f (posted fd rs s) = (if f = fd \<and> \<not> hung_up fd s then queued f s @ rs else queued f s)"
  by (simp_all add: posted_def queued_def in_chat_def)

lemma set_user_simps [simp]:
  "users (set_user k u s) = (users s)[k := u]" "backlog (set_user k u s) = backlog s" "up (set_user k u s) = up s"
  "loop (set_user k u s) = loop s" "in_chat f (set_user k u s) = in_chat f s" "queued f (set_user k u s) = queued f s"
  by (simp_all add: set_user_def queued_def in_chat_def)

lemma hung_up_set_user [simp]: "hung_up fd (set_user k u s) = hung_up fd s"
  by (simp add: hung_up_def)

lemma posted_ready:
  "distinct (ready (loop s)) \<Longrightarrow> distinct (ready (loop (posted fd rs s)))"
  "set (ready (loop (posted fd rs s))) \<subseteq> insert fd (set (ready (loop s)))"
  "fd \<in> set (ready (loop (posted fd rs s))) \<Longrightarrow> fd \<in> set (ready (loop s)) \<or> fd \<in> epoll (srv (loop s)) \<and> rs \<noteq> [] \<and> \<not> hung_up fd s"
  by (auto simp: posted_def split: if_splits)

lemma server_ok_posted:
  assumes "server_ok fds s" "fd \<in> fds"
  shows "server_ok fds (posted fd rs (set_user k u s))"
proof -
  let ?s = "set_user k u s"
  have "queued f (posted fd rs ?s) \<noteq> []" if "f \<in> set (ready (loop (posted fd rs ?s)))" for f
    using that posted_ready(2,3)[of fd rs ?s] assms(1) by (cases "f = fd") (auto simp: server_ok_def Let_def)
  moreover have "set (backlog s) \<inter> set (ready (loop (posted fd rs ?s))) = {}"
    using posted_ready(2,3)[of fd rs ?s] assms(1) by (fastforce simp: server_ok_def Let_def)
  ultimately show ?thesis using assms posted_ready(1)[of ?s fd rs] by (auto simp: server_ok_def Let_def)
qed

lemma client_step_ok:
  assumes "chat_ok s" "k < length (users s)" "u_fd u' = u_fd (users s ! k)" "u_nick u' = u_nick (users s ! k)"
    and "screen_ok u' s" "no_list u'" "rx_fine (u_rx u')" "u_pc (users s ! k) = U_On" "u_pc u' \<noteq> U_Off"
    and "joins rs = 0" "\<And>r. r \<in> set rs \<Longrightarrow> (\<exists>m. r = RecvMsg m \<and> own_message (u_nick u') m) \<or> r = RecvClosed \<and> u_pc u' = U_Gone"
  shows "chat_ok (posted (u_fd u') rs (set_user k u' s))"
proof (rule chat_ok_update[OF assms(1,2)])
  have u: "user_ok (users s ! k) s" using assms(1,2) by (simp add: chat_ok_def)
  show "server_ok (u_fd ` set (users s)) (posted (u_fd u') rs (set_user k u' s))"
    using assms(1,2,3) by (intro server_ok_posted) (auto simp: chat_ok_def)
  have "queue_fits u' (queued (u_fd u') s @ rs)" "queue_fits u' (queued (u_fd u') s)"
    using u assms(3,4,8,10,11) by (auto simp: user_ok_def queue_fits_def)
  then show "user_ok u' (posted (u_fd u') rs (set_user k u' s))"
    using u assms(3-10) by (auto simp: user_ok_def hung_up_def screen_ok_def sent_to_def)
qed (use assms in \<open>auto simp: elsewhere_same_def\<close>)

text \<open>The flow after such a step: what was still to be sent is now waiting, or lost with the server gone.\<close>

lemma client_step_flow:
  assumes "chat_flow lines i j s" "k < length (users s)" "users s' = (users s)[k := u']"
    and "u_fd u' = u_fd (users s ! k)" "u_nick u' = u_nick (users s ! k)"
    and "sent (srv (loop s')) = sent (srv (loop s))" "\<And>f. in_chat f s' = in_chat f s" "up s' = up s"
    and "to_send (users s ! k) = ms @ to_send u'" "\<And>f. f \<noteq> u_fd u' \<Longrightarrow> queued f s' = queued f s"
    and "queued (u_fd u') s' = (if up s then queued (u_fd u') s @ rs else queued (u_fd u') s)"
      "up s \<Longrightarrow> chats (u_nick u') (messages_in rs) = chats (u_nick u') ms"
    and "before_joining u' s' \<Longrightarrow> before_joining (users s ! k) s" "distinct (map u_fd (users s))"
  shows "chat_flow lines i j s'"
proof -
  have nth: "u_fd (users s' ! l) = u_fd (users s ! l)" "u_nick (users s' ! l) = u_nick (users s ! l)" for l
    using assms(2-5) by (cases "l = k"; simp)+
  have other: "l \<noteq> k \<Longrightarrow> l < length (users s) \<Longrightarrow> u_fd (users s ! l) \<noteq> u_fd u'" for l
    using assms(2,4,14) by (auto simp: distinct_conv_nth)
  have passed: "passed_on i j s' = passed_on i j s" using nth assms(6) by (simp add: passed_on_def)
  have ij: "i < length (users s)" "j < length (users s)" using assms(1) by (auto simp: chat_flow_def)
  obtain missed skipped lost where f:
      "lines = missed @ passed_on i j s @ skipped @ chat_waiting i s @ lost @ chat_to_come i s"
      "in_chat (u_fd (users s ! j)) s \<longrightarrow> skipped = []" "up s \<longrightarrow> lost = []"
    using assms(1) by (auto simp: chat_flow_def)
  have "\<exists>lost'. chat_waiting i s @ lost @ chat_to_come i s = chat_waiting i s' @ lost' @ chat_to_come i s' \<and> (up s \<longrightarrow> lost' = [])"
  proof (cases "i = k")
    case False
    then have "chat_waiting i s' = chat_waiting i s" "chat_to_come i s' = chat_to_come i s"
      using nth other ij assms(3,10) by (simp_all add: chat_waiting_def chat_to_come_def)
    then show ?thesis using f(3) by auto
  next
    case True
    then have come: "chat_to_come i s = chats (u_nick u') ms @ chat_to_come i s'"
      using assms(2,3,5,9) by (simp add: chat_to_come_def)
    show ?thesis
    proof (cases "up s")
      case True
      then have "chat_waiting i s' = chat_waiting i s @ chats (u_nick u') ms"
        using assms(2-5,11,12) \<open>i = k\<close> by (simp add: chat_waiting_def)
      then show ?thesis using come f(3) True by auto
    next
      case False
      then have "chat_waiting i s' = chat_waiting i s" using assms(2-5,11) \<open>i = k\<close> by (simp add: chat_waiting_def)
      then show ?thesis using come False by (intro exI[of _ "lost @ chats (u_nick u') ms"]) simp
    qed
  qed
  then obtain lost' where "lines = missed @ passed_on i j s' @ skipped @ chat_waiting i s' @ lost' @ chat_to_come i s'" "up s \<longrightarrow> lost' = []"
    using f(1) passed by auto
  moreover have "passed_on i j s' = []" if b: "before_joining (users s' ! j) s'"
  proof -
    have "before_joining (users s ! j) s"
    proof (cases "j = k")
      case False
      then show ?thesis using b nth other[OF False ij(2)] assms(3,10) by (simp add: before_joining_def)
    qed (use b assms(2,3,13) in simp)
    then show ?thesis using assms(1) passed by (simp add: chat_flow_def)
  qed
  ultimately show ?thesis using assms(1,3,7,8) f(2) nth by (auto simp: chat_flow_def)
qed

definition chat_good :: "string list \<Rightarrow> nat \<Rightarrow> nat \<Rightarrow> chat_system \<Rightarrow> bool" where
  "chat_good lines i j s \<longleftrightarrow> chat_ok s \<and> chat_flow lines i j s"

lemma chat_ok_user: "chat_ok s \<Longrightarrow> k < length (users s) \<Longrightarrow> user_ok (users s ! k) s"
  by (simp add: chat_ok_def)

lemma chat_ok_up: "chat_ok s \<Longrightarrow> \<not> up s \<Longrightarrow> hung_up fd s"
  by (simp add: chat_ok_def server_ok_def hung_up_def Let_def)

text \<open>A step of a connected client: what it sends, and its state after it.\<close>

lemma client_step_good:
  assumes "chat_good lines i j s" "k < length (users s)" "u_fd u' = u_fd (users s ! k)" "u_nick u' = u_nick (users s ! k)"
    and "screen_ok u' s" "rx_fine (u_rx u')" "u_pc (users s ! k) = U_On" "u_pc u' \<noteq> U_Off" "to_send (users s ! k) = ms @ to_send u'"
    and "rs = map RecvMsg ms \<or> rs = [RecvClosed] \<and> ms = [] \<and> u_pc u' = U_Gone"
    and "\<And>m. m \<in> set ms \<Longrightarrow> own_message (u_nick u') m \<and> type m \<noteq> MSG_JOIN"
  shows "chat_good lines i j (posted (u_fd u') rs (set_user k u' s))"
proof -
  have ok: "chat_ok s" and flow: "chat_flow lines i j s" using assms(1) by (simp_all add: chat_good_def)
  have u: "user_ok (users s ! k) s" using ok assms(2) by (rule chat_ok_user)
  have rs: "joins rs = 0" "messages_in rs = ms"
  proof -
    have "joins (map RecvMsg ms) = 0" "messages_in (map RecvMsg ms) = ms" using assms(11) by (induction ms) auto
    then show "joins rs = 0" "messages_in rs = ms" using assms(10) by auto
  qed
  let ?s = "posted (u_fd u') rs (set_user k u' s)"
  have hung: "hung_up (u_fd u') s \<longleftrightarrow> \<not> up s" using u assms(3,7) chat_ok_up[OF ok] by (auto simp: user_ok_def)
  have "no_list u'" using u assms(9) by (auto simp: user_ok_def no_list_def)
  then have "chat_ok ?s" using assms(5-8,10,11) rs(1) by (intro client_step_ok ok assms(2-4)) auto
  moreover have "chat_flow lines i j ?s"
  proof (rule client_step_flow[OF flow assms(2) _ assms(3,4) _ _ _ assms(9)])
    show "before_joining (users s ! k) s" if "before_joining u' ?s"
      using that rs(1) assms(3,8) by (auto simp: before_joining_def split: if_splits)
    show "distinct (map u_fd (users s))" using ok by (simp add: chat_ok_def)
  qed (use rs(2) hung in auto)
  ultimately show ?thesis by (simp add: chat_good_def)
qed

lemma typed_own_messages:
  assumes "user_types u = (ms, u')" "no_list u" "length (u_nick u) < MAX_NICKNAME" "m \<in> set ms"
  shows "own_message (u_nick u) m" "type m \<noteq> MSG_JOIN"
proof -
  obtain buf rest where "handle_user_input (u_nick u) (u_files u) buf = (ms, rest)"
    using assms(1) by (auto simp: user_types_def split: prod.splits)
  then have "m \<in> set (fst (handle_user_input (u_nick u) (u_files u) buf))" using assms(4) by simp
  note k = typed_message_kinds[OF this]
  have "safe_strcpy (u_nick u) MAX_NICKNAME = u_nick u" using assms(3) by (simp add: safe_strcpy_def strncpy_term_def)
  moreover have "type m \<noteq> MSG_FILE_LIST"
    using user_types_spec(1)[OF assms(1)] assms(2,4) by (force simp: no_list_def)
  ultimately show "own_message (u_nick u) m" "type m \<noteq> MSG_JOIN" using k by (auto simp: own_message_def)
qed

lemma types_good:
  assumes "chat_good lines i j s" "k < length (users s)" "u_pc (users s ! k) = U_On" "user_types (users s ! k) = (ms, u')"
  shows "chat_good lines i j (post_all (u_fd (users s ! k)) ms (set_user k u' s))"
proof -
  have u: "user_ok (users s ! k) s" using assms(1,2) by (simp add: chat_good_def chat_ok_user)
  note t = user_types_spec[OF assms(4)]
  have "own_message (u_nick u') m \<and> type m \<noteq> MSG_JOIN" if "m \<in> set ms" for m
    using typed_own_messages[OF assms(4) _ _ that] u t(3) by (simp add: user_ok_def)
  then have "chat_good lines i j (posted (u_fd u') (map RecvMsg ms) (set_user k u' s))"
    using t u assms(3) by (intro client_step_good[OF assms(1,2)]) (simp_all add: user_ok_def screen_ok_def sent_to_def)
  then show ?thesis using t(4) by (simp add: post_all_posted)
qed

lemma rx_open_fine: "rx_fine (rx_open ok f n x)"
  by (simp add: rx_open_def rx_fine_def Let_def)

lemma rx_write_fine:
  assumes "rx_fine x" "0 \<le> data_len m" "data_len m \<le> int BUFFER_SIZE"
  obtains x' where "rx_write m x = Some x'" "rx_fine x'"
proof (cases "rx_file x")
  case (Some f)
  then obtain old b where "disk x f = Some old" "data_bytes m = Some b"
    using assms by (auto simp: rx_fine_def data_bytes_def)
  with Some that show ?thesis by (auto simp: rx_write_def rx_fine_def)
qed (use that assms(1) in \<open>simp add: rx_write_def\<close>)

lemma receive_file_fine:
  assumes "rx_fine x" "message_fine m"
  shows "\<exists>x'. receive_file ok m x = Some x' \<and> rx_fine x'"
proof -
  consider "type m = MSG_FILE" | "type m = MSG_FILE_DATA" | "type m = MSG_FILE_END"
    | "type m \<notin> {MSG_FILE, MSG_FILE_DATA, MSG_FILE_END}" by blast
  then show ?thesis
  proof cases
    case 1
    then have "0 \<le> data_len m" "data_len m \<le> int BUFFER_SIZE" using assms(2) by (simp_all add: message_fine_def)
    then obtain x' where "rx_write m (rx_open ok (filename m) (total_size m) x) = Some x'" "rx_fine x'"
      using rx_write_fine[OF rx_open_fine] by blast
    with 1 rx_open_fine show ?thesis by (simp add: receive_file_def Let_def)
  next
    case 2
    then have len: "0 \<le> data_len m" "data_len m \<le> int BUFFER_SIZE" using assms(2) by (simp_all add: message_fine_def)
    define x1 where "x1 = (if rx_file x = None then rx_open ok (filename m) (total_size m) x else x)"
    define x2 where "x2 = (if strcmp (current_file x1) (filename m) \<noteq> 0 then rx_open ok (filename m) (total_size m) x1 else x1)"
    have f: "rx_fine x1" "rx_fine x2" using assms(1) by (simp_all add: x1_def x2_def rx_open_fine)
    obtain x3 where "rx_write m x2 = Some x3" "rx_fine x3" using rx_write_fine[OF f(2) len] by blast
    moreover have "receive_file ok m x = (if rx_file x1 = None then Some x1 else do {
        x3 \<leftarrow> rx_write m x2;
        Some (if rx_file x3 \<noteq> None \<and> rx_total x3 \<le> rx_bytes x3 then x3\<lparr>rx_file := None\<rparr> else x3)})"
      using 2 by (simp add: receive_file_def x1_def x2_def Let_def)
    ultimately show ?thesis using f(1) by (auto simp: rx_fine_def)
  next
    case 3
    then show ?thesis by (simp add: receive_file_def rx_fine_def)
  next
    case 4
    then show ?thesis using assms(1) by (cases "type m") (auto simp: receive_file_def)
  qed
qed

lemma handle_server_message_fine:
  assumes "rx_fine x" "message_fine m"
  obtains x' where "handle_server_message ok nick m x = Some (printed nick m, x')" "rx_fine x'"
proof -
  obtain x' where "receive_file ok m x = Some x'" "rx_fine x'" using receive_file_fine[OF assms] by blast
  with assms(1) that show ?thesis by (cases "type m") (auto simp: handle_server_message_def printed_def)
qed

lemma reads_good:
  assumes "chat_good lines i j s" "k < length (users s)" "u_pc (users s ! k) = U_On"
  shows "\<exists>s'. user_reads k s = Some s' \<and> chat_good lines i j s'"
proof -
  let ?u = "users s ! k"
  have ok: "chat_ok s" and u: "user_ok ?u s" using assms(1,2) by (simp_all add: chat_good_def chat_ok_user)
  have go: "chat_good lines i j (set_user k u' s)"
    if "u_fd u' = u_fd ?u" "u_nick u' = u_nick ?u" "screen_ok u' s" "rx_fine (u_rx u')" "u_pc u' \<noteq> U_Off"
      "to_send u' = to_send ?u" for u'
    using client_step_good[OF assms(1,2) that(1-4) assms(3) that(5), of "[]" "[]"] that(6) by (simp add: posted_def)
  have screen: "u_taken ?u \<le> length (sent_to ?u s)"
      "\<exists>start. u_out ?u = start @ map (printed (u_nick ?u)) (take (u_taken ?u) (sent_to ?u s))"
    using u assms(3) by (auto simp: user_ok_def screen_ok_def)
  have unread: "unread ?u s = drop (u_taken ?u) (sent_to ?u s)" by (simp add: unread_def sent_to_def)
  show ?thesis
  proof (cases "unread ?u s")
    case Nil
    let ?v = "?u\<lparr>u_pc := U_Gone, u_out := u_out ?u @ [''Server disconnected'' @ [NL]]\<rparr>"
    have "screen_ok ?v s" using u assms(3) by (intro screen_ok_gone) (simp_all add: user_ok_def)
    then have "chat_good lines i j (set_user k ?v s)" using u by (intro go) (simp_all add: to_send_def typed_def user_ok_def)
    with Nil show ?thesis by (simp add: user_reads_def Let_def)
  next
    case (Cons m ms)
    then have m: "u_taken ?u < length (sent_to ?u s)" "sent_to ?u s ! u_taken ?u = m"
      using unread nth_via_drop[of "u_taken ?u" "sent_to ?u s" m ms] by (metis drop_all not_le list.distinct(1), simp)
    then have "m \<in> set (sent_to ?u s)" by (metis nth_mem)
    then have "message_fine m" using ok by (auto simp: sent_to_def msgs_to_def chat_ok_def server_ok_def Let_def)
    then obtain x where x: "handle_server_message (u_can ?u) (u_nick ?u) m (u_rx ?u) = Some (printed (u_nick ?u) m, x)" "rx_fine x"
      using handle_server_message_fine u by (metis user_ok_def)
    let ?v = "?u\<lparr>u_taken := Suc (u_taken ?u), u_rx := x, u_out := u_out ?u @ [printed (u_nick ?u) m]\<rparr>"
    have "take (Suc (u_taken ?u)) (sent_to ?u s) = take (u_taken ?u) (sent_to ?u s) @ [m]"
      using m by (simp add: take_Suc_conv_app_nth)
    moreover obtain start where "u_out ?u = start @ map (printed (u_nick ?u)) (take (u_taken ?u) (sent_to ?u s))"
      using screen(2) by blast
    moreover have "sent_to ?v s = sent_to ?u s" by (simp add: sent_to_def)
    ultimately have "screen_ok ?v s" unfolding screen_ok_def
      using m(1) by (intro conjI exI[of _ start] exI[of _ "[]"]) simp_all
    then have "chat_good lines i j (set_user k ?v s)" using x(2) assms(3) by (intro go) (simp_all add: to_send_def typed_def)
    with x(1) Cons show ?thesis by (simp add: user_reads_def Let_def)
  qed
qed

lemma post_all_users [simp]: "users (post_all fd ms s) = users s"
  by (simp add: post_all_posted)

lemma selects_good:
  assumes "chat_good lines i j s" "k < length (users s)" "u_pc (users s ! k) = U_On"
  shows "user_selects k ty s = Blocked \<or> (\<exists>s'. user_selects k ty s = Stepped s' \<and> chat_good lines i j s')"
proof -
  obtain ms u' where mu: "(if ty then user_types (users s ! k) else ([], users s ! k)) = (ms, u')" by fastforce
  let ?s = "post_all (u_fd (users s ! k)) ms (set_user k u' s)"
  have pc: "u_pc u' = U_On" using mu assms(3) user_types_spec(5)[of "users s ! k" ms u'] by (auto split: if_splits)
  have good: "chat_good lines i j ?s"
  proof (cases ty)
    case True
    with mu types_good[OF assms] show ?thesis by simp
  next
    case False
    then have "?s = s" using mu by (auto simp: post_all_def set_user_def)
    with assms(1) show ?thesis by simp
  qed
  have "\<exists>s'. user_reads k ?s = Some s' \<and> chat_good lines i j s'" using assms(2) pc by (intro reads_good good) simp_all
  with good mu show ?thesis by (auto simp: user_selects_def Let_def)
qed

lemma leaves_good:
  assumes "chat_good lines i j s" "k < length (users s)" "u_pc (users s ! k) = U_On"
  shows "chat_good lines i j (post (u_fd (users s ! k)) RecvClosed (set_user k ((users s ! k)\<lparr>u_pc := U_Gone\<rparr>) s))"
proof -
  have "user_ok (users s ! k) s" using assms(1,2) by (simp add: chat_good_def chat_ok_user)
  then show ?thesis
    using screen_ok_gone(2)[of "users s ! k" s] client_step_good[OF assms(1,2), of "(users s ! k)\<lparr>u_pc := U_Gone\<rparr>" "[]" "[RecvClosed]"] assms(3)
    by (simp add: post_posted to_send_def typed_def user_ok_def)
qed

text \<open>A client that joins starts with an empty buffer at the server.\<close>

lemma join_message_simps [simp]: "type (join_message n) = MSG_JOIN" "length n < MAX_NICKNAME \<Longrightarrow> nickname (join_message n) = n"
  by (simp_all add: join_message_def blank_def safe_strcpy_def strncpy_term_def)

lemma joins_good:
  assumes "chat_good lines i j s" "k < length (users s)" "u_pc (users s ! k) = U_Off"
  shows "chat_good lines i j (user_joins k s)"
proof -
  let ?u = "users s ! k"
  have ok: "chat_ok s" and flow: "chat_flow lines i j s" and u: "user_ok ?u s"
    using assms(1,2) by (simp_all add: chat_good_def chat_ok_user)
  have d: "distinct (map u_fd (users s))" and srv: "server_ok (u_fd ` set (users s)) s" using ok by (simp_all add: chat_ok_def)
  have fd: "u_fd ?u \<in> u_fd ` set (users s)" using assms(2) by simp
  have off: "queued (u_fd ?u) s = []" "\<not> in_chat (u_fd ?u) s" "u_fd ?u \<notin> set (backlog s)" "u_fd ?u \<notin> epoll (srv (loop s))"
    using u assms(3) by (simp_all add: user_ok_def)
  have nready: "u_fd ?u \<notin> set (ready (loop s))" using off(1) srv by (auto simp: server_ok_def Let_def)
  show ?thesis
  proof (cases "up s")
    case True
    define m where "m = join_message (u_nick ?u)"
    define u' where "u' = ?u\<lparr>u_pc := U_On, u_sent := u_sent ?u @ [m]\<rparr>"
    define s' where "s' = posted (u_fd ?u) [RecvMsg m] (set_user k u' (s\<lparr>backlog := backlog s @ [u_fd ?u], listen_ready := True\<rparr>))"
    have j: "user_joins k s = s'" using True by (simp add: user_joins_def s'_def u'_def m_def post_posted Let_def)
    have hung: "\<not> hung_up (u_fd ?u) (s\<lparr>backlog := backlog s @ [u_fd ?u], listen_ready := True\<rparr>)" by (simp add: hung_up_def)
    have s': "users s' = (users s)[k := u']" "backlog s' = backlog s @ [u_fd ?u]" "up s' = up s" "srv (loop s') = srv (loop s)"
        "ready (loop s') = ready (loop s)" "queued f s' = (if f = u_fd ?u then [RecvMsg m] else queued f s)"
        "in_chat f s' = in_chat f s" for f
      using off(1,4) hung by (simp_all add: s'_def queued_def in_chat_def posted_def)
    have u': "u_fd u' = u_fd ?u" "u_nick u' = u_nick ?u" "to_send u' = to_send ?u" "u_pc u' = U_On" "u_rx u' = u_rx ?u"
      by (simp_all add: u'_def to_send_def typed_def)
    have "chat_ok s'"
    proof (rule chat_ok_update[OF ok assms(2) s'(1) u'(1)])
      show "server_ok (u_fd ` set (users s)) s'" using srv fd off(3,4) nready True by (auto simp: server_ok_def Let_def s')
      have "screen_ok u' s'" using u s'(4) assms(3) by (simp add: user_ok_def screen_ok_def sent_to_def u'_def)
      then show "user_ok u' s'"
        using u off u' s' by (simp add: user_ok_def queue_fits_def own_message_def m_def message_fine_def no_list_def hung_up_def)
      show "elsewhere_same (u_fd u') s s'" using s' u'(1) by (auto simp: elsewhere_same_def)
    qed
    moreover have "chat_flow lines i j s'"
    proof (rule client_step_flow[OF flow assms(2) s'(1) u'(1,2), of "[]" "[RecvMsg m]"])
      show "before_joining ?u s" using assms(3) by (simp add: before_joining_def)
      show "chats (u_nick u') (messages_in [RecvMsg m]) = chats (u_nick u') []" by (simp add: chats_def m_def)
    qed (use s' u' off(1) d True in auto)
    ultimately show ?thesis using j by (simp add: chat_good_def)
  next
    case False
    let ?g = "?u\<lparr>u_pc := U_Gone\<rparr>"
    have "chat_ok (set_user k ?g s)"
    proof (rule chat_ok_update[OF ok assms(2)])
      show "server_ok (u_fd ` set (users s)) (set_user k ?g s)" using srv by (simp add: server_ok_def)
      show "user_ok ?g (set_user k ?g s)"
        using u off by (auto simp: user_ok_def queue_fits_def no_list_def to_send_def typed_def hung_up_def screen_ok_def sent_to_def)
    qed (simp_all add: elsewhere_same_def)
    moreover have "chat_flow lines i j (set_user k ?g s)"
      using assms(3) d by (intro client_step_flow[OF flow assms(2), where u' = ?g and ms = "[]" and rs = "[]"])
        (auto simp: before_joining_def to_send_def typed_def)
    ultimately show ?thesis using False by (simp add: user_joins_def chat_good_def Let_def)
  qed
qed

section \<open>Steps of the server\<close>

lemma chat_ok_member:
  assumes "chat_ok s" "queued fd s \<noteq> []"
  obtains k where "k < length (users s)" "u_fd (users s ! k) = fd"
proof -
  have "fd \<in> u_fd ` set (users s)" using assms by (auto simp: chat_ok_def server_ok_def Let_def)
  then show ?thesis using that by (auto simp: in_set_conv_nth)
qed

text \<open>The state after the event of one connection: the server's, and the rest of the connection's buffer.\<close>

definition served :: "int \<Rightarrow> server \<Rightarrow> recv_result list \<Rightarrow> int list \<Rightarrow> chat_system \<Rightarrow> chat_system" where
  "served fd v q rest s = s\<lparr>loop := (loop s)\<lparr>srv := v, inbuf := (inbuf (loop s))(fd := q), ready := rest\<rparr>\<rparr>"

lemma served_simps [simp]:
  "users (served fd v q rest s) = users s" "backlog (served fd v q rest s) = backlog s" "up (served fd v q rest s) = up s"
  "srv (loop (served fd v q rest s)) = v" "ready (loop (served fd v q rest s)) = rest"
  "queued f (served fd v q rest s) = (if f = fd then q else queued f s)"
  "in_chat f (served fd v q rest s) = (f \<in> set (map c_fd (table v)))"
  by (simp_all add: served_def queued_def in_chat_def)

definition fds_in :: "server \<Rightarrow> int set" where
  "fds_in v = set (map c_fd (table v))"

lemma served_ok:
  assumes "chat_ok s" "up s" "ready (loop s) = fd # rest" "queued fd s = r # q" "fd \<in> epoll (srv (loop s))"
    and "all_live v'" "distinct (map c_fd (table v'))" "fds_in v' - {fd} = fds_in (srv (loop s)) - {fd}"
    and "epoll v' \<subseteq> live v'" "epoll v' - {fd} = epoll (srv (loop s)) - {fd}" "\<forall>x \<in> set (sent v'). message_fine (snd x)"
    and "0 < joins q \<Longrightarrow> fd \<notin> fds_in v'" "r \<noteq> RecvClosed \<Longrightarrow> fd \<in> epoll v'" "sent v' = sent (srv (loop s)) @ xs"
  shows "chat_ok (served fd v' q rest s)"
proof -
  obtain k where k: "k < length (users s)" "u_fd (users s ! k) = fd"
    using chat_ok_member[OF assms(1), of fd] assms(4) by (metis list.distinct(1))
  let ?u = "users s ! k"
  have srv: "server_ok (u_fd ` set (users s)) s" and u: "user_ok ?u s" using assms(1) k by (auto simp: chat_ok_def)
  have fd: "fd \<in> u_fd ` set (users s)" using k by auto
  have fine: "r = RecvClosed \<longrightarrow> u_pc ?u = U_Gone" "u_pc ?u \<noteq> U_Off"
    using u k(2) assms(4) by (auto simp: user_ok_def queue_fits_def)
  have fits: "queue_fits ?u q"
    using u k(2) assms(4) by (cases r) (auto simp: user_ok_def queue_fits_def joins_def split: if_splits)
  show ?thesis
  proof (rule chat_ok_update[OF assms(1) k(1)])
    show "server_ok (u_fd ` set (users s)) (served fd v' q rest s)"
    proof -
      have "fds_in (srv (loop s)) \<subseteq> u_fd ` set (users s)" using srv by (simp add: server_ok_def Let_def fds_in_def)
      then have "fds_in v' \<subseteq> u_fd ` set (users s)" using fd assms(8) by blast
      moreover have "set (backlog s) \<inter> epoll v' = {}"
      proof -
        have "fd \<notin> set (backlog s)" "set (backlog s) \<inter> epoll (srv (loop s)) = {}"
          using srv assms(3) by (auto simp: server_ok_def Let_def)
        with assms(10) show ?thesis by blast
      qed
      moreover have "distinct rest" "\<forall>f \<in> set rest. queued f (served fd v' q rest s) \<noteq> []" "set (backlog s) \<inter> set rest = {}"
        using srv assms(3) by (auto simp: server_ok_def Let_def)
      moreover have "\<forall>f. f \<notin> u_fd ` set (users s) \<longrightarrow> queued f (served fd v' q rest s) = []" "distinct (backlog s)"
        using srv fd by (auto simp: server_ok_def Let_def)
      ultimately show ?thesis using assms(2,6,7,9,11) by (simp add: server_ok_def Let_def fds_in_def all_live_def)
    qed
    show "user_ok ?u (served fd v' q rest s)"
      using u k(2) fits fine assms(12,13) screen_ok_more[of ?u s "served fd v' q rest s" xs] assms(14)
      by (auto simp: user_ok_def fds_in_def hung_up_def)
    have "f \<noteq> fd \<Longrightarrow> f \<in> fds_in v' \<longleftrightarrow> f \<in> fds_in (srv (loop s))" "f \<noteq> fd \<Longrightarrow> f \<in> epoll v' \<longleftrightarrow> f \<in> epoll (srv (loop s))" for f
      using assms(8,10) by blast+
    then show "elsewhere_same (u_fd ?u) s (served fd v' q rest s)"
      using k(2) assms(14) by (auto simp: elsewhere_same_def in_chat_def fds_in_def)
  qed simp_all
qed

text \<open>The line a message carries, if the \<open>i\<close>-th client is its sender.\<close>

definition line_in :: "nat \<Rightarrow> recv_result \<Rightarrow> chat_system \<Rightarrow> string list" where
  "line_in i r s = chats (u_nick (users s ! i)) (messages_in [r])"

lemma served_flow:
  assumes "chat_flow lines i j s" "queued fd s = r # q" "sent v' = sent (srv (loop s)) @ xs"
    and "chats (u_nick (users s ! i)) (msgs_to (u_fd (users s ! j)) xs) =
      (if in_chat (u_fd (users s ! j)) s then line_in i r s else [])"
    and "u_fd (users s ! i) \<noteq> fd \<Longrightarrow> line_in i r s = []"
    and "before_joining (users s ! j) s \<Longrightarrow> \<not> in_chat (u_fd (users s ! j)) s"
    and "u_fd (users s ! j) \<in> fds_in v' \<Longrightarrow> in_chat (u_fd (users s ! j)) s \<or> before_joining (users s ! j) s"
    and "joins q \<le> joins (r # q)"
  shows "chat_flow lines i j (served fd v' q rest s)"
proof -
  let ?s = "served fd v' q rest s" and ?fd = "u_fd (users s ! j)"
  obtain missed skipped lost where f:
      "lines = missed @ passed_on i j s @ skipped @ chat_waiting i s @ lost @ chat_to_come i s"
      "in_chat ?fd s \<longrightarrow> skipped = []" "up s \<longrightarrow> lost = []"
    using assms(1) by (auto simp: chat_flow_def)
  have passed: "passed_on i j ?s = passed_on i j s @ (if in_chat ?fd s then line_in i r s else [])"
    using assms(3,4) by (simp add: passed_on_def)
  have waiting: "chat_waiting i s = line_in i r s @ chat_waiting i ?s"
  proof (cases "u_fd (users s ! i) = fd")
    case True
    have "messages_in (r # q) = messages_in [r] @ messages_in q" by (simp add: messages_in_def)
    with True assms(2) show ?thesis by (simp add: chat_waiting_def line_in_def)
  qed (use assms(5) in \<open>simp add: chat_waiting_def\<close>)
  have still: "before_joining (users s ! j) ?s \<Longrightarrow> before_joining (users s ! j) s"
    using assms(2,8) by (auto simp: before_joining_def split: if_splits)
  have none: "before_joining (users s ! j) s \<Longrightarrow> passed_on i j s = []" using assms(1) by (simp add: chat_flow_def)
  have "\<exists>missed' skipped'. lines = missed' @ passed_on i j ?s @ skipped' @ chat_waiting i ?s @ lost @ chat_to_come i ?s \<and>
      (in_chat ?fd ?s \<longrightarrow> skipped' = [])"
  proof (cases "in_chat ?fd s")
    case True
    then show ?thesis using f(1,2) passed waiting
      by (intro exI[of _ missed] exI[of _ "[]"]) (simp add: chat_to_come_def)
  next
    case False
    show ?thesis
    proof (cases "in_chat ?fd ?s")
      case True
      then have "passed_on i j s = []" using assms(7) False none by (simp add: fds_in_def)
      then show ?thesis using f(1) passed waiting False
        by (intro exI[of _ "missed @ skipped @ line_in i r s"] exI[of _ "[]"]) (simp add: chat_to_come_def)
    next
      case False2: False
      then show ?thesis using f(1) passed waiting False
        by (intro exI[of _ missed] exI[of _ "skipped @ line_in i r s"]) (simp add: chat_to_come_def)
    qed
  qed
  moreover have "before_joining (users s ! j) ?s \<Longrightarrow> passed_on i j ?s = []"
    using still none passed assms(6) by simp
  ultimately show ?thesis using assms(1) f(3) unfolding chat_flow_def by (simp only: served_simps) blast
qed

lemma fds_count: "srv_wf v \<Longrightarrow> distinct (map c_fd (table v)) \<Longrightarrow> client_count v = card (fds_in v)"
  unfolding fds_in_def by (simp only: distinct_card length_map length_table)

lemma chats_to_one:
  assumes "distinct (map c_fd (table v))"
  shows "chats nick (msgs_to f (map (\<lambda>c. (c_fd c, m)) (filter (\<lambda>c. c_fd c \<noteq> fd) (table v)))) =
    (if f \<in> fds_in v \<and> f \<noteq> fd then chats nick [m] else [])"
proof -
  let ?T = "filter (\<lambda>c. c_fd c \<noteq> fd) (table v)"
  show ?thesis
  proof (cases "f \<in> fds_in v \<and> f \<noteq> fd")
    case True
    then obtain c where c: "c \<in> set ?T" "c_fd c = f" by (auto simp: fds_in_def)
    have "distinct (map c_fd ?T)" using assms by (simp add: distinct_map_filter)
    from msgs_to_broadcasts[OF this c(1), of "[m]"] c(2) True show ?thesis by simp
  next
    case False
    then have "msgs_to f (map (\<lambda>c. (c_fd c, m)) ?T) = []" by (auto simp: msgs_to_def filter_empty_conv fds_in_def)
    with False show ?thesis by (simp only: chats_append(2) if_False)
  qed
qed

text \<open>One event of a connection: the handler returns and every part of the state stays good.\<close>

lemma serve_event_good:
  assumes "chat_good lines i j s" "up s" "ready (loop s) = fd # rest" "queued fd s = r # q" "fd \<in> epoll (srv (loop s))"
  shows "\<exists>v'. handle_client_message fd r (srv (loop s)) = Some v' \<and> chat_good lines i j (served fd v' q rest s)"
proof -
  let ?v = "srv (loop s)"
  have ok: "chat_ok s" and flow: "chat_flow lines i j s" using assms(1) by (simp_all add: chat_good_def)
  obtain k where k: "k < length (users s)" "u_fd (users s ! k) = fd"
    using chat_ok_member[OF ok, of fd] assms(4) by (metis list.distinct(1))
  let ?u = "users s ! k" and ?fd = "u_fd (users s ! j)"
  have srv: "server_ok (u_fd ` set (users s)) s" and u: "user_ok ?u s" using ok k by (auto simp: chat_ok_def)
  have v: "all_live ?v" "srv_wf ?v" "distinct (map c_fd (table ?v))" "epoll ?v \<subseteq> live ?v" "\<forall>x \<in> set (sent ?v). message_fine (snd x)"
    using srv assms(2) by (auto simp: server_ok_def Let_def)
  have r: "(\<exists>m. r = RecvMsg m \<and> own_message (u_nick ?u) m) \<or> r = RecvClosed" "joins (r # q) \<le> 1"
    using u k(2) assms(4) by (auto simp: user_ok_def queue_fits_def)
  have q: "joins q \<le> joins (r # q)" by (simp add: joins_def)
  have waits: "0 < joins (r # q) \<Longrightarrow> fd \<notin> fds_in ?v" using u k(2) assms(4) by (simp add: user_ok_def in_chat_def fds_in_def)
  have i: "i < length (users s)" "j < length (users s)" "i \<noteq> j"
      "l < length (users s) \<Longrightarrow> l \<noteq> i \<Longrightarrow> u_nick (users s ! l) \<noteq> u_nick (users s ! i)" for l
    using flow by (auto simp: chat_flow_def)
  have other: "u_fd (users s ! i) \<noteq> fd \<Longrightarrow> line_in i r s = []"
    using r(1) i(4)[OF k(1)] k(2) by (cases "k = i") (auto simp: line_in_def own_message_def chats_def)
  have bj: "before_joining (users s ! j) s \<Longrightarrow> \<not> in_chat ?fd s"
    using chat_ok_user[OF ok i(2)] by (auto simp: before_joining_def user_ok_def)
  have ij: "u_fd (users s ! i) \<noteq> ?fd" using ok i(1-3) by (auto simp: chat_ok_def distinct_conv_nth)
  have good: "chat_good lines i j (served fd v' q rest s)"
    if h: "all_live v'" "distinct (map c_fd (table v'))" "fds_in v' - {fd} = fds_in ?v - {fd}" "epoll v' \<subseteq> live v'"
      "epoll v' - {fd} = epoll ?v - {fd}" "0 < joins q \<Longrightarrow> fd \<notin> fds_in v'" "r \<noteq> RecvClosed \<Longrightarrow> fd \<in> epoll v'"
      "sent v' = sent ?v @ xs" "\<forall>x \<in> set xs. message_fine (snd x)"
      "chats (u_nick (users s ! i)) (msgs_to ?fd xs) = (if in_chat ?fd s then line_in i r s else [])"
      "fd \<in> fds_in v' \<Longrightarrow> fd \<in> fds_in ?v \<or> 0 < joins (r # q)" for v' xs
  proof -
    have "\<forall>x \<in> set (sent v'). message_fine (snd x)" using v(5) h(8,9) by auto
    then have "chat_ok (served fd v' q rest s)"
      using h by (intro served_ok[OF ok assms(2-5)]) simp_all
    moreover have "?fd \<in> fds_in v' \<Longrightarrow> in_chat ?fd s \<or> before_joining (users s ! j) s"
      using h(3,11) assms(4) unfolding before_joining_def in_chat_def fds_in_def by (cases "?fd = fd") auto
    then have "chat_flow lines i j (served fd v' q rest s)"
      using served_flow[OF flow assms(4) h(8,10) other bj _ q] by blast
    ultimately show ?thesis by (simp add: chat_good_def)
  qed
  have quiet: "chat_good lines i j (served fd v' q rest s)"
    if h: "quietly ?v v'" "all_live v'" "distinct (map c_fd (table v'))" "fds_in v' - {fd} = fds_in ?v - {fd}" "epoll v' \<subseteq> live v'"
      "epoll v' - {fd} = epoll ?v - {fd}" "0 < joins q \<Longrightarrow> fd \<notin> fds_in v'" "r \<noteq> RecvClosed \<Longrightarrow> fd \<in> epoll v'"
      "line_in i r s = []" "fd \<in> fds_in v' \<Longrightarrow> fd \<in> fds_in ?v \<or> 0 < joins (r # q)" for v'
  proof -
    obtain xs where "sent v' = sent ?v @ xs" "no_chats xs" using h(1) by (auto simp: quietly_def)
    then show ?thesis using h no_chats_to[of xs] by (intro good) (auto simp: no_chats_def)
  qed
  from r(1) consider (chat) m where "r = RecvMsg m" "type m = MSG_CHAT" | (join) m where "r = RecvMsg m" "type m = MSG_JOIN"
    | (transfer) m where "r = RecvMsg m" "message_fine m" "type m \<in> {MSG_FILE, MSG_FILE_DATA, MSG_FILE_END, MSG_FILE_GET}"
    | (gone) "r = RecvClosed"
    by (auto simp: own_message_def)
  then show ?thesis
  proof cases
    case chat
    let ?xs = "map (\<lambda>c. (c_fd c, m)) (filter (\<lambda>c. c_fd c \<noteq> fd) (table ?v))"
    let ?v' = "?v\<lparr>sent := sent ?v @ ?xs\<rparr>"
    have t: "table ?v' = table ?v" "fds_in ?v' = fds_in ?v" "all_live ?v'"
      using v(1) by (simp_all add: table_def fds_in_def all_live_def srv_wf_def)
    have "chats (u_nick (users s ! i)) (msgs_to ?fd ?xs) = (if in_chat ?fd s then line_in i r s else [])"
      using chats_to_one[OF v(3)] ij other chat(1) by (auto simp: line_in_def in_chat_def fds_in_def)
    moreover have "\<forall>x \<in> set ?xs. message_fine (snd x)" using chat(2) by (auto simp: message_fine_def)
    ultimately have "chat_good lines i j (served fd ?v' q rest s)"
      using v t waits q assms(5) by (intro good[of ?v' ?xs]) auto
    with chat chat_handler[OF v(1) chat(2)] show ?thesis by simp
  next
    case join
    then have jq: "joins q = 0" "fd \<notin> fds_in ?v" using r(2) waits by auto
    have "fds_in ?v \<subseteq> u_fd ` set (users s) - {fd}" using srv jq(2) by (auto simp: server_ok_def Let_def fds_in_def)
    moreover have "fd \<in> u_fd ` set (users s)" using k by auto
    ultimately have "fds_in ?v \<subset> u_fd ` set (users s)" by blast
    then have "client_count ?v < card (u_fd ` set (users s))"
      using fds_count[OF v(2,3)] by (metis List.finite_set finite_imageI psubset_card_mono)
    also have "\<dots> \<le> MAX_CLIENTS" using ok card_length[of "map u_fd (users s)"] by (simp add: chat_ok_def)
    finally have "client_count ?v < MAX_CLIENTS" .
    then obtain v' where h: "handle_client_message fd (RecvMsg m) ?v = Some v'" "quietly ?v v'" "all_live v'"
        "map c_fd (table v') = map c_fd (table ?v) @ [fd]" "epoll v' = epoll ?v" "live v' = live ?v"
      using join_handler[OF v(1) _ _ join(2), of fd] v(4) assms(5) by blast
    have "line_in i r s = []" using join by (simp add: line_in_def chats_def)
    moreover have "fds_in v' = insert fd (fds_in ?v)" using h(4) by (simp add: fds_in_def)
    ultimately have "chat_good lines i j (served fd v' q rest s)"
      using h v(3,4) jq join assms(5) by (intro quiet) (auto simp: fds_in_def)
    with h(1) join(1) show ?thesis by blast
  next
    case transfer
    then obtain v' where h: "handle_client_message fd (RecvMsg m) ?v = Some v'" "quietly ?v v'" "same_clients ?v v'"
      using file_handler_same[OF v(1), of m fd] by blast
    have t: "table v' = table ?v" "all_live v'" "fds_in v' = fds_in ?v" using same_clients_table[OF h(3)] v(1) by (auto simp: fds_in_def)
    have "line_in i r s = []" using transfer by (auto simp: line_in_def chats_def)
    then have "chat_good lines i j (served fd v' q rest s)"
      using h t v waits q assms(5) by (intro quiet) (auto simp: same_clients_def)
    with h(1) transfer(1) show ?thesis by blast
  next
    case gone
    obtain v' where h: "handle_client_message fd RecvClosed ?v = Some v'" "quietly ?v v'" "all_live v'"
        "map c_fd (table v') = filter (\<lambda>f. f \<noteq> fd) (map c_fd (table ?v))" "epoll ?v - {fd} \<subseteq> epoll v'" "epoll v' \<subseteq> epoll ?v"
        "epoll v' \<subseteq> live v'"
      using close_handler[OF v(1,3), of fd] v(4) by auto
    have "fds_in v' = fds_in ?v - {fd}" using h(4) by (auto simp: fds_in_def)
    moreover have "distinct (map c_fd (table v'))" using h(4) v(3) by simp
    moreover have "line_in i r s = []" using gone by (simp add: line_in_def)
    ultimately have "chat_good lines i j (served fd v' q rest s)"
      using h gone by (intro quiet) auto
    with h(1) gone show ?thesis by blast
  qed
qed

text \<open>Nothing is in parts and no connection broken.\<close>

definition steady :: "chat_system \<Rightarrow> bool" where
  "steady s \<longleftrightarrow> split s = Map.empty \<and> broken s = {}"

lemma steady_sends: "steady s \<Longrightarrow> sending (broken s) v = v" "steady s \<Longrightarrow> after_sends v s' s = s'"
  by (simp_all add: steady_def sending_def after_sends_def Let_def)

lemma serves_good:
  assumes "chat_good lines i j s" "steady s"
  shows "server_serves s = Blocked \<or> (\<exists>s'. server_serves s = Stepped s' \<and> chat_good lines i j s')"
proof (cases "up s \<and> ready (loop s) \<noteq> []")
  case True
  then obtain fd rest where fd: "ready (loop s) = fd # rest" by (cases "ready (loop s)") auto
  have ok: "chat_ok s" using assms by (simp add: chat_good_def)
  then have "queued fd s \<noteq> []" using fd by (auto simp: chat_ok_def server_ok_def Let_def)
  then obtain r q where q: "queued fd s = r # q" by (cases "queued fd s") auto
  show ?thesis
  proof (cases "fd \<in> epoll (srv (loop s))")
    case e: True
    obtain v' where v': "handle_client_message fd r (srv (loop s)) = Some v'" "chat_good lines i j (served fd v' q rest s)"
      using serve_event_good[OF assms(1) _ fd q e] True by blast
    then have "server_serves s = Stepped (served fd v' q rest s)"
      using True fd q e assms(2)
      by (simp add: server_serves_def dispatch_def served_def queued_def steady_sends)
    with v'(2) show ?thesis by blast
  next
    case False
    let ?s = "s\<lparr>loop := (loop s)\<lparr>ready := rest\<rparr>\<rparr>"
    have same: "queued f ?s = queued f s" "in_chat f ?s = in_chat f s" "hung_up f ?s = hung_up f s" for f
      by (simp_all add: queued_def in_chat_def hung_up_def)
    have "chat_ok ?s" using ok fd same
      by (auto simp: chat_ok_def server_ok_def user_ok_def screen_ok_def sent_to_def Let_def)
    moreover have "chat_flow lines i j ?s" using assms same
      by (simp add: chat_good_def chat_flow_def passed_on_def chat_waiting_def chat_to_come_def before_joining_def)
    ultimately show ?thesis using True fd False by (simp add: server_serves_def chat_good_def)
  qed
qed (auto simp: server_serves_def split: list.splits)

lemma accepts_good:
  assumes "chat_good lines i j s"
  shows "server_accepts s = Blocked \<or> (\<exists>s'. server_accepts s = Stepped s' \<and> chat_good lines i j s')"
proof (cases "up s \<and> listen_ready s")
  case True
  have ok: "chat_ok s" using assms by (simp add: chat_good_def)
  have quiet: "chat_flow lines i j s'"
    if "users s' = users s" "sent (srv (loop s')) = sent (srv (loop s))" "\<And>f. queued f s' = queued f s"
      "\<And>f. in_chat f s' = in_chat f s" "up s' = up s" for s'
    using assms that by (simp add: chat_good_def chat_flow_def passed_on_def chat_waiting_def chat_to_come_def before_joining_def)
  show ?thesis
  proof (cases "backlog s")
    case Nil
    let ?s = "s\<lparr>listen_ready := False\<rparr>"
    have same: "queued f ?s = queued f s" "in_chat f ?s = in_chat f s" "hung_up f ?s = hung_up f s" for f
      by (simp_all add: queued_def in_chat_def hung_up_def)
    have "chat_ok ?s" using ok same by (simp add: chat_ok_def server_ok_def user_ok_def screen_ok_def sent_to_def Let_def)
    moreover have "chat_flow lines i j ?s" using same by (intro quiet) simp_all
    ultimately show ?thesis using True Nil by (simp add: server_accepts_def chat_good_def)
  next
    case (Cons fd rest)
    let ?v = "srv (loop s)" and ?l = "loop s"
    let ?v' = "?v\<lparr>epoll := insert fd (epoll ?v), live := insert fd (live ?v)\<rparr>"
    let ?s = "s\<lparr>loop := ?l\<lparr>srv := ?v', ready := (if inbuf ?l fd \<noteq> [] then ready ?l @ [fd] else ready ?l)\<rparr>,
                backlog := rest, listen_ready := False\<rparr>"
    have step: "server_accepts s = Stepped ?s" using True Cons by (simp add: server_accepts_def handle_new_connection_def Let_def)
    have same: "queued f ?s = queued f s" "in_chat f ?s = in_chat f s" "hung_up f ?s = hung_up f s" for f
      using Cons by (auto simp: queued_def in_chat_def hung_up_def table_def)
    have srv: "server_ok (u_fd ` set (users s)) s" using ok by (simp add: chat_ok_def)
    have t: "table ?v' = table ?v" "srv_wf ?v' = srv_wf ?v" by (simp_all add: table_def srv_wf_def)
    have "server_ok (u_fd ` set (users s)) ?s"
    proof -
      have "fd \<notin> set (ready ?l)" "fd \<notin> set rest" "all_live ?v" using srv Cons True by (auto simp: server_ok_def Let_def)
      then show ?thesis using srv Cons True same t
        by (auto simp: server_ok_def Let_def queued_def all_live_def)
    qed
    moreover have "user_ok u ?s" if "u \<in> set (users s)" for u
      using ok that same Cons by (auto simp: chat_ok_def user_ok_def screen_ok_def sent_to_def)
    ultimately have "chat_ok ?s" using ok by (simp add: chat_ok_def)
    moreover have "chat_flow lines i j ?s" using same by (intro quiet) simp_all
    ultimately show ?thesis using step by (simp add: chat_good_def)
  qed
qed (auto simp: server_accepts_def)

lemma stops_good:
  assumes "chat_good lines i j s" "steady s"
  shows "server_stops s = Blocked \<or> (\<exists>s'. server_stops s = Stepped s' \<and> chat_good lines i j s')"
proof (cases "up s")
  case True
  have ok: "chat_ok s" and flow: "chat_flow lines i j s" using assms by (simp_all add: chat_good_def)
  let ?v = "srv (loop s)" and ?m = "(blank MSG_LEAVE)\<lparr>nickname := ''SERVER'', msg_data := ''Server is shutting down''\<rparr>"
  have srv: "server_ok (u_fd ` set (users s)) s" using ok by (simp add: chat_ok_def)
  have live: "all_live ?v" using srv True by (simp add: server_ok_def Let_def)
  obtain w where w: "broadcast_message ?m (-1) ?v = Some w" "quietly ?v w" "same_clients ?v w"
    using quietly_broadcast[OF live, of ?m "-1"] by (auto simp: blank_def message_fine_def)
  obtain xs where xs: "sent w = sent ?v @ xs" "no_chats xs" using w(2) by (auto simp: quietly_def)
  let ?w = "(cleanup_files w)\<lparr>epoll := {}, live := {}\<rparr>"
  let ?s = "s\<lparr>loop := (loop s)\<lparr>srv := ?w\<rparr>, backlog := [], up := False\<rparr>"
  have step: "server_stops s = Stepped ?s"
    using True w(1) assms(2) by (simp add: server_stops_def server_signal_handler_def steady_sends)
  have t: "table ?w = table ?v" "srv_wf ?w = srv_wf ?v" "sent ?w = sent ?v @ xs"
    using w(3) xs(1) by (simp_all add: table_def srv_wf_def cleanup_files_def same_clients_def)
  have same: "queued f ?s = queued f s" "in_chat f ?s = in_chat f s" for f
    using t(1) by (simp_all add: queued_def in_chat_def)
  have "server_ok (u_fd ` set (users s)) ?s"
    using srv same t xs(2) by (auto simp: server_ok_def Let_def no_chats_def)
  moreover have "user_ok u ?s" if "u \<in> set (users s)" for u
    using ok that same t(3) screen_ok_more[of u s ?s xs] by (simp add: chat_ok_def user_ok_def)
  ultimately have "chat_ok ?s" using ok by (simp add: chat_ok_def)
  moreover have "passed_on i j ?s = passed_on i j s" using t(3) no_chats_to[OF xs(2)] by (simp add: passed_on_def)
  then have "chat_flow lines i j ?s" using flow same
    by (auto simp: chat_flow_def chat_waiting_def chat_to_come_def before_joining_def)
  ultimately show ?thesis using step by (simp add: chat_good_def)
qed (simp add: server_stops_def)

section \<open>Every schedule\<close>

text \<open>Schedules in which no message comes in parts and no connection is reset.\<close>

fun undisturbed :: "chat_event \<Rightarrow> bool" where
  "undisturbed (Cut i) = False"
| "undisturbed (Reset i pipe) = False"
| "undisturbed e = True"

definition calm_step :: "chat_event \<Rightarrow> chat_system \<Rightarrow> chat_system outcome" where
  "calm_step e s = (if undisturbed e then chat_sys_step e s else Blocked)"

lemma run_calm: "list_all undisturbed es \<Longrightarrow> run_steps calm_step es s = run_steps chat_sys_step es s"
  by (induction es arbitrary: s) (auto simp: calm_step_def split: outcome.splits)

lemma chat_step_good:
  assumes "chat_good lines i j s" "steady s"
  shows "calm_step e s = Blocked \<or> (\<exists>s'. calm_step e s = Stepped s' \<and> chat_good lines i j s')"
  using joins_good[OF assms(1)] selects_good[OF assms(1)] leaves_good[OF assms(1)] accepts_good[OF assms(1)]
    serves_good[OF assms] stops_good[OF assms] assms(2)
  by (cases e) (auto simp: calm_step_def chat_sys_step_def Let_def steady_def rest_arrives_def)

text \<open>Steps leave the clients' names and connections alone.\<close>

definition names_of :: "chat_system \<Rightarrow> (int \<times> string) list" where
  "names_of s = map (\<lambda>u. (u_fd u, u_nick u)) (users s)"

lemma names_set_user:
  "k < length (users s) \<Longrightarrow> u_fd u = u_fd (users s ! k) \<Longrightarrow> u_nick u = u_nick (users s ! k) \<Longrightarrow> names_of (set_user k u s) = names_of s"
  by (simp add: names_of_def list_eq_iff_nth_eq nth_list_update)

lemma names_posted [simp]: "names_of (posted fd rs s) = names_of s"
  by (simp add: names_of_def)

lemma names_reads: "user_reads k s = Some s' \<Longrightarrow> k < length (users s) \<Longrightarrow> names_of s' = names_of s"
  by (auto simp: user_reads_def Let_def bind_eq_Some_conv names_set_user split: list.splits)

lemma names_selects:
  assumes "user_selects k ty s = Stepped s'" "k < length (users s)"
  shows "names_of s' = names_of s"
proof -
  obtain ms u' where mu: "(if ty then user_types (users s ! k) else ([], users s ! k)) = (ms, u')" by fastforce
  let ?s = "post_all (u_fd (users s ! k)) ms (set_user k u' s)"
  have "u_fd u' = u_fd (users s ! k)" "u_nick u' = u_nick (users s ! k)"
    using mu user_types_spec(3,4)[of "users s ! k" ms u'] by (auto split: if_splits)
  then have n: "names_of ?s = names_of s" using assms(2) by (simp add: post_all_posted names_set_user)
  have "s' = ?s \<or> user_reads k ?s = Some s'" using assms(1) mu by (auto simp: user_selects_def Let_def split: if_splits)
  with n assms(2) names_reads[of k ?s s'] show ?thesis by auto
qed

lemma names_users: "users s' = users s \<Longrightarrow> names_of s' = names_of s"
  by (simp add: names_of_def)

lemma steady_posted [simp]: "steady (posted fd rs s) = steady s" "steady (set_user k u s) = steady s"
  by (simp_all add: posted_def steady_def set_user_def)

lemma steady_step:
  assumes "calm_step e s = Stepped s'" "steady s"
  shows "steady s'"
proof -
  have more: "steady (s\<lparr>backlog := b, listen_ready := r\<rparr>)" "steady (s\<lparr>loop := l\<rparr>)" "steady (s\<lparr>listen_ready := r\<rparr>)"
      "steady (s\<lparr>loop := l, backlog := b, up := r\<rparr>)" "steady (s\<lparr>loop := l, backlog := b, listen_ready := r\<rparr>)" for b r l
    using assms(2) by (simp_all add: steady_def)
  have reads: "user_reads k s1 = Some s2 \<Longrightarrow> steady s1 \<Longrightarrow> steady s2" for k s1 s2
    by (auto simp: user_reads_def Let_def bind_eq_Some_conv split: list.splits)
  have selects: "user_selects k ty s = Stepped s' \<Longrightarrow> steady s'" for k ty
    using reads assms(2) by (auto simp: user_selects_def Let_def post_all_posted split: if_splits prod.splits)
  show ?thesis
    using assms more selects
    by (cases e) (auto simp: calm_step_def chat_sys_step_def user_joins_def post_posted Let_def server_accepts_def server_serves_def
        server_stops_def rest_arrives_def steady_def[of s] steady_sends split: if_splits list.splits option.splits)
qed

lemma names_step:
  assumes "calm_step e s = Stepped s'" "steady s"
  shows "names_of s' = names_of s"
proof (cases e)
  case (Join k)
  then show ?thesis using assms(1)
    by (auto simp: calm_step_def chat_sys_step_def user_joins_def post_posted Let_def names_set_user split: if_splits)
      (simp add: names_of_def set_user_def list_eq_iff_nth_eq nth_list_update)
next
  case (Select k ty)
  then show ?thesis using assms(1) names_selects by (auto simp: calm_step_def chat_sys_step_def split: if_splits)
next
  case (Leave k)
  then show ?thesis using assms(1)
    by (auto simp: calm_step_def chat_sys_step_def post_posted Let_def names_set_user split: if_splits)
next
  case Accept
  then show ?thesis using assms(1)
    by (intro names_users) (auto simp: calm_step_def chat_sys_step_def server_accepts_def Let_def split: if_splits list.splits)
next
  case Serve
  then show ?thesis using assms
    by (intro names_users)
      (auto simp: calm_step_def chat_sys_step_def server_serves_def steady_sends split: if_splits list.splits)
next
  case Shutdown
  then show ?thesis using assms
    by (intro names_users)
      (auto simp: calm_step_def chat_sys_step_def server_stops_def Let_def steady_sends split: if_splits option.splits)
qed (use assms in \<open>auto simp: calm_step_def chat_sys_step_def rest_arrives_def steady_def split: if_splits\<close>)

definition chat_inv :: "(int \<times> string) list \<Rightarrow> string list \<Rightarrow> nat \<Rightarrow> nat \<Rightarrow> chat_system \<Rightarrow> bool" where
  "chat_inv names lines i j s \<longleftrightarrow> chat_good lines i j s \<and> steady s \<and> names_of s = names"

interpretation talking: step_invariant calm_step "chat_inv names lines i j" for names lines i j
proof unfold_locales
  show "calm_step e s \<noteq> Fault" if "chat_inv names lines i j s" for e s
    using that chat_step_good[of lines i j s e] by (auto simp: chat_inv_def)
  show "chat_inv names lines i j s'" if "chat_inv names lines i j s" "calm_step e s = Stepped s'" for e s s'
    using that chat_step_good[of lines i j s e] names_step[OF that(2)] steady_step[OF that(2)] by (auto simp: chat_inv_def)
qed

text \<open>Clients that have not connected yet, at most as many as the server takes.\<close>

definition newcomer :: "user \<Rightarrow> bool" where
  "newcomer u \<longleftrightarrow> u_pc u = U_Off \<and> u_taken u = 0 \<and> rx_file (u_rx u) = None \<and> length (u_nick u) < MAX_NICKNAME \<and> no_list u"

definition newcomers :: "user list \<Rightarrow> bool" where
  "newcomers us \<longleftrightarrow> distinct (map u_fd us) \<and> length us \<le> MAX_CLIENTS \<and> (\<forall>u \<in> set us. newcomer u)"

lemma client_main_newcomer:
  assumes "client_main argv fd typ fs can = Inr u" "no_list u"
  shows "newcomer u"
  using assms length_strncpy_term[of MAX_NICKNAME "argv ! 2"]
  by (auto simp: client_main_def newcomer_def Let_def safe_strcpy_def MAX_NICKNAME_def split: if_splits)

lemma start_good:
  assumes "newcomers us" "i < length us" "j < length us" "i \<noteq> j"
    and "\<forall>k < length us. k \<noteq> i \<longrightarrow> u_nick (us ! k) \<noteq> u_nick (us ! i)"
  shows "chat_inv (map (\<lambda>u. (u_fd u, u_nick u)) us) (chats (u_nick (us ! i)) (to_send (us ! i))) i j (chat_start ok us)"
proof -
  let ?s = "chat_start ok us"
  have s: "users ?s = us" "backlog ?s = []" "up ?s" "queued f ?s = []" "epoll (srv (loop ?s)) = {}" "\<not> in_chat f ?s"
      "sent (srv (loop ?s)) = []" "table (srv (loop ?s)) = []" "ready (loop ?s) = []" "live (srv (loop ?s)) = {}" for f
    by (simp_all add: chat_start_def queued_def server_start_def in_chat_def table_def)
  have "srv_wf (srv (loop ?s))" by (simp add: chat_start_def server_start_def srv_wf_def)
  then have "server_ok (u_fd ` set us) ?s" using s by (simp add: server_ok_def all_live_def Let_def)
  moreover have "user_ok u ?s" if "u \<in> set us" for u
  proof -
    have "newcomer u" using assms(1) that by (simp add: newcomers_def)
    then show ?thesis using s
      by (auto simp: newcomer_def user_ok_def queue_fits_def rx_fine_def screen_ok_def sent_to_def hung_up_def)
  qed
  ultimately have "chat_ok ?s" using assms(1) s(1) by (simp add: chat_ok_def newcomers_def)
  moreover have "chat_flow (chats (u_nick (us ! i)) (to_send (us ! i))) i j ?s"
    using assms(2-5) s by (auto simp: chat_flow_def passed_on_def chat_waiting_def chat_to_come_def)
  moreover have "steady ?s" by (simp add: steady_def chat_start_def)
  ultimately show ?thesis using s(1) by (simp add: chat_inv_def chat_good_def names_of_def)
qed

text \<open>
  C15. At most 100 clients with names of fewer than 50 characters connect, nobody asks for the list of
  files, and the name of the sending client is nobody else's. Then under every schedule of
  connections, typing, \<open>select\<close> rounds, server events, departures and a shutdown in which TCP delivers
  each message in one piece and no connection is reset before the server has read its end (so that no
  \<open>send\<close> of the server fails), no process faults. The screen of each client shows, in order, the
  messages it has received, and the chat lines among them of the sending client are an unbroken run
  of the lines typed there: nothing is lost in the middle, doubled or reordered, however the messages
  interleave and although the server reads one message per event. Once the server has taken what the
  one sent and the other, still in the chat, has received everything, the run goes up to the last line
  sent. Without the two conditions on TCP it fails: \<open>message_in_parts_is_lost\<close>,
  \<open>broken_connection_kills_server\<close> and, for a failing \<open>send\<close>, \<open>broadcast_skips_live_client\<close>.
\<close>

theorem lines_reach_other_clients:
  assumes "newcomers us" "i < length us" "j < length us" "i \<noteq> j"
    and "\<forall>k < length us. k \<noteq> i \<longrightarrow> u_nick (us ! k) \<noteq> u_nick (us ! i)" "list_all undisturbed es"
  shows "\<exists>s missed rest start fin. run_steps chat_sys_step es (chat_start ok us) = Some s \<and>
    (let nick = u_nick (us ! i); u = users s ! j; received = take (u_taken u) (sent_to u s) in
     u_out u = start @ map (printed (u_nick u)) received @ fin \<and> (u_pc u \<noteq> U_Gone \<longrightarrow> fin = []) \<and>
     chats nick (to_send (us ! i)) = missed @ chats nick received @ rest \<and>
     (up s \<and> in_chat (u_fd u) s \<and> queued (u_fd (us ! i)) s = [] \<and> unread u s = [] \<longrightarrow> rest = chats nick (to_send (users s ! i))))"
proof -
  obtain s where s: "run_steps chat_sys_step es (chat_start ok us) = Some s"
      "chat_good (chats (u_nick (us ! i)) (to_send (us ! i))) i j s" "names_of s = map (\<lambda>u. (u_fd u, u_nick u)) us"
    using talking.run_good[OF start_good[OF assms(1-5)], of es ok] run_calm[OF assms(6)] by (auto simp: chat_inv_def)
  have names: "length (users s) = length us" "k < length us \<Longrightarrow> u_fd (users s ! k) = u_fd (us ! k) \<and> u_nick (users s ! k) = u_nick (us ! k)" for k
    using s(3) unfolding names_of_def by (metis length_map, metis (mono_tags, lifting) length_map nth_map prod.inject)
  let ?u = "users s ! j"
  obtain start fin where o: "u_out ?u = start @ map (printed (u_nick ?u)) (take (u_taken ?u) (sent_to ?u s)) @ fin"
      "u_pc ?u \<noteq> U_Gone \<longrightarrow> fin = []"
    using s(2) chat_ok_user[of s j] names(1) assms(3) unfolding chat_good_def user_ok_def screen_ok_def by auto
  obtain missed skipped lost where f: "chats (u_nick (us ! i)) (to_send (us ! i)) =
        missed @ passed_on i j s @ skipped @ chat_waiting i s @ lost @ chat_to_come i s"
      "in_chat (u_fd ?u) s \<longrightarrow> skipped = []" "up s \<longrightarrow> lost = []"
    using s(2) by (auto simp: chat_good_def chat_flow_def)
  have p: "passed_on i j s = chats (u_nick (us ! i)) (take (u_taken ?u) (sent_to ?u s)) @ chats (u_nick (us ! i)) (unread ?u s)"
    using names(2)[OF assms(2)] by (simp add: passed_on_def unread_def sent_to_def flip: chats_append(1))
  have w: "queued (u_fd (us ! i)) s = [] \<Longrightarrow> chat_waiting i s = []" "chat_to_come i s = chats (u_nick (us ! i)) (to_send (users s ! i))"
    using names(2)[OF assms(2)] by (simp_all add: chat_waiting_def chat_to_come_def)
  show ?thesis
    unfolding Let_def
    by (rule exI[of _ s], rule exI[of _ missed],
        rule exI[of _ "chats (u_nick (us ! i)) (unread ?u s) @ skipped @ chat_waiting i s @ lost @ chat_to_come i s"],
        rule exI[of _ start], rule exI[of _ fin]) (use s(1) o f p w in auto)
qed

text \<open>Two clients, the first typing two lines in one piece.\<close>

definition two_users :: "user list" where
  "two_users =
     (let new = \<lambda>fd nick typed. \<lparr>u_fd = fd, u_nick = nick, u_pc = U_Off, u_buf = [], u_chunks = typed, u_sent = [],
          u_taken = 0, u_rx = \<lparr>current_file = [], rx_file = None, rx_bytes = 0, rx_total = 0, disk = Map.empty\<rparr>,
          u_files = Map.empty, u_can = (\<lambda>_. True), u_out = []\<rparr>
      in [new 5 ''ann'' [''hi'' @ NL # ''ho'' @ [NL]], new 6 ''bob'' []])"

lemma two_users_send: "to_send (two_users ! 0) = [send_message ''ann'' MSG_CHAT ''hi'', send_message ''ann'' MSG_CHAT ''ho'']"
  "to_send (two_users ! 1) = []"
proof -
  have c: "NL \<notin> set ''hi''" "NUL \<notin> set ''hi''" "NL \<notin> set ''ho''" "NUL \<notin> set ''ho''" by (simp_all add: NL_def NUL_def)
  have f: "fgets BUFFER_SIZE (''hi'' @ NL # ''ho'' @ [NL]) = Some (''hi'' @ [NL], ''ho'' @ [NL])"
      "fgets BUFFER_SIZE (''ho'' @ NL # []) = Some (''ho'' @ [NL], [])" "fgets BUFFER_SIZE [] = None"
    using fgets_line[OF c(1,2), of BUFFER_SIZE "''ho'' @ [NL]"] fgets_line[OF c(3,4), of BUFFER_SIZE "[]"]
    by (simp_all add: BUFFER_SIZE_def fgets_def)
  have "typed_requests n fs [] = []" for n fs using f(3) by (simp add: typed_requests.simps)
  moreover have "handle_user_input n fs (''ho'' @ [NL]) = ([send_message n MSG_CHAT ''ho''], [])" for n fs
    using f(2) chomp_line[OF c(3)] by (simp add: handle_user_input_def Let_def)
  moreover have "handle_user_input n fs (''hi'' @ NL # ''ho'' @ [NL]) = ([send_message n MSG_CHAT ''hi''], ''ho'' @ [NL])" for n fs
    using f(1) chomp_line[OF c(1)] by (simp add: handle_user_input_def Let_def)
  ultimately have "typed_requests n fs (''hi'' @ NL # ''ho'' @ [NL]) = [send_message n MSG_CHAT ''hi'', send_message n MSG_CHAT ''ho'']"
      "typed_requests n fs [] = []" for n fs
    using typed_requests_step by (metis append_Cons append_Nil append_Nil2)+
  then show "to_send (two_users ! 0) = [send_message ''ann'' MSG_CHAT ''hi'', send_message ''ann'' MSG_CHAT ''ho'']"
      "to_send (two_users ! 1) = []"
    by (simp_all add: to_send_def typed_def two_users_def)
qed

lemma two_users_new: "newcomers two_users" "length two_users = 2" "u_nick (two_users ! 0) = ''ann''" "u_nick (two_users ! 1) = ''bob''"
proof -
  have "no_list (two_users ! 0)" "no_list (two_users ! 1)"
    using two_users_send by (auto simp: no_list_def send_message_def blank_def)
  then show "newcomers two_users"
    by (auto simp: newcomers_def newcomer_def two_users_def MAX_NICKNAME_def MAX_CLIENTS_def)
qed (simp_all add: two_users_def)

lemma lines_reach_other_clients_witness:
  "\<exists>s missed rest start fin. run_steps chat_sys_step
      [Join 1, Accept, Serve, Join 0, Accept, Serve, Select 0 True, Serve, Select 1 False] (chat_start (\<lambda>_. True) two_users) = Some s \<and>
    (let nick = u_nick (two_users ! 0); u = users s ! 1; received = take (u_taken u) (sent_to u s) in
     u_out u = start @ map (printed (u_nick u)) received @ fin \<and> (u_pc u \<noteq> U_Gone \<longrightarrow> fin = []) \<and>
     chats nick (to_send (two_users ! 0)) = missed @ chats nick received @ rest \<and>
     (up s \<and> in_chat (u_fd u) s \<and> queued (u_fd (two_users ! 0)) s = [] \<and> unread u s = [] \<longrightarrow> rest = chats nick (to_send (users s ! 0))))"
  by (rule lines_reach_other_clients) (auto simp: two_users_new two_users_new(4)[unfolded One_nat_def] less_Suc_eq numeral_2_eq_2)

section \<open>Where it stops short\<close>

text \<open>
  The listening socket is edge-triggered, too, and one event is answered with one \<open>accept\<close>: of two
  clients that connect before the server looks, the second is not accepted until a third connects.
\<close>

lemma second_connection_waits:
  assumes "up s" "listen_ready s" "backlog s = fd1 # fd2 # rest" "server_accepts s = Stepped s'"
  shows "backlog s' = fd2 # rest \<and> server_accepts s' = Blocked"
  using assms by (auto simp: server_accepts_def Let_def)

text \<open>
  \<open>select\<close> looks at the descriptor while \<open>fgets\<close> has its own buffer: of two lines that come in one piece
  the second stays in the buffer until more is typed.
\<close>

lemma second_line_waits:
  assumes "u_buf u = []" "u_chunks u = (l @ NL # l2 @ [NL]) # later" "NL \<notin> set l" "NUL \<notin> set l" "Suc (length l) < BUFFER_SIZE"
  shows "u_buf (snd (user_types u)) = l2 @ [NL]" "u_chunks (snd (user_types u)) = later"
proof -
  have "fill_stdin BUFFER_SIZE [] ((l @ NL # l2 @ [NL]) # later) = (l @ NL # l2 @ [NL], later)"
    by (cases later) (simp_all add: BUFFER_SIZE_def)
  moreover have "snd (handle_user_input (u_nick u) (u_files u) (l @ NL # l2 @ [NL])) = l2 @ [NL]"
    using fgets_line[OF assms(3-5)] by (simp add: handle_user_input_rest)
  ultimately show "u_buf (snd (user_types u)) = l2 @ [NL]" "u_chunks (snd (user_types u)) = later"
    using assms(1,2) by (simp_all add: user_types_def case_prod_unfold Let_def del: fill_stdin.simps)
qed

text \<open>
  A message that comes in two parts, the server reading between them, is lost: both reads find it
  incomplete and drop what they got.
\<close>

lemma message_in_parts_is_lost:
  assumes "up s" "i < length (users s)" "u_fd (users s ! i) = fd" "fd \<in> epoll (srv (loop s))"
    and "ready (loop s) = [fd]" "inbuf (loop s) fd = [RecvMsg m]" "split s fd = None" "broken s = {}"
  shows "\<exists>s'. run_steps chat_sys_step [Cut i, Serve, Rest i, Serve] s = Some s' \<and> srv (loop s') = srv (loop s) \<and>
           inbuf (loop s') fd = [] \<and> split s' fd = None"
proof -
  have "chat_sys_step (Cut i) s = Stepped (s\<lparr>loop := (loop s)\<lparr>inbuf := (inbuf (loop s))(fd := [RecvShort])\<rparr>, split := (split s)(fd \<mapsto> m)\<rparr>)"
    using assms(2,3,6,7) by (simp add: chat_sys_step_def cut_message_def whole_def Let_def)
  then show ?thesis using assms
    by (simp add: chat_sys_step_def server_serves_def dispatch_def handle_client_message_def rest_arrives_def post_def hung_up_def
        arrive_def sending_def after_sends_def Let_def)
qed

text \<open>
  A line sent to a connection that was reset after its end had come raises SIGPIPE, and the server is
  gone for everyone.
\<close>

lemma broken_connection_kills_server:
  assumes "up s" "ready (loop s) = fd # rest" "fd \<in> epoll (srv (loop s))" "inbuf (loop s) fd = RecvMsg m # q" "type m = MSG_CHAT"
    and "srv_wf (srv (loop s))" "c_fd ` set (table (srv (loop s))) \<subseteq> live (srv (loop s)) \<union> broken s"
    and "c \<in> set (table (srv (loop s)))" "c_fd c \<in> broken s" "c_fd c \<noteq> fd"
  shows "\<exists>s'. server_serves s = Stepped s' \<and> \<not> up s' \<and> epoll (srv (loop s')) = {} \<and> hung_up f s'"
proof -
  let ?v = "sending (broken s) (srv (loop s))"
  let ?xs = "map (\<lambda>c. (c_fd c, m)) (filter (\<lambda>c. c_fd c \<noteq> fd) (table (srv (loop s))))"
  have v: "all_live ?v" "table ?v = table (srv (loop s))" "sent ?v = sent (srv (loop s))"
    using assms(6,7) by (simp_all add: all_live_def sending_def srv_wf_def table_def)
  have h: "handle_client_message fd (RecvMsg m) ?v = Some (?v\<lparr>sent := sent (srv (loop s)) @ ?xs\<rparr>)"
    using chat_handler[OF v(1) assms(5), of fd] v(2,3) by simp
  have "\<exists>x \<in> set ?xs. fst x \<in> broken s" using assms(8-10) by auto
  then show ?thesis using assms(1-4) h
    by (simp add: server_serves_def dispatch_def after_sends_def hung_up_def Let_def)
qed

end
