(* ===== verification/C_Net.thy ===== *)
theory C_Net
  imports C_Decimal
begin

text \<open>
  Network values shared by the packet programs: an IPv4 address as its four bytes in network
  order, its dotted form (\<open>inet_ntop\<close>, \<open>inet_ntoa\<close> and the kernel's \<open>%pI4\<close>), and
  \<open>htons\<close>/\<open>ntohs\<close> on a little-endian machine.
\<close>

type_synonym ip4 = "8 word \<times> 8 word \<times> 8 word \<times> 8 word"

definition show_byte :: "8 word \<Rightarrow> string" where
  "show_byte b = show_nat (unat b)"

fun dotted :: "ip4 \<Rightarrow> string" where
  "dotted (a, b, c, d) = show_byte a @ ''.'' @ show_byte b @ ''.'' @ show_byte c @ ''.'' @ show_byte d"

lemma dot_notin_show_byte [simp]: "CHR ''.'' \<notin> set (show_byte b)"
  using show_nat_digits[of "CHR ''.''" "unat b"] by (auto simp: show_byte_def isdigit_def)

lemma show_byte_inj [simp]: "show_byte a = show_byte b \<longleftrightarrow> a = b"
proof
  assume "show_byte a = show_byte b"
  then have "digits_val 0 (show_nat (unat a)) = digits_val 0 (show_nat (unat b))"
    by (simp add: show_byte_def)
  then show "a = b" by (simp add: word_unat_eq_iff)
qed simp

lemma split_first_eq:
  assumes "a @ c # b = a' @ c # b'" "c \<notin> set a" "c \<notin> set a'"
  shows "a = a'" "b = b'"
proof -
  have "a = takeWhile (\<lambda>d. d \<noteq> c) (a @ c # b)" using assms(2) by simp
  also have "\<dots> = a'" using assms(1,3) by simp
  finally show "a = a'" .
  with assms(1) show "b = b'" by simp
qed

lemma dotted_inj: "dotted p = dotted q \<longleftrightarrow> p = q"
proof
  assume eq: "dotted p = dotted q"
  obtain a b c d where p: "p = (a, b, c, d)" by (cases p)
  obtain a' b' c' d' where q: "q = (a', b', c', d')" by (cases q)
  have step: "show_byte x = show_byte y \<and> r = s"
    if "show_byte x @ ''.'' @ r = show_byte y @ ''.'' @ s" for x y r s
    using split_first_eq[of "show_byte x" "CHR ''.''" r "show_byte y" s] that by simp
  have 1: "show_byte a = show_byte a' \<and> show_byte b @ ''.'' @ show_byte c @ ''.'' @ show_byte d =
      show_byte b' @ ''.'' @ show_byte c' @ ''.'' @ show_byte d'"
    using eq unfolding p q dotted.simps by (rule step)
  have 2: "show_byte b = show_byte b' \<and> show_byte c @ ''.'' @ show_byte d = show_byte c' @ ''.'' @ show_byte d'"
    using conjunct2[OF 1] by (rule step)
  have 3: "show_byte c = show_byte c' \<and> show_byte d = show_byte d'"
    using conjunct2[OF 2] by (rule step)
  show "p = q" using 1 2 3 by (simp only: show_byte_inj p q)
qed simp

lemma length_show_byte: "length (show_byte b) \<le> 3"
proof -
  have "unat b < 2 ^ LENGTH(8)" by (rule unsigned_less)
  then show ?thesis using length_show_nat[of "unat b" 2] by (simp add: show_byte_def)
qed

lemma length_dotted: "length (dotted p) \<le> 15"
proof -
  obtain a b c d where p: "p = (a, b, c, d)" by (cases p)
  show ?thesis
    using length_show_byte[of a] length_show_byte[of b] length_show_byte[of c] length_show_byte[of d]
    by (simp add: p)
qed

lemma dotted_chars: "x \<in> set (dotted p) \<Longrightarrow> isdigit x \<or> x = CHR ''.''"
proof -
  assume x: "x \<in> set (dotted p)"
  obtain a b c d where "p = (a, b, c, d)" by (cases p)
  with x have "x \<in> set (show_byte a) \<union> set (show_byte b) \<union> set (show_byte c) \<union> set (show_byte d) \<or>
      x = CHR ''.''"
    by simp blast
  then show ?thesis using show_nat_digits unfolding show_byte_def by blast
qed

lemma NUL_NL_notin_dotted [simp]: "NUL \<notin> set (dotted p)" "NL \<notin> set (dotted p)"
proof -
  have "NUL \<noteq> CHR ''.''" "NL \<noteq> CHR ''.''" by (simp_all add: NUL_def NL_def)
  then show "NUL \<notin> set (dotted p)" "NL \<notin> set (dotted p)"
    using dotted_chars[of NUL p] dotted_chars[of NL p] not_isdigit_sign by blast+
qed

lemma dotted_nonempty [simp]: "dotted p \<noteq> []"
  by (cases p) simp

text \<open>
  A 16-bit field of a header as it lies in memory is two bytes; a little-endian load makes the
  first byte the low one, and \<open>ntohs\<close> swaps them.
\<close>

definition load16 :: "8 word \<Rightarrow> 8 word \<Rightarrow> 16 word" where
  "load16 b0 b1 = word_of_nat (unat b0 + 256 * unat b1)"

definition swap16 :: "16 word \<Rightarrow> 16 word" where
  "swap16 w = word_of_nat (unat w div 256 + 256 * (unat w mod 256))"

definition ntohs :: "16 word \<Rightarrow> 16 word" where "ntohs = swap16"
definition htons :: "16 word \<Rightarrow> 16 word" where "htons = swap16"

lemma byte_bound: "unat (b :: 8 word) < 256"
proof -
  have "unat b < 2 ^ LENGTH(8)" by (rule unsigned_less)
  then show ?thesis by simp
qed

lemma half_bound: "unat (w :: 16 word) < 65536"
proof -
  have "unat w < 2 ^ LENGTH(16)" by (rule unsigned_less)
  then show ?thesis by simp
qed

lemma unat_of_nat16: "n < 65536 \<Longrightarrow> unat (word_of_nat n :: 16 word) = n"
  by (simp add: unat_of_nat take_bit_nat_eq_self)

lemma unat_load16: "unat (load16 b0 b1) = unat b0 + 256 * unat b1"
  unfolding load16_def using byte_bound[of b0] byte_bound[of b1] by (intro unat_of_nat16) linarith

lemma unat_swap16: "unat (swap16 w) = unat w div 256 + 256 * (unat w mod 256)"
proof -
  have "unat w div 256 \<le> 255" "unat w mod 256 \<le> 255"
    using half_bound[of w] by (auto simp: less_Suc_eq_le[symmetric] less_mult_imp_div_less)
  then have "unat w div 256 + 256 * (unat w mod 256) < 65536" by linarith
  then show ?thesis unfolding swap16_def by (rule unat_of_nat16)
qed

lemma unat_ntohs_load16: "unat (ntohs (load16 b0 b1)) = 256 * unat b0 + unat b1"
  using byte_bound[of b0] by (simp add: ntohs_def unat_swap16 unat_load16)

lemma swap16_swap16 [simp]: "swap16 (swap16 w) = w"
proof -
  have "unat w div 256 < 256" using half_bound[of w] by (simp add: less_mult_imp_div_less)
  then show ?thesis by (simp add: word_unat_eq_iff unat_swap16)
qed

lemma ntohs_htons [simp]: "ntohs (htons w) = w" "htons (ntohs w) = w"
  by (simp_all add: ntohs_def htons_def)


text \<open>Fields of a header in a packet, the list of its bytes.\<close>

type_synonym byte = "8 word"

definition IPPROTO_UDP :: byte where "IPPROTO_UDP = 17"

definition load16_at :: "byte list \<Rightarrow> nat \<Rightarrow> 16 word" where
  "load16_at buf i = load16 (buf ! i) (buf ! Suc i)"

definition addr_at :: "byte list \<Rightarrow> nat \<Rightarrow> ip4" where
  "addr_at buf i = (buf ! i, buf ! (i + 1), buf ! (i + 2), buf ! (i + 3))"

end
