(* ===== verification/Firewall.thy ===== *)
theory Firewall
  imports C_Net Table_Interface
begin

text \<open>
  module5/06: the packet filter (firewall.c). The block list is an array of 32 strings of 16 bytes
  with a count; commands arrive through the proc file, verdicts leave through the netfilter hook.
  \<open>None\<close> is undefined behaviour in the kernel; an error return is \<open>Inl\<close> of its errno.
\<close>

datatype errno = EINVAL | EFAULT | ENOSPC | ENOMEM | ENODEV

definition MAX_IPS :: nat where "MAX_IPS = 32"
definition IP_STR_LEN :: nat where "IP_STR_LEN = 16"

record firewall =
  blocked_ips :: "string list"
  ip_count :: nat

definition firewall_empty :: firewall where
  "firewall_empty = \<lparr>blocked_ips = replicate MAX_IPS [], ip_count = 0\<rparr>"

section \<open>The hook\<close>

datatype verdict = NF_ACCEPT | NF_DROP

record iphdr =
  version :: nat
  daddr :: ip4

text \<open>The packet is \<open>None\<close> when there is no buffer or it has no network header.\<close>

definition firewall_hook :: "firewall \<Rightarrow> iphdr option \<Rightarrow> verdict" where
  "firewall_hook fw skb =
     (case skb of
        None \<Rightarrow> NF_ACCEPT
      | Some ip_header \<Rightarrow>
          if version ip_header \<noteq> 4 then NF_ACCEPT
          else (let ip_str = snprintf_into IP_STR_LEN (dotted (daddr ip_header))
                in case find_from (\<lambda>b. strcmp ip_str b = 0) (blocked_ips fw) 0 (ip_count fw) of
                     Some i \<Rightarrow> NF_DROP
                   | None \<Rightarrow> NF_ACCEPT))"

section \<open>Commands\<close>

definition firewall_add :: "string \<Rightarrow> firewall \<Rightarrow> errno option \<times> firewall" where
  "firewall_add ip fw =
     (if MAX_IPS \<le> ip_count fw then (Some ENOSPC, fw)
      else case find_from (\<lambda>b. strcmp b ip = 0) (blocked_ips fw) 0 (ip_count fw) of
        Some i \<Rightarrow> (None, fw)
      | None \<Rightarrow> (None, fw\<lparr>blocked_ips := (blocked_ips fw)[ip_count fw := ip],
                          ip_count := Suc (ip_count fw)\<rparr>))"

definition firewall_del :: "string \<Rightarrow> firewall \<Rightarrow> firewall" where
  "firewall_del ip fw =
     (case find_from (\<lambda>b. strcmp b ip = 0) (blocked_ips fw) 0 (ip_count fw) of
        Some i \<Rightarrow> fw\<lparr>blocked_ips := shift_down (blocked_ips fw) i (ip_count fw),
                     ip_count := ip_count fw - 1\<rparr>
      | None \<Rightarrow> fw)"

text \<open>
  \<open>firewall_write\<close>: \<open>buf\<close> are the bytes written, \<open>fault\<close> says that copying them from user space
  fails. With no byte at all the code reads \<open>command[-1]\<close>, which is outside the array.
\<close>

definition firewall_write :: "string \<Rightarrow> bool \<Rightarrow> firewall \<Rightarrow> ((errno + nat) \<times> firewall) option" where
  "firewall_write buf fault fw =
     (let len = length buf in
      if 64 \<le> len then Some (Inl EINVAL, fw)
      else if fault then Some (Inl EFAULT, fw)
      else if len = 0 then None
      else (let command = cstr (if last buf = NL then butlast buf else buf) in
        if strncmp command ''add '' 4 = 0 then do {
          ip \<leftarrow> strcpy_into IP_STR_LEN (drop 4 command);
          let (err, fw') = firewall_add ip fw;
          Some (case err of Some e \<Rightarrow> Inl e | None \<Rightarrow> Inr len, fw')
        }
        else if strncmp command ''del '' 4 = 0 then do {
          ip \<leftarrow> strcpy_into IP_STR_LEN (drop 4 command);
          Some (Inr len, firewall_del ip fw)
        }
        else if strcmp command ''clear'' = 0 then Some (Inr len, fw\<lparr>ip_count := 0\<rparr>)
        else Some (Inl EINVAL, fw)))"

section \<open>Reading the list\<close>

text \<open>
  \<open>firewall_read\<close> formats into \<open>page[512]\<close>: each \<open>snprintf\<close> gets the room that is left and
  \<open>pos\<close> grows by the length of the whole text, fitted or not. Past the end the room is a huge
  unsigned number, which the kernel's \<open>snprintf\<close> refuses, returning 0. The bytes of the page
  before \<open>pos\<close> go to the user whatever size the user asked for; \<open>None\<close> when they run past
  the page. The text before the number is a Russian phrase of 27 bytes of UTF-8.
\<close>

definition PAGE_LEN :: nat where "PAGE_LEN = 512"

definition total_text :: string where
  "total_text = map char_of [208, 146, 209, 129, 208, 181, 208, 179, 208, 190, 32, 208, 176, 208, 180,
     209, 128, 208, 181, 209, 129, 208, 190, 208, 178, 58, 32 :: nat]"

definition page_append :: "string \<Rightarrow> string \<times> nat \<Rightarrow> string \<times> nat" where
  "page_append s pg =
     (case pg of (page, pos) \<Rightarrow>
        if PAGE_LEN < pos then (page, pos)
        else if pos = PAGE_LEN then (page, pos + length s)
        else (take pos page @ take (PAGE_LEN - pos - 1) s @ [NUL], pos + length s))"

function page_ips :: "string list \<Rightarrow> nat \<Rightarrow> nat \<Rightarrow> string \<times> nat \<Rightarrow> string \<times> nat" where
  "page_ips ips i n pg =
     (if i < n then page_ips ips (Suc i) n (page_append (ips ! i @ [NL]) pg) else pg)"
  by pat_completeness auto
termination
  by (relation "measure (\<lambda>(ips, i, n, pg). n - i)") auto

declare page_ips.simps [simp del]

definition firewall_read :: "firewall \<Rightarrow> bool \<Rightarrow> nat \<Rightarrow> ((errno + string) \<times> nat) option" where
  "firewall_read fw fault offset =
     (if 0 < offset then Some (Inr [], offset)
      else (let (page, pos) = page_ips (blocked_ips fw) 0 (ip_count fw)
                  (page_append (total_text @ show_nat (ip_count fw) @ [NL]) ([], 0))
            in if PAGE_LEN < pos then None
               else if fault then Some (Inl EFAULT, offset)
               else Some (Inr (take pos page), pos)))"

section \<open>Loading and unloading\<close>

text \<open>What the kernel holds for the module: the registered hook and the proc entry.\<close>

record fw_module =
  hook_registered :: bool
  proc_entry :: bool
  fw_state :: firewall

definition firewall_init :: "bool \<Rightarrow> bool \<Rightarrow> fw_module \<Rightarrow> errno option \<times> fw_module" where
  "firewall_init reg_ok proc_ok m =
     (if \<not> reg_ok then (Some ENOMEM, m)
      else (let m1 = m\<lparr>hook_registered := True\<rparr> in
        if \<not> proc_ok then (Some ENOMEM, m1\<lparr>hook_registered := False\<rparr>)
        else (None, m1\<lparr>proc_entry := True\<rparr>)))"

definition firewall_exit :: "fw_module \<Rightarrow> fw_module" where
  "firewall_exit m = m\<lparr>proc_entry := False, hook_registered := False,
                       fw_state := (fw_state m)\<lparr>ip_count := 0\<rparr>\<rparr>"

section \<open>The block list as a table\<close>

definition blocked :: "firewall \<Rightarrow> string list" where
  "blocked fw = take (ip_count fw) (blocked_ips fw)"

definition fw_wf :: "firewall \<Rightarrow> bool" where
  "fw_wf fw \<longleftrightarrow> length (blocked_ips fw) = MAX_IPS \<and> ip_count fw \<le> MAX_IPS"

lemma fw_wf_empty: "fw_wf firewall_empty" "blocked firewall_empty = []"
  by (simp_all add: fw_wf_def firewall_empty_def blocked_def)

lemma find_blocked:
  assumes "fw_wf fw"
  shows "find_from (\<lambda>b. strcmp b ip = 0) (blocked_ips fw) 0 (ip_count fw) = None \<longleftrightarrow> ip \<notin> set (blocked fw)"
    and "find_from (\<lambda>b. strcmp ip b = 0) (blocked_ips fw) 0 (ip_count fw) = None \<longleftrightarrow> ip \<notin> set (blocked fw)"
  using assms by (auto simp: find_from_None_take fw_wf_def blocked_def)

lemma length_blocked: "fw_wf fw \<Longrightarrow> length (blocked fw) = ip_count fw"
  by (simp add: blocked_def fw_wf_def)

lemma firewall_add_wf: "fw_wf fw \<Longrightarrow> fw_wf (snd (firewall_add ip fw))"
  by (auto simp: firewall_add_def fw_wf_def split: option.splits)

lemma firewall_add_blocked:
  assumes "fw_wf fw"
  shows "blocked (snd (firewall_add ip fw)) =
    (if ip \<in> set (blocked fw) \<or> MAX_IPS \<le> length (blocked fw) then blocked fw else blocked fw @ [ip])"
proof (cases "ip \<notin> set (blocked fw) \<and> ip_count fw < MAX_IPS")
  case True
  then have "find_from (\<lambda>b. strcmp b ip = 0) (blocked_ips fw) 0 (ip_count fw) = None"
    using find_blocked(1)[OF assms] by blast
  with True assms have "blocked (snd (firewall_add ip fw)) = blocked fw @ [ip]"
    by (simp add: firewall_add_def blocked_def fw_wf_def take_Suc_list_update)
  with True assms show ?thesis by (simp add: length_blocked)
next
  case False
  then have "blocked (snd (firewall_add ip fw)) = blocked fw"
    using find_blocked(1)[OF assms, of ip] by (auto simp: firewall_add_def split: option.splits)
  with False assms show ?thesis by (auto simp: length_blocked)
qed

lemma firewall_del_wf: "fw_wf fw \<Longrightarrow> fw_wf (firewall_del ip fw)"
  by (auto simp: firewall_del_def fw_wf_def split: option.splits)

lemma firewall_del_blocked:
  assumes "fw_wf fw"
  shows "blocked (firewall_del ip fw) = remove1 ip (blocked fw)"
proof (cases "find_from (\<lambda>b. strcmp b ip = 0) (blocked_ips fw) 0 (ip_count fw)")
  case None
  then have "ip \<notin> set (blocked fw)" using find_blocked(1)[OF assms] by blast
  with None show ?thesis by (simp add: firewall_del_def remove1_idem)
next
  case (Some i)
  have "ip_count fw \<le> length (blocked_ips fw)" using assms by (simp add: fw_wf_def)
  from shift_down_remove_first[OF Some this] Some show ?thesis
    by (simp add: firewall_del_def blocked_def remove_first_eq)
qed

interpretation fwt: bounded_table blocked fw_wf MAX_IPS "\<lambda>ip fw. snd (firewall_add ip fw)" firewall_del
  by unfold_locales
     (simp_all add: firewall_add_wf firewall_del_wf firewall_add_blocked firewall_del_blocked
       length_blocked, simp add: fw_wf_def)

lemma firewall_add_ok:
  assumes "fw_wf fw" "length (blocked fw) < MAX_IPS"
  shows "fst (firewall_add ip fw) = None"
  using assms by (auto simp: firewall_add_def length_blocked split: option.splits)

section \<open>Verdicts\<close>

lemma firewall_hook_blocked:
  assumes "fw_wf fw" "version ip = 4"
  shows "firewall_hook fw (Some ip) = NF_DROP \<longleftrightarrow> dotted (daddr ip) \<in> set (blocked fw)"
proof -
  have "length (dotted (daddr ip)) < IP_STR_LEN" using length_dotted[of "daddr ip"] by (simp add: IP_STR_LEN_def)
  then have "snprintf_into IP_STR_LEN (dotted (daddr ip)) = dotted (daddr ip)" by simp
  then show ?thesis
    using assms(2) find_blocked(2)[OF assms(1), of "dotted (daddr ip)"]
    by (cases "find_from (\<lambda>b. strcmp (dotted (daddr ip)) b = 0) (blocked_ips fw) 0 (ip_count fw)")
       (auto simp: firewall_hook_def Let_def)
qed

text \<open>The administrator's commands for addresses, as written to the proc file.\<close>

definition fw_command :: "ip4 table_op \<Rightarrow> string" where
  "fw_command r = (case r of Ins a \<Rightarrow> ''add '' @ dotted a @ [NL] | Del a \<Rightarrow> ''del '' @ dotted a @ [NL])"

definition fw_apply :: "ip4 table_op \<Rightarrow> firewall \<Rightarrow> firewall" where
  "fw_apply r fw = (case r of Ins a \<Rightarrow> snd (firewall_add (dotted a) fw) | Del a \<Rightarrow> firewall_del (dotted a) fw)"

fun firewall_writes :: "string list \<Rightarrow> firewall \<Rightarrow> firewall option" where
  "firewall_writes [] fw = Some fw"
| "firewall_writes (c # cs) fw = Option.bind (firewall_write c False fw) (\<lambda>(r, fw'). firewall_writes cs fw')"

lemma cstr_id [simp]: "NUL \<notin> set s \<Longrightarrow> cstr s = s"
  by (simp add: cstr_def)

lemma add_del_text [simp]: "NUL \<notin> set (''add '' @ dotted a)" "NUL \<notin> set (''del '' @ dotted a)"
  "NL \<noteq> CHR ''.''"
  using NUL_NL_notin_dotted[of a] by (simp_all add: NUL_def NL_def)

lemma firewall_write_command:
  "\<exists>r. firewall_write (fw_command c) False fw = Some (r, fw_apply c fw) \<and>
     ((\<exists>a. c = Ins a \<and> fst (firewall_add (dotted a) fw) = Some ENOSPC) \<or> r = Inr (length (fw_command c)))"
proof (cases c)
  case (Ins a)
  have "length (dotted a) < IP_STR_LEN" using length_dotted[of a] by (simp add: IP_STR_LEN_def)
  moreover have "cstr (''add '' @ dotted a) = ''add '' @ dotted a" by (rule cstr_id, rule add_del_text)
  ultimately show ?thesis
    using Ins length_dotted[of a]
    by (cases "fst (firewall_add (dotted a) fw)")
       (auto simp: firewall_write_def fw_command_def fw_apply_def strncmp_def butlast_append Let_def
         firewall_add_def split: prod.splits option.splits if_splits)
next
  case (Del a)
  have "length (dotted a) < IP_STR_LEN" using length_dotted[of a] by (simp add: IP_STR_LEN_def)
  moreover have "cstr (''del '' @ dotted a) = ''del '' @ dotted a" by (rule cstr_id, rule add_del_text)
  ultimately show ?thesis
    using Del length_dotted[of a]
    by (simp add: firewall_write_def fw_command_def fw_apply_def strncmp_def butlast_append Let_def)
qed

end
