(* ===== verification/Firewall_Props.thy ===== *)
theory Firewall_Props
  imports Firewall
begin

text \<open>
  The properties of the packet filter: which packets it drops after a history of commands, which
  writes leave the block list well formed and which overflow a buffer, and what a read returns.
\<close>

section \<open>Writes\<close>

lemma firewall_writes_commands:
  "firewall_writes (map fw_command ops) fw =
   Some (table_run (\<lambda>a. fw_apply (Ins a)) (\<lambda>a. fw_apply (Del a)) ops fw)"
proof (induction ops arbitrary: fw)
  case (Cons c ops)
  obtain r where "firewall_write (fw_command c) False fw = Some (r, fw_apply c fw)"
    using firewall_write_command by blast
  with Cons show ?case by (cases c) simp_all
qed simp

fun dotted_op :: "ip4 table_op \<Rightarrow> string table_op" where
  "dotted_op (Ins a) = Ins (dotted a)"
| "dotted_op (Del a) = Del (dotted a)"

lemma table_run_dotted:
  "table_run (\<lambda>a. fw_apply (Ins a)) (\<lambda>a. fw_apply (Del a)) ops fw =
   table_run (\<lambda>ip fw. snd (firewall_add ip fw)) firewall_del (map dotted_op ops) fw"
proof (induction ops arbitrary: fw)
  case (Cons c ops)
  then show ?case by (cases c) (simp_all add: fw_apply_def)
qed simp

lemma capped_run_dotted: "capped_run n (map dotted_op ops) (dotted ` S) = dotted ` capped_run n ops S"
proof (induction ops arbitrary: S)
  case (Cons c ops)
  have inj: "inj dotted" by (rule injI) (simp add: dotted_inj)
  then have card: "card (dotted ` S) = card S" by (metis card_image inj_on_subset subset_UNIV)
  show ?case
  proof (cases c)
    case (Ins a)
    then show ?thesis using Cons[of "insert a S"] Cons[of S] by (simp add: card)
  next
    case (Del a)
    have "dotted ` (S - {a}) = dotted ` S - {dotted a}"
      using image_set_diff[OF inj, of S "{a}"] by simp
    with Del show ?thesis using Cons[of "S - {a}"] by simp
  qed
qed simp

text \<open>
  C16. After any sequence of \<open>add\<close> and \<open>del\<close> commands with dotted addresses, written to the proc file of
  a freshly loaded module, all the writes are safe and the hook drops an IPv4 packet exactly when its
  destination is in the set the commands describe: an address is in it when it was added while fewer than
  32 others were and has not been deleted since; an addition to a full list has no effect.
\<close>

theorem firewall_blocks_exactly:
  "\<exists>fw. firewall_writes (map fw_command ops) firewall_empty = Some fw \<and>
    (\<forall>ip. firewall_hook fw (Some ip) =
       (if version ip = 4 \<and> daddr ip \<in> capped_run 32 ops {} then NF_DROP else NF_ACCEPT))"
proof -
  let ?fw = "table_run (\<lambda>ip fw. snd (firewall_add ip fw)) firewall_del (map dotted_op ops) firewall_empty"
  have "fw_wf ?fw" and set: "set (blocked ?fw) = dotted ` capped_run 32 ops {}"
    using fwt.run_wf_distinct[of firewall_empty "map dotted_op ops"]
      fwt.run_refines_capped[of firewall_empty "map dotted_op ops"] capped_run_dotted[of 32 ops "{}"]
    by (simp_all add: fw_wf_empty MAX_IPS_def)
  then have hook: "version ip = 4 \<Longrightarrow> firewall_hook ?fw (Some ip) = NF_DROP \<longleftrightarrow> daddr ip \<in> capped_run 32 ops {}" for ip
    by (simp add: firewall_hook_blocked image_iff dotted_inj)
  have accept: "version ip \<noteq> 4 \<Longrightarrow> firewall_hook ?fw (Some ip) = NF_ACCEPT" for ip
    by (simp add: firewall_hook_def)
  have "firewall_hook ?fw (Some ip) =
      (if version ip = 4 \<and> daddr ip \<in> capped_run 32 ops {} then NF_DROP else NF_ACCEPT)" for ip
    using hook[of ip] accept[of ip] by (cases "firewall_hook ?fw (Some ip)") auto
  then show ?thesis by (simp add: firewall_writes_commands table_run_dotted)
qed

lemma firewall_blocks_exactly_witness:
  "\<exists>fw. firewall_writes [''add '' @ dotted (10, 0, 0, 1) @ [NL], ''add '' @ dotted (10, 0, 0, 2) @ [NL],
       ''del '' @ dotted (10, 0, 0, 1) @ [NL]] firewall_empty = Some fw \<and>
     firewall_hook fw (Some \<lparr>version = 4, daddr = (10, 0, 0, 1)\<rparr>) = NF_ACCEPT \<and>
     firewall_hook fw (Some \<lparr>version = 4, daddr = (10, 0, 0, 2)\<rparr>) = NF_DROP"
proof -
  let ?ops = "[Ins (10, 0, 0, 1), Ins (10, 0, 0, 2), Del (10, 0, 0, 1)] :: ip4 table_op list"
  from firewall_blocks_exactly[of ?ops] obtain fw where
    fw: "firewall_writes (map fw_command ?ops) firewall_empty = Some fw"
    and hook: "\<forall>ip. firewall_hook fw (Some ip) =
      (if version ip = 4 \<and> daddr ip \<in> capped_run 32 ?ops {} then NF_DROP else NF_ACCEPT)" by blast
  have "map fw_command ?ops = [''add '' @ dotted (10, 0, 0, 1) @ [NL], ''add '' @ dotted (10, 0, 0, 2) @ [NL],
       ''del '' @ dotted (10, 0, 0, 1) @ [NL]]"
    by (simp only: fw_command_def list.map table_op.case)
  with fw hook show ?thesis by (intro exI[of _ fw]) (simp del: dotted.simps firewall_writes.simps)
qed

section \<open>Arbitrary writes\<close>

text \<open>The text the command handler compares: without the last newline, up to the first NUL.\<close>

definition command_text :: "string \<Rightarrow> string" where
  "command_text buf = cstr (if last buf = NL then butlast buf else buf)"

definition address_command :: "string \<Rightarrow> bool" where
  "address_command c \<longleftrightarrow> prefix ''add '' c \<or> prefix ''del '' c"

lemma strncmp_4: "strncmp c ''add '' 4 = 0 \<longleftrightarrow> prefix ''add '' c" "strncmp c ''del '' 4 = 0 \<longleftrightarrow> prefix ''del '' c"
  using strncmp_prefix[of c "''add ''"] strncmp_prefix[of c "''del ''"] by (simp_all add: eval_nat_numeral)

lemma firewall_write_cases:
  assumes "length buf < 64" "buf \<noteq> []"
  shows "firewall_write buf False fw =
    (let c = command_text buf; ip = drop 4 c in
     if address_command c \<and> IP_STR_LEN \<le> length ip then None
     else if prefix ''add '' c then
       Some (case fst (firewall_add ip fw) of Some e \<Rightarrow> Inl e | None \<Rightarrow> Inr (length buf), snd (firewall_add ip fw))
     else if prefix ''del '' c then Some (Inr (length buf), firewall_del ip fw)
     else if c = ''clear'' then Some (Inr (length buf), fw\<lparr>ip_count := 0\<rparr>)
     else Some (Inl EINVAL, fw))"
  using assms
  by (auto simp: firewall_write_def Let_def strncmp_4 command_text_def[symmetric] address_command_def
      strcpy_into_def split: prod.splits option.splits)

text \<open>
  C17. Every write, by any process and with any bytes: it is undefined behaviour exactly when the
  write is empty (the handler then reads the byte before its buffer) or is an \<open>add\<close> or \<open>del\<close>
  command shorter than 64 bytes whose address has 16 or more characters (\<open>strcpy\<close> runs past the
  16-byte array on the kernel stack); otherwise the block list stays well formed and free of
  duplicates, and a failed write leaves it as it was.
\<close>

theorem firewall_write_safety:
  assumes "fw_wf fw" "distinct (blocked fw)"
  shows "((firewall_write buf fault fw = None) =
      (\<not> fault \<and> (buf = [] \<or> (length buf < 64 \<and> address_command (command_text buf) \<and>
         IP_STR_LEN + 4 \<le> length (command_text buf))))) \<and>
    (\<forall>r fw'. firewall_write buf fault fw = Some (r, fw') \<longrightarrow>
      fw_wf fw' \<and> distinct (blocked fw') \<and> ((\<exists>e. r = Inl e) \<longrightarrow> fw' = fw))"
proof -
  let ?c = "command_text buf"
  consider "fault \<or> 64 \<le> length buf" | "\<not> fault" "buf = []" | "\<not> fault" "buf \<noteq> []" "length buf < 64"
    by fastforce
  then show ?thesis
  proof cases
    case 1
    then show ?thesis using assms by (auto simp: firewall_write_def Let_def)
  next
    case 2
    then show ?thesis by (simp add: firewall_write_def)
  next
    case 3
    have len: "IP_STR_LEN \<le> length ?c - 4 \<longleftrightarrow> IP_STR_LEN + 4 \<le> length ?c"
      by (auto simp: IP_STR_LEN_def)
    have add: "fst (firewall_add ip fw) = Some e \<Longrightarrow> snd (firewall_add ip fw) = fw" for ip e
      by (auto simp: firewall_add_def split: if_splits option.splits)
    have clear: "fw_wf (fw\<lparr>ip_count := 0\<rparr>)" "blocked (fw\<lparr>ip_count := 0\<rparr>) = []"
      using assms(1) by (simp_all add: fw_wf_def blocked_def)
    show ?thesis
      using 3 assms add clear
      by (auto simp: firewall_write_cases Let_def len firewall_add_wf firewall_del_wf
          fwt.distinct_ins fwt.distinct_del split: if_splits option.splits)
  qed
qed

lemma firewall_write_safety_witness:
  "firewall_write ''add 192.168.100.1000'' False firewall_empty = None \<and>
   firewall_write ''clear'' False firewall_empty = Some (Inr 5, firewall_empty)"
proof
  have c: "command_text ''add 192.168.100.1000'' = ''add 192.168.100.1000''"
    by (simp add: command_text_def cstr_def NUL_def NL_def)
  show "firewall_write ''add 192.168.100.1000'' False firewall_empty = None"
    using firewall_write_safety[of firewall_empty "''add 192.168.100.1000''" False]
    by (simp add: fw_wf_empty c address_command_def IP_STR_LEN_def)
  show "firewall_write ''clear'' False firewall_empty = Some (Inr 5, firewall_empty)"
    by (simp add: firewall_write_def Let_def cstr_def NUL_def NL_def strncmp_def firewall_empty_def)
qed

section \<open>Reads\<close>

text \<open>The text a read is meant to return: the number of addresses and one line for each.\<close>

definition fw_listing :: "firewall \<Rightarrow> string" where
  "fw_listing fw = total_text @ show_nat (ip_count fw) @ [NL] @ concat (map (\<lambda>ip. ip @ [NL]) (blocked fw))"

definition page_holds :: "string \<Rightarrow> string \<times> nat \<Rightarrow> bool" where
  "page_holds L pg \<longleftrightarrow>
     (if length L \<le> PAGE_LEN
      then snd pg = length L \<and> take (length L) (fst pg) = (if length L < PAGE_LEN then L else butlast L @ [NUL])
      else PAGE_LEN < snd pg)"

lemma page_append_holds:
  assumes "page_holds L pg" "s \<noteq> []"
  shows "page_holds (L @ s) (page_append s pg)"
proof (cases "length L < PAGE_LEN")
  case True
  then have pg: "snd pg = length L" "take (length L) (fst pg) = L"
    using assms(1) by (auto simp: page_holds_def)
  have ap: "page_append s pg = (L @ take (PAGE_LEN - length L - 1) s @ [NUL], length L + length s)"
    using pg True by (cases pg) (simp add: page_append_def)
  consider "length L + length s < PAGE_LEN" | "length L + length s = PAGE_LEN" | "PAGE_LEN < length L + length s"
    by linarith
  then show ?thesis
  proof cases
    case 2
    then have "PAGE_LEN - length L - 1 = length s - 1" by linarith
    then have "take (PAGE_LEN - length L - 1) s = butlast s" by (simp only: butlast_conv_take)
    moreover have "length L + (length s - Suc 0) < PAGE_LEN" using 2 assms(2) by (cases s) auto
    ultimately show ?thesis using 2 assms(2) by (simp add: ap page_holds_def butlast_append)
  qed (simp_all add: ap page_holds_def)
next
  case False
  then show ?thesis using assms by (cases pg) (auto simp: page_holds_def page_append_def split: if_splits)
qed

lemma page_ips_holds:
  "page_holds L pg \<Longrightarrow> n \<le> length ips \<Longrightarrow>
   page_holds (L @ concat (map (\<lambda>ip. ip @ [NL]) (drop i (take n ips)))) (page_ips ips i n pg)"
proof (induction ips i n pg arbitrary: L rule: page_ips.induct)
  case (1 ips i n pg)
  show ?case
  proof (cases "i < n")
    case True
    then have "drop i (take n ips) = ips ! i # drop (Suc i) (take n ips)"
      using 1(3) by (simp add: Cons_nth_drop_Suc[symmetric])
    with 1(1)[OF True page_append_holds[OF 1(2), of "ips ! i @ [NL]"]] 1(3) True show ?thesis
      by (subst page_ips.simps) simp
  next
    case False
    with 1(2) show ?thesis by (subst page_ips.simps) simp
  qed
qed

text \<open>
  What a first read returns. A listing shorter than the 512-byte page is returned whole; one of
  exactly 512 bytes loses its last byte to the terminating NUL; a longer one makes the handler
  copy bytes from beyond the page to the user, because \<open>pos\<close> sums what \<open>snprintf\<close> would have
  written. Thirty-two addresses of fifteen characters, which the table accepts, are such a list.
\<close>

lemma firewall_read_exact:
  assumes "fw_wf fw"
  shows "firewall_read fw False 0 =
    (if length (fw_listing fw) < PAGE_LEN then Some (Inr (fw_listing fw), length (fw_listing fw))
     else if length (fw_listing fw) = PAGE_LEN then Some (Inr (butlast (fw_listing fw) @ [NUL]), PAGE_LEN)
     else None)"
proof -
  let ?head = "total_text @ show_nat (ip_count fw) @ [NL]"
  have "page_holds ([] @ ?head) (page_append ?head ([], 0))"
    by (rule page_append_holds) (simp_all add: page_holds_def PAGE_LEN_def)
  then have "page_holds (fw_listing fw) (page_ips (blocked_ips fw) 0 (ip_count fw) (page_append ?head ([], 0)))"
    using page_ips_holds[of ?head "page_append ?head ([], 0)" "ip_count fw" "blocked_ips fw" 0] assms
    by (simp add: fw_listing_def blocked_def fw_wf_def)
  then show ?thesis
    by (auto simp: firewall_read_def page_holds_def split: prod.splits if_splits)
qed

end
