(* ===== verification/Reader_Interface.thy ===== *)
theory Reader_Interface
  imports C_Strings
begin

text \<open>
  The contract of a \<open>read\<close> operation that hands out a fixed content piece by piece, and the loop of
  a user program (\<open>cat\<close>) that reads with a buffer of \<open>n\<close> bytes until it gets none. The loop's fuel
  is the number of reads.
\<close>

fun cat :: "(nat \<Rightarrow> 's \<Rightarrow> string \<times> 's) \<Rightarrow> nat \<Rightarrow> nat \<Rightarrow> 's \<Rightarrow> (string \<times> 's) option" where
  "cat rd n 0 s = None"
| "cat rd n (Suc k) s =
     (let (out, s') = rd n s
      in if out = [] then Some ([], s') else map_option (\<lambda>(rest, s''). (out @ rest, s'')) (cat rd n k s'))"

locale sequential_reader =
  fixes rd :: "nat \<Rightarrow> 's \<Rightarrow> string \<times> 's"
    and pending :: "'s \<Rightarrow> string"
  assumes rd_out: "fst (rd n s) = take n (pending s)"
    and rd_rest: "pending (snd (rd n s)) = drop n (pending s)"
begin

lemma rd_progress: "0 < n \<Longrightarrow> pending s \<noteq> [] \<Longrightarrow> length (pending (snd (rd n s))) < length (pending s)"
  by (simp add: rd_rest)

lemma two_reads: "fst (rd m s) @ fst (rd n (snd (rd m s))) = fst (rd (m + n) s)"
  by (simp add: rd_out rd_rest take_add)

lemma reads_all:
  "0 < n \<Longrightarrow> length (pending s) < k \<Longrightarrow>
   \<exists>s'. cat rd n k s = Some (pending s, s') \<and> pending s' = []"
proof (induction k arbitrary: s)
  case (Suc k)
  obtain out s1 where r: "rd n s = (out, s1)" by (cases "rd n s")
  then have o: "out = take n (pending s)" "pending s1 = drop n (pending s)"
    using rd_out[of n s] rd_rest[of n s] by simp_all
  show ?case
  proof (cases "pending s = []")
    case True
    with r o show ?thesis by simp
  next
    case False
    then have "length (pending s1) < k" using Suc.prems o by (cases "pending s") auto
    then obtain s' where "cat rd n k s1 = Some (pending s1, s')" "pending s' = []"
      using Suc.IH[OF Suc.prems(1)] by blast
    with False Suc.prems(1) r o show ?thesis by simp
  qed
qed simp

end

end
