(* ===== verification/Kernel_Modules.thy ===== *)
theory Kernel_Modules
  imports C_Decimal Reader_Interface
begin

text \<open>
  The small kernel modules of module5: the character driver (04/chardev.c), the proc file
  (02/procmod.c), the keyboard lights (03/kbleds.c) and the netlink echo (05), and the first one, which
  only prints (01/hello.c). Each model has the module's variables, its file operations and its load
  and unload. What the kernel holds for a module is a set of resources; releasing one that is not
  held is undefined (\<open>None\<close>). \<open>printk\<close> is left out of the others.

  Copying from user space may stop after some bytes: \<open>Some k\<close> says the fault comes after \<open>k\<close>; the
  kernel then clears the rest of the destination.
\<close>

datatype 'a io_result = IoErr int | IoOk 'a

definition nr_EFAULT :: int where "nr_EFAULT = 14"
definition nr_ENOMEM :: int where "nr_ENOMEM = 12"
definition nr_EINVAL :: int where "nr_EINVAL = 22"
definition nr_ENODEV :: int where "nr_ENODEV = 19"

definition release :: "'r \<Rightarrow> 'r set \<Rightarrow> 'r set option" where
  "release r held = (if r \<in> held then Some (held - {r}) else None)"

definition copy_from_user :: "nat option \<Rightarrow> string \<Rightarrow> string \<Rightarrow> string \<times> bool" where
  "copy_from_user fault src dst =
     (case fault of
        None \<Rightarrow> (src @ drop (length src) dst, True)
      | Some k \<Rightarrow> (take k src @ replicate (length src - k) NUL @ drop (length src) dst, False))"

section \<open>hello.c\<close>

definition hello_init :: "string list \<Rightarrow> int \<times> string list" where
  "hello_init kernel_log = (0, kernel_log @ [''Hello, World!'' @ [NL]])"

definition hello_exit :: "string list \<Rightarrow> string list" where
  "hello_exit kernel_log = kernel_log @ [''Goodbye, World!'' @ [NL]]"

section \<open>chardev.c\<close>

definition CHARDEV_BUF :: nat where "CHARDEV_BUF = 128"

datatype chardev_resource = DeviceBuffer | CharDevice | DeviceClass | DeviceNode

record chardev =
  device_buffer :: string
  buffer_len :: nat

text \<open>
  \<open>register_chrdev\<close> returns a negative errno or the major number; the class and the device are an
  error pointer (its errno) or not. The contents of the fresh buffer are unknown but for the
  first byte.
\<close>

definition chardev_init :: "string option \<Rightarrow> int \<Rightarrow> int option \<Rightarrow> int option \<Rightarrow>
    (int \<times> chardev_resource set \<times> chardev option) option" where
  "chardev_init kmalloc register class_err device_err =
     (case kmalloc of
        None \<Rightarrow> Some (- nr_ENOMEM, {}, None)
      | Some mem \<Rightarrow>
          (let dev = \<lparr>device_buffer = mem[0 := NUL], buffer_len = 0\<rparr>; held = {DeviceBuffer} in
           if register < 0 then do {
             held \<leftarrow> release DeviceBuffer held;
             Some (register, held, None)
           }
           else (let held = insert CharDevice held in
             case class_err of
               Some e \<Rightarrow> do {
                 held \<leftarrow> release CharDevice held;
                 held \<leftarrow> release DeviceBuffer held;
                 Some (e, held, None)
               }
             | None \<Rightarrow>
                 (let held = insert DeviceClass held in
                  case device_err of
                    Some e \<Rightarrow> do {
                      held \<leftarrow> release DeviceClass held;
                      held \<leftarrow> release CharDevice held;
                      held \<leftarrow> release DeviceBuffer held;
                      Some (e, held, None)
                    }
                  | None \<Rightarrow> Some (0, insert DeviceNode held, Some dev)))))"

definition chardev_exit :: "chardev_resource set \<Rightarrow> chardev_resource set option" where
  "chardev_exit held = do {
     held \<leftarrow> release DeviceNode held;
     held \<leftarrow> release DeviceClass held;
     held \<leftarrow> release CharDevice held;
     release DeviceBuffer held
   }"

text \<open>A file just opened is read and written from its start.\<close>

definition chardev_open :: "chardev \<Rightarrow> int \<times> chardev" where "chardev_open dev = (0, dev)"

definition chardev_release :: "chardev \<Rightarrow> int \<times> chardev" where "chardev_release dev = (0, dev)"

definition chardev_read :: "nat \<Rightarrow> bool \<Rightarrow> chardev \<Rightarrow> nat \<Rightarrow> string io_result \<times> nat" where
  "chardev_read count fault dev offset =
     (if buffer_len dev \<le> offset then (IoOk [], offset)
      else (let bytes_to_read = buffer_len dev - offset;
                bytes_to_read = (if count < bytes_to_read then count else bytes_to_read)
            in if fault then (IoErr (- nr_EFAULT), offset)
               else (IoOk (take bytes_to_read (drop offset (device_buffer dev))), offset + bytes_to_read)))"

definition chardev_write :: "string \<Rightarrow> nat option \<Rightarrow> chardev \<Rightarrow> nat io_result \<times> chardev" where
  "chardev_write buf fault dev =
     (let count = length buf;
          bytes_to_write = (if CHARDEV_BUF \<le> count then CHARDEV_BUF - 1 else count);
          (mem, ok) = copy_from_user fault (take bytes_to_write buf) (device_buffer dev)
      in if \<not> ok then (IoErr (- nr_EFAULT), dev\<lparr>device_buffer := mem\<rparr>)
         else (IoOk bytes_to_write,
               dev\<lparr>device_buffer := mem[bytes_to_write := NUL], buffer_len := bytes_to_write\<rparr>))"

section \<open>procmod.c\<close>

definition PROCMOD_BUF :: nat where "PROCMOD_BUF = 100"

record procmod =
  pm_msg :: string
  pm_len :: nat
  pm_temp :: nat

text \<open>The results of the copies are ignored; the file offset is not used.\<close>

definition read_proc :: "nat \<Rightarrow> procmod \<Rightarrow> string \<times> procmod" where
  "read_proc count m =
     (let count = (if pm_temp m < count then pm_temp m else count);
          m1 = m\<lparr>pm_temp := pm_temp m - count\<rparr>
      in (take count (pm_msg m), if count = 0 then m1\<lparr>pm_temp := pm_len m\<rparr> else m1))"

definition write_proc :: "string \<Rightarrow> nat option \<Rightarrow> procmod \<Rightarrow> nat \<times> procmod" where
  "write_proc buf fault m =
     (let count = (if PROCMOD_BUF - 1 < length buf then PROCMOD_BUF - 1 else length buf);
          mem = fst (copy_from_user fault (take count buf) (pm_msg m))
      in (count, m\<lparr>pm_msg := mem[count := NUL], pm_len := count, pm_temp := count\<rparr>))"

datatype procmod_resource = MsgBuffer | ProcEntry

text \<open>The result of \<open>proc_create\<close> is not looked at: the module loads without its entry.\<close>

definition procmod_init :: "string option \<Rightarrow> bool \<Rightarrow> int \<times> procmod_resource set \<times> procmod option" where
  "procmod_init kmalloc proc_ok =
     (case kmalloc of
        None \<Rightarrow> (- nr_ENOMEM, {}, None)
      | Some mem \<Rightarrow> (0, (if proc_ok then {MsgBuffer, ProcEntry} else {MsgBuffer}),
                     Some \<lparr>pm_msg = mem[0 := NUL], pm_len = 0, pm_temp = 0\<rparr>))"

definition procmod_exit :: "procmod_resource set \<Rightarrow> procmod_resource set option" where
  "procmod_exit held = do {
     let held = held - {ProcEntry};
     release MsgBuffer held
   }"

section \<open>kbleds.c\<close>

definition RESTORE_LEDS :: int where "RESTORE_LEDS = 255"

datatype kbleds_resource = KbledsKobject | ModeFile | BlinkTimer

text \<open>The values sent to the console driver with \<open>KDSETLED\<close> are logged.\<close>

record kbleds =
  blink_mode :: int
  current_leds :: int
  ioctls :: "int list"
  kb_held :: "kbleds_resource set"

definition my_timer_func :: "kbleds \<Rightarrow> kbleds" where
  "my_timer_func k =
     (let leds = (if current_leds k = blink_mode k then RESTORE_LEDS else blink_mode k)
      in k\<lparr>current_leds := leds, ioctls := ioctls k @ [leds], kb_held := insert BlinkTimer (kb_held k)\<rparr>)"

definition mode_show :: "kbleds \<Rightarrow> string" where
  "mode_show k = show_int (blink_mode k) @ [NL]"

definition mode_store :: "string \<Rightarrow> kbleds \<Rightarrow> nat io_result \<times> kbleds" where
  "mode_store buf k =
     (case sscanf_d buf of
        None \<Rightarrow> (IoErr (- nr_EINVAL), k)
      | Some new_mode \<Rightarrow>
          (IoOk (length buf),
           if 0 \<le> new_mode \<and> new_mode \<le> 7
           then (let k1 = k\<lparr>blink_mode := new_mode\<rparr> in
                 if blink_mode k1 = 0
                 then k1\<lparr>current_leds := RESTORE_LEDS, ioctls := ioctls k1 @ [RESTORE_LEDS]\<rparr>
                 else k1)
           else k))"

definition kbleds_init :: "bool \<Rightarrow> bool \<Rightarrow> bool \<Rightarrow> int \<Rightarrow> (int \<times> kbleds) option" where
  "kbleds_init console driver kobject_ok sysfs_error =
     (let k = \<lparr>blink_mode = 0, current_leds = 0, ioctls = [], kb_held = {}\<rparr> in
      if \<not> console then Some (- nr_ENODEV, k)
      else if \<not> driver then Some (- nr_ENODEV, k)
      else if \<not> kobject_ok then Some (- nr_ENOMEM, k)
      else (let held = {KbledsKobject} in
        if sysfs_error \<noteq> 0 then do {
          held \<leftarrow> release KbledsKobject held;
          Some (sysfs_error, k\<lparr>kb_held := held\<rparr>)
        }
        else Some (0, k\<lparr>kb_held := {KbledsKobject, ModeFile, BlinkTimer}\<rparr>)))"

text \<open>
  The cleanup removes \<open>mode\<close> from the parent of the kernel's own kobject. Whether that one has a parent is
  the kernel's matter, a parameter: if it has, the parent is a directory where the module never put a file,
  so the module's file and kobject stay; if it has none, \<open>sysfs_remove_file\<close> gets a null pointer (\<open>None\<close>).
\<close>

definition kbleds_cleanup :: "bool \<Rightarrow> kbleds \<Rightarrow> kbleds option" where
  "kbleds_cleanup has_parent k =
     (let k1 = k\<lparr>kb_held := kb_held k - {BlinkTimer}, ioctls := ioctls k @ [RESTORE_LEDS]\<rparr>
      in if has_parent then Some k1 else None)"

section \<open>netlinkmod.c and netlink_user.c\<close>

text \<open>
  A message is the sender's id and its payload bytes. \<open>pad\<close> is the number of zero bytes the
  kernel's \<open>nlmsg_put\<close> appends to a payload of the given size to align the message.
\<close>

record nlmsg =
  nlmsg_pid :: nat
  nlmsg_payload :: string

definition nl_reply_text :: string where
  "nl_reply_text = ''Hello from kernel!''"

definition nl_recv_msg :: "(nat \<Rightarrow> nat) \<Rightarrow> bool \<Rightarrow> nlmsg \<Rightarrow> (nat \<times> string) option" where
  "nl_recv_msg pad alloc_ok m =
     (let pid = nlmsg_pid m; msg_size = length nl_reply_text in
      if \<not> alloc_ok then None
      else Some (pid, take msg_size nl_reply_text @ replicate (pad msg_size) NUL))"

definition NL_MAX_PAYLOAD :: nat where "NL_MAX_PAYLOAD = 1024"

text \<open>The text the user program sends, 23 bytes of UTF-8.\<close>

definition nl_greeting :: string where
  "nl_greeting = map char_of [208, 159, 209, 128, 208, 184, 208, 178, 208, 181, 209, 130, 44, 32,
     209, 143, 208, 180, 209, 128, 208, 190, 33 :: nat]"

datatype nl_exit = NlFailed | NlBlocked | NlPrinted string | NlFault

text \<open>
  The user's buffer is one message of 1024 payload bytes, cleared, with the greeting copied to its
  start; the reply is received into the same buffer and printed as a C string. With no reply the
  program waits for ever (\<open>NlBlocked\<close>). The result of \<open>malloc\<close> is not checked (\<open>NlFault\<close>).
\<close>

definition nl_user_main :: "bool \<Rightarrow> bool \<Rightarrow> bool \<Rightarrow> bool \<Rightarrow> bool \<Rightarrow> nat \<Rightarrow> (nlmsg \<Rightarrow> (nat \<times> string) option) \<Rightarrow> nl_exit" where
  "nl_user_main socket_ok bind_ok mem_ok send_ok recv_ok pid recv =
     (if \<not> socket_ok then NlFailed
      else if \<not> bind_ok then NlFailed
      else if \<not> mem_ok then NlFault
      else (let buf = nl_greeting @ replicate (NL_MAX_PAYLOAD - length nl_greeting) NUL in
        if \<not> send_ok then NlFailed
        else if \<not> recv_ok then NlFailed
        else case recv \<lparr>nlmsg_pid = pid, nlmsg_payload = buf\<rparr> of
          None \<Rightarrow> NlBlocked
        | Some (dest, reply) \<Rightarrow>
            if dest \<noteq> pid then NlBlocked
            else (let buf' = take NL_MAX_PAYLOAD reply @ drop (length reply) buf
                  in NlPrinted (cstr buf'))))"

datatype nl_resource = NlSocket

definition netlinkmod_init :: "bool \<Rightarrow> int \<times> nl_resource set" where
  "netlinkmod_init create_ok = (if \<not> create_ok then (- nr_ENOMEM, {}) else (0, {NlSocket}))"

definition netlinkmod_exit :: "nl_resource set \<Rightarrow> nl_resource set option" where
  "netlinkmod_exit held = release NlSocket held"

end
