(* ===== verification/Kernel_Props.thy ===== *)
theory Kernel_Props
  imports Kernel_Modules
begin

text \<open>
  The properties of the small kernel modules: what readers get back, what loading and unloading
  hold and release, what the lights show.
\<close>

section \<open>The character device\<close>

definition chardev_wf :: "chardev \<Rightarrow> bool" where
  "chardev_wf d \<longleftrightarrow> length (device_buffer d) = CHARDEV_BUF \<and> buffer_len d < CHARDEV_BUF"

definition chardev_content :: "chardev \<Rightarrow> string" where
  "chardev_content d = take (buffer_len d) (device_buffer d)"

text \<open>One open file: the device does not change while it is read, the offset advances.\<close>

definition chardev_rd :: "nat \<Rightarrow> chardev \<times> nat \<Rightarrow> string \<times> chardev \<times> nat" where
  "chardev_rd n s =
     (case chardev_read n False (fst s) (snd s) of
        (IoOk out, offset) \<Rightarrow> (out, fst s, offset)
      | (IoErr e, offset) \<Rightarrow> ([], fst s, offset))"

definition chardev_pending :: "chardev \<times> nat \<Rightarrow> string" where
  "chardev_pending s = drop (snd s) (chardev_content (fst s))"

lemma chardev_rd_out: "fst (chardev_rd n s) = take n (chardev_pending s)"
  by (cases s) (auto simp: chardev_rd_def chardev_read_def chardev_pending_def chardev_content_def Let_def
      drop_take min_def)

lemma chardev_rd_rest: "chardev_pending (snd (chardev_rd n s)) = drop n (chardev_pending s)"
proof (cases s)
  case (Pair d off)
  show ?thesis
  proof (cases "n < buffer_len d - off")
    case True
    with Pair show ?thesis
      by (simp add: chardev_rd_def chardev_read_def chardev_pending_def chardev_content_def add.commute[of n off])
  next
    case False
    with Pair show ?thesis
      by (auto simp: chardev_rd_def chardev_read_def chardev_pending_def chardev_content_def Let_def)
  qed
qed

interpretation chardev_reader: sequential_reader chardev_rd chardev_pending
  by unfold_locales (simp_all only: chardev_rd_out chardev_rd_rest)

lemma copy_from_user_length: "length src \<le> length dst \<Longrightarrow> length (fst (copy_from_user f src dst)) = length dst"
  by (auto simp: copy_from_user_def split: option.splits)

lemma chardev_write_wf: "chardev_wf d \<Longrightarrow> chardev_wf (snd (chardev_write buf fault d))"
  using copy_from_user_length[of "take (if CHARDEV_BUF \<le> length buf then CHARDEV_BUF - 1 else length buf) buf" "device_buffer d" fault]
  by (auto simp: chardev_write_def chardev_wf_def Let_def CHARDEV_BUF_def split: prod.splits)

lemma chardev_write_content:
  "chardev_wf d \<Longrightarrow> chardev_content (snd (chardev_write buf None d)) = take (CHARDEV_BUF - 1) buf"
  by (auto simp: chardev_write_def chardev_wf_def chardev_content_def copy_from_user_def Let_def)

text \<open>
  C27. What was written is what is read: after a successful write to the device, a program that opens
  it and reads with any buffer size until it gets nothing has received exactly the bytes written,
  up to the 127 the device keeps.
\<close>

theorem chardev_write_read:
  assumes "chardev_wf d" "0 < n" "CHARDEV_BUF \<le> k"
  shows "\<exists>s. cat chardev_rd n k (snd (chardev_write buf None d), 0) = Some (take (CHARDEV_BUF - 1) buf, s) \<and>
    fst (chardev_write buf None d) = IoOk (length (take (CHARDEV_BUF - 1) buf))"
proof -
  let ?s = "(snd (chardev_write buf None d), 0 :: nat)"
  have p: "chardev_pending ?s = take (CHARDEV_BUF - 1) buf"
    using chardev_write_content[OF assms(1)] by (simp add: chardev_pending_def)
  then have "length (chardev_pending ?s) < k" using assms(3) by (simp add: CHARDEV_BUF_def)
  from chardev_reader.reads_all[OF assms(2) this] p
  obtain s where "cat chardev_rd n k ?s = Some (take (CHARDEV_BUF - 1) buf, s)" by auto
  moreover have "fst (chardev_write buf None d) = IoOk (length (take (CHARDEV_BUF - 1) buf))"
    by (auto simp: chardev_write_def copy_from_user_def Let_def CHARDEV_BUF_def)
  ultimately show ?thesis by blast
qed

lemma chardev_write_read_witness:
  "\<exists>s. cat chardev_rd 2 128 (snd (chardev_write ''hello'' None \<lparr>device_buffer = replicate 128 NUL, buffer_len = 0\<rparr>), 0)
     = Some (''hello'', s)"
  using chardev_write_read[of "\<lparr>device_buffer = replicate 128 NUL, buffer_len = 0\<rparr>" 2 128 "''hello''"]
  by (auto simp: chardev_wf_def CHARDEV_BUF_def simp del: cat.simps)

text \<open>
  Loading the character device: whichever step fails, the error is returned and everything
  acquired before is released, exactly once; a successful load holds the four resources and
  unloading then releases them all.
\<close>

lemma chardev_load_unload:
  "\<exists>r held dev. chardev_init mem reg ce de = Some (r, held, dev) \<and>
    (case dev of None \<Rightarrow> held = {}
     | Some d \<Rightarrow> r = 0 \<and> held = {DeviceBuffer, CharDevice, DeviceClass, DeviceNode} \<and> chardev_exit held = Some {} \<and>
         chardev_content d = []) \<and>
    (dev \<noteq> None \<longleftrightarrow> mem \<noteq> None \<and> 0 \<le> reg \<and> ce = None \<and> de = None)"
  by (auto simp: chardev_init_def chardev_exit_def release_def chardev_content_def Let_def split: option.splits)

section \<open>The proc file\<close>

lemma read_proc_steps:
  "0 < n \<Longrightarrow> pm_temp m \<noteq> 0 \<Longrightarrow>
   read_proc n m = (take (min n (pm_temp m)) (pm_msg m), m\<lparr>pm_temp := pm_temp m - n\<rparr>)"
  by (auto simp: read_proc_def Let_def min_def)

lemma read_proc_end: "pm_temp m = 0 \<Longrightarrow> read_proc n m = ([], m\<lparr>pm_temp := pm_len m\<rparr>)"
  by (simp add: read_proc_def)

definition procmod_wf :: "procmod \<Rightarrow> bool" where
  "procmod_wf m \<longleftrightarrow> length (pm_msg m) = PROCMOD_BUF \<and> pm_len m < PROCMOD_BUF \<and> pm_temp m \<le> pm_len m"

text \<open>What a reading program collects: whole pieces from the start of the message, again and again.\<close>

fun repeated_prefixes :: "nat \<Rightarrow> nat \<Rightarrow> string \<Rightarrow> nat \<Rightarrow> string" where
  "repeated_prefixes n left_over msg 0 = []"
| "repeated_prefixes n left_over msg (Suc k) =
     (if left_over = 0 then [] else take (min n left_over) msg @ repeated_prefixes n (left_over - n) msg k)"

lemma cat_procmod:
  "0 < n \<Longrightarrow> pm_temp m < k \<Longrightarrow> pm_temp m \<le> length (pm_msg m) \<Longrightarrow>
   cat read_proc n k m = Some (repeated_prefixes n (pm_temp m) (pm_msg m) k, m\<lparr>pm_temp := pm_len m\<rparr>)"
proof (induction k arbitrary: m)
  case (Suc k)
  show ?case
  proof (cases "pm_temp m = 0")
    case True
    then show ?thesis by (simp add: read_proc_end)
  next
    case False
    have ne: "take (min n (pm_temp m)) (pm_msg m) \<noteq> []" using False Suc.prems by auto
    let ?m = "m\<lparr>pm_temp := pm_temp m - n\<rparr>"
    have "pm_temp ?m < k" "pm_temp ?m \<le> length (pm_msg ?m)" using Suc.prems False by auto
    from Suc.IH[OF Suc.prems(1) this] ne False Suc.prems(1) show ?thesis
      by (auto simp: read_proc_steps Let_def)
  qed
qed simp

lemma repeated_prefixes_one: "left_over \<le> n \<Longrightarrow> left_over < k \<Longrightarrow> repeated_prefixes n left_over msg k = take left_over msg"
  by (cases k; cases "k - 1") (auto simp: min_def)

lemma write_proc_state:
  assumes "procmod_wf m"
  shows "procmod_wf (snd (write_proc buf None m))" "pm_temp (snd (write_proc buf None m)) = min 99 (length buf)"
    "take (min 99 (length buf)) (pm_msg (snd (write_proc buf None m))) = take 99 buf"
  using assms by (cases "length buf \<le> 99"; auto simp: write_proc_def procmod_wf_def copy_from_user_def Let_def
      PROCMOD_BUF_def min_def)+

text \<open>
  Reading \<open>/proc/mydata\<close> after a write, with a buffer of \<open>n\<close> bytes: a buffer at least as large as
  the message gets the message back, and the file is ready to be read again; a smaller one gets
  the beginning of the message over and over, since every read copies from the start of \<open>msg\<close>
  and only the count of what is left goes down.
\<close>

lemma procmod_write_read:
  assumes "procmod_wf m" "0 < n" "PROCMOD_BUF \<le> k"
  shows "\<exists>m'. cat read_proc n k (snd (write_proc buf None m)) =
      Some (repeated_prefixes n (min 99 (length buf)) (take 99 buf) k, m') \<and> pm_temp m' = min 99 (length buf) \<and>
    (length buf \<le> n \<longrightarrow> repeated_prefixes n (min 99 (length buf)) (take 99 buf) k = take 99 buf)"
proof -
  let ?m = "snd (write_proc buf None m)"
  note w = write_proc_state[OF assms(1), of buf]
  have prefixes: "repeated_prefixes n l s j = repeated_prefixes n l (take a s) j" if "l \<le> a" for l s j a
    using that by (induction j arbitrary: l) (auto simp: min_def)
  have "cat read_proc n k ?m = Some (repeated_prefixes n (pm_temp ?m) (pm_msg ?m) k, ?m\<lparr>pm_temp := pm_len ?m\<rparr>)"
    using w assms(2,3) by (intro cat_procmod) (auto simp: procmod_wf_def PROCMOD_BUF_def)
  moreover have "repeated_prefixes n (pm_temp ?m) (pm_msg ?m) k =
      repeated_prefixes n (min 99 (length buf)) (take 99 buf) k"
    using prefixes[of "min 99 (length buf)" "min 99 (length buf)" "pm_msg ?m" k]
      prefixes[of "min 99 (length buf)" "min 99 (length buf)" "take 99 buf" k] w(2,3) by (simp add: min_def)
  moreover have "pm_len ?m = min 99 (length buf)"
    by (auto simp: write_proc_def Let_def PROCMOD_BUF_def)
  ultimately show ?thesis
    using assms(3) repeated_prefixes_one[of "min 99 (length buf)" n k "take 99 buf"]
    by (auto simp: PROCMOD_BUF_def min_def)
qed

section \<open>The keyboard lights\<close>

definition blinking :: "int \<Rightarrow> int \<Rightarrow> nat \<Rightarrow> int list" where
  "blinking x y n = map (\<lambda>i. if even i then x else y) [0..<n]"

lemma blinking_Suc: "blinking x y (Suc n) = x # blinking y x n"
  by (simp add: blinking_def upt_conv_Cons map_Suc_upt[symmetric] del: upt_Suc)

text \<open>The value the next tick sends, when the mode is a real one.\<close>

definition next_leds :: "kbleds \<Rightarrow> int" where
  "next_leds k = (if current_leds k = blink_mode k then RESTORE_LEDS else blink_mode k)"

lemma ticks:
  assumes "blink_mode k \<noteq> RESTORE_LEDS"
  shows "ioctls ((my_timer_func ^^ n) k) =
    ioctls k @ blinking (next_leds k) (if next_leds k = RESTORE_LEDS then blink_mode k else RESTORE_LEDS) n \<and>
    blink_mode ((my_timer_func ^^ n) k) = blink_mode k"
  using assms
proof (induction n arbitrary: k)
  case 0
  then show ?case by (simp add: blinking_def)
next
  case (Suc n)
  have k: "ioctls (my_timer_func k) = ioctls k @ [next_leds k]" "blink_mode (my_timer_func k) = blink_mode k"
    "next_leds (my_timer_func k) = (if next_leds k = RESTORE_LEDS then blink_mode k else RESTORE_LEDS)"
    using Suc.prems by (auto simp: my_timer_func_def next_leds_def Let_def)
  have "(my_timer_func ^^ Suc n) k = (my_timer_func ^^ n) (my_timer_func k)" by (simp only: funpow_Suc_right o_def)
  moreover have "next_leds k = RESTORE_LEDS \<or> next_leds k = blink_mode k" by (simp add: next_leds_def)
  ultimately show ?case using Suc.IH[of "my_timer_func k"] Suc.prems k
    by (auto simp: blinking_Suc simp del: funpow.simps)
qed

lemma kbleds_held_ticks:
  "BlinkTimer \<in> kb_held k \<Longrightarrow> kb_held ((my_timer_func ^^ n) k) = kb_held k"
  by (induction n) (auto simp: my_timer_func_def Let_def)

lemma kbleds_held_store: "kb_held (snd (mode_store buf k)) = kb_held k"
  by (auto simp: mode_store_def Let_def split: option.splits)

text \<open>
  Writing a number from 0 to 7 to \<open>mode\<close> sets the mode that \<open>mode\<close> then shows, and from there the
  timer sends the lights of the mode and \<open>0xFF\<close> (the normal lights) in turn, one a tick, for
  ever; mode 0 restores the lights at once but does not stop the blinking.
\<close>

lemma kbleds_blinks:
  assumes "0 \<le> m" "m \<le> 7" "mode_store (show_int m @ [NL]) k = (r, k1)"
  shows "r = IoOk (length (show_int m @ [NL])) \<and> mode_show k1 = show_int m @ [NL] \<and>
    (\<exists>x y. {x, y} = {m, RESTORE_LEDS} \<and> (\<forall>n. ioctls ((my_timer_func ^^ n) k1) = ioctls k1 @ blinking x y n)) \<and>
    (m = 0 \<longrightarrow> ioctls k1 = ioctls k @ [RESTORE_LEDS])"
proof -
  have "sscanf_d (show_int m @ [NL]) = Some m" using assms(1,2) by (intro sscanf_d_show_int) auto
  then have k1: "r = IoOk (length (show_int m @ [NL]))" "blink_mode k1 = m"
    "m = 0 \<longrightarrow> ioctls k1 = ioctls k @ [RESTORE_LEDS]"
    using assms by (auto simp: mode_store_def Let_def)
  have m: "m \<noteq> RESTORE_LEDS" using assms(2) by (simp add: RESTORE_LEDS_def)
  have "\<exists>x y. {x, y} = {m, RESTORE_LEDS} \<and> (\<forall>n. ioctls ((my_timer_func ^^ n) k1) = ioctls k1 @ blinking x y n)"
    using ticks[of k1] k1(2) m
    by (intro exI[of _ "next_leds k1"] exI[of _ "if next_leds k1 = RESTORE_LEDS then m else RESTORE_LEDS"])
       (auto simp: next_leds_def)
  with k1 show ?thesis by (simp add: mode_show_def)
qed

text \<open>
  Unloading after a successful load, whatever was stored and however long it blinked, stops the
  timer but leaves the module's directory and its \<open>mode\<close> file, with their callbacks into the code
  that is going away, in sysfs, if the kernel's own kobject has a parent, and else follows a null pointer;
  a failed load leaves nothing.
\<close>

lemma kbleds_unload_leaves_sysfs:
  "\<exists>r k. kbleds_init con drv kob err = Some (r, k) \<and>
    (if con \<and> drv \<and> kob \<and> err = 0
     then r = 0 \<and> map_option kb_held (kbleds_cleanup has_parent ((my_timer_func ^^ n) (snd (mode_store buf ((my_timer_func ^^ l) k))))) =
            (if has_parent then Some {KbledsKobject, ModeFile} else None)
     else kb_held k = {})"
  by (auto simp: kbleds_init_def kbleds_cleanup_def release_def Let_def kbleds_held_ticks kbleds_held_store)

section \<open>The netlink echo\<close>

lemma nl_texts: "length nl_greeting = 23" "length nl_reply_text = 18" "NUL \<notin> set nl_greeting" "NUL \<notin> set nl_reply_text"
  by (simp add: nl_greeting_def, simp add: nl_reply_text_def, code_simp, code_simp)

lemma cstr_append: "NUL \<notin> set a \<Longrightarrow> cstr (a @ b) = a @ cstr b"
  by (induction a) (auto simp: cstr_def)

text \<open>
  The reply travels without a terminating NUL into a buffer that still holds the greeting: the
  program prints the kernel's text only because the message is padded with at least one zero;
  without padding the end of its own greeting would follow.
\<close>

lemma netlink_reply_printed:
  "nl_user_main True True True True True pid (nl_recv_msg pad True) =
    NlPrinted (if 0 < pad 18 then nl_reply_text else nl_reply_text @ drop 18 nl_greeting)"
proof (cases "pad 18")
  case 0
  let ?z = "replicate (NL_MAX_PAYLOAD - 23) NUL"
  have "NUL \<notin> set (drop 18 nl_greeting)" using nl_texts(3) by (meson in_set_dropD)
  moreover have "cstr ?z = []" by (simp add: NL_MAX_PAYLOAD_def cstr_def)
  ultimately have "cstr (nl_reply_text @ drop 18 nl_greeting @ ?z) = nl_reply_text @ drop 18 nl_greeting"
    using nl_texts(4) by (simp add: cstr_append)
  with 0 show ?thesis
    by (simp add: nl_user_main_def nl_recv_msg_def Let_def nl_texts NL_MAX_PAYLOAD_def)
next
  case (Suc j)
  have "take NL_MAX_PAYLOAD (nl_reply_text @ NUL # r) = nl_reply_text @ NUL # take (NL_MAX_PAYLOAD - 19) r" for r
    by (simp add: NL_MAX_PAYLOAD_def nl_texts)
  moreover have "cstr (nl_reply_text @ NUL # r) = nl_reply_text" for r
    using nl_texts(4) by (simp add: cstr_append) (simp add: cstr_def)
  ultimately show ?thesis using Suc
    by (simp add: nl_user_main_def nl_recv_msg_def Let_def nl_texts del: append_take_drop_id)
qed

end
