(* ===== verification/Taxi.thy ===== *)
theory Taxi
  imports C_Decimal
begin

text \<open>
  module3/cross2: the taxi dispatcher (taxi.c) and its driver processes (driver.c). A driver is a
  state machine driven by requests on its socket and by the clock; the dispatcher keeps a table of
  100 slots and talks to each driver over a fresh connection per request. Time is in seconds; one
  pass of the driver's loop happens within one second. Replies arrive in time.
\<close>

definition MAX_DRIVERS :: nat where "MAX_DRIVERS = 100"
definition MSG_MAX :: nat where "MSG_MAX = 64"

section \<open>driver.c\<close>

record driver =
  running :: bool
  status :: string
  busy_until :: int

definition driver_init :: driver where
  "driver_init = \<lparr>running = True, status = ''Available'', busy_until = 0\<rparr>"

definition driver_tick :: "int \<Rightarrow> driver \<Rightarrow> driver" where
  "driver_tick now d =
     (if 0 < busy_until d \<and> busy_until d \<le> now then d\<lparr>busy_until := 0, status := ''Available''\<rparr> else d)"

definition busy_reply :: "int \<Rightarrow> driver \<Rightarrow> string" where
  "busy_reply now d =
     (let secs = int32_of (busy_until d - now); secs = (if secs < 0 then 0 else secs)
      in snprintf_into MSG_MAX (''BUSY '' @ show_int secs))"

text \<open>The reply to the bytes received (at most 63) and the state after it.\<close>

definition driver_handle :: "int \<Rightarrow> string \<Rightarrow> driver \<Rightarrow> string \<times> driver" where
  "driver_handle now bytes d =
     (let buf = chomp (cstr (take (MSG_MAX - 1) bytes)) in
      if strcmp buf ''STATUS'' = 0 then
        (if 0 < busy_until d \<and> now < busy_until d then (busy_reply now d, d) else (''AVAILABLE'', d))
      else if strncmp buf ''TASK '' 5 = 0 then
        (let seconds = atoi (drop 5 buf) in
         if 0 < busy_until d \<and> now < busy_until d then (busy_reply now d, d)
         else if seconds \<le> 0 then (''OK'', d)
         else (''OK'', d\<lparr>busy_until := now + seconds, status := ''Busy''\<rparr>))
      else if strcmp buf ''QUIT'' = 0 then (''OK'', d\<lparr>running := False\<rparr>)
      else (''UNKNOWN'', d))"

text \<open>
  One pass of the loop: \<open>poll\<close> timed out (\<open>None\<close>), or a connection came with these bytes; a
  connection closed without sending gets no reply.
\<close>

definition driver_poll :: "int \<Rightarrow> string option \<Rightarrow> driver \<Rightarrow> string option \<times> driver" where
  "driver_poll now req d =
     (let d1 = driver_tick now d in
      case req of
        None \<Rightarrow> (None, d1)
      | Some bytes \<Rightarrow>
          if bytes = [] then (None, d1)
          else (let (response, d2) = driver_handle now bytes d1 in (Some response, d2)))"

fun driver_run :: "(int \<times> string option) list \<Rightarrow> driver \<Rightarrow> driver" where
  "driver_run [] d = d"
| "driver_run ((now, req) # evs) d = (if running d then driver_run evs (snd (driver_poll now req d)) else d)"

section \<open>taxi.c\<close>

text \<open>\<open>struct DriverInfo\<close>; the last three fields are written once and never read.\<close>

record DriverInfo =
  di_pid :: int
  di_active :: bool

text \<open>A child process is a running driver or has ended and waits to be reaped.\<close>

datatype process = Alive driver | Zombie

record taxi =
  drivers :: "DriverInfo list"
  procs :: "int \<rightharpoonup> process"
  forks :: "int option list"
  now :: int
  screen :: "string list"
  taxi_running :: bool

definition put :: "string \<Rightarrow> taxi \<Rightarrow> taxi" where
  "put s w = w\<lparr>screen := screen w @ [s]\<rparr>"

definition find_driver :: "int \<Rightarrow> taxi \<Rightarrow> nat option" where
  "find_driver pid w = find_from (\<lambda>d. di_active d \<and> di_pid d = pid) (drivers w) 0 MAX_DRIVERS"

definition remove_driver :: "int \<Rightarrow> taxi \<Rightarrow> taxi" where
  "remove_driver pid w =
     (case find_from (\<lambda>d. di_active d \<and> di_pid d = pid) (drivers w) 0 MAX_DRIVERS of
        None \<Rightarrow> w
      | Some i \<Rightarrow> w\<lparr>drivers := (drivers w)[i := (drivers w ! i)\<lparr>di_active := False\<rparr>]\<rparr>)"

text \<open>The child runs as a driver from its \<open>execl\<close> on, whether or not the table has room for it.\<close>

definition create_driver :: "taxi \<Rightarrow> taxi" where
  "create_driver w =
     (case forks w of
        [] \<Rightarrow> put ''fork'' w
      | None # fs \<Rightarrow> put ''fork'' (w\<lparr>forks := fs\<rparr>)
      | Some pid # fs \<Rightarrow>
          (let w1 = w\<lparr>forks := fs, procs := (procs w)(pid \<mapsto> Alive driver_init)\<rparr> in
           case find_from (\<lambda>d. \<not> di_active d) (drivers w1) 0 MAX_DRIVERS of
             Some i \<Rightarrow> put (''Driver created with PID: '' @ show_int pid)
                         (w1\<lparr>drivers := (drivers w1)[i := \<lparr>di_pid = pid, di_active = True\<rparr>]\<rparr>)
           | None \<Rightarrow> put ''Maximum drivers reached'' w1))"

text \<open>
  A connection, a request and the reply. \<open>None\<close>: the connection is refused, as by a process that has
  ended.
\<close>

definition ask :: "int \<Rightarrow> string \<Rightarrow> taxi \<Rightarrow> (string option \<times> taxi) option" where
  "ask pid req w =
     (case procs w pid of
        Some (Alive d) \<Rightarrow>
          (let (reply, d') = driver_poll (now w) (Some req) d
           in Some (reply, w\<lparr>procs := (procs w)(pid \<mapsto> (if running d' then Alive d' else Zombie))\<rparr>))
      | _ \<Rightarrow> None)"

definition do_send_task :: "int \<Rightarrow> int \<Rightarrow> taxi \<Rightarrow> taxi" where
  "do_send_task pid seconds w =
     (if find_driver pid w = None then put (''Driver '' @ show_int pid @ '' not found'') w
      else if procs w pid = None
      then remove_driver pid (put (''Driver '' @ show_int pid @ '' is dead, removing'') w)
      else case ask pid (snprintf_into MSG_MAX (''TASK '' @ show_int seconds)) w of
        None \<Rightarrow> put (''Driver '' @ show_int pid @ '' unavailable'') w
      | Some (None, w1) \<Rightarrow> put (''Driver '' @ show_int pid @ '' timeout'') w1
      | Some (Some reply, w1) \<Rightarrow>
          if strcmp reply ''OK'' = 0
          then put (''Task sent to driver '' @ show_int pid @ '' ('' @ show_int seconds @ '' sec)'') w1
          else if strncmp reply ''BUSY '' 5 = 0 then put (''Busy '' @ drop 5 reply) w1
          else put (''Unexpected reply: '' @ reply) w1)"

definition do_get_status :: "int \<Rightarrow> taxi \<Rightarrow> taxi" where
  "do_get_status pid w =
     (if find_driver pid w = None then put (''Driver '' @ show_int pid @ '' not found'') w
      else if procs w pid = None
      then remove_driver pid (put (''Driver '' @ show_int pid @ '' is dead, removing'') w)
      else case ask pid ''STATUS'' w of
        None \<Rightarrow> put (''Driver '' @ show_int pid @ '' unavailable'') w
      | Some (None, w1) \<Rightarrow> put (''Driver '' @ show_int pid @ '' timeout'') w1
      | Some (Some reply, w1) \<Rightarrow>
          if strcmp reply ''AVAILABLE'' = 0 then put ''Available'' w1
          else if strncmp reply ''BUSY '' 5 = 0 then put (''Busy '' @ drop 5 reply) w1
          else put reply w1)"

text \<open>\<open>do_get_drivers\<close> from slot \<open>i\<close> on, with the flag \<open>found\<close>.\<close>

function list_drivers :: "nat \<Rightarrow> bool \<Rightarrow> taxi \<Rightarrow> bool \<times> taxi" where
  "list_drivers i found w =
     (if MAX_DRIVERS \<le> i then (found, w)
      else if \<not> di_active (drivers w ! i) then list_drivers (Suc i) found w
      else (let pid = di_pid (drivers w ! i); w1 = put (''  PID: '' @ show_int pid) w in
        if procs w1 pid = None
        then list_drivers (Suc i) found (remove_driver pid (put '', Status: dead (removing)'' w1))
        else case ask pid ''STATUS'' w1 of
          None \<Rightarrow> list_drivers (Suc i) found (put '', Status: no connection'' w1)
        | Some (None, w2) \<Rightarrow> list_drivers (Suc i) True (put '', Status: no response'' w2)
        | Some (Some reply, w2) \<Rightarrow>
            list_drivers (Suc i) True
              (if strcmp reply ''AVAILABLE'' = 0 then put '', Status: Available'' w2
               else if strncmp reply ''BUSY '' 5 = 0 then put ('', Status: Busy '' @ drop 5 reply) w2
               else put ('', Status: '' @ reply) w2)))"
  by pat_completeness auto
termination
  by (relation "measure (\<lambda>(i, found, w). MAX_DRIVERS - i)") auto

declare list_drivers.simps [simp del]

definition do_get_drivers :: "taxi \<Rightarrow> taxi" where
  "do_get_drivers w = (let (found, w1) = list_drivers 0 False w in if found then w1 else put ''  No drivers'' w1)"

text \<open>
  \<open>waitpid\<close>: does not return (\<open>None\<close>) while the child lives, reaps it when it has ended and fails when
  there is none. Each recorded driver is told to quit and waited for.
\<close>

definition waitpid :: "int \<Rightarrow> taxi \<Rightarrow> taxi option" where
  "waitpid pid w =
     (case procs w pid of Some (Alive d) \<Rightarrow> None | _ \<Rightarrow> Some (w\<lparr>procs := (procs w)(pid := None)\<rparr>))"

definition stop_driver :: "nat \<Rightarrow> taxi \<Rightarrow> taxi option" where
  "stop_driver i w =
     (let pid = di_pid (drivers w ! i);
          w1 = (case ask pid ''QUIT'' w of None \<Rightarrow> w | Some (_, w1) \<Rightarrow> w1)
      in case waitpid pid w1 of
           None \<Rightarrow> None
         | Some w2 \<Rightarrow> Some (w2\<lparr>drivers := (drivers w2)[i := (drivers w2 ! i)\<lparr>di_active := False\<rparr>]\<rparr>))"

function shutdown_from :: "nat \<Rightarrow> taxi \<Rightarrow> taxi option" where
  "shutdown_from i w =
     (if MAX_DRIVERS \<le> i then Some w
      else if \<not> di_active (drivers w ! i) then shutdown_from (Suc i) w
      else case stop_driver i w of None \<Rightarrow> None | Some w1 \<Rightarrow> shutdown_from (Suc i) w1)"
  by pat_completeness auto
termination
  by (relation "measure (\<lambda>(i, w). MAX_DRIVERS - i)") auto

declare shutdown_from.simps [simp del]

definition shutdown_all :: "taxi \<Rightarrow> taxi option" where
  "shutdown_all w = shutdown_from 0 w"

definition taxi_delims :: string where
  "taxi_delims = [CHR '' '', CHR 0x09, NL]"

text \<open>One line of input: the first \<open>fgets\<close> buffer of 127 bytes of it.\<close>

definition taxi_command :: "string \<Rightarrow> taxi \<Rightarrow> taxi" where
  "taxi_command line w =
     (let p = dropWhile (\<lambda>c. c = CHR '' '' \<or> c = CHR 0x09) line in
      case strtok taxi_delims p of
        None \<Rightarrow> w
      | Some (cmd, r1) \<Rightarrow>
          if strcmp cmd ''create_driver'' = 0 then create_driver w
          else if strcmp cmd ''send_task'' = 0 then
            (case strtok taxi_delims r1 of
               None \<Rightarrow> put ''Usage: send_task <pid> <seconds>'' w
             | Some (a1, r2) \<Rightarrow>
                 (case strtok taxi_delims r2 of
                    None \<Rightarrow> put ''Usage: send_task <pid> <seconds>'' w
                  | Some (a2, r3) \<Rightarrow> do_send_task (atoi a1) (atoi a2) w))
          else if strcmp cmd ''get_status'' = 0 then
            (case strtok taxi_delims r1 of
               None \<Rightarrow> put ''Usage: get_status <pid>'' w
             | Some (a1, r2) \<Rightarrow> do_get_status (atoi a1) w)
          else if strcmp cmd ''get_drivers'' = 0 then do_get_drivers w
          else if strcmp cmd ''exit'' = 0 \<or> strcmp cmd ''quit'' = 0
          then (put ''Shutting down...'' w)\<lparr>taxi_running := False\<rparr>
          else put (''Unknown command: '' @ cmd) w)"

text \<open>
  SIGINT and SIGTERM. A driver that is signalled ends at once, leaving its socket file. Control-C at the
  terminal reaches the dispatcher and all its drivers: as the program asks for POSIX signals only, the
  dispatcher's \<open>fgets\<close> is interrupted and the loop ends.
\<close>

definition driver_signal_handler :: "process \<Rightarrow> process" where
  "driver_signal_handler p = Zombie"

definition taxi_signal_handler :: "taxi \<Rightarrow> taxi" where
  "taxi_signal_handler w = (put ([NL] @ ''Shutting down...'') w)\<lparr>taxi_running := False\<rparr>"

text \<open>
  What happens at the dispatcher: a line is typed (with the time it is read), a signal reaches one driver,
  or Control-C. The end of the list is the end of input.
\<close>

datatype taxi_event = Typed int string | Driver_Signal int | Control_C

fun taxi_loop :: "taxi_event list \<Rightarrow> taxi \<Rightarrow> taxi" where
  "taxi_loop [] w = w"
| "taxi_loop (e # evs) w =
     (if \<not> taxi_running w then w
      else case e of
        Typed t line \<Rightarrow> taxi_loop evs (taxi_command line (w\<lparr>now := t\<rparr>))
      | Driver_Signal pid \<Rightarrow> taxi_loop evs (w\<lparr>procs := (procs w)(pid := map_option driver_signal_handler (procs w pid))\<rparr>)
      | Control_C \<Rightarrow> taxi_signal_handler (w\<lparr>procs := map_option driver_signal_handler \<circ> procs w\<rparr>))"

definition taxi_main :: "int option list \<Rightarrow> taxi_event list \<Rightarrow> taxi option" where
  "taxi_main fs evs =
     shutdown_all (taxi_loop evs \<lparr>drivers = replicate MAX_DRIVERS \<lparr>di_pid = 0, di_active = False\<rparr>,
       procs = Map.empty, forks = fs, now = 0, screen = [], taxi_running = True\<rparr>)"

end
