(* ===== verification/Taxi_Props.thy ===== *)
theory Taxi_Props
  imports Taxi
begin

text \<open>
  The properties of the taxi system: a driver does one task at a time and says truthfully how long it
  will take, and the dispatcher stops every driver it has recorded.
\<close>

section \<open>The driver\<close>

definition request_text :: "string \<Rightarrow> string" where
  "request_text bytes = chomp (cstr (take (MSG_MAX - 1) bytes))"

lemma request_text_plain: "NUL \<notin> set s \<Longrightarrow> NL \<notin> set s \<Longrightarrow> length s < MSG_MAX \<Longrightarrow> request_text s = s"
proof -
  assume s: "NUL \<notin> set s" "NL \<notin> set s" "length s < MSG_MAX"
  then have "take (MSG_MAX - 1) s = s" "cstr s = s" "chomp s = s"
    by (simp_all add: cstr_def chomp_eq_takeWhile)
  then show ?thesis by (simp add: request_text_def)
qed

lemma task_request: "- (2 ^ 31) \<le> m \<Longrightarrow> m < 2 ^ 31 \<Longrightarrow> request_text (''TASK '' @ show_int m) = ''TASK '' @ show_int m"
proof (rule request_text_plain)
  assume m: "- (2 ^ 31) \<le> m" "m < 2 ^ 31"
  have "NL \<notin> set (show_int m)" using show_int_chars[of NL m] by (auto simp: NL_def[symmetric]) (simp add: NL_def)
  then show "NUL \<notin> set (''TASK '' @ show_int m)" "NL \<notin> set (''TASK '' @ show_int m)"
    by (simp_all add: NUL_def[symmetric], simp_all add: NUL_def NL_def)
  show "length (''TASK '' @ show_int m) < MSG_MAX" using length_show_int[OF m] by (simp add: MSG_MAX_def)
qed

lemma status_request: "request_text ''STATUS'' = ''STATUS''"
  by (rule request_text_plain) (simp_all add: NUL_def NL_def MSG_MAX_def)

definition busy_at :: "int \<Rightarrow> driver \<Rightarrow> bool" where
  "busy_at t d \<longleftrightarrow> 0 < busy_until d \<and> t < busy_until d"

lemma driver_handle_alt:
  "driver_handle t bytes d =
    (if request_text bytes = ''STATUS'' then (if busy_at t d then (busy_reply t d, d) else (''AVAILABLE'', d))
     else if prefix ''TASK '' (request_text bytes) then
       (if busy_at t d then (busy_reply t d, d)
        else if atoi (drop 5 (request_text bytes)) \<le> 0 then (''OK'', d)
        else (''OK'', d\<lparr>busy_until := t + atoi (drop 5 (request_text bytes)), status := ''Busy''\<rparr>))
     else if request_text bytes = ''QUIT'' then (''OK'', d\<lparr>running := False\<rparr>)
     else (''UNKNOWN'', d))"
proof -
  have "strncmp b ''TASK '' 5 = 0 \<longleftrightarrow> prefix ''TASK '' b" for b
    using strncmp_prefix[of b "''TASK ''"] by (simp add: eval_nat_numeral)
  then show ?thesis
    unfolding driver_handle_def request_text_def[symmetric] busy_at_def[symmetric] Let_def by (simp only: strcmp_eq_0)
qed

lemma poll_busy:
  assumes "busy_at t d" "bytes \<noteq> []"
  shows "driver_poll t (Some bytes) d =
    (if request_text bytes = ''STATUS'' \<or> prefix ''TASK '' (request_text bytes) then (Some (busy_reply t d), d)
     else if request_text bytes = ''QUIT'' then (Some ''OK'', d\<lparr>running := False\<rparr>) else (Some ''UNKNOWN'', d))"
proof -
  have "driver_tick t d = d" using assms(1) by (simp add: driver_tick_def busy_at_def)
  then have "driver_poll t (Some bytes) d = (Some (fst (driver_handle t bytes d)), snd (driver_handle t bytes d))"
    using assms(2) by (simp add: driver_poll_def split: prod.splits)
  moreover have "driver_handle t bytes d =
    (if request_text bytes = ''STATUS'' \<or> prefix ''TASK '' (request_text bytes) then (busy_reply t d, d)
     else if request_text bytes = ''QUIT'' then (''OK'', d\<lparr>running := False\<rparr>) else (''UNKNOWN'', d))"
    unfolding driver_handle_alt using assms(1) by (simp only: if_True) argo
  ultimately show ?thesis by (simp only: if_distrib[of fst] if_distrib[of snd] fst_conv snd_conv) (simp only: split: if_split, blast)
qed

lemma poll_busy_timeout: "busy_at t d \<Longrightarrow> driver_poll t None d = (None, d)"
  by (simp add: driver_poll_def driver_tick_def busy_at_def)

lemma run_busy:
  assumes "running d" "\<forall>(t, req) \<in> set evs. busy_at t d \<and> (\<forall>b. req = Some b \<longrightarrow> request_text b \<noteq> ''QUIT'')"
  shows "driver_run evs d = d"
  using assms
proof (induction evs)
  case (Cons e evs)
  obtain t req where e: "e = (t, req)" by (cases e)
  have "snd (driver_poll t req d) = d"
  proof (cases req)
    case None
    then show ?thesis using Cons.prems(2) e by (simp add: poll_busy_timeout)
  next
    case (Some b)
    show ?thesis
    proof (cases "b = []")
      case True
      then show ?thesis using Some Cons.prems(2) e by (simp add: driver_poll_def driver_tick_def busy_at_def)
    next
      case False
      then show ?thesis using Some Cons.prems(2) e by (simp add: poll_busy)
    qed
  qed
  with Cons e show ?case by simp
qed simp

text \<open>
  C18. One task at a time. A driver that is free at time \<open>t0\<close> accepts a task of \<open>n\<close> seconds; whatever
  requests (but \<open>QUIT\<close>) reach it during the next \<open>n\<close> seconds, it stays on that task: asked for its
  status at any time it answers with the seconds that remain, refuses every other task with the
  same answer and keeps its state, and from \<open>t0 + n\<close> on it is available.
\<close>

theorem driver_serves_one_task:
  assumes "running d" "\<not> busy_at t0 d" "0 < n" "n < 2 ^ 31" "0 \<le> t0"
    and "\<forall>(t, req) \<in> set evs. t0 \<le> t \<and> t < t0 + n \<and> (\<forall>b. req = Some b \<longrightarrow> request_text b \<noteq> ''QUIT'')"
  shows "\<exists>d1. driver_poll t0 (Some (''TASK '' @ show_int n)) d = (Some ''OK'', d1) \<and> driver_run evs d1 = d1 \<and>
    (\<forall>t. t0 \<le> t \<longrightarrow> fst (driver_poll t (Some ''STATUS'') d1) =
       Some (if t < t0 + n then ''BUSY '' @ show_int (t0 + n - t) else ''AVAILABLE'')) \<and>
    (\<forall>t m. t0 \<le> t \<and> t < t0 + n \<and> - (2 ^ 31) \<le> m \<and> m < 2 ^ 31 \<longrightarrow>
       driver_poll t (Some (''TASK '' @ show_int m)) d1 = (Some (''BUSY '' @ show_int (t0 + n - t)), d1))"
proof -
  define d1 where "d1 = (driver_tick t0 d)\<lparr>busy_until := t0 + n, status := ''Busy''\<rparr>"
  have free: "\<not> busy_at t0 (driver_tick t0 d)"
    using assms(2) by (simp add: driver_tick_def busy_at_def)
  have "atoi (show_int n) = n" using atoi_show_int[of n "[]"] assms(3,4) by simp
  then have "driver_handle t0 (''TASK '' @ show_int n) (driver_tick t0 d) = (''OK'', d1)"
    using task_request[of n] free assms(3,4) by (simp add: driver_handle_alt d1_def)
  then have accept: "driver_poll t0 (Some (''TASK '' @ show_int n)) d = (Some ''OK'', d1)"
    by (simp add: driver_poll_def)
  have d1: "busy_until d1 = t0 + n" "running d1" using assms(1) by (simp_all add: d1_def driver_tick_def)
  have busy: "busy_at t d1" if "t0 \<le> t" "t < t0 + n" for t using that assms(3,5) d1 by (simp add: busy_at_def)
  have reply: "busy_reply t d1 = ''BUSY '' @ show_int (t0 + n - t)" if "t0 \<le> t" "t < t0 + n" for t
  proof -
    have r: "- (2 ^ 31) \<le> t0 + n - t" "t0 + n - t < 2 ^ 31" using that assms(4) by auto
    then have "int32_of (t0 + n - t) = t0 + n - t" by (rule int32_of_id)
    then show ?thesis using that d1 length_show_int[OF r] by (simp add: busy_reply_def Let_def MSG_MAX_def)
  qed
  have "driver_run evs d1 = d1" using assms(6) busy by (intro run_busy d1(2)) fastforce
  moreover have "fst (driver_poll t (Some ''STATUS'') d1) =
      Some (if t < t0 + n then ''BUSY '' @ show_int (t0 + n - t) else ''AVAILABLE'')" if "t0 \<le> t" for t
  proof (cases "t < t0 + n")
    case True
    then show ?thesis using poll_busy[OF busy[OF that True]] reply[OF that True] status_request by simp
  next
    case False
    then show ?thesis using status_request d1(1) assms(3,5)
      by (simp add: driver_poll_def driver_handle_alt driver_tick_def busy_at_def)
  qed
  moreover have "driver_poll t (Some (''TASK '' @ show_int m)) d1 = (Some (''BUSY '' @ show_int (t0 + n - t)), d1)"
    if "t0 \<le> t" "t < t0 + n" "- (2 ^ 31) \<le> m" "m < 2 ^ 31" for t m
    using poll_busy[OF busy[OF that(1,2)]] reply[OF that(1,2)] task_request[OF that(3,4)] by simp
  ultimately show ?thesis using accept by blast
qed

lemma driver_serves_one_task_witness:
  "\<exists>d1. driver_poll 100 (Some (''TASK '' @ show_int 7)) driver_init = (Some ''OK'', d1) \<and>
     driver_run [(102, Some ''STATUS'')] d1 = d1 \<and> fst (driver_poll 103 (Some ''STATUS'') d1) = Some (''BUSY '' @ show_int 4)"
proof -
  have "\<forall>(t, req) \<in> set [(102 :: int, Some ''STATUS'')]. 100 \<le> t \<and> t < 100 + 7 \<and> (\<forall>b. req = Some b \<longrightarrow> request_text b \<noteq> ''QUIT'')"
    by (simp add: status_request)
  from driver_serves_one_task[of driver_init 100 7, OF _ _ _ _ _ this] obtain d1 where
    "driver_poll 100 (Some (''TASK '' @ show_int 7)) driver_init = (Some ''OK'', d1)"
    "driver_run [(102, Some ''STATUS'')] d1 = d1"
    "\<forall>t. 100 \<le> t \<longrightarrow> fst (driver_poll t (Some ''STATUS'') d1) =
       Some (if t < 100 + 7 then ''BUSY '' @ show_int (100 + 7 - t) else ''AVAILABLE'')"
    by (auto simp: driver_init_def busy_at_def simp del: append.simps)
  then show ?thesis by (intro exI[of _ d1]) simp
qed

section \<open>The dispatcher's bookkeeping\<close>

definition active_pids :: "DriverInfo list \<Rightarrow> int set" where
  "active_pids ds = di_pid ` {d \<in> set ds. di_active d}"

definition active_count :: "DriverInfo list \<Rightarrow> nat" where
  "active_count ds = length (filter di_active ds)"

lemma active_simps [simp]:
  "active_pids [] = {}" "active_pids (xs @ ys) = active_pids xs \<union> active_pids ys"
  "active_pids (d # ds) = (if di_active d then insert (di_pid d) (active_pids ds) else active_pids ds)"
  "active_count (xs @ ys) = active_count xs + active_count ys"
  "active_count (d # ds) = (if di_active d then Suc (active_count ds) else active_count ds)"
  by (auto simp: active_pids_def active_count_def)

lemma active_update:
  assumes "i < length ds" "\<not> di_active (ds ! i)" "di_active d"
  shows "active_pids (ds[i := d]) = insert (di_pid d) (active_pids ds)" "active_count (ds[i := d]) = Suc (active_count ds)"
proof -
  have "ds = take i ds @ ds ! i # drop (Suc i) ds" using assms(1) by (rule id_take_nth_drop)
  then have "active_pids ds = active_pids (take i ds) \<union> active_pids (drop (Suc i) ds)"
    "active_count ds = active_count (take i ds) + active_count (drop (Suc i) ds)"
    using assms(2) by (metis active_simps(2,3), metis active_simps(4,5))
  then show "active_pids (ds[i := d]) = insert (di_pid d) (active_pids ds)" "active_count (ds[i := d]) = Suc (active_count ds)"
    using assms(1,3) by (simp_all add: upd_conv_take_nth_drop)
qed

lemma active_nth: "i < length ds \<Longrightarrow> di_active (ds ! i) \<Longrightarrow> di_pid (ds ! i) \<in> active_pids ds"
  by (auto simp: active_pids_def)

text \<open>
  The child processes are exactly those of the active slots, and the table has room for every fork
  that is still to come.
\<close>

definition taxi_inv :: "taxi \<Rightarrow> bool" where
  "taxi_inv w \<longleftrightarrow> length (drivers w) = MAX_DRIVERS \<and> dom (procs w) = active_pids (drivers w) \<and>
     distinct (filter (\<lambda>f. f \<noteq> None) (forks w)) \<and> (\<forall>pid. Some pid \<in> set (forks w) \<longrightarrow> procs w pid = None) \<and>
     active_count (drivers w) + length (forks w) \<le> MAX_DRIVERS"

lemma put_simps [simp]:
  "drivers (put s w) = drivers w" "procs (put s w) = procs w" "forks (put s w) = forks w"
  "taxi_running (put s w) = taxi_running w" "taxi_inv (put s w) = taxi_inv w"
  by (simp_all add: put_def taxi_inv_def)

lemma ask_inv:
  assumes "ask pid req w = Some (r, w1)" "taxi_inv w"
  shows "taxi_inv w1 \<and> drivers w1 = drivers w \<and> dom (procs w1) = dom (procs w)"
proof -
  obtain d where d: "procs w pid = Some (Alive d)"
    using assms(1) by (auto simp: ask_def split: option.splits process.splits)
  with assms(1) obtain p where w1: "w1 = w\<lparr>procs := (procs w)(pid \<mapsto> p)\<rparr>"
    by (auto simp: ask_def split: prod.splits)
  with d have dom: "dom (procs w1) = dom (procs w)" by auto
  then have "procs w1 q = None \<longleftrightarrow> procs w q = None" for q by (metis domIff)
  then show ?thesis using dom assms(2) w1 unfolding taxi_inv_def by simp
qed

lemma create_driver_inv:
  assumes "taxi_inv w"
  shows "taxi_inv (create_driver w)"
proof (cases "forks w")
  case Nil
  with assms show ?thesis by (simp add: create_driver_def)
next
  case (Cons f fs)
  show ?thesis
  proof (cases f)
    case None
    with Cons assms show ?thesis by (auto simp: create_driver_def taxi_inv_def)
  next
    case (Some pid)
    have len: "length (drivers w) = MAX_DRIVERS" and "active_count (drivers w) < MAX_DRIVERS"
      using assms Cons by (simp_all add: taxi_inv_def)
    have "\<exists>j < MAX_DRIVERS. \<not> di_active (drivers w ! j)"
    proof (rule ccontr)
      assume "\<not> (\<exists>j < MAX_DRIVERS. \<not> di_active (drivers w ! j))"
      then have "\<forall>d \<in> set (drivers w). di_active d" using len by (metis in_set_conv_nth)
      then have "active_count (drivers w) = MAX_DRIVERS" using len by (simp add: active_count_def)
      with \<open>active_count (drivers w) < MAX_DRIVERS\<close> show False by simp
    qed
    then obtain i where i: "find_from (\<lambda>d. \<not> di_active d) (drivers w) 0 MAX_DRIVERS = Some i"
      using find_from_None_iff[of "\<lambda>d. \<not> di_active d" "drivers w" 0 MAX_DRIVERS]
      by (cases "find_from (\<lambda>d. \<not> di_active d) (drivers w) 0 MAX_DRIVERS") auto
    then have i': "i < length (drivers w)" "\<not> di_active (drivers w ! i)" using len by (simp_all add: find_from_Some_iff)
    have "create_driver w = put (''Driver created with PID: '' @ show_int pid)
        (w\<lparr>forks := fs, procs := (procs w)(pid \<mapsto> Alive driver_init),
           drivers := (drivers w)[i := \<lparr>di_pid = pid, di_active = True\<rparr>]\<rparr>)"
      using Cons Some i by (simp add: create_driver_def)
    moreover have "\<forall>p. Some p \<in> set fs \<longrightarrow> p \<noteq> pid" using assms Cons Some by (auto simp: taxi_inv_def)
    ultimately show ?thesis
      using assms Cons Some active_update[OF i', of "\<lparr>di_pid = pid, di_active = True\<rparr>"]
      by (auto simp: taxi_inv_def)
  qed
qed

lemma active_has_process:
  "taxi_inv w \<Longrightarrow> i < MAX_DRIVERS \<Longrightarrow> di_active (drivers w ! i) \<Longrightarrow> procs w (di_pid (drivers w ! i)) \<noteq> None"
  using active_nth[of i "drivers w"] by (auto simp: taxi_inv_def)

lemma found_has_process: "taxi_inv w \<Longrightarrow> find_driver pid w \<noteq> None \<Longrightarrow> procs w pid \<noteq> None"
  using active_has_process by (fastforce simp: find_driver_def find_from_Some_iff)

lemma do_send_task_inv:
  assumes "taxi_inv w"
  shows "taxi_inv (do_send_task pid n w)"
proof (cases "find_driver pid w")
  case (Some i)
  then obtain y where alive: "procs w pid = Some y" using found_has_process[OF assms, of pid] by auto
  show ?thesis
  proof (cases "ask pid (snprintf_into MSG_MAX (''TASK '' @ show_int n)) w")
    case None
    with Some alive assms show ?thesis by (simp add: do_send_task_def)
  next
    case ask: (Some a)
    obtain r w1 where a: "a = (r, w1)" by (cases a)
    then have "taxi_inv w1" using ask_inv ask assms by blast
    then show ?thesis unfolding do_send_task_def using Some alive ask a by (cases r) simp_all
  qed
qed (simp add: assms do_send_task_def)

lemma do_get_status_inv:
  assumes "taxi_inv w"
  shows "taxi_inv (do_get_status pid w)"
proof (cases "find_driver pid w")
  case (Some i)
  then obtain y where alive: "procs w pid = Some y" using found_has_process[OF assms, of pid] by auto
  show ?thesis
  proof (cases "ask pid ''STATUS'' w")
    case None
    with Some alive assms show ?thesis by (simp add: do_get_status_def)
  next
    case ask: (Some a)
    obtain r w1 where a: "a = (r, w1)" by (cases a)
    then have "taxi_inv w1" using ask_inv ask assms by blast
    then show ?thesis unfolding do_get_status_def using Some alive ask a by (cases r) simp_all
  qed
qed (simp add: assms do_get_status_def)

lemma list_drivers_inv: "taxi_inv w \<Longrightarrow> taxi_inv (snd (list_drivers i found w))"
proof (induction "MAX_DRIVERS - i" arbitrary: i found w)
  case 0
  then show ?case by (subst list_drivers.simps) simp
next
  case (Suc n)
  then have i: "i < MAX_DRIVERS" "n = MAX_DRIVERS - Suc i" by simp_all
  note IH = Suc.hyps(1)[OF i(2)]
  show ?case
  proof (cases "di_active (drivers w ! i)")
    case False
    with i(1) IH Suc.prems show ?thesis by (subst list_drivers.simps) simp
  next
    case True
    define w1 where "w1 = put (''  PID: '' @ show_int (di_pid (drivers w ! i))) w"
    obtain y where w1: "taxi_inv w1" "procs w (di_pid (drivers w ! i)) = Some y"
      using active_has_process[OF Suc.prems i(1) True] Suc.prems by (auto simp: w1_def)
    show ?thesis
    proof (cases "ask (di_pid (drivers w ! i)) ''STATUS'' w1")
      case None
      with i(1) True w1 IH show ?thesis 
        by (subst list_drivers.simps) (simp add: Let_def w1_def[symmetric] del: append_Cons)
    next
      case (Some a)
      obtain r w2 where a: "a = (r, w2)" by (cases a)
      then have "taxi_inv w2" using ask_inv Some w1(1) by blast
      with i(1) True w1 IH Some a show ?thesis
        by (subst list_drivers.simps) (cases r; simp add: Let_def w1_def[symmetric] del: append_Cons)
    qed
  qed
qed

lemma do_get_drivers_inv: "taxi_inv w \<Longrightarrow> taxi_inv (do_get_drivers w)"
  using list_drivers_inv[of w 0 False] by (cases "list_drivers 0 False w") (auto simp: do_get_drivers_def)

lemma taxi_command_inv: "taxi_inv w \<Longrightarrow> taxi_inv (taxi_command line w)"
proof -
  assume inv: "taxi_inv w"
  have "taxi_inv (w'\<lparr>taxi_running := x\<rparr>) = taxi_inv w'" for w' x by (simp add: taxi_inv_def)
  then show ?thesis
    using inv create_driver_inv do_send_task_inv do_get_status_inv do_get_drivers_inv
    unfolding taxi_command_def Let_def by (simp split: option.split)
qed

lemma taxi_inv_procs:
  assumes "taxi_inv w" "\<And>q. (p q = None) = (procs w q = None)"
  shows "taxi_inv (w\<lparr>procs := p\<rparr>)"
proof -
  have "dom p = dom (procs w)" using assms(2) by (simp add: dom_def)
  then show ?thesis using assms by (simp add: taxi_inv_def)
qed

lemma taxi_loop_inv: "taxi_inv w \<Longrightarrow> taxi_inv (taxi_loop evs w)"
proof (induction evs arbitrary: w)
  case (Cons e evs)
  have "taxi_inv (w\<lparr>now := t\<rparr>)" "taxi_inv w' \<Longrightarrow> taxi_inv (taxi_signal_handler w')" for t w'
    using Cons.prems by (simp_all add: taxi_inv_def taxi_signal_handler_def)
  moreover have "taxi_inv (w\<lparr>procs := (procs w)(pid := map_option f (procs w pid))\<rparr>)"
      "taxi_inv (w\<lparr>procs := map_option f \<circ> procs w\<rparr>)" for pid f
    by (rule taxi_inv_procs[OF Cons.prems], simp)+
  ultimately show ?case using Cons taxi_command_inv by (cases e) auto
qed simp

text \<open>Told to quit, a driver ends, so the wait for it returns.\<close>

lemma quit_ends: "ask pid ''QUIT'' w = Some (r, w1) \<Longrightarrow> procs w1 = (procs w)(pid \<mapsto> Zombie) \<and> drivers w1 = drivers w"
proof -
  have "request_text ''QUIT'' = ''QUIT''" by (rule request_text_plain) (simp_all add: NUL_def NL_def MSG_MAX_def)
  then have "driver_handle t ''QUIT'' d = (''OK'', d\<lparr>running := False\<rparr>)" for t d by (simp add: driver_handle_alt)
  then show "ask pid ''QUIT'' w = Some (r, w1) \<Longrightarrow> procs w1 = (procs w)(pid \<mapsto> Zombie) \<and> drivers w1 = drivers w"
    by (auto simp: ask_def driver_poll_def split: option.splits process.splits)
qed

lemma stop_driver_eq:
  "\<exists>w'. stop_driver i w = Some w' \<and> procs w' = (procs w)(di_pid (drivers w ! i) := None) \<and>
    drivers w' = (drivers w)[i := (drivers w ! i)\<lparr>di_active := False\<rparr>]"
proof (cases "ask (di_pid (drivers w ! i)) ''QUIT'' w")
  case None
  then have "\<nexists>d. procs w (di_pid (drivers w ! i)) = Some (Alive d)"
    by (auto simp: ask_def split: prod.splits)
  with None show ?thesis
    by (cases "procs w (di_pid (drivers w ! i))") (auto simp: stop_driver_def waitpid_def split: process.split)
next
  case (Some a)
  obtain r w1 where a: "a = (r, w1)" by (cases a)
  with quit_ends Some show ?thesis by (simp add: stop_driver_def waitpid_def)
qed

lemma shutdown_from_eq:
  "length (drivers w) = MAX_DRIVERS \<Longrightarrow>
   \<exists>w'. shutdown_from i w = Some w' \<and> procs w' = procs w |` (- active_pids (drop i (drivers w)))"
proof (induction "MAX_DRIVERS - i" arbitrary: i w)
  case 0
  then show ?case by (subst shutdown_from.simps) (simp add: restrict_map_def)
next
  case (Suc n)
  then have i: "i < length (drivers w)" "n = MAX_DRIVERS - Suc i" by simp_all
  then have drop: "drop i (drivers w) = drivers w ! i # drop (Suc i) (drivers w)" by (simp add: Cons_nth_drop_Suc)
  show ?case
  proof (cases "di_active (drivers w ! i)")
    case False
    with Suc.hyps(1)[OF i(2) Suc.prems] i(1) Suc.prems drop show ?thesis
      by (subst shutdown_from.simps) simp
  next
    case True
    obtain w1 where w1: "stop_driver i w = Some w1" "procs w1 = (procs w)(di_pid (drivers w ! i) := None)"
      "drivers w1 = (drivers w)[i := (drivers w ! i)\<lparr>di_active := False\<rparr>]"
      using stop_driver_eq by blast
    obtain w2 where w2: "shutdown_from (Suc i) w1 = Some w2"
      "procs w2 = procs w1 |` (- active_pids (drop (Suc i) (drivers w1)))"
      using Suc.hyps(1)[OF i(2), of w1] Suc.prems w1(3) by auto
    have "procs w2 = procs w |` (- active_pids (drop i (drivers w)))"
      unfolding w2(2) w1(2,3) drop using True by (simp add: fun_eq_iff restrict_map_def)
    moreover have "shutdown_from i w = Some w2"
      using i(1) Suc.prems True w1(1) w2(1) by (subst shutdown_from.simps) simp
    ultimately show ?thesis by blast
  qed
qed

text \<open>
  C19. No driver outlives the dispatcher, as long as it never creates more than the table holds:
  whatever is typed and whenever, and whichever drivers are signalled, if at most 100 forks happen (each new process with an id of its
  own), then the program, once out of its loop (by \<open>exit\<close>, the end of input or Control-C), stops every driver without waiting forever, and no
  child process is left, running or dead.
\<close>

theorem dispatcher_leaves_no_process:
  assumes "length fs \<le> MAX_DRIVERS" "distinct (filter (\<lambda>f. f \<noteq> None) fs)"
  shows "\<exists>w. taxi_main fs evs = Some w \<and> procs w = Map.empty"
proof -
  let ?w = "\<lparr>drivers = replicate MAX_DRIVERS \<lparr>di_pid = 0, di_active = False\<rparr>, procs = Map.empty, forks = fs,
    now = 0, screen = [], taxi_running = True\<rparr>"
  have "taxi_inv ?w" using assms by (simp add: taxi_inv_def active_pids_def active_count_def)
  then have inv: "taxi_inv (taxi_loop evs ?w)" by (rule taxi_loop_inv)
  then obtain w' where "taxi_main fs evs = Some w'"
    "procs w' = procs (taxi_loop evs ?w) |` (- active_pids (drivers (taxi_loop evs ?w)))"
    using shutdown_from_eq[of "taxi_loop evs ?w" 0] by (auto simp: taxi_main_def shutdown_all_def taxi_inv_def)
  with inv show ?thesis by (auto simp: taxi_inv_def restrict_map_def fun_eq_iff domIff)
qed

lemma dispatcher_leaves_no_process_witness:
  "\<exists>w. taxi_main [Some 10, Some 11] [Typed 1 (''create_driver'' @ [NL]), Driver_Signal 10, Typed 2 (''create_driver'' @ [NL]), Control_C] = Some w \<and>
     procs w = Map.empty"
  by (rule dispatcher_leaves_no_process) (simp_all add: MAX_DRIVERS_def)

text \<open>
  One driver too many: with all 100 slots in use \<open>create_driver\<close> starts the process, reports that
  the maximum is reached and forgets it; stopping all drivers leaves that process running.
\<close>

lemma surplus_driver_survives:
  assumes "length (drivers w) = MAX_DRIVERS" "\<forall>d \<in> set (drivers w). di_active d" "forks w = Some pid # fs"
    and "pid \<notin> active_pids (drivers w)"
  shows "\<exists>w'. shutdown_all (create_driver w) = Some w' \<and> procs w' pid = Some (Alive driver_init)"
proof -
  have "find_from (\<lambda>d. \<not> di_active d) (drivers w) 0 MAX_DRIVERS = None"
    using assms(1,2) by (simp add: find_from_None_iff)
  then have "create_driver w = put ''Maximum drivers reached'' (w\<lparr>forks := fs, procs := (procs w)(pid \<mapsto> Alive driver_init)\<rparr>)"
    using assms(3) by (simp add: create_driver_def)
  then show ?thesis using shutdown_from_eq[of "create_driver w" 0] assms(1,4) by (auto simp: shutdown_all_def)
qed

end
