(* ===== verification/Shm_Queue.thy ===== *)
theory Shm_Queue
  imports Step_Interface
begin

text \<open>
  module3/04 and module3/05: one producer and several consumers around a linked list of blocks in
  shared memory, guarded by one semaphore (System V in 04, POSIX in 05; producer.c and consumer.c
  are the same text in both). The processes are step functions over the shared state: taking the
  semaphore is a step, which is not possible (\<open>None\<close>) while another process holds it, the work up to
  and including its release is a step, and so is the work between two critical sections. A schedule
  picks the process that steps next. Sleeping is left out.

  Addresses are offsets from the start of the segment; 0 is the null pointer. The segment of 2048
  bytes occupies one page of 4096 bytes, and a write past the page ends the process (SIGSEGV).
\<close>

section \<open>ipc\_utils.h\<close>

definition sizeof_int :: nat where "sizeof_int = 4"
definition sizeof_ptr :: nat where "sizeof_ptr = 8"
definition sizeof_Node :: nat where "sizeof_Node = 24"
definition sizeof_SharedMemory :: nat where "sizeof_SharedMemory = 48"
definition SEGMENT_SIZE :: nat where "SEGMENT_SIZE = 2 * 1024"
definition PAGE_BYTES :: nat where "PAGE_BYTES = 4096"

lemmas shm_sizes = sizeof_int_def sizeof_ptr_def sizeof_Node_def sizeof_SharedMemory_def SEGMENT_SIZE_def PAGE_BYTES_def

record Node =
  n_count :: int
  n_data :: nat
  n_next :: nat

text \<open>\<open>SharedMemory\<close>, the nodes and the integers behind it, and the value of the semaphore.\<close>

record SharedMemory =
  shm_head :: nat
  shm_tail :: nat
  memory_start :: nat
  memory_end :: nat
  total_size :: nat
  producer_finished :: bool
  node_at :: "nat \<rightharpoonup> Node"
  int_at :: "nat \<rightharpoonup> int"
  sem_value :: nat

definition semaphore_lock :: "SharedMemory \<Rightarrow> SharedMemory option" where
  "semaphore_lock m = (if sem_value m = 0 then None else Some (m\<lparr>sem_value := sem_value m - 1\<rparr>))"

definition semaphore_unlock :: "SharedMemory \<Rightarrow> SharedMemory" where
  "semaphore_unlock m = m\<lparr>sem_value := Suc (sem_value m)\<rparr>"

text \<open>The loop that looks for the first node not yet processed; 0 when the list ends.\<close>

partial_function (option) first_unprocessed :: "(nat \<rightharpoonup> Node) \<Rightarrow> nat \<Rightarrow> nat option" where
  "first_unprocessed nd current =
     (if current = 0 then Some 0
      else Option.bind (nd current) (\<lambda>n.
        if n_count n > 0 then Some current else first_unprocessed nd (n_next n)))"

section \<open>producer.c\<close>

text \<open>
  Where the producer is: at the top of the loop, waiting for the semaphore or holding it to link the
  node it has filled, to look whether all blocks are processed, or to set the flag; and its ends.
\<close>

datatype producer_pc = P_Loop | P_Link nat | P_Linking nat | P_Check | P_Checking | P_Finish | P_Finishing
  | P_Exited | P_Crashed

record producer =
  p_pc :: producer_pc
  used_memory :: nat
  block_count :: nat
  blocks_since_check :: nat

definition BATCH_SIZE :: nat where "BATCH_SIZE = 5"

text \<open>\<open>size_t\<close> arithmetic.\<close>

definition size_t :: "int \<Rightarrow> int" where
  "size_t x = x mod 2 ^ 64"

text \<open>The values of successive calls of \<open>rand\<close> in one pass of the loop.\<close>

definition rand_count :: "(nat \<Rightarrow> nat) \<Rightarrow> nat" where
  "rand_count rnd = rnd 0 mod 50 + 20"

definition rand_block :: "(nat \<Rightarrow> nat) \<Rightarrow> int list" where
  "rand_block rnd = map (\<lambda>i. int (rnd (Suc i) mod 100 + 1)) [0..<rand_count rnd]"

definition write_node :: "nat \<Rightarrow> int list \<Rightarrow> SharedMemory \<Rightarrow> SharedMemory" where
  "write_node a b m =
     m\<lparr>node_at := (node_at m)(a \<mapsto> \<lparr>n_count = int (length b), n_data = a + sizeof_Node, n_next = 0\<rparr>),
       int_at := int_at m ++ map_of (map (\<lambda>i. (a + sizeof_Node + i * sizeof_int, b ! i)) [0..<length b])\<rparr>"

definition link_node :: "nat \<Rightarrow> SharedMemory \<Rightarrow> SharedMemory option" where
  "link_node new m =
     (if shm_head m = 0 then Some (m\<lparr>shm_head := new, shm_tail := new\<rparr>)
      else map_option (\<lambda>t. m\<lparr>node_at := (node_at m)(shm_tail m \<mapsto> t\<lparr>n_next := new\<rparr>), shm_tail := new\<rparr>)
             (node_at m (shm_tail m)))"

definition producer_loop :: "(nat \<Rightarrow> nat) \<Rightarrow> SharedMemory \<Rightarrow> producer \<Rightarrow> SharedMemory \<times> producer" where
  "producer_loop rnd m p =
     (let remaining = size_t (int (total_size m) - int (used_memory p)) in
      if remaining < int (sizeof_int + sizeof_ptr + sizeof_int) then (m, p\<lparr>p_pc := P_Finish\<rparr>)
      else let count = rand_count rnd in
        if remaining < int (sizeof_int + sizeof_ptr + count * sizeof_int) then (m, p\<lparr>p_pc := P_Finish\<rparr>)
        else let new_node = memory_start m + used_memory p in
          if PAGE_BYTES < new_node + sizeof_Node + count * sizeof_int then (m, p\<lparr>p_pc := P_Crashed\<rparr>)
          else (write_node new_node (rand_block rnd) m, p\<lparr>p_pc := P_Link new_node\<rparr>))"

definition producer_link :: "nat \<Rightarrow> SharedMemory \<Rightarrow> producer \<Rightarrow> (SharedMemory \<times> producer) option" where
  "producer_link new m p = do {
     n \<leftarrow> node_at m new;
     m1 \<leftarrow> link_node new m;
     let since = Suc (blocks_since_check p);
     Some (semaphore_unlock m1,
           p\<lparr>used_memory := used_memory p + sizeof_Node + nat (n_count n) * sizeof_int,
             block_count := Suc (block_count p), blocks_since_check := since,
             p_pc := (if BATCH_SIZE \<le> since then P_Check else P_Loop)\<rparr>)
   }"

definition producer_check :: "SharedMemory \<Rightarrow> producer \<Rightarrow> (SharedMemory \<times> producer) option" where
  "producer_check m p = do {
     current \<leftarrow> first_unprocessed (node_at m) (shm_head m);
     Some (semaphore_unlock m,
           if current = 0 \<and> 0 < block_count p then p\<lparr>p_pc := P_Finish\<rparr>
           else p\<lparr>blocks_since_check := 0, p_pc := P_Loop\<rparr>)
   }"

definition locking :: "SharedMemory \<Rightarrow> 'p \<Rightarrow> (SharedMemory \<times> 'p) outcome" where
  "locking m p = (case semaphore_lock m of None \<Rightarrow> Blocked | Some m' \<Rightarrow> Stepped (m', p))"

definition producer_step :: "(nat \<Rightarrow> nat) \<Rightarrow> SharedMemory \<Rightarrow> producer \<Rightarrow> (SharedMemory \<times> producer) outcome" where
  "producer_step rnd m p =
     (case p_pc p of
        P_Loop \<Rightarrow> Stepped (producer_loop rnd m p)
      | P_Link new \<Rightarrow> locking m (p\<lparr>p_pc := P_Linking new\<rparr>)
      | P_Linking new \<Rightarrow> or_fault (producer_link new m p)
      | P_Check \<Rightarrow> locking m (p\<lparr>p_pc := P_Checking\<rparr>)
      | P_Checking \<Rightarrow> or_fault (producer_check m p)
      | P_Finish \<Rightarrow> locking m (p\<lparr>p_pc := P_Finishing\<rparr>)
      | P_Finishing \<Rightarrow> Stepped (semaphore_unlock (m\<lparr>producer_finished := True\<rparr>), p\<lparr>p_pc := P_Exited\<rparr>)
      | P_Exited \<Rightarrow> Blocked
      | P_Crashed \<Rightarrow> Blocked)"

section \<open>consumer.c\<close>

datatype consumer_pc = C_Loop | C_Scanning | C_Take | C_Taking | C_Process int nat | C_Exited

record consumer =
  c_pc :: consumer_pc
  wait_count :: nat
  processed_blocks :: nat
  reports :: "(int \<times> int \<times> int) list"

text \<open>The scan for the minimum and maximum from index \<open>i\<close> on; \<open>None\<close> is a read outside the data.\<close>

function min_max :: "(nat \<rightharpoonup> int) \<Rightarrow> nat \<Rightarrow> nat \<Rightarrow> nat \<Rightarrow> int \<Rightarrow> int \<Rightarrow> (int \<times> int) option" where
  "min_max cells d i n min_val max_val =
     (if i < n
      then Option.bind (cells (d + i * sizeof_int)) (\<lambda>v.
        min_max cells d (Suc i) n (if v < min_val then v else min_val) (if v > max_val then v else max_val))
      else Some (min_val, max_val))"
  by pat_completeness auto
termination
  by (relation "measure (\<lambda>(cells, d, i, n, lo, hi). n - i)") auto

declare min_max.simps [simp del]

definition consumer_scan :: "SharedMemory \<Rightarrow> consumer \<Rightarrow> (SharedMemory \<times> consumer) option" where
  "consumer_scan m c = do {
     current \<leftarrow> first_unprocessed (node_at m) (shm_head m);
     let has_unprocessed = (current \<noteq> 0);
     Some (semaphore_unlock m,
           if producer_finished m \<and> \<not> has_unprocessed then c\<lparr>c_pc := C_Exited\<rparr>
           else if \<not> has_unprocessed \<and> \<not> producer_finished m
           then c\<lparr>wait_count := Suc (wait_count c), c_pc := C_Loop\<rparr>
           else c\<lparr>wait_count := 0, c_pc := C_Take\<rparr>)
   }"

definition consumer_take :: "SharedMemory \<Rightarrow> consumer \<Rightarrow> (SharedMemory \<times> consumer) option" where
  "consumer_take m c = do {
     current \<leftarrow> first_unprocessed (node_at m) (shm_head m);
     if current = 0 then Some (semaphore_unlock m, c\<lparr>c_pc := C_Loop\<rparr>)
     else do {
       n \<leftarrow> node_at m current;
       Some (semaphore_unlock (m\<lparr>node_at := (node_at m)(current \<mapsto> n\<lparr>n_count := 0\<rparr>)\<rparr>),
             c\<lparr>c_pc := C_Process (n_count n) (n_data n)\<rparr>)
     }
   }"

definition consumer_process :: "int \<Rightarrow> nat \<Rightarrow> SharedMemory \<Rightarrow> consumer \<Rightarrow> consumer option" where
  "consumer_process count d m c = do {
     v \<leftarrow> int_at m d;
     (min_val, max_val) \<leftarrow> min_max (int_at m) d 1 (nat count) v v;
     Some (c\<lparr>processed_blocks := Suc (processed_blocks c), reports := reports c @ [(count, min_val, max_val)],
             c_pc := C_Loop\<rparr>)
   }"

definition consumer_step :: "SharedMemory \<Rightarrow> consumer \<Rightarrow> (SharedMemory \<times> consumer) outcome" where
  "consumer_step m c =
     (case c_pc c of
        C_Loop \<Rightarrow> locking m (c\<lparr>c_pc := C_Scanning\<rparr>)
      | C_Scanning \<Rightarrow> or_fault (consumer_scan m c)
      | C_Take \<Rightarrow> locking m (c\<lparr>c_pc := C_Taking\<rparr>)
      | C_Taking \<Rightarrow> or_fault (consumer_take m c)
      | C_Process count d \<Rightarrow> or_fault (map_option (Pair m) (consumer_process count d m c))
      | C_Exited \<Rightarrow> Blocked)"

section \<open>The processes together (main.c)\<close>

record system =
  memory :: SharedMemory
  prod :: producer
  cons :: "consumer list"

datatype event = Prod "nat \<Rightarrow> nat" | Cons nat

definition sys_step :: "event \<Rightarrow> system \<Rightarrow> system outcome" where
  "sys_step e s =
     (case e of
        Prod rnd \<Rightarrow>
          (case producer_step rnd (memory s) (prod s) of
             Stepped (m, p) \<Rightarrow> Stepped (s\<lparr>memory := m, prod := p\<rparr>) | Fault \<Rightarrow> Fault | Blocked \<Rightarrow> Blocked)
      | Cons i \<Rightarrow>
          (if i < length (cons s)
           then case consumer_step (memory s) (cons s ! i) of
                  Stepped (m, c) \<Rightarrow> Stepped (s\<lparr>memory := m, cons := (cons s)[i := c]\<rparr>)
                | Fault \<Rightarrow> Fault | Blocked \<Rightarrow> Blocked
           else Blocked))"

text \<open>The segment as \<open>init_shared_memory\<close> and \<open>init_semaphore\<close> leave it, and the processes as forked.\<close>

definition shm_init :: "nat \<Rightarrow> SharedMemory" where
  "shm_init seg = \<lparr>shm_head = 0, shm_tail = 0, memory_start = sizeof_SharedMemory, memory_end = seg, total_size = seg,
     producer_finished = False, node_at = Map.empty, int_at = Map.empty, sem_value = 1\<rparr>"

definition sys_init :: "nat \<Rightarrow> system" where
  "sys_init num_consumers =
     \<lparr>memory = shm_init SEGMENT_SIZE,
      prod = \<lparr>p_pc = P_Loop, used_memory = sizeof_SharedMemory, block_count = 0, blocks_since_check = 0\<rparr>,
      cons = replicate num_consumers \<lparr>c_pc = C_Loop, wait_count = 0, processed_blocks = 0, reports = []\<rparr>\<rparr>"

inductive sys_run :: "system \<Rightarrow> system \<Rightarrow> bool" where
  sys_run_refl: "sys_run s s"
| sys_run_step: "sys_run s s1 \<Longrightarrow> sys_step e s1 = Stepped s2 \<Longrightarrow> sys_run s s2"

text \<open>The same with the schedule given: a process that cannot step is passed over.\<close>

fun run_schedule :: "event list \<Rightarrow> system \<Rightarrow> system option" where
  "run_schedule [] s = Some s"
| "run_schedule (e # es) s =
     (case sys_step e s of Stepped s1 \<Rightarrow> run_schedule es s1 | Blocked \<Rightarrow> run_schedule es s | Fault \<Rightarrow> None)"

lemma run_schedule_reaches: "run_schedule es s = Some s' \<Longrightarrow> sys_run s0 s \<Longrightarrow> sys_run s0 s'"
  by (induction es arbitrary: s) (auto split: outcome.splits intro: sys_run_step)

end
