(* ===== verification/Shm_Ipc.thy ===== *)
theory Shm_Ipc
  imports Main
begin

text \<open>
  module3/04 and module3/05: how the two programs acquire and release their shared memory and
  semaphore (ipc\_utils.c) around the processes (main.c). A System V object is its identifier, which
  the kernel may choose to be 0; a POSIX object is its name. What the system holds is part of the
  state; each call's result is an input.
\<close>

section \<open>System V (module3/04)\<close>

record sysv =
  shmid :: int
  semid :: int
  shm_attached :: bool
  segments :: "int set"
  semaphores :: "int set"

definition sysv_start :: sysv where
  "sysv_start = \<lparr>shmid = -1, semid = -1, shm_attached = False, segments = {}, semaphores = {}\<rparr>"

text \<open>\<open>shmget\<close> gives an identifier or fails (-1); \<open>shmat\<close> works or not.\<close>

definition sysv_init_shared_memory :: "int \<Rightarrow> bool \<Rightarrow> sysv \<Rightarrow> int \<times> sysv" where
  "sysv_init_shared_memory shmget_result shmat_ok s =
     (let s1 = s\<lparr>shmid := shmget_result\<rparr> in
      if shmget_result = -1 then (-1, s1)
      else let s2 = s1\<lparr>segments := insert shmget_result (segments s1)\<rparr> in
        if \<not> shmat_ok then (-1, s2\<lparr>segments := segments s2 - {shmid s2}, shmid := -1\<rparr>)
        else (0, s2\<lparr>shm_attached := True\<rparr>))"

definition sysv_detach :: "sysv \<Rightarrow> sysv" where
  "sysv_detach s = (if shm_attached s then s\<lparr>shm_attached := False\<rparr> else s)"

definition sysv_cleanup_shared_memory :: "sysv \<Rightarrow> sysv" where
  "sysv_cleanup_shared_memory s =
     (let s1 = sysv_detach s in
      if 0 < shmid s1 then s1\<lparr>segments := segments s1 - {shmid s1}, shmid := -1\<rparr> else s1)"

definition sysv_init_semaphore :: "int \<Rightarrow> bool \<Rightarrow> sysv \<Rightarrow> int \<times> sysv" where
  "sysv_init_semaphore semget_result setval_ok s =
     (let s1 = s\<lparr>semid := semget_result\<rparr> in
      if semget_result = -1 then (-1, s1)
      else let s2 = s1\<lparr>semaphores := insert semget_result (semaphores s1)\<rparr> in
        if \<not> setval_ok then (-1, s2) else (0, s2))"

definition sysv_cleanup_semaphore :: "sysv \<Rightarrow> sysv" where
  "sysv_cleanup_semaphore s =
     (if 0 < semid s then s\<lparr>semaphores := semaphores s - {semid s}, semid := -1\<rparr> else s)"

definition sysv_cleanup_all :: "sysv \<Rightarrow> sysv" where
  "sysv_cleanup_all s = sysv_cleanup_semaphore (sysv_cleanup_shared_memory s)"

text \<open>
  \<open>main\<close>: the number of consumers asked for, whether \<open>ftok\<close> and \<open>malloc\<close> work and what the forks do
  (the producer's first); the exit status, the number of processes started and what is held at exit.
\<close>

record outcomes =
  ftok_ok :: bool
  shmget_result :: int
  shmat_ok :: bool
  semget_result :: int
  setval_ok :: bool
  producer_fork_ok :: bool
  malloc_ok :: bool
  consumer_forks :: "bool list"

fun fork_consumers :: "nat \<Rightarrow> bool list \<Rightarrow> nat \<times> bool" where
  "fork_consumers 0 fs = (0, True)"
| "fork_consumers (Suc n) [] = (0, False)"
| "fork_consumers (Suc n) (ok # fs) =
     (if ok then (let (k, r) = fork_consumers n fs in (Suc k, r)) else (0, False))"

definition sysv_main :: "int \<Rightarrow> outcomes \<Rightarrow> int \<times> nat \<times> sysv" where
  "sysv_main num_consumers r =
     (if num_consumers < 1 then (1, 0, sysv_start)
      else if \<not> ftok_ok r then (1, 0, sysv_start)
      else let (e1, s1) = sysv_init_shared_memory (shmget_result r) (shmat_ok r) sysv_start in
        if e1 = -1 then (1, 0, s1)
        else let (e2, s2) = sysv_init_semaphore (semget_result r) (setval_ok r) s1 in
          if e2 = -1 then (1, 0, sysv_cleanup_shared_memory s2)
          else if \<not> producer_fork_ok r then (1, 0, sysv_cleanup_all s2)
          else if \<not> malloc_ok r then (1, 1, sysv_cleanup_all s2)
          else let (k, all_ok) = fork_consumers (nat num_consumers) (consumer_forks r) in
            if \<not> all_ok then (1, Suc k, sysv_cleanup_all s2)
            else (0, Suc k, sysv_cleanup_all s2))"

lemmas sysv_defs = sysv_main_def sysv_start_def sysv_init_shared_memory_def sysv_init_semaphore_def
  sysv_cleanup_all_def sysv_cleanup_shared_memory_def sysv_cleanup_semaphore_def sysv_detach_def Let_def

lemma sysv_released:
  assumes "shmget_result r \<noteq> 0" "- 1 \<le> shmget_result r" "semget_result r \<noteq> 0" "- 1 \<le> semget_result r"
  shows "segments (snd (snd (sysv_main n r))) = {} \<and>
    (semaphores (snd (snd (sysv_main n r))) = {} \<or> \<not> setval_ok r)"
  using assms by (auto simp: sysv_defs split: prod.splits)

text \<open>The identifier 0, which the kernel hands out first, is never released.\<close>

lemma sysv_zero_leaks:
  assumes "shmget_result r = 0" "semget_result r = 0" "ftok_ok r" "shmat_ok r" "setval_ok r" "1 \<le> n"
  shows "segments (snd (snd (sysv_main n r))) = {0} \<and> semaphores (snd (snd (sysv_main n r))) = {0}"
  using assms by (auto simp: sysv_defs split: prod.splits)

section \<open>POSIX (module3/05)\<close>

datatype posix_object = NameCopy | SemNameCopy | ShmObject | ShmFd | Mapping | SemObject | SemHandle

text \<open>
  The five globals, and what the process and the system hold. The semaphore's value is the one it has
  when it is opened: the initial value only counts for a new semaphore.
\<close>

record posix =
  shm_fd :: int
  sem_set :: bool
  shm_set :: bool
  shm_name_set :: bool
  sem_name_set :: bool
  objects :: "posix_object set"
  sem_val :: nat

definition posix_start :: posix where
  "posix_start = \<lparr>shm_fd = -1, sem_set = False, shm_set = False, shm_name_set = False, sem_name_set = False,
     objects = {}, sem_val = 0\<rparr>"

text \<open>After a failed \<open>mmap\<close> the variable \<open>shm\<close> keeps the error value, which the cleanup recognises.\<close>

definition posix_init_shared_memory :: "bool \<Rightarrow> int \<Rightarrow> bool \<Rightarrow> bool \<Rightarrow> posix \<Rightarrow> int \<times> posix" where
  "posix_init_shared_memory strdup_ok shm_open_result ftruncate_ok mmap_ok s =
     (if \<not> strdup_ok then (-1, s\<lparr>shm_name_set := False\<rparr>)
      else let s1 = s\<lparr>shm_name_set := True, objects := insert NameCopy (objects s), shm_fd := shm_open_result\<rparr> in
        if shm_open_result = -1 then (-1, s1\<lparr>objects := objects s1 - {NameCopy}, shm_name_set := False\<rparr>)
        else let s2 = s1\<lparr>objects := insert ShmFd (insert ShmObject (objects s1))\<rparr> in
          if \<not> ftruncate_ok \<or> \<not> mmap_ok
          then (-1, s2\<lparr>objects := objects s2 - {ShmFd, ShmObject, NameCopy}, shm_fd := -1, shm_name_set := False\<rparr>)
          else (0, s2\<lparr>shm_set := True, objects := insert Mapping (objects s2)\<rparr>))"

definition posix_detach :: "posix \<Rightarrow> posix" where
  "posix_detach s = (if shm_set s then s\<lparr>objects := objects s - {Mapping}, shm_set := False\<rparr> else s)"

definition posix_cleanup_shared_memory :: "posix \<Rightarrow> posix" where
  "posix_cleanup_shared_memory s =
     (let s1 = posix_detach s;
          s2 = (if 0 < shm_fd s1 then s1\<lparr>objects := objects s1 - {ShmFd}, shm_fd := -1\<rparr> else s1)
      in if shm_name_set s2 then s2\<lparr>objects := objects s2 - {ShmObject, NameCopy}, shm_name_set := False\<rparr> else s2)"

text \<open>\<open>sem_open\<close> with \<open>O_CREAT\<close>: \<open>Some (Some v)\<close> when the semaphore is there already, with value \<open>v\<close>.\<close>

definition posix_init_semaphore :: "bool \<Rightarrow> nat option option \<Rightarrow> nat \<Rightarrow> posix \<Rightarrow> int \<times> posix" where
  "posix_init_semaphore strdup_ok sem_open initial_value s =
     (if \<not> strdup_ok then (-1, s\<lparr>sem_name_set := False\<rparr>)
      else let s1 = s\<lparr>sem_name_set := True, objects := insert SemNameCopy (objects s)\<rparr> in
        case sem_open of
          None \<Rightarrow> (-1, s1\<lparr>objects := objects s1 - {SemNameCopy}, sem_name_set := False\<rparr>)
        | Some old \<Rightarrow> (0, s1\<lparr>sem_set := True, objects := insert SemHandle (insert SemObject (objects s1)),
                          sem_val := (case old of None \<Rightarrow> initial_value | Some v \<Rightarrow> v)\<rparr>))"

definition posix_cleanup_semaphore :: "posix \<Rightarrow> posix" where
  "posix_cleanup_semaphore s =
     (let s1 = (if sem_set s then s\<lparr>objects := objects s - {SemHandle}, sem_set := False\<rparr> else s)
      in if sem_name_set s1 then s1\<lparr>objects := objects s1 - {SemObject, SemNameCopy}, sem_name_set := False\<rparr> else s1)"

definition posix_cleanup_all :: "posix \<Rightarrow> posix" where
  "posix_cleanup_all s = posix_cleanup_semaphore (posix_cleanup_shared_memory s)"

record posix_outcomes =
  strdup1_ok :: bool
  shm_open_result :: int
  ftruncate_ok :: bool
  mmap_ok :: bool
  strdup2_ok :: bool
  sem_open_result :: "nat option option"
  p_fork_ok :: bool
  p_malloc_ok :: bool
  c_forks :: "bool list"

text \<open>The semaphore's value as the processes find it is returned as well.\<close>

definition posix_main :: "int \<Rightarrow> posix_outcomes \<Rightarrow> int \<times> nat \<times> nat \<times> posix" where
  "posix_main num_consumers r =
     (if num_consumers < 1 then (1, 0, 0, posix_start)
      else let (e1, s1) = posix_init_shared_memory (strdup1_ok r) (shm_open_result r) (ftruncate_ok r) (mmap_ok r) posix_start in
        if e1 = -1 then (1, 0, 0, s1)
        else let (e2, s2) = posix_init_semaphore (strdup2_ok r) (sem_open_result r) 1 s1 in
          if e2 = -1 then (1, 0, 0, posix_cleanup_shared_memory s2)
          else if \<not> p_fork_ok r then (1, 0, sem_val s2, posix_cleanup_all s2)
          else if \<not> p_malloc_ok r then (1, 1, sem_val s2, posix_cleanup_all s2)
          else let (k, all_ok) = fork_consumers (nat num_consumers) (c_forks r) in
            if \<not> all_ok then (1, Suc k, sem_val s2, posix_cleanup_all s2)
            else (0, Suc k, sem_val s2, posix_cleanup_all s2))"

definition posix_shm_ready :: "int \<Rightarrow> posix" where
  "posix_shm_ready fd = \<lparr>shm_fd = fd, sem_set = False, shm_set = True, shm_name_set = True, sem_name_set = False,
     objects = {Mapping, ShmFd, ShmObject, NameCopy}, sem_val = 0\<rparr>"

lemma posix_shm_result:
  "posix_init_shared_memory a fd c d posix_start = (0, posix_shm_ready fd) \<and> fd \<noteq> -1 \<or>
   (\<exists>s. posix_init_shared_memory a fd c d posix_start = (-1, s) \<and> objects s = {})"
  by (auto simp: posix_init_shared_memory_def posix_start_def posix_shm_ready_def Let_def)

lemma posix_cleanups:
  "0 < fd \<Longrightarrow> posix_init_semaphore b so v (posix_shm_ready fd) = (-1, s) \<Longrightarrow> objects (posix_cleanup_shared_memory s) = {}"
  "0 < fd \<Longrightarrow> posix_init_semaphore b so v (posix_shm_ready fd) = (0, s) \<Longrightarrow> objects (posix_cleanup_all s) = {}"
  by (auto simp: posix_init_semaphore_def posix_shm_ready_def posix_cleanup_all_def posix_cleanup_shared_memory_def
      posix_cleanup_semaphore_def posix_detach_def Let_def split: if_splits option.splits)

lemma posix_released:
  assumes "0 < shm_open_result r \<or> shm_open_result r = -1"
  shows "objects (snd (snd (snd (posix_main n r)))) = {}"
proof (cases "n < 1")
  case True
  then show ?thesis by (simp add: posix_main_def posix_start_def)
next
  case False
  consider s where "posix_init_shared_memory (strdup1_ok r) (shm_open_result r) (ftruncate_ok r) (mmap_ok r) posix_start = (-1, s)"
      "objects s = {}"
    | "posix_init_shared_memory (strdup1_ok r) (shm_open_result r) (ftruncate_ok r) (mmap_ok r) posix_start =
        (0, posix_shm_ready (shm_open_result r))" "0 < shm_open_result r"
    using posix_shm_result assms by blast
  then show ?thesis
  proof cases
    case 1
    with False show ?thesis by (simp add: posix_main_def)
  next
    case 2
    obtain e s2 where i: "posix_init_semaphore (strdup2_ok r) (sem_open_result r) 1 (posix_shm_ready (shm_open_result r)) = (e, s2)"
      by (cases "posix_init_semaphore (strdup2_ok r) (sem_open_result r) 1 (posix_shm_ready (shm_open_result r))")
    then have "e = 0 \<or> e = -1" by (auto simp: posix_init_semaphore_def Let_def split: if_splits option.splits)
    moreover obtain k ok where "fork_consumers (nat n) (c_forks r) = (k, ok)" by (cases "fork_consumers (nat n) (c_forks r)")
    ultimately show ?thesis using False 2 i posix_cleanups[OF 2(2)] by (auto simp: posix_main_def Let_def)
  qed
qed

text \<open>A semaphore left over with value 0 is taken as it is: nobody can ever lock it.\<close>

lemma posix_stale_semaphore:
  assumes "sem_open_result r = Some (Some v)" "1 \<le> n" "strdup1_ok r" "0 < shm_open_result r" "ftruncate_ok r" "mmap_ok r" "strdup2_ok r"
  shows "fst (snd (snd (posix_main n r))) = v"
proof -
  have "posix_init_shared_memory (strdup1_ok r) (shm_open_result r) (ftruncate_ok r) (mmap_ok r) posix_start =
      (0, posix_shm_ready (shm_open_result r))"
    using posix_shm_result[of "strdup1_ok r" "shm_open_result r" "ftruncate_ok r" "mmap_ok r"] assms
    by (auto simp: posix_init_shared_memory_def Let_def)
  moreover obtain k ok where "fork_consumers (nat n) (c_forks r) = (k, ok)" by (cases "fork_consumers (nat n) (c_forks r)")
  ultimately show ?thesis using assms by (simp add: posix_main_def posix_init_semaphore_def Let_def)
qed

end
