(* ===== verification/Posix_Queue.thy ===== *)
theory Posix_Queue
  imports Shm_Queue Shm_Ipc C_Decimal
begin

text \<open>
  module3/05: the producer and the consumers over POSIX shared memory and a named semaphore, with what
  they print, as processes that run together. The shared memory is that of module3/04; \<open>sem_wait\<close> waits
  while the value is 0, \<open>sem_post\<close> fails at the largest value and ends the process. A process that is
  interrupted releases the names of the shared objects and exits, wherever it is.
\<close>

section \<open>The semaphore (ipc\_utils.c)\<close>

definition SEM_VALUE_MAX :: nat where "SEM_VALUE_MAX = 2147483647"

definition posix_semaphore_lock :: "SharedMemory \<Rightarrow> 'p \<Rightarrow> (SharedMemory \<times> 'p) outcome" where
  "posix_semaphore_lock m p =
     (if sem_value m = 0 then Blocked else Stepped (m\<lparr>sem_value := sem_value m - 1\<rparr>, p))"

text \<open>The second state is the one in which the process has exited because \<open>sem_post\<close> failed.\<close>

definition posix_semaphore_unlock :: "SharedMemory \<Rightarrow> 'p \<Rightarrow> 'p \<Rightarrow> SharedMemory \<times> 'p" where
  "posix_semaphore_unlock m p failed =
     (if sem_value m < SEM_VALUE_MAX then (m\<lparr>sem_value := Suc (sem_value m)\<rparr>, p) else (m, failed))"

section \<open>producer.c\<close>

text \<open>\<open>p_last\<close> is what it will print once it has set the flag.\<close>

record posix_producer = producer +
  p_out :: "string list"
  p_last :: string

definition created :: "string \<Rightarrow> posix_producer \<Rightarrow> string" where
  "created reason p = ''Producer: '' @ reason @ ''. Created '' @ show_nat (block_count p) @ '' blocks'' @ [NL]"

definition p_failed :: "posix_producer \<Rightarrow> posix_producer" where
  "p_failed p = p\<lparr>p_pc := P_Exited, p_out := p_out p @ [''sem_post'']\<rparr>"

definition posix_producer_start :: "int \<Rightarrow> posix_producer" where
  "posix_producer_start pid =
     \<lparr>p_pc = P_Loop, used_memory = sizeof_SharedMemory, block_count = 0, blocks_since_check = 0,
      p_out = [''Producer started (PID: '' @ show_int pid @ '')'' @ [NL]], p_last = []\<rparr>"

definition posix_producer_loop :: "(nat \<Rightarrow> nat) \<Rightarrow> SharedMemory \<Rightarrow> posix_producer \<Rightarrow> SharedMemory \<times> posix_producer" where
  "posix_producer_loop rnd m p =
     (let remaining = size_t (int (total_size m) - int (used_memory p)) in
      if remaining < int (sizeof_int + sizeof_ptr + sizeof_int)
      then (m, p\<lparr>p_pc := P_Finish, p_last := created ''no more memory, finished'' p\<rparr>)
      else let count = rand_count rnd in
        if remaining < int (sizeof_int + sizeof_ptr + count * sizeof_int)
        then (m, p\<lparr>p_pc := P_Finish, p_last := created ''not enough memory, finished'' p\<rparr>)
        else let new_node = memory_start m + used_memory p in
          if PAGE_BYTES < new_node + sizeof_Node + count * sizeof_int then (m, p\<lparr>p_pc := P_Crashed\<rparr>)
          else (write_node new_node (rand_block rnd) m, p\<lparr>p_pc := P_Link new_node\<rparr>))"

definition posix_producer_link :: "nat \<Rightarrow> SharedMemory \<Rightarrow> posix_producer \<Rightarrow> (SharedMemory \<times> posix_producer) option" where
  "posix_producer_link new m p = do {
     n \<leftarrow> node_at m new;
     m1 \<leftarrow> link_node new m;
     let since = Suc (blocks_since_check p);
     let made = Suc (block_count p);
     Some (posix_semaphore_unlock m1
           (p\<lparr>used_memory := used_memory p + sizeof_Node + nat (n_count n) * sizeof_int,
              block_count := made, blocks_since_check := since,
              p_pc := (if BATCH_SIZE \<le> since then P_Check else P_Loop),
              p_out := p_out p @ [''Producer: created block #'' @ show_nat made @ '' with '' @ show_int (n_count n)
                @ '' numbers'' @ [NL]]\<rparr>)
           (p_failed p))
   }"

definition posix_producer_check :: "SharedMemory \<Rightarrow> posix_producer \<Rightarrow> (SharedMemory \<times> posix_producer) option" where
  "posix_producer_check m p = do {
     current \<leftarrow> first_unprocessed (node_at m) (shm_head m);
     Some (posix_semaphore_unlock m
           (if current = 0 \<and> 0 < block_count p
            then p\<lparr>p_pc := P_Finish, p_last := created ''all blocks are processed, finishing'' p\<rparr>
            else if current = 0 then p\<lparr>blocks_since_check := 0, p_pc := P_Loop\<rparr>
            else p\<lparr>blocks_since_check := 0, p_pc := P_Loop,
                   p_out := p_out p @ [''Producer: waiting for consumers to process blocks...'' @ [NL]]\<rparr>)
           (p_failed p))
   }"

definition posix_producer_step :: "(nat \<Rightarrow> nat) \<Rightarrow> SharedMemory \<Rightarrow> posix_producer \<Rightarrow> (SharedMemory \<times> posix_producer) outcome" where
  "posix_producer_step rnd m p =
     (case p_pc p of
        P_Loop \<Rightarrow> Stepped (posix_producer_loop rnd m p)
      | P_Link new \<Rightarrow> posix_semaphore_lock m (p\<lparr>p_pc := P_Linking new\<rparr>)
      | P_Linking new \<Rightarrow> or_fault (posix_producer_link new m p)
      | P_Check \<Rightarrow> posix_semaphore_lock m (p\<lparr>p_pc := P_Checking\<rparr>)
      | P_Checking \<Rightarrow> or_fault (posix_producer_check m p)
      | P_Finish \<Rightarrow> posix_semaphore_lock m (p\<lparr>p_pc := P_Finishing\<rparr>)
      | P_Finishing \<Rightarrow>
          Stepped (posix_semaphore_unlock (m\<lparr>producer_finished := True\<rparr>)
            (p\<lparr>p_pc := P_Exited, p_out := p_out p @ [p_last p, ''Producer: exiting'' @ [NL]]\<rparr>) (p_failed p))
      | P_Exited \<Rightarrow> Blocked
      | P_Crashed \<Rightarrow> Blocked)"

section \<open>consumer.c\<close>

record posix_consumer = consumer +
  c_id :: int
  c_out :: "string list"

text \<open>Its lines, behind \<open>Consumer\<close> and its number.\<close>

definition started_text :: "int \<Rightarrow> string" where
  "started_text pid = '' started (PID: '' @ show_int pid @ '')''"

definition waiting_text :: "nat \<Rightarrow> string" where
  "waiting_text waits = '': waiting for new blocks... ('' @ show_nat waits @ '' waits)''"

definition processed_text :: "nat \<Rightarrow> string" where
  "processed_text blocks = '': processed total '' @ show_nat blocks @ '' blocks''"

definition report_text :: "int \<Rightarrow> int \<Rightarrow> int \<Rightarrow> string" where
  "report_text n min_val max_val =
     '': processed block with '' @ show_int n @ '' numbers, min='' @ show_int min_val @ '', max='' @ show_int max_val"

definition consumer_line :: "int \<Rightarrow> string \<Rightarrow> string" where
  "consumer_line i text = ''Consumer '' @ show_int i @ text @ [NL]"

definition says :: "string \<Rightarrow> posix_consumer \<Rightarrow> posix_consumer" where
  "says text c = c\<lparr>c_out := c_out c @ [consumer_line (c_id c) text]\<rparr>"

definition c_failed :: "posix_consumer \<Rightarrow> posix_consumer" where
  "c_failed c = c\<lparr>c_pc := C_Exited, c_out := c_out c @ [''sem_post'']\<rparr>"

definition posix_consumer_start :: "int \<Rightarrow> int \<Rightarrow> posix_consumer" where
  "posix_consumer_start i pid =
     says (started_text pid)
       \<lparr>c_pc = C_Loop, wait_count = 0, processed_blocks = 0, reports = [], c_id = i, c_out = []\<rparr>"

definition posix_consumer_scan :: "SharedMemory \<Rightarrow> posix_consumer \<Rightarrow> (SharedMemory \<times> posix_consumer) option" where
  "posix_consumer_scan m c = do {
     current \<leftarrow> first_unprocessed (node_at m) (shm_head m);
     let producer_done = producer_finished m;
     let has_unprocessed = (current \<noteq> 0);
     let waits = Suc (wait_count c);
     Some (posix_semaphore_unlock m
           (if producer_done \<and> \<not> has_unprocessed
            then says (processed_text (processed_blocks c)) (c\<lparr>c_pc := C_Exited\<rparr>)
            else if \<not> has_unprocessed \<and> \<not> producer_done
            then (if waits mod 5 = 0 then says (waiting_text waits) else id)
                   (c\<lparr>wait_count := waits, c_pc := C_Loop\<rparr>)
            else c\<lparr>wait_count := 0, c_pc := C_Take\<rparr>)
           (c_failed c))
   }"

definition posix_consumer_take :: "SharedMemory \<Rightarrow> posix_consumer \<Rightarrow> (SharedMemory \<times> posix_consumer) option" where
  "posix_consumer_take m c = do {
     current \<leftarrow> first_unprocessed (node_at m) (shm_head m);
     if current = 0 then Some (posix_semaphore_unlock m (c\<lparr>c_pc := C_Loop\<rparr>) (c_failed c))
     else do {
       n \<leftarrow> node_at m current;
       Some (posix_semaphore_unlock (m\<lparr>node_at := (node_at m)(current \<mapsto> n\<lparr>n_count := 0\<rparr>)\<rparr>)
               (c\<lparr>c_pc := C_Process (n_count n) (n_data n)\<rparr>) (c_failed c))
     }
   }"

definition posix_consumer_process :: "int \<Rightarrow> nat \<Rightarrow> SharedMemory \<Rightarrow> posix_consumer \<Rightarrow> posix_consumer option" where
  "posix_consumer_process count d m c = do {
     v \<leftarrow> int_at m d;
     (min_val, max_val) \<leftarrow> min_max (int_at m) d 1 (nat count) v v;
     Some (says (report_text count min_val max_val)
             (c\<lparr>processed_blocks := Suc (processed_blocks c), reports := reports c @ [(count, min_val, max_val)], c_pc := C_Loop\<rparr>))
   }"

definition posix_consumer_step :: "SharedMemory \<Rightarrow> posix_consumer \<Rightarrow> (SharedMemory \<times> posix_consumer) outcome" where
  "posix_consumer_step m c =
     (case c_pc c of
        C_Loop \<Rightarrow> posix_semaphore_lock m (c\<lparr>c_pc := C_Scanning\<rparr>)
      | C_Scanning \<Rightarrow> or_fault (posix_consumer_scan m c)
      | C_Take \<Rightarrow> posix_semaphore_lock m (c\<lparr>c_pc := C_Taking\<rparr>)
      | C_Taking \<Rightarrow> or_fault (posix_consumer_take m c)
      | C_Process count d \<Rightarrow> or_fault (map_option (Pair m) (posix_consumer_process count d m c))
      | C_Exited \<Rightarrow> Blocked)"

section \<open>The processes together (main.c)\<close>

text \<open>\<open>names\<close>: the shared objects can still be found by their names.\<close>

record posix_system =
  pmem :: SharedMemory
  pprod :: posix_producer
  pcons :: "posix_consumer list"
  names :: bool

text \<open>The handler of SIGINT and SIGTERM in any of the processes; it exits then.\<close>

definition posix_signal_handler :: "posix_system \<Rightarrow> posix_system" where
  "posix_signal_handler s = s\<lparr>names := False\<rparr>"

datatype posix_event = PProd "nat \<Rightarrow> nat" | PCons nat | InterruptProd | InterruptCons nat

definition posix_sys_step :: "posix_event \<Rightarrow> posix_system \<Rightarrow> posix_system outcome" where
  "posix_sys_step e s =
     (case e of
        PProd rnd \<Rightarrow>
          (case posix_producer_step rnd (pmem s) (pprod s) of
             Stepped (m, p) \<Rightarrow> Stepped (s\<lparr>pmem := m, pprod := p\<rparr>) | Fault \<Rightarrow> Fault | Blocked \<Rightarrow> Blocked)
      | PCons i \<Rightarrow>
          (if i < length (pcons s)
           then case posix_consumer_step (pmem s) (pcons s ! i) of
                  Stepped (m, c) \<Rightarrow> Stepped (s\<lparr>pmem := m, pcons := (pcons s)[i := c]\<rparr>)
                | Fault \<Rightarrow> Fault | Blocked \<Rightarrow> Blocked
           else Blocked)
      | InterruptProd \<Rightarrow>
          (if p_pc (pprod s) \<in> {P_Exited, P_Crashed} then Blocked
           else Stepped ((posix_signal_handler s)\<lparr>pprod := (pprod s)\<lparr>p_pc := P_Exited\<rparr>\<rparr>))
      | InterruptCons i \<Rightarrow>
          (if i < length (pcons s) \<and> c_pc (pcons s ! i) \<noteq> C_Exited
           then Stepped ((posix_signal_handler s)\<lparr>pcons := (pcons s)[i := (pcons s ! i)\<lparr>c_pc := C_Exited\<rparr>]\<rparr>)
           else Blocked))"

text \<open>The segment as \<open>init_shared_memory\<close> leaves it, the semaphore as \<open>init_semaphore\<close> has found or made it.\<close>

definition posix_sys_start :: "nat \<Rightarrow> int \<Rightarrow> int list \<Rightarrow> posix_system" where
  "posix_sys_start value pid pids =
     \<lparr>pmem = (shm_init SEGMENT_SIZE)\<lparr>sem_value := value\<rparr>, pprod = posix_producer_start pid,
      pcons = map (\<lambda>(i, q). posix_consumer_start (int i) q) (enumerate 1 pids), names = True\<rparr>"

end
