(* ===== verification/Shm_Queue_Props.thy ===== *)
theory Shm_Queue_Props
  imports Shm_Queue "HOL-Library.Multiset"
begin

text \<open>
  The properties of the producer and its consumers: at any moment at most one process works on the
  list, and when the consumers end every block has been processed exactly once.
\<close>

section \<open>The scan of a block\<close>

definition summary :: "int list \<Rightarrow> int \<times> int \<times> int" where
  "summary b = (int (length b), Min (set b), Max (set b))"

definition cells_ok :: "(nat \<rightharpoonup> int) \<Rightarrow> nat \<Rightarrow> int list \<Rightarrow> bool" where
  "cells_ok cells d b \<longleftrightarrow> (\<forall>i < length b. cells (d + i * sizeof_int) = Some (b ! i))"

lemma min_max_fold:
  "cells_ok cells d b \<Longrightarrow> i \<le> length b \<Longrightarrow>
   min_max cells d i (length b) lo hi = Some (fold min (drop i b) lo, fold max (drop i b) hi)"
proof (induction "length b - i" arbitrary: i lo hi)
  case 0
  then show ?case by (subst min_max.simps) simp
next
  case (Suc n)
  then have i: "i < length b" "n = length b - Suc i" "Suc i \<le> length b" by simp_all
  then have "drop i b = b ! i # drop (Suc i) b" by (simp add: Cons_nth_drop_Suc)
  moreover have "(if b ! i < lo then b ! i else lo) = min (b ! i) lo" "(if hi < b ! i then b ! i else hi) = max (b ! i) hi"
    by (simp_all add: min_def max_def)
  ultimately show ?case
    using Suc.hyps(1)[OF i(2) Suc.prems(1) i(3)] i(1) Suc.prems(1)
    by (subst min_max.simps) (simp add: cells_ok_def)
qed

definition will_report :: "(nat \<rightharpoonup> int) \<Rightarrow> int \<Rightarrow> nat \<Rightarrow> (int \<times> int \<times> int) option" where
  "will_report cells cnt d =
     Option.bind (cells d) (\<lambda>v. map_option (Pair cnt) (min_max cells d 1 (nat cnt) v v))"

lemma will_report_summary:
  assumes "cells_ok cells d b" "b \<noteq> []"
  shows "will_report cells (int (length b)) d = Some (summary b)"
proof -
  obtain x xs where b: "b = x # xs" using assms(2) by (cases b) auto
  have "cells d = Some x" using assms(1) b by (auto simp: cells_ok_def)
  moreover have "min_max cells d 1 (length b) x x = Some (Min (set b), Max (set b))"
    using min_max_fold[OF assms(1), of 1] b by (simp add: Min.set_eq_fold Max.set_eq_fold del: List.set_simps)
  ultimately show ?thesis by (simp add: will_report_def summary_def)
qed

lemma map_le_Some: "cells \<subseteq>\<^sub>m cells' \<Longrightarrow> cells x = Some v \<Longrightarrow> cells' x = Some v"
  by (metis domI map_le_def)

lemma min_max_mono: "min_max cells d i n lo hi = Some r \<Longrightarrow> cells \<subseteq>\<^sub>m cells' \<Longrightarrow> min_max cells' d i n lo hi = Some r"
proof (induction cells d i n lo hi rule: min_max.induct)
  case (1 cells d i n lo hi)
  show ?case
  proof (cases "i < n")
    case True
    then obtain v where v: "cells (d + i * sizeof_int) = Some v"
      using 1(2) by (subst (asm) min_max.simps) (auto split: bind_splits)
    then have "cells' (d + i * sizeof_int) = Some v" using 1(3) map_le_Some by metis
    with 1 v True show ?thesis by (subst min_max.simps) (subst (asm) (2) min_max.simps, simp)
  next
    case False
    then show ?thesis using 1(2) by (simp add: min_max.simps[of cells] min_max.simps[of cells'])
  qed
qed

lemma will_report_mono: "will_report cells n d = Some r \<Longrightarrow> cells \<subseteq>\<^sub>m cells' \<Longrightarrow> will_report cells' n d = Some r"
  unfolding will_report_def by (auto simp: bind_eq_Some_conv intro: map_le_Some min_max_mono)

lemma cells_ok_mono: "cells_ok cells d b \<Longrightarrow> cells \<subseteq>\<^sub>m cells' \<Longrightarrow> cells_ok cells' d b"
  unfolding cells_ok_def using map_le_Some by metis

section \<open>The list of nodes\<close>

text \<open>A block of the list: its address, its contents, and whether it has been taken.\<close>

type_synonym block = "nat \<times> int list \<times> bool"

definition node_of :: "nat \<Rightarrow> int list \<Rightarrow> bool \<Rightarrow> nat \<Rightarrow> Node" where
  "node_of a b taken nxt = \<lparr>n_count = (if taken then 0 else int (length b)), n_data = a + sizeof_Node, n_next = nxt\<rparr>"

lemma node_of_eq [simp]: "node_of a b t n = node_of a b t n' \<longleftrightarrow> n = n'"
  by (simp add: node_of_def)

fun lseg :: "(nat \<rightharpoonup> Node) \<Rightarrow> nat \<Rightarrow> block list \<Rightarrow> nat \<Rightarrow> bool" where
  "lseg nd p [] q = (p = q)"
| "lseg nd p ((a, b, taken) # bl) q =
     (p = a \<and> a \<noteq> 0 \<and> b \<noteq> [] \<and> (\<exists>nxt. nd a = Some (node_of a b taken nxt) \<and> lseg nd nxt bl q))"

lemma lseg_append: "lseg nd p (xs @ ys) q \<longleftrightarrow> (\<exists>r. lseg nd p xs r \<and> lseg nd r ys q)"
  by (induction xs arbitrary: p) (auto, blast+)

lemma lseg_frame: "a \<notin> fst ` set bl \<Longrightarrow> lseg (nd(a \<mapsto> n)) p bl q = lseg nd p bl q"
  by (induction bl arbitrary: p) auto

lemma first_unprocessed_lseg:
  "lseg nd p bl 0 \<Longrightarrow>
   (first_unprocessed nd p = Some 0 \<and> (\<forall>(a, b, taken) \<in> set bl. taken)) \<or>
   (\<exists>pre a b post. bl = pre @ (a, b, False) # post \<and> a \<noteq> 0 \<and> first_unprocessed nd p = Some a)"
proof (induction bl arbitrary: p)
  case Nil
  then show ?case by (subst first_unprocessed.simps) simp
next
  case (Cons x bl)
  obtain a b taken where x: "x = (a, b, taken)" by (cases x)
  then obtain nxt where n: "p = a" "a \<noteq> 0" "b \<noteq> []" "nd a = Some (node_of a b taken nxt)" "lseg nd nxt bl 0"
    using Cons.prems by auto
  show ?case
  proof (cases taken)
    case False
    then have "first_unprocessed nd p = Some a" using n by (subst first_unprocessed.simps) (simp add: node_of_def)
    moreover have "x # bl = [] @ (a, b, False) # bl" using False x by simp
    ultimately show ?thesis using n(2) by blast
  next
    case True
    then have "first_unprocessed nd p = first_unprocessed nd nxt"
      using n by (subst first_unprocessed.simps) (simp add: node_of_def)
    then show ?thesis using Cons.IH[OF n(5)] True x by simp (metis append_Cons)
  qed
qed

lemma take_lseg:
  assumes "lseg nd p (pre @ (a, b, False) # post) q" "distinct (map fst (pre @ (a, b, False) # post))"
  shows "\<exists>n. nd a = Some n \<and> n_count n = int (length b) \<and> n_data n = a + sizeof_Node \<and>
    lseg (nd(a \<mapsto> n\<lparr>n_count := 0\<rparr>)) p (pre @ (a, b, True) # post) q"
proof -
  obtain nxt where n: "lseg nd p pre a" "a \<noteq> 0" "b \<noteq> []" "nd a = Some (node_of a b False nxt)" "lseg nd nxt post q"
    using assms(1) by (auto simp: lseg_append)
  have "a \<notin> fst ` set pre" "a \<notin> fst ` set post" using assms(2) by auto
  then show ?thesis using n by (auto simp: lseg_append lseg_frame node_of_def)
qed

lemma link_lseg:
  assumes "lseg (node_at m) (shm_head m) bl 0" "distinct (map fst bl)" "a \<notin> fst ` set bl" "a \<noteq> 0" "b \<noteq> []"
    and "bl \<noteq> [] \<Longrightarrow> shm_tail m = fst (last bl)" "node_at m a = Some (node_of a b False 0)"
  shows "\<exists>m'. link_node a m = Some m' \<and> lseg (node_at m') (shm_head m') (bl @ [(a, b, False)]) 0 \<and> shm_tail m' = a \<and>
    m' = m\<lparr>shm_head := shm_head m', shm_tail := a, node_at := node_at m'\<rparr> \<and> dom (node_at m') = dom (node_at m)"
proof (cases bl rule: rev_cases)
  case Nil
  with assms show ?thesis by (auto simp: link_node_def)
next
  case (snoc ys x)
  obtain a' b' t' where x: "x = (a', b', t')" by (cases x)
  have n: "lseg (node_at m) (shm_head m) ys a'" "a' \<noteq> 0" "b' \<noteq> []" "node_at m a' = Some (node_of a' b' t' 0)"
    using assms(1) snoc x by (auto simp: lseg_append)
  have ne: "a' \<notin> fst ` set ys" "a \<noteq> a'" "a \<notin> fst ` set ys" using assms(2,3) snoc x by auto
  have head: "shm_head m \<noteq> 0" using n(1,2) by (cases ys) auto
  let ?nd = "(node_at m)(a' \<mapsto> (node_of a' b' t' 0)\<lparr>n_next := a\<rparr>)"
  have "link_node a m = Some (m\<lparr>node_at := ?nd, shm_tail := a\<rparr>)"
    using assms(6) snoc x n(4) head by (simp add: link_node_def)
  moreover have "lseg ?nd (shm_head m) (bl @ [(a, b, False)]) 0"
    using n ne assms(4,5,7) snoc x by (auto simp: lseg_append lseg_frame) (auto simp: node_of_def)
  moreover have "dom ?nd = dom (node_at m)" using n(4) by auto
  ultimately show ?thesis by auto
qed

section \<open>The invariant\<close>

definition filled_at :: "SharedMemory \<Rightarrow> producer \<Rightarrow> nat \<Rightarrow> int list list \<Rightarrow> bool" where
  "filled_at m p a pend \<longleftrightarrow> a = memory_start m + used_memory p \<and>
     (\<exists>b. pend = [b] \<and> b \<noteq> [] \<and> node_at m a = Some (node_of a b False 0) \<and> cells_ok (int_at m) (a + sizeof_Node) b)"

lemma filled_at_pc [simp]: "filled_at m (p\<lparr>p_pc := x\<rparr>) a pend = filled_at m p a pend"
  by (simp add: filled_at_def)

definition pending_ok :: "SharedMemory \<Rightarrow> producer \<Rightarrow> int list list \<Rightarrow> bool" where
  "pending_ok m p pend =
     (case p_pc p of P_Link a \<Rightarrow> filled_at m p a pend | P_Linking a \<Rightarrow> filled_at m p a pend | _ \<Rightarrow> pend = [])"

definition block_size :: "int list \<Rightarrow> nat" where
  "block_size b = sizeof_Node + length b * sizeof_int"

text \<open>
  The list: the blocks \<open>bl\<close> from the head on, below the address the producer writes to next, and
  the block it has filled but not linked.
\<close>

definition list_inv :: "SharedMemory \<Rightarrow> producer \<Rightarrow> block list \<Rightarrow> int list list \<Rightarrow> bool" where
  "list_inv m p bl pend \<longleftrightarrow> 0 < memory_start m \<and> lseg (node_at m) (shm_head m) bl 0 \<and> distinct (map fst bl) \<and>
     (bl \<noteq> [] \<longrightarrow> shm_tail m = fst (last bl)) \<and>
     (\<forall>(a, b, t) \<in> set bl. a < memory_start m + used_memory p \<and> cells_ok (int_at m) (a + sizeof_Node) b) \<and>
     pending_ok m p pend \<and>
     (\<forall>x \<in> dom (int_at m). x < memory_start m + used_memory p + sum_list (map block_size pend))"

definition taken :: "block list \<Rightarrow> int list list" where
  "taken bl = map (fst \<circ> snd) (filter (snd \<circ> snd) bl)"

definition contents :: "block list \<Rightarrow> int list list" where
  "contents bl = map (fst \<circ> snd) bl"

text \<open>What a consumer has reported and what it will report for the block in its hands.\<close>

definition accounted :: "(nat \<rightharpoonup> int) \<Rightarrow> consumer \<Rightarrow> (int \<times> int \<times> int) multiset" where
  "accounted cells c = mset (reports c) +
     (case c_pc c of C_Process n d \<Rightarrow> {#the (will_report cells n d)#} | _ \<Rightarrow> {#})"

definition hand_ok :: "(nat \<rightharpoonup> int) \<Rightarrow> consumer \<Rightarrow> bool" where
  "hand_ok cells c = (case c_pc c of C_Process n d \<Rightarrow> will_report cells n d \<noteq> None | _ \<Rightarrow> True)"

definition work_inv :: "(nat \<rightharpoonup> int) \<Rightarrow> consumer list \<Rightarrow> block list \<Rightarrow> bool" where
  "work_inv cells cs bl \<longleftrightarrow> (\<forall>c \<in> set cs. hand_ok cells c) \<and>
     sum_list (map (accounted cells) cs) = mset (map summary (taken bl))"

definition p_holds :: "producer \<Rightarrow> bool" where
  "p_holds p = (case p_pc p of P_Linking a \<Rightarrow> True | P_Checking \<Rightarrow> True | P_Finishing \<Rightarrow> True | _ \<Rightarrow> False)"

definition c_holds :: "consumer \<Rightarrow> bool" where
  "c_holds c = (case c_pc c of C_Scanning \<Rightarrow> True | C_Taking \<Rightarrow> True | _ \<Rightarrow> False)"

definition holders :: "producer \<Rightarrow> consumer list \<Rightarrow> nat" where
  "holders p cs = of_bool (p_holds p) + length (filter c_holds cs)"

definition some_exited :: "consumer list \<Rightarrow> bool" where
  "some_exited cs \<longleftrightarrow> (\<exists>c \<in> set cs. c_pc c = C_Exited)"

definition all_taken :: "block list \<Rightarrow> bool" where
  "all_taken bl \<longleftrightarrow> (\<forall>(a, b, t) \<in> set bl. t)"

definition end_inv :: "SharedMemory \<Rightarrow> producer \<Rightarrow> consumer list \<Rightarrow> block list \<Rightarrow> bool" where
  "end_inv m p cs bl \<longleftrightarrow> (producer_finished m \<longleftrightarrow> p_pc p = P_Exited) \<and>
     (some_exited cs \<longrightarrow> producer_finished m \<and> all_taken bl)"

definition shm_inv :: "SharedMemory \<Rightarrow> producer \<Rightarrow> consumer list \<Rightarrow> block list \<Rightarrow> int list list \<Rightarrow> bool" where
  "shm_inv m p cs bl pend \<longleftrightarrow> list_inv m p bl pend \<and> work_inv (int_at m) cs bl \<and> sem_value m + holders p cs = 1 \<and> end_inv m p cs bl"

lemmas shm_inv_defs = shm_inv_def list_inv_def work_inv_def end_inv_def

lemma inv_init: "shm_inv (shm_init seg) (prod (sys_init n)) (cons (sys_init n)) [] []"
proof -
  have "sum_list (map (accounted Map.empty) (cons (sys_init n))) = {#}"
    by (induction n) (simp_all add: sys_init_def accounted_def)
  moreover have "length (filter c_holds (cons (sys_init n))) = 0" by (simp add: sys_init_def c_holds_def)
  ultimately show ?thesis
    by (auto simp: some_exited_def shm_inv_defs shm_init_def sys_init_def sizeof_SharedMemory_def pending_ok_def taken_def hand_ok_def
        holders_def p_holds_def)
qed

section \<open>Consumer steps\<close>

lemma sum_list_map_update:
  "i < length cs \<Longrightarrow> sum_list (map f (cs[i := c])) + f (cs ! i) = sum_list (map f cs) + (f c :: 'a :: comm_monoid_add)"
proof (induction cs arbitrary: i)
  case (Cons x cs)
  then show ?case
  proof (cases i)
    case (Suc j)
    then have "sum_list (map f (cs[j := c])) + f (cs ! j) = sum_list (map f cs) + f c" using Cons by simp
    then show ?thesis using Suc by (simp add: add.assoc)
  qed (simp add: add_ac)
qed simp

lemma length_filter_update:
  "i < length cs \<Longrightarrow> length (filter P (cs[i := c])) + of_bool (P (cs ! i)) = length (filter P cs) + of_bool (P c)"
proof (induction cs arbitrary: i)
  case (Cons x cs)
  then show ?case by (cases i) simp_all
qed simp

lemma list_inv_sem [simp]: "list_inv (m\<lparr>sem_value := v\<rparr>) p bl pend = list_inv m p bl pend"
proof -
  have "filled_at (m\<lparr>sem_value := v\<rparr>) p a pend = filled_at m p a pend" for a by (simp add: filled_at_def)
  then show ?thesis by (cases "p_pc p") (simp_all add: list_inv_def pending_ok_def)
qed

lemma ball_update: "\<forall>c \<in> set cs. P c \<Longrightarrow> P c \<Longrightarrow> \<forall>c \<in> set (cs[i := c]). P c"
  by (auto dest: set_update_subset_insert[THEN subsetD])

lemma some_exited_update: "some_exited (cs[i := c]) \<Longrightarrow> c_pc c = C_Exited \<or> some_exited cs"
  by (auto simp: some_exited_def dest: set_update_subset_insert[THEN subsetD])

lemma end_inv_sem [simp]: "end_inv (m\<lparr>sem_value := v\<rparr>) p cs bl = end_inv m p cs bl"
  by (simp add: end_inv_def)

definition empty_handed :: "consumer \<Rightarrow> bool" where
  "empty_handed c = (case c_pc c of C_Process n d \<Rightarrow> False | _ \<Rightarrow> True)"

text \<open>A step of consumer \<open>i\<close> that changes neither the list nor what it accounts for.\<close>

lemma consumer_frame:
  assumes "shm_inv m p cs bl pend" "i < length cs" "accounted (int_at m) c = accounted (int_at m) (cs ! i)" "hand_ok (int_at m) c"
    and "v + of_bool (c_holds c) = sem_value m + of_bool (c_holds (cs ! i))"
    and "c_pc c = C_Exited \<Longrightarrow> producer_finished m \<and> all_taken bl"
  shows "shm_inv (m\<lparr>sem_value := v\<rparr>) p (cs[i := c]) bl pend"
proof -
  have "sum_list (map (accounted (int_at m)) (cs[i := c])) = sum_list (map (accounted (int_at m)) cs)"
    using sum_list_map_update[OF assms(2), of "accounted (int_at m)" c] assms(3) by simp
  then have "work_inv (int_at m) (cs[i := c]) bl"
    using assms(1,4) ball_update[of cs "hand_ok (int_at m)" c i] by (simp add: shm_inv_def work_inv_def)
  moreover have "v + holders p (cs[i := c]) = 1"
    using assms(1,5) length_filter_update[OF assms(2), of c_holds c] by (simp add: shm_inv_def holders_def)
  moreover have "end_inv m p (cs[i := c]) bl"
    using assms(1,6) some_exited_update[of cs i c] by (auto simp: shm_inv_def end_inv_def)
  ultimately show ?thesis using assms(1) by (simp add: shm_inv_def)
qed

lemma hand_frame:
  "empty_handed c \<Longrightarrow> empty_handed c' \<Longrightarrow> reports c' = reports c \<Longrightarrow>
   accounted cells c' = accounted cells c \<and> hand_ok cells c'"
  by (cases "c_pc c"; cases "c_pc c'") (auto simp: accounted_def hand_ok_def empty_handed_def)

lemma sem_unlock: "semaphore_unlock m = m\<lparr>sem_value := Suc (sem_value m)\<rparr>"
  by (simp add: semaphore_unlock_def)

lemma finished_unlock [simp]: "producer_finished (semaphore_unlock m) = producer_finished m"
  by (simp add: semaphore_unlock_def)

lemma consumer_locking:
  assumes "shm_inv m p cs bl pend" "i < length cs" "locking m c' = Stepped (m', c'')"
    and "\<not> c_holds (cs ! i)" "c_holds c'" "empty_handed (cs ! i)" "reports c' = reports (cs ! i)"
  shows "shm_inv m' p (cs[i := c'']) bl pend"
proof -
  have s: "0 < sem_value m" "m' = m\<lparr>sem_value := sem_value m - 1\<rparr>" "c'' = c'"
    using assms(3) by (auto simp: locking_def semaphore_lock_def split: if_splits)
  have "empty_handed c'" "c_pc c' \<noteq> C_Exited" using assms(5) by (cases "c_pc c'"; simp add: c_holds_def empty_handed_def)+
  then show ?thesis unfolding s(2,3)
    using hand_frame[of "cs ! i" c' "int_at m"] assms(4-7) s(1) by (intro consumer_frame[OF assms(1,2)]) auto
qed

lemma unprocessed:
  assumes "shm_inv m p cs bl pend"
  obtains "first_unprocessed (node_at m) (shm_head m) = Some 0" "all_taken bl"
  | pre a b post where "first_unprocessed (node_at m) (shm_head m) = Some a" "a \<noteq> 0" "bl = pre @ (a, b, False) # post"
proof -
  have "lseg (node_at m) (shm_head m) bl 0" using assms by (simp add: shm_inv_def list_inv_def)
  from first_unprocessed_lseg[OF this] show ?thesis using that unfolding all_taken_def by blast
qed

text \<open>
  What a step of a consumer comes to: how many blocks are left untaken, and where the consumer goes.
\<close>

definition untaken :: "block list \<Rightarrow> nat" where
  "untaken bl = length (filter (\<lambda>(a, b, t). \<not> t) bl)"

lemma untaken_0: "untaken bl = 0 \<longleftrightarrow> all_taken bl"
  by (auto simp: untaken_def all_taken_def filter_empty_conv)

definition consumer_moves :: "bool \<Rightarrow> nat \<Rightarrow> consumer_pc \<Rightarrow> nat \<Rightarrow> consumer_pc \<Rightarrow> bool" where
  "consumer_moves finished u pc u' pc' =
     (case pc of
        C_Loop \<Rightarrow> u' = u \<and> pc' = C_Scanning
      | C_Scanning \<Rightarrow> u' = u \<and> pc' = (if 0 < u then C_Take else if finished then C_Exited else C_Loop)
      | C_Take \<Rightarrow> u' = u \<and> pc' = C_Taking
      | C_Taking \<Rightarrow> (if 0 < u then u = Suc u' \<and> (\<exists>n d. pc' = C_Process n d) else u' = u \<and> pc' = C_Loop)
      | C_Process n d \<Rightarrow> u' = u \<and> pc' = C_Loop
      | C_Exited \<Rightarrow> False)"

lemma consumer_scan_inv:
  assumes "shm_inv m p cs bl pend" "i < length cs" "c_pc (cs ! i) = C_Scanning"
  shows "\<exists>m' c'. consumer_scan m (cs ! i) = Some (m', c') \<and> shm_inv m' p (cs[i := c']) bl pend \<and>
    producer_finished m' = producer_finished m \<and>
    consumer_moves (producer_finished m) (untaken bl) C_Scanning (untaken bl) (c_pc c')"
proof -
  have step: "shm_inv (semaphore_unlock m) p (cs[i := c']) bl pend"
    if "c_pc c' \<in> {C_Loop, C_Take, C_Exited}" "reports c' = reports (cs ! i)"
      "c_pc c' = C_Exited \<Longrightarrow> producer_finished m \<and> all_taken bl" for c'
    unfolding sem_unlock
    using that hand_frame[of "cs ! i" c' "int_at m"] assms(3)
    by (intro consumer_frame[OF assms(1,2)]) (auto simp: c_holds_def empty_handed_def)
  from assms(1) show ?thesis
  proof (cases rule: unprocessed)
    case 1
    then have "untaken bl = 0" by (simp add: untaken_0)
    with 1 show ?thesis
      by (cases "producer_finished m")
         (auto simp: consumer_scan_def Let_def consumer_moves_def finished_unlock intro!: step)
  next
    case (2 pre a b post)
    then have "0 < untaken bl" by (simp add: untaken_def)
    with 2 show ?thesis using step[of "(cs ! i)\<lparr>wait_count := 0, c_pc := C_Take\<rparr>"]
      by (simp add: consumer_scan_def Let_def consumer_moves_def finished_unlock)
  qed
qed

lemma taken_append [simp]: "taken (xs @ ys) = taken xs @ taken ys" "taken ((a, b, t) # ys) = (if t then b # taken ys else taken ys)"
  by (simp_all add: taken_def)

lemma consumer_take_inv:
  assumes "shm_inv m p cs bl pend" "i < length cs" "c_pc (cs ! i) = C_Taking"
  shows "\<exists>m' c' bl'. consumer_take m (cs ! i) = Some (m', c') \<and> shm_inv m' p (cs[i := c']) bl' pend \<and> contents bl' = contents bl \<and>
    producer_finished m' = producer_finished m \<and>
    consumer_moves (producer_finished m) (untaken bl) C_Taking (untaken bl') (c_pc c')"
  using assms(1)
proof (cases rule: unprocessed)
  case 1
  have "shm_inv (semaphore_unlock m) p (cs[i := (cs ! i)\<lparr>c_pc := C_Loop\<rparr>]) bl pend"
    unfolding sem_unlock using hand_frame[of "cs ! i" "(cs ! i)\<lparr>c_pc := C_Loop\<rparr>" "int_at m"] assms(3)
    by (intro consumer_frame[OF assms(1,2)]) (auto simp: c_holds_def empty_handed_def)
  moreover have "untaken bl = 0" using 1(2) by (simp add: untaken_0)
  ultimately show ?thesis using 1(1) by (auto simp: consumer_take_def consumer_moves_def)
next
  case (2 pre a b post)
  have li: "list_inv m p bl pend" using assms(1) by (simp add: shm_inv_def)
  then obtain n where n: "node_at m a = Some n" "n_count n = int (length b)" "n_data n = a + sizeof_Node"
    "lseg ((node_at m)(a \<mapsto> n\<lparr>n_count := 0\<rparr>)) (shm_head m) (pre @ (a, b, True) # post) 0"
    using take_lseg[of "node_at m" "shm_head m" pre a b post 0] 2(3) by (auto simp: list_inv_def)
  let ?m = "m\<lparr>node_at := (node_at m)(a \<mapsto> n\<lparr>n_count := 0\<rparr>)\<rparr>"
  let ?c = "(cs ! i)\<lparr>c_pc := C_Process (int (length b)) (a + sizeof_Node)\<rparr>"
  let ?bl = "pre @ (a, b, True) # post"
  have cells: "cells_ok (int_at m) (a + sizeof_Node) b" "b \<noteq> []" "a < memory_start m + used_memory p"
    using li 2(3) by (auto simp: list_inv_def lseg_append)
  have hand: "will_report (int_at m) (int (length b)) (a + sizeof_Node) = Some (summary b)"
    using will_report_summary cells by blast
  have "pending_ok ?m p pend"
    using li cells(3) by (cases "p_pc p") (auto simp: list_inv_def pending_ok_def filled_at_def)
  then have "list_inv ?m p ?bl pend" using li n(4) 2(3) by (auto simp: list_inv_def)
  moreover have "sum_list (map (accounted (int_at m)) (cs[i := ?c])) = mset (map summary (taken ?bl))"
  proof -
    have "accounted (int_at m) ?c = add_mset (summary b) (accounted (int_at m) (cs ! i))"
      using hand assms(3) by (simp add: accounted_def)
    then show ?thesis using sum_list_map_update[OF assms(2), of "accounted (int_at m)" ?c] assms(1) 2(3)
      by (simp add: shm_inv_def work_inv_def)
  qed
  moreover have "hand_ok (int_at m) ?c" using hand by (simp add: hand_ok_def summary_def)
  ultimately have "list_inv ?m p ?bl pend" "work_inv (int_at m) (cs[i := ?c]) ?bl"
    using assms(1) ball_update[of cs "hand_ok (int_at m)" ?c i] by (simp_all add: shm_inv_def work_inv_def)
  moreover have "holders p cs = Suc (holders p (cs[i := ?c]))"
    using assms(3) length_filter_update[OF assms(2), of c_holds ?c] by (simp add: holders_def c_holds_def)
  then have "Suc (sem_value m) + holders p (cs[i := ?c]) = 1" using assms(1) by (simp add: shm_inv_def)
  moreover have "end_inv m p (cs[i := ?c]) ?bl"
    using assms(1) some_exited_update[of cs i ?c] 2(3) by (auto simp: shm_inv_def end_inv_def all_taken_def)
  ultimately have "shm_inv (semaphore_unlock ?m) p (cs[i := ?c]) ?bl pend"
    unfolding sem_unlock by (auto simp: shm_inv_def end_inv_def)
  moreover have "untaken bl = Suc (untaken ?bl)" using 2(3) by (simp add: untaken_def)
  ultimately show ?thesis using 2 n
    by (intro exI[of _ "semaphore_unlock ?m"] exI[of _ ?c] exI[of _ ?bl])
       (simp add: consumer_take_def contents_def consumer_moves_def)
qed

lemma consumer_process_inv:
  assumes "shm_inv m p cs bl pend" "i < length cs" "c_pc (cs ! i) = C_Process n d"
  shows "\<exists>c'. consumer_process n d m (cs ! i) = Some c' \<and> shm_inv m p (cs[i := c']) bl pend \<and> c_pc c' = C_Loop"
proof -
  have "hand_ok (int_at m) (cs ! i)" using assms(1,2) by (simp add: shm_inv_def work_inv_def)
  then obtain r where r: "will_report (int_at m) n d = Some r" using assms(3) by (auto simp: hand_ok_def)
  let ?c = "(cs ! i)\<lparr>processed_blocks := Suc (processed_blocks (cs ! i)), reports := reports (cs ! i) @ [r], c_pc := C_Loop\<rparr>"
  have "consumer_process n d m (cs ! i) = Some ?c"
    using r by (auto simp: consumer_process_def will_report_def bind_eq_Some_conv)
  moreover have "shm_inv (m\<lparr>sem_value := sem_value m\<rparr>) p (cs[i := ?c]) bl pend"
    by (rule consumer_frame[OF assms(1,2)]) (simp_all add: accounted_def hand_ok_def c_holds_def assms(3) r)
  ultimately show ?thesis by simp
qed

text \<open>A consumer never faults, and waits only while another process holds the semaphore.\<close>

lemma consumer_step_inv:
  assumes "shm_inv m p cs bl pend" "i < length cs"
  shows "(consumer_step m (cs ! i) = Blocked \<and> (c_pc (cs ! i) = C_Exited \<or> sem_value m = 0)) \<or>
    (\<exists>m' c' bl'. consumer_step m (cs ! i) = Stepped (m', c') \<and> shm_inv m' p (cs[i := c']) bl' pend \<and>
       contents bl' = contents bl \<and> producer_finished m' = producer_finished m \<and>
       consumer_moves (producer_finished m) (untaken bl) (c_pc (cs ! i)) (untaken bl') (c_pc c'))"
proof -
  have lock: ?thesis if "consumer_step m (cs ! i) = locking m c'" "\<not> c_holds (cs ! i)" "c_holds c'" "empty_handed (cs ! i)"
    "reports c' = reports (cs ! i)"
    "consumer_moves (producer_finished m) (untaken bl) (c_pc (cs ! i)) (untaken bl) (c_pc c')" for c'
  proof (cases "locking m c'")
    case (Stepped x)
    then obtain m' where "locking m c' = Stepped (m', c')" "producer_finished m' = producer_finished m"
      by (auto simp: locking_def semaphore_lock_def split: if_splits)
    then show ?thesis using consumer_locking[OF assms _ that(2-5)] that(1,6)
      by (intro disjI2 exI[of _ m'] exI[of _ c'] exI[of _ bl]) simp
  qed (use that(1) in \<open>auto simp: locking_def semaphore_lock_def split: if_splits\<close>)
  show ?thesis
  proof (cases "c_pc (cs ! i)")
    case C_Loop
    then show ?thesis using lock[of "(cs ! i)\<lparr>c_pc := C_Scanning\<rparr>"]
      by (simp add: consumer_step_def c_holds_def empty_handed_def consumer_moves_def)
  next
    case C_Take
    then show ?thesis using lock[of "(cs ! i)\<lparr>c_pc := C_Taking\<rparr>"]
      by (simp add: consumer_step_def c_holds_def empty_handed_def consumer_moves_def)
  next
    case C_Scanning
    obtain m' c' where "consumer_scan m (cs ! i) = Some (m', c')" "shm_inv m' p (cs[i := c']) bl pend"
      "producer_finished m' = producer_finished m"
      "consumer_moves (producer_finished m) (untaken bl) C_Scanning (untaken bl) (c_pc c')"
      using consumer_scan_inv[OF assms C_Scanning] by blast
    then show ?thesis using C_Scanning
      by (intro disjI2 exI[of _ m'] exI[of _ c'] exI[of _ bl]) (simp add: consumer_step_def or_fault_def)
  next
    case C_Taking
    obtain m' c' bl' where "consumer_take m (cs ! i) = Some (m', c')" "shm_inv m' p (cs[i := c']) bl' pend"
      "contents bl' = contents bl" "producer_finished m' = producer_finished m"
      "consumer_moves (producer_finished m) (untaken bl) C_Taking (untaken bl') (c_pc c')"
      using consumer_take_inv[OF assms C_Taking] by blast
    then show ?thesis using C_Taking
      by (intro disjI2 exI[of _ m'] exI[of _ c'] exI[of _ bl']) (simp add: consumer_step_def or_fault_def)
  next
    case (C_Process n d)
    obtain c' where "consumer_process n d m (cs ! i) = Some c'" "shm_inv m p (cs[i := c']) bl pend" "c_pc c' = C_Loop"
      using consumer_process_inv[OF assms C_Process] by blast
    then show ?thesis using C_Process
      by (intro disjI2 exI[of _ m] exI[of _ c'] exI[of _ bl]) (simp add: consumer_step_def or_fault_def consumer_moves_def)
  next
    case C_Exited
    then show ?thesis by (simp add: consumer_step_def)
  qed
qed

section \<open>Producer steps\<close>

lemma cells_ok_extends: "cells \<subseteq>\<^sub>m cells' \<Longrightarrow> work_inv cells cs bl \<Longrightarrow> work_inv cells' cs bl"
proof -
  assume le: "cells \<subseteq>\<^sub>m cells'" and w: "work_inv cells cs bl"
  have "hand_ok cells' c \<and> accounted cells' c = accounted cells c" if "hand_ok cells c" for c
    using that will_report_mono[OF _ le] by (cases "c_pc c") (auto simp: hand_ok_def accounted_def)
  then have "\<forall>c \<in> set cs. hand_ok cells' c \<and> accounted cells' c = accounted cells c" using w by (simp add: work_inv_def)
  then have "\<forall>c \<in> set cs. hand_ok cells' c" "map (accounted cells') cs = map (accounted cells) cs" by simp_all
  then show ?thesis using w by (simp add: work_inv_def del: map_eq_conv)
qed

lemma p_step_inv:
  assumes "shm_inv m p cs bl pend" "list_inv m' p' bl pend'" "int_at m \<subseteq>\<^sub>m int_at m'"
    and "sem_value m' + of_bool (p_holds p') = sem_value m + of_bool (p_holds p)"
    and "producer_finished m' \<longleftrightarrow> p_pc p' = P_Exited" "producer_finished m \<Longrightarrow> producer_finished m'"
  shows "shm_inv m' p' cs bl pend'"
  using assms cells_ok_extends[OF assms(3), of cs bl] by (auto simp: shm_inv_def holders_def end_inv_def)

lemma list_inv_pc:
  "list_inv m p bl [] \<Longrightarrow> used_memory p' = used_memory p \<Longrightarrow> pending_ok m p' [] \<Longrightarrow> list_inv m p' bl []"
  by (simp add: list_inv_def)

lemma write_node_cells:
  assumes "\<forall>x \<in> dom (int_at m). x < a"
  shows "int_at m \<subseteq>\<^sub>m int_at (write_node a b m)" "cells_ok (int_at (write_node a b m)) (a + sizeof_Node) b"
    "x \<in> dom (int_at (write_node a b m)) \<Longrightarrow> x < a + block_size b"
proof -
  let ?l = "map (\<lambda>i. (a + sizeof_Node + i * sizeof_int, b ! i)) [0..<length b]"
  have keys: "fst ` set ?l = (\<lambda>i. a + sizeof_Node + i * sizeof_int) ` {..<length b}" by (auto simp: image_image)
  have new: "x < a + block_size b" if "x \<in> fst ` set ?l" for x
    using that unfolding keys by (auto simp: block_size_def sizeof_int_def)
  have old: "x < a + block_size b" if "x \<in> dom (int_at m)" for x
    using assms[rule_format, OF that] by linarith
  have "int_at (write_node a b m) = int_at m ++ map_of ?l" by (simp add: write_node_def)
  then have "dom (int_at (write_node a b m)) = fst ` set ?l \<union> dom (int_at m)"
    by (simp only: dom_map_add dom_map_of_conv_image_fst)
  then show "x \<in> dom (int_at (write_node a b m)) \<Longrightarrow> x < a + block_size b" using new[of x] old[of x] by (simp only: Un_iff) metis
  show "int_at m \<subseteq>\<^sub>m int_at (write_node a b m)"
  proof (unfold map_le_def, rule ballI)
    fix x assume "x \<in> dom (int_at m)"
    then have "x < a" using assms[rule_format] by simp
    then have "x \<notin> fst ` set ?l" unfolding keys by auto
    then have "map_of ?l x = None" by (simp add: map_of_eq_None_iff)
    then show "int_at m x = int_at (write_node a b m) x" by (simp add: write_node_def map_add_def)
  qed
  have "distinct (map fst ?l)" by (simp add: distinct_map inj_on_def sizeof_int_def)
  then have "map_of ?l (a + sizeof_Node + i * sizeof_int) = Some (b ! i)" if "i < length b" for i
    using that by (intro map_of_is_SomeI) auto
  then show "cells_ok (int_at (write_node a b m)) (a + sizeof_Node) b"
    by (simp add: cells_ok_def write_node_def map_add_def)
qed

lemma write_node_inv:
  assumes "shm_inv m p cs bl []" "p_pc p = P_Loop" "b \<noteq> []" "a = memory_start m + used_memory p"
  shows "shm_inv (write_node a b m) (p\<lparr>p_pc := P_Link a\<rparr>) cs bl [b]"
proof -
  have li: "list_inv m p bl []" using assms(1) by (simp add: shm_inv_def)
  then have below: "\<forall>x \<in> dom (int_at m). x < a" using assms(4) by (simp add: list_inv_def)
  note w = write_node_cells[OF below, where b = b]
  have "a \<notin> fst ` set bl" using li assms(4) by (auto simp: list_inv_def)
  then have "lseg (node_at (write_node a b m)) (shm_head m) bl 0"
    using li by (simp add: list_inv_def write_node_def lseg_frame)
  moreover have "\<forall>(a', b', t) \<in> set bl. cells_ok (int_at (write_node a b m)) (a' + sizeof_Node) b'"
    using li cells_ok_mono[OF _ w(1)] by (auto simp: list_inv_def)
  moreover have "pending_ok (write_node a b m) (p\<lparr>p_pc := P_Link a\<rparr>) [b]"
    using w(2) assms(3,4) by (simp add: pending_ok_def filled_at_def write_node_def node_of_def)
  ultimately have "list_inv (write_node a b m) (p\<lparr>p_pc := P_Link a\<rparr>) bl [b]"
    using li w(3) assms(4) by (auto simp: list_inv_def) (auto simp: write_node_def)
  then show ?thesis
    using assms(1,2) w(1) by (intro p_step_inv[OF assms(1)]) (auto simp: write_node_def p_holds_def shm_inv_def end_inv_def)
qed

lemma rand_block_nonempty: "rand_block rnd \<noteq> []" "length (rand_block rnd) = rand_count rnd"
  by (simp_all add: rand_block_def rand_count_def)

lemma pending_none: "list_inv m p bl pend \<Longrightarrow> \<nexists>a. p_pc p = P_Link a \<or> p_pc p = P_Linking a \<Longrightarrow> pend = []"
  by (cases "p_pc p") (auto simp: list_inv_def pending_ok_def)

text \<open>A step of the producer that changes nothing but where it is, and the semaphore.\<close>

lemma p_frame:
  assumes "shm_inv m p cs bl pend" "used_memory p' = used_memory p" "pending_ok m p' pend"
    and "v + of_bool (p_holds p') = sem_value m + of_bool (p_holds p)"
    and "p_pc p \<noteq> P_Exited" "p_pc p' \<noteq> P_Exited"
  shows "shm_inv (m\<lparr>sem_value := v\<rparr>) p' cs bl pend"
proof (rule p_step_inv[OF assms(1)])
  have "list_inv m p' bl pend" using assms(1-3) by (simp add: shm_inv_def list_inv_def)
  then show "list_inv (m\<lparr>sem_value := v\<rparr>) p' bl pend" by simp
  show "producer_finished (m\<lparr>sem_value := v\<rparr>) \<longleftrightarrow> p_pc p' = P_Exited"
    using assms(1,5,6) by (simp add: shm_inv_def end_inv_def)
qed (use assms(4) in simp_all)

definition newly_filled :: "(nat \<Rightarrow> nat) \<Rightarrow> producer \<Rightarrow> producer \<Rightarrow> int list list" where
  "newly_filled rnd p p' =
     (case (p_pc p, p_pc p') of (P_Loop, P_Link a) \<Rightarrow> [rand_block rnd] | _ \<Rightarrow> [])"

lemma producer_loop_inv:
  assumes "shm_inv m p cs bl pend" "p_pc p = P_Loop" "producer_loop rnd m p = (m', p')"
  shows "shm_inv m' p' cs bl (pend @ newly_filled rnd p p')"
proof -
  have pend: "pend = []" using assms(1,2) pending_none by (fastforce simp: shm_inv_def)
  have stay: "shm_inv m (p\<lparr>p_pc := pc\<rparr>) cs bl []" if "pc = P_Finish \<or> pc = P_Crashed" for pc
    using p_frame[of m p cs bl "[]" "p\<lparr>p_pc := pc\<rparr>" "sem_value m"] assms(1,2) pend that
    by (auto simp: pending_ok_def p_holds_def)
  let ?a = "memory_start m + used_memory p"
  consider "m' = m" "p' = p\<lparr>p_pc := P_Finish\<rparr>" | "m' = m" "p' = p\<lparr>p_pc := P_Crashed\<rparr>"
    | "m' = write_node ?a (rand_block rnd) m" "p' = p\<lparr>p_pc := P_Link ?a\<rparr>"
    using assms(3) by (auto simp: producer_loop_def Let_def split: if_splits)
  then show ?thesis
  proof cases
    case 3
    then show ?thesis using write_node_inv[of m p cs bl "rand_block rnd" ?a] assms(1,2) pend
      by (simp add: newly_filled_def rand_block_nonempty)
  qed (use stay pend assms(2) in \<open>simp_all add: newly_filled_def\<close>)
qed

lemma producer_locking:
  assumes "shm_inv m p cs bl pend" "locking m p' = Stepped (m', p'')"
    and "used_memory p' = used_memory p" "pending_ok m p' pend" "\<not> p_holds p" "p_holds p'" "p_pc p \<noteq> P_Exited"
  shows "shm_inv m' p'' cs bl pend"
proof -
  have s: "0 < sem_value m" "m' = m\<lparr>sem_value := sem_value m - 1\<rparr>" "p'' = p'"
    using assms(2) by (auto simp: locking_def semaphore_lock_def split: if_splits)
  have "p_pc p' \<noteq> P_Exited" using assms(6) by (auto simp: p_holds_def)
  then show ?thesis unfolding s(2,3) using assms s(1) by (intro p_frame[OF assms(1)]) auto
qed

lemma producer_link_inv:
  assumes "shm_inv m p cs bl pend" "p_pc p = P_Linking a"
  shows "\<exists>m' p' bl'. producer_link a m p = Some (m', p') \<and> shm_inv m' p' cs bl' [] \<and> contents bl' = contents bl @ pend"
proof -
  have li: "list_inv m p bl pend" using assms(1) by (simp add: shm_inv_def)
  then obtain b where b: "a = memory_start m + used_memory p" "pend = [b]" "b \<noteq> []"
    "node_at m a = Some (node_of a b False 0)" "cells_ok (int_at m) (a + sizeof_Node) b"
    using assms(2) by (auto simp: list_inv_def pending_ok_def filled_at_def)
  have "a \<notin> fst ` set bl" "a \<noteq> 0" using li b(1) by (auto simp: list_inv_def)
  then obtain m1 where m1: "link_node a m = Some m1" "lseg (node_at m1) (shm_head m1) (bl @ [(a, b, False)]) 0"
    "shm_tail m1 = a" "m1 = m\<lparr>shm_head := shm_head m1, shm_tail := a, node_at := node_at m1\<rparr>"
    using link_lseg[of m bl a b] li b(3,4) by (auto simp: list_inv_def)
  have same: "int_at m1 = int_at m" "memory_start m1 = memory_start m" "sem_value m1 = sem_value m"
    "producer_finished m1 = producer_finished m" by (subst m1(4), simp)+
  let ?p = "p\<lparr>used_memory := used_memory p + block_size b, block_count := Suc (block_count p),
      blocks_since_check := Suc (blocks_since_check p),
      p_pc := (if BATCH_SIZE \<le> Suc (blocks_since_check p) then P_Check else P_Loop)\<rparr>"
  have "producer_link a m p = Some (semaphore_unlock m1, ?p)"
    using b(4) m1(1) by (simp add: producer_link_def node_of_def block_size_def Let_def add.assoc)
  moreover have "list_inv m1 ?p (bl @ [(a, b, False)]) []"
  proof -
    have "0 < block_size b" by (simp add: block_size_def sizeof_Node_def)
    then show ?thesis using li m1(2,3) b \<open>a \<notin> fst ` set bl\<close> same
      by (auto simp: list_inv_def pending_ok_def add.assoc)
  qed
  moreover have "work_inv (int_at m1) cs (bl @ [(a, b, False)])"
    using assms(1) same by (simp add: shm_inv_def work_inv_def) (simp add: taken_def)
  moreover have "\<not> producer_finished m" "\<not> some_exited cs" using assms by (auto simp: shm_inv_def end_inv_def)
  moreover have "Suc (sem_value m1) + holders ?p cs = 1"
    using assms same by (simp add: shm_inv_def holders_def p_holds_def)
  ultimately have "shm_inv (semaphore_unlock m1) ?p cs (bl @ [(a, b, False)]) []"
    using same unfolding sem_unlock by (simp add: shm_inv_def end_inv_def)
  then show ?thesis using \<open>producer_link a m p = Some (semaphore_unlock m1, ?p)\<close> b(2) by (auto simp: contents_def)
qed

lemma producer_check_inv:
  assumes "shm_inv m p cs bl pend" "p_pc p = P_Checking"
  shows "\<exists>m' p'. producer_check m p = Some (m', p') \<and> shm_inv m' p' cs bl pend"
proof -
  have pend: "pend = []" using assms pending_none by (fastforce simp: shm_inv_def)
  have step: "shm_inv (semaphore_unlock m) p' cs bl pend"
    if "used_memory p' = used_memory p" "p_pc p' = P_Finish \<or> p_pc p' = P_Loop" for p'
    unfolding sem_unlock using that pend assms(2)
    by (intro p_frame[OF assms(1)]) (auto simp: pending_ok_def p_holds_def)
  obtain current where "first_unprocessed (node_at m) (shm_head m) = Some current"
    using assms(1) by (cases rule: unprocessed) auto
  then show ?thesis by (auto simp: producer_check_def intro!: step)
qed

lemma producer_finish_inv:
  assumes "shm_inv m p cs bl pend" "p_pc p = P_Finishing"
  shows "shm_inv (semaphore_unlock (m\<lparr>producer_finished := True\<rparr>)) (p\<lparr>p_pc := P_Exited\<rparr>) cs bl pend"
proof -
  have pend: "pend = []" using assms pending_none by (fastforce simp: shm_inv_def)
  have "list_inv (m\<lparr>producer_finished := True\<rparr>) (p\<lparr>p_pc := P_Exited\<rparr>) bl pend"
    using assms(1) pend by (simp add: shm_inv_def list_inv_def pending_ok_def)
  then show ?thesis unfolding sem_unlock using assms(2)
    by (intro p_step_inv[OF assms(1)]) (simp_all add: p_holds_def)
qed

definition p_ended :: "producer \<Rightarrow> bool" where
  "p_ended p \<longleftrightarrow> p_pc p = P_Exited \<or> p_pc p = P_Crashed"

text \<open>The producer never faults, and waits only while another process holds the semaphore.\<close>

lemma producer_step_inv:
  assumes "shm_inv m p cs bl pend"
  shows "(producer_step rnd m p = Blocked \<and> (p_ended p \<or> sem_value m = 0)) \<or>
    (\<exists>m' p' bl' pend'. producer_step rnd m p = Stepped (m', p') \<and> shm_inv m' p' cs bl' pend' \<and>
       contents bl' @ pend' = contents bl @ pend @ newly_filled rnd p p')"
proof -
  have pending: "pending_ok m p pend" using assms by (simp add: shm_inv_def list_inv_def)
  have goes: ?thesis if "producer_step rnd m p = Stepped (m', p')" "shm_inv m' p' cs bl' pend'"
    "contents bl' @ pend' = contents bl @ pend @ newly_filled rnd p p'" for m' p' bl' pend'
    using that by (intro disjI2 exI[of _ m'] exI[of _ p'] exI[of _ bl'] exI[of _ pend']) simp
  have lock: ?thesis if "producer_step rnd m p = locking m p'" "used_memory p' = used_memory p" "pending_ok m p' pend"
    "\<not> p_holds p" "p_holds p'" "p_pc p \<noteq> P_Exited" for p'
  proof (cases "locking m p'")
    case (Stepped x)
    then obtain m' where "locking m p' = Stepped (m', p')"
      by (auto simp: locking_def split: option.splits)
    moreover have "newly_filled rnd p p' = []" using that(5) by (auto simp: newly_filled_def p_holds_def split: producer_pc.splits)
    ultimately show ?thesis using goes[of m' p' bl pend] that(1) producer_locking[OF assms _ that(2-6)] by simp
  qed (use that(1) in \<open>auto simp: locking_def semaphore_lock_def split: if_splits\<close>)
  show ?thesis
  proof (cases "p_pc p")
    case P_Loop
    obtain m' p' where "producer_loop rnd m p = (m', p')" by (cases "producer_loop rnd m p")
    with producer_loop_inv[OF assms P_Loop this] P_Loop show ?thesis
      using goes[of m' p' bl "pend @ newly_filled rnd p p'"] by (simp add: producer_step_def)
  next
    case (P_Link a)
    then show ?thesis using lock[of "p\<lparr>p_pc := P_Linking a\<rparr>"] pending
      by (simp add: producer_step_def pending_ok_def p_holds_def)
  next
    case (P_Linking a)
    obtain m' p' bl' where "producer_link a m p = Some (m', p')" "shm_inv m' p' cs bl' []" "contents bl' = contents bl @ pend"
      using producer_link_inv[OF assms P_Linking] by blast
    then show ?thesis using P_Linking goes[of m' p' bl' "[]"] by (simp add: producer_step_def or_fault_def newly_filled_def)
  next
    case P_Check
    then show ?thesis using lock[of "p\<lparr>p_pc := P_Checking\<rparr>"] pending
      by (simp add: producer_step_def pending_ok_def p_holds_def)
  next
    case P_Checking
    obtain m' p' where "producer_check m p = Some (m', p')" "shm_inv m' p' cs bl pend"
      using producer_check_inv[OF assms P_Checking] by blast
    then show ?thesis using P_Checking goes[of m' p' bl pend] by (simp add: producer_step_def or_fault_def newly_filled_def)
  next
    case P_Finish
    then show ?thesis using lock[of "p\<lparr>p_pc := P_Finishing\<rparr>"] pending
      by (simp add: producer_step_def pending_ok_def p_holds_def)
  next
    case P_Finishing
    then show ?thesis using producer_finish_inv[OF assms P_Finishing] goes[of _ _ bl pend]
      by (simp add: producer_step_def newly_filled_def)
  qed (simp_all add: producer_step_def p_ended_def)
qed

end
