(* ===== verification/Shm_System_Props.thy ===== *)
theory Shm_System_Props
  imports Shm_Queue_Props
begin

text \<open>
  The properties of the whole producer/consumer system under every schedule: each block is processed
  exactly once, nobody faults or waits for ever on the semaphore, the consumers end once the producer
  has, and the producer's size check can let it run out of its memory.
\<close>

section \<open>The invariant along a schedule\<close>

definition sys_inv :: "system \<Rightarrow> int list list \<Rightarrow> bool" where
  "sys_inv s mk \<longleftrightarrow> (\<exists>bl pend. shm_inv (memory s) (prod s) (cons s) bl pend \<and> contents bl @ pend = mk)"

text \<open>The blocks the producer fills along a schedule, with their contents.\<close>

definition filled_by :: "event \<Rightarrow> system \<Rightarrow> system \<Rightarrow> int list list" where
  "filled_by e s s' = (case e of Prod rnd \<Rightarrow> newly_filled rnd (prod s) (prod s') | Cons i \<Rightarrow> [])"

fun made :: "event list \<Rightarrow> system \<Rightarrow> int list list" where
  "made [] s = []"
| "made (e # es) s =
     (case sys_step e s of Stepped s1 \<Rightarrow> filled_by e s s1 @ made es s1 | Blocked \<Rightarrow> made es s | Fault \<Rightarrow> [])"

definition ended :: "event \<Rightarrow> system \<Rightarrow> bool" where
  "ended e s \<longleftrightarrow> (case e of Prod rnd \<Rightarrow> p_ended (prod s)
     | Cons i \<Rightarrow> i < length (cons s) \<longrightarrow> c_pc (cons s ! i) = C_Exited)"

lemma sys_step_inv:
  assumes "sys_inv s mk"
  shows "(sys_step e s = Blocked \<and> (ended e s \<or> sem_value (memory s) = 0)) \<or>
    (\<exists>s'. sys_step e s = Stepped s' \<and> sys_inv s' (mk @ filled_by e s s') \<and> length (cons s') = length (cons s))"
proof -
  obtain bl pend where inv: "shm_inv (memory s) (prod s) (cons s) bl pend" "contents bl @ pend = mk"
    using assms by (auto simp: sys_inv_def)
  show ?thesis
  proof (cases e)
    case (Prod rnd)
    from producer_step_inv[OF inv(1), of rnd] show ?thesis
    proof
      assume "\<exists>m' p' bl' pend'. producer_step rnd (memory s) (prod s) = Stepped (m', p') \<and>
        shm_inv m' p' (cons s) bl' pend' \<and> contents bl' @ pend' = contents bl @ pend @ newly_filled rnd (prod s) p'"
      then obtain m' p' bl' pend' where st: "producer_step rnd (memory s) (prod s) = Stepped (m', p')"
        "shm_inv m' p' (cons s) bl' pend'" "contents bl' @ pend' = mk @ newly_filled rnd (prod s) p'"
        using inv(2) by auto
      then have "sys_inv (s\<lparr>memory := m', prod := p'\<rparr>) (mk @ newly_filled rnd (prod s) p')"
        unfolding sys_inv_def by auto
      then show ?thesis using st(1) Prod by (simp add: sys_step_def filled_by_def)
    qed (simp add: Prod sys_step_def ended_def)
  next
    case (Cons i)
    show ?thesis
    proof (cases "i < length (cons s)")
      case True
      from consumer_step_inv[OF inv(1) True] show ?thesis
      proof
        assume "\<exists>m' c' bl'. consumer_step (memory s) (cons s ! i) = Stepped (m', c') \<and>
          shm_inv m' (prod s) ((cons s)[i := c']) bl' pend \<and> contents bl' = contents bl \<and>
          producer_finished m' = producer_finished (memory s) \<and>
          consumer_moves (producer_finished (memory s)) (untaken bl) (c_pc (cons s ! i)) (untaken bl') (c_pc c')"
        then obtain m' c' bl' where st: "consumer_step (memory s) (cons s ! i) = Stepped (m', c')"
          "shm_inv m' (prod s) ((cons s)[i := c']) bl' pend" "contents bl' @ pend = mk" using inv(2) by auto
        then have "sys_inv (s\<lparr>memory := m', cons := (cons s)[i := c']\<rparr>) mk" unfolding sys_inv_def by auto
        then show ?thesis using st(1) Cons True by (simp add: sys_step_def filled_by_def)
      qed (use True Cons in \<open>simp add: sys_step_def ended_def\<close>)
    qed (simp add: Cons sys_step_def ended_def)
  qed
qed

lemma sys_inv_init: "sys_inv (sys_init n) []"
  unfolding sys_inv_def using inv_init[of SEGMENT_SIZE n]
  by (intro exI[of _ "[]"]) (simp add: contents_def sys_init_def)

lemma run_inv:
  "sys_inv s mk \<Longrightarrow> \<exists>s'. run_schedule es s = Some s' \<and> sys_inv s' (mk @ made es s) \<and> length (cons s') = length (cons s)"
proof (induction es arbitrary: s mk)
  case (Cons e es)
  from sys_step_inv[OF Cons.prems, of e] show ?case
  proof
    assume "sys_step e s = Blocked \<and> (ended e s \<or> sem_value (memory s) = 0)"
    then show ?thesis using Cons.IH[OF Cons.prems] by simp
  next
    assume "\<exists>s'. sys_step e s = Stepped s' \<and> sys_inv s' (mk @ filled_by e s s') \<and> length (cons s') = length (cons s)"
    then obtain s' where s': "sys_step e s = Stepped s'" "sys_inv s' (mk @ filled_by e s s')" "length (cons s') = length (cons s)"
      by blast
    show ?thesis using Cons.IH[OF s'(2)] s'(1,3) by simp
  qed
qed simp

lemmas run_init = run_inv[OF sys_inv_init, simplified append_Nil]

section \<open>Exactly once\<close>

lemma all_exited_reports:
  assumes "sys_inv s mk" "cons s \<noteq> []" "\<forall>c \<in> set (cons s). c_pc c = C_Exited"
  shows "mset (concat (map reports (cons s))) = mset (map summary mk)"
proof -
  obtain bl pend where inv: "shm_inv (memory s) (prod s) (cons s) bl pend" "contents bl @ pend = mk"
    using assms(1) by (auto simp: sys_inv_def)
  have "some_exited (cons s)" using assms(2,3) by (cases "cons s") (auto simp: some_exited_def)
  then have fin: "p_pc (prod s) = P_Exited" "all_taken bl" using inv(1) by (auto simp: shm_inv_def end_inv_def)
  then have "pend = []" using inv(1) pending_none by (fastforce simp: shm_inv_def)
  moreover have "taken bl = contents bl"
    using fin(2) unfolding taken_def contents_def all_taken_def by (induction bl) auto
  moreover have "sum_list (map (accounted (int_at (memory s))) (cons s)) = mset (concat (map reports (cons s)))"
  proof -
    have "sum_list (map (accounted cells) cs) = mset (concat (map reports cs))" if "\<forall>c \<in> set cs. c_pc c = C_Exited" for cells cs
      using that by (induction cs) (simp_all add: accounted_def)
    then show ?thesis using assms(3) by blast
  qed
  ultimately show ?thesis using inv by (simp add: shm_inv_def work_inv_def)
qed

text \<open>
  C20. Every block is processed exactly once: in whatever order the producer and the consumers take
  their steps, when all consumers have ended, the blocks they have reported (their lengths, minima
  and maxima) are exactly those the producer has filled, each reported by one consumer once.
\<close>

theorem blocks_processed_once:
  assumes "0 < n" "run_schedule es (sys_init n) = Some s" "\<forall>c \<in> set (cons s). c_pc c = C_Exited"
  shows "mset (concat (map reports (cons s))) = mset (map summary (made es (sys_init n)))"
proof -
  have "sys_inv s (made es (sys_init n))" "length (cons s) = n"
    using run_init[of es n] assms(2) by (auto simp: sys_init_def)
  then show ?thesis using all_exited_reports assms(1,3) by fastforce
qed

section \<open>Nobody waits for ever on the semaphore\<close>

definition finished :: "system \<Rightarrow> bool" where
  "finished s \<longleftrightarrow> p_ended (prod s) \<and> list_all (\<lambda>c. c_pc c = C_Exited) (cons s)"

lemma holder_steps:
  "p_holds p \<Longrightarrow> producer_step rnd m p \<noteq> Blocked" "c_holds c \<Longrightarrow> consumer_step m c \<noteq> Blocked"
  by (auto simp: producer_step_def p_holds_def consumer_step_def c_holds_def or_fault_def
      split: producer_pc.splits consumer_pc.splits option.splits)

lemma sys_step_Blocked:
  "sys_step (Prod rnd) s = Blocked \<Longrightarrow> producer_step rnd (memory s) (prod s) = Blocked"
  "sys_step (Cons i) s = Blocked \<Longrightarrow> i < length (cons s) \<Longrightarrow> consumer_step (memory s) (cons s ! i) = Blocked"
  by (auto simp: sys_step_def split: outcome.splits)

text \<open>A process that holds the semaphore, or one that has not ended while nobody does, can step.\<close>

lemma some_process_steps:
  assumes "sys_inv s mk" "\<not> finished s"
  shows "\<exists>e s'. sys_step e s = Stepped s'"
proof (rule ccontr)
  assume no: "\<nexists>e s'. sys_step e s = Stepped s'"
  have stuck: "ended e s \<or> sem_value (memory s) = 0" for e using sys_step_inv[OF assms(1), of e] no by auto
  obtain bl pend where inv: "shm_inv (memory s) (prod s) (cons s) bl pend" using assms(1) by (auto simp: sys_inv_def)
  have blocked: "sys_step e s = Blocked" for e using sys_step_inv[OF assms(1), of e] no by auto
  have blocked_p: "\<not> p_holds (prod s)" using holder_steps(1) sys_step_Blocked(1)[OF blocked] by blast
  have "\<not> c_holds c" if c: "c \<in> set (cons s)" for c
  proof -
    from c obtain i where "i < length (cons s)" "cons s ! i = c" by (auto simp: in_set_conv_nth)
    then show ?thesis using holder_steps(2) sys_step_Blocked(2)[OF blocked] by blast
  qed
  then have "filter c_holds (cons s) = []" by (simp add: filter_empty_conv)
  then have "sem_value (memory s) = 1" using inv blocked_p by (simp add: shm_inv_def holders_def)
  then have "p_ended (prod s)" "\<forall>i < length (cons s). c_pc (cons s ! i) = C_Exited"
    using stuck[of "Prod (\<lambda>_. 0)"] stuck[of "Cons _"] by (auto simp: ended_def)
  then show False using assms(2) by (auto simp: finished_def list_all_length)
qed

lemma run_sound:
  "\<exists>s. run_schedule es (sys_init n) = Some s \<and> sem_value (memory s) + holders (prod s) (cons s) = 1 \<and>
     (finished s \<or> (\<exists>e s'. sys_step e s = Stepped s'))"
proof -
  obtain s where s: "run_schedule es (sys_init n) = Some s" "sys_inv s (made es (sys_init n))"
    using run_init by blast
  then have "sem_value (memory s) + holders (prod s) (cons s) = 1" by (auto simp: sys_inv_def shm_inv_def)
  then show ?thesis using s some_process_steps by blast
qed

text \<open>The producer is only killed when the largest block does not fit behind what it has written.\<close>

definition crash_ok :: "system \<Rightarrow> bool" where
  "crash_ok s \<longleftrightarrow> (p_pc (prod s) = P_Crashed \<longrightarrow>
     PAGE_BYTES < memory_start (memory s) + used_memory (prod s) + sizeof_Node + 69 * sizeof_int)"

lemma memory_start_simps [simp]:
  "memory_start (semaphore_unlock m) = memory_start m" "memory_start (write_node a bl m) = memory_start m"
  by (simp_all add: semaphore_unlock_def write_node_def)

lemma memory_start_consumer: "consumer_step m c = Stepped (m', c') \<Longrightarrow> memory_start m' = memory_start m"
  by (auto simp: consumer_step_def consumer_scan_def consumer_take_def consumer_process_def locking_def
      semaphore_lock_def or_fault_Some bind_eq_Some_conv Let_def split: consumer_pc.splits option.splits if_splits)

lemma rand_count_le: "rand_count rnd \<le> 69"
proof -
  have "rnd 0 mod 50 < 50" by simp
  then show ?thesis by (simp only: rand_count_def)
qed

lemma crash_ok_producer:
  assumes "producer_step rnd m p = Stepped (m', p')" "p_pc p' = P_Crashed"
  shows "PAGE_BYTES < memory_start m' + used_memory p' + sizeof_Node + 69 * sizeof_int"
proof (cases "p_pc p")
  case P_Loop
  then have "PAGE_BYTES < memory_start m' + used_memory p' + sizeof_Node + rand_count rnd * sizeof_int"
    using assms by (auto simp: producer_step_def producer_loop_def Let_def split: if_splits)
  also have "\<dots> \<le> memory_start m' + used_memory p' + sizeof_Node + 69 * sizeof_int"
    by (intro add_left_mono mult_right_mono rand_count_le) simp
  finally show ?thesis .
qed (use assms in \<open>auto simp: producer_step_def producer_link_def producer_check_def locking_def or_fault_Some
      bind_eq_Some_conv Let_def split: option.splits if_splits\<close>)

lemma crash_ok_step: "sys_step e s = Stepped s' \<Longrightarrow> crash_ok s \<Longrightarrow> crash_ok s'"
  by (auto simp: sys_step_def crash_ok_def memory_start_consumer crash_ok_producer split: event.splits outcome.splits if_splits)

lemma crash_ok_run: "run_schedule es s = Some s' \<Longrightarrow> crash_ok s \<Longrightarrow> crash_ok s'"
  by (induction es arbitrary: s) (auto split: outcome.splits dest: crash_ok_step)

text \<open>
  C21. Under every schedule each pointer a process follows leads to a node of the list or to the data of a
  block, at most one process at a time works on the shared list and the semaphore is never lost: as long as
  some process has not ended, some process can take a step. The one access that can fail is the producer's
  write of a new block, which kills it: only when a block of the largest size, placed behind those
  written, would reach past the mapped page.
\<close>

theorem semaphore_never_lost:
  "\<exists>s. run_schedule es (sys_init n) = Some s \<and> sem_value (memory s) + holders (prod s) (cons s) = 1 \<and>
     (finished s \<or> (\<exists>e s'. sys_step e s = Stepped s')) \<and>
     (p_pc (prod s) = P_Crashed \<longrightarrow>
       PAGE_BYTES < memory_start (memory s) + used_memory (prod s) + sizeof_Node + 69 * sizeof_int)"
proof -
  have "crash_ok (sys_init n)" by (simp add: crash_ok_def sys_init_def)
  then show ?thesis using run_sound[of es n] crash_ok_run by (auto simp: crash_ok_def)
qed

section \<open>The consumers end\<close>

definition rank :: "nat \<Rightarrow> consumer_pc \<Rightarrow> nat" where
  "rank u pc =
     (case pc of
        C_Exited \<Rightarrow> 0
      | C_Loop \<Rightarrow> if 0 < u then 4 else 3
      | C_Scanning \<Rightarrow> if 0 < u then 3 else 2
      | C_Take \<Rightarrow> if 0 < u then 2 else 5
      | C_Taking \<Rightarrow> if 0 < u then 1 else 4
      | C_Process n d \<Rightarrow> 5)"

text \<open>With \<open>u\<close> blocks to go: each costs at most six steps of each consumer.\<close>

definition to_go :: "nat \<Rightarrow> consumer list \<Rightarrow> nat" where
  "to_go u cs = 6 * length cs * u + sum_list (map (\<lambda>c. rank u (c_pc c)) cs)"

lemma rank_le: "rank u pc \<le> 5"
  by (simp add: rank_def split: consumer_pc.splits)

lemma to_go_le: "to_go u cs \<le> 6 * length cs * Suc u"
proof -
  have "sum_list (map (\<lambda>c. rank u (c_pc c)) cs) \<le> 5 * length cs"
    by (induction cs) (auto intro: add_mono[OF rank_le, simplified])
  then show ?thesis by (simp add: to_go_def)
qed

lemma to_go_step:
  assumes "consumer_moves True u (c_pc (cs ! i)) u' (c_pc c)" "i < length cs"
  shows "to_go u' (cs[i := c]) < to_go u cs"
proof -
  have upd: "sum_list (map (\<lambda>c. rank u (c_pc c)) (cs[i := c])) + rank u (c_pc (cs ! i)) =
      sum_list (map (\<lambda>c. rank u (c_pc c)) cs) + rank u (c_pc c)"
    using sum_list_map_update[OF assms(2), of "\<lambda>c. rank u (c_pc c)" c] by simp
  show ?thesis
  proof (cases "c_pc (cs ! i) = C_Taking \<and> 0 < u")
    case False
    then have "u' = u" "rank u (c_pc c) < rank u (c_pc (cs ! i))"
      using assms(1) by (auto simp: consumer_moves_def rank_def split: consumer_pc.splits if_splits)
    then show ?thesis using upd by (simp add: to_go_def)
  next
    case True
    then obtain n d where u: "u = Suc u'" "c_pc c = C_Process n d" using assms(1) by (auto simp: consumer_moves_def)
    show ?thesis
    proof (cases "u' = 0")
      case True
      have "to_go u' (cs[i := c]) \<le> 5 * length cs"
      proof -
        have "sum_list (map (\<lambda>c. rank 0 (c_pc c)) xs) \<le> 5 * length xs" for xs
          by (induction xs) (auto intro: add_mono[OF rank_le, simplified])
        from this[of "cs[i := c]"] show ?thesis using True by (simp add: to_go_def)
      qed
      also have "\<dots> < 6 * length cs" using assms(2) by linarith
      also have "\<dots> \<le> to_go u cs" using u True by (simp add: to_go_def)
      finally show ?thesis .
    next
      case False
      then have "rank u' = rank u" using u by (simp add: rank_def fun_eq_iff)
      moreover have "rank u (c_pc c) = 5" using u by (simp add: rank_def)
      moreover have "6 * length cs * u = 6 * length cs * u' + 6 * length cs" using u(1) by simp
      moreover have "0 < length cs" "length (cs[i := c]) = length cs" using assms(2) by (linarith, simp)
      ultimately show ?thesis using upd
        unfolding to_go_def \<open>rank u' = rank u\<close> \<open>length (cs[i := c]) = length cs\<close> by linarith
    qed
  qed
qed

text \<open>The number of steps processes take in a schedule.\<close>

fun steps_taken :: "event list \<Rightarrow> system \<Rightarrow> nat" where
  "steps_taken [] s = 0"
| "steps_taken (e # es) s =
     (case sys_step e s of Stepped s1 \<Rightarrow> Suc (steps_taken es s1) | Blocked \<Rightarrow> steps_taken es s | Fault \<Rightarrow> 0)"

definition untaken_inv :: "nat \<Rightarrow> system \<Rightarrow> bool" where
  "untaken_inv u s \<longleftrightarrow> p_pc (prod s) = P_Exited \<and>
     (\<exists>bl pend. shm_inv (memory s) (prod s) (cons s) bl pend \<and> untaken bl = u)"

lemma untaken_step:
  assumes "untaken_inv u s" "sys_step e s = Stepped s'"
  shows "\<exists>u'. untaken_inv u' s' \<and> to_go u' (cons s') < to_go u (cons s)"
proof -
  obtain bl pend where inv: "shm_inv (memory s) (prod s) (cons s) bl pend" "untaken bl = u" "p_pc (prod s) = P_Exited"
    using assms(1) by (auto simp: untaken_inv_def)
  then have fin: "producer_finished (memory s)" by (simp add: shm_inv_def end_inv_def)
  obtain i where i: "e = Cons i" "i < length (cons s)"
    using assms(2) inv(3) by (cases e) (auto simp: sys_step_def producer_step_def split: if_splits)
  obtain m' c' bl' where st: "consumer_step (memory s) (cons s ! i) = Stepped (m', c')"
    "shm_inv m' (prod s) ((cons s)[i := c']) bl' pend"
    "consumer_moves True u (c_pc (cons s ! i)) (untaken bl') (c_pc c')"
    using consumer_step_inv[OF inv(1) i(2)] assms(2) i fin inv(2) by (auto simp: sys_step_def)
  then have s': "s' = s\<lparr>memory := m', cons := (cons s)[i := c']\<rparr>" using assms(2) i by (simp add: sys_step_def)
  then have "untaken_inv (untaken bl') s'" using st(2) inv(3) by (auto simp: untaken_inv_def)
  moreover have "to_go (untaken bl') (cons s') < to_go u (cons s)" using to_go_step[OF st(3) i(2)] s' by simp
  ultimately show ?thesis by blast
qed

lemma steps_bounded: "untaken_inv u s \<Longrightarrow> steps_taken es s \<le> to_go u (cons s)"
proof (induction es arbitrary: u s)
  case (Cons e es)
  show ?case
  proof (cases "sys_step e s")
    case (Stepped s')
    then obtain u' where "untaken_inv u' s'" "to_go u' (cons s') < to_go u (cons s)"
      using untaken_step[OF Cons.prems] by blast
    with Cons.IH[of u' s'] Stepped show ?thesis by simp
  qed (use Cons in auto)
qed simp

lemma untaken_made:
  assumes "sys_inv s mk" "p_pc (prod s) = P_Exited"
  shows "\<exists>u \<le> length mk. untaken_inv u s"
proof -
  obtain bl pend where "shm_inv (memory s) (prod s) (cons s) bl pend" "contents bl @ pend = mk"
    using assms(1) by (auto simp: sys_inv_def)
  moreover have "untaken bl \<le> length (contents bl)" by (simp add: untaken_def contents_def)
  ultimately show ?thesis using assms(2) by (auto simp: untaken_inv_def intro!: exI[of _ "untaken bl"])
qed

text \<open>
  C22. Once the producer has ended properly, the consumers end: whatever happened before, under every
  continuation the processes take at most six steps per consumer for each block filled (and six more),
  and since a process that has not ended can step until all have, they all end.
\<close>

theorem consumers_terminate:
  assumes "run_schedule es (sys_init n) = Some s" "p_pc (prod s) = P_Exited"
  shows "steps_taken es' s \<le> 6 * n * Suc (length (made es (sys_init n)))"
proof -
  have s: "sys_inv s (made es (sys_init n))" "length (cons s) = n"
    using run_init[of es n] assms(1) by (auto simp: sys_init_def)
  obtain u where u: "u \<le> length (made es (sys_init n))" "untaken_inv u s" using untaken_made[OF s(1) assms(2)] by blast
  have "steps_taken es' s \<le> 6 * n * Suc u" using steps_bounded[OF u(2)] to_go_le[of u "cons s"] s(2) order.trans by blast
  also have "\<dots> \<le> 6 * n * Suc (length (made es (sys_init n)))" using u(1) by (intro mult_le_mono2) simp
  finally show ?thesis .
qed

end
