(* ===== verification/Shm_Overrun_Props.thy ===== *)
theory Shm_Overrun_Props
  imports Shm_System_Props
begin

text \<open>
  Runs of the producer on its own, while the consumers wait: how it fills the segment, ends, or runs
  past it. They also give the concrete runs that show the hypotheses of the other theorems to hold.
\<close>

section \<open>One block at a time\<close>

definition fresh :: "nat \<Rightarrow> nat \<Rightarrow> system \<Rightarrow> bool" where
  "fresh n u s \<longleftrightarrow> (\<exists>mk. sys_inv s mk) \<and> cons s = cons (sys_init n) \<and> p_pc (prod s) = P_Loop \<and>
     used_memory (prod s) = u \<and> memory_start (memory s) = sizeof_SharedMemory \<and> total_size (memory s) = SEGMENT_SIZE \<and>
     memory_end (memory s) = SEGMENT_SIZE"

lemma fresh_init: "fresh n sizeof_SharedMemory (sys_init n)"
  unfolding fresh_def using sys_inv_init[of n] by (auto simp: sys_init_def shm_init_def)

lemma run_schedule_append: "run_schedule (es @ es') s = Option.bind (run_schedule es s) (run_schedule es')"
  by (induction es arbitrary: s) (auto split: outcome.splits)

text \<open>The producer's step when the consumers have not moved: it is never blocked.\<close>

lemma alone_steps:
  assumes "sys_inv s mk" "cons s = cons (sys_init n)" "\<not> p_ended (prod s)"
  shows "\<exists>m' p'. producer_step rnd (memory s) (prod s) = Stepped (m', p') \<and>
    sys_step (Prod rnd) s = Stepped (s\<lparr>memory := m', prod := p'\<rparr>) \<and> (\<exists>mk'. sys_inv (s\<lparr>memory := m', prod := p'\<rparr>) mk')"
proof -
  have "filter c_holds (cons s) = []" unfolding assms(2) by (simp add: sys_init_def c_holds_def)
  then have "p_holds (prod s) \<or> sem_value (memory s) = 1"
    using assms(1) by (cases "p_holds (prod s)") (auto simp: sys_inv_def shm_inv_def holders_def)
  then have "sys_step (Prod rnd) s \<noteq> Blocked"
  proof
    assume "p_holds (prod s)"
    then show ?thesis using holder_steps(1) sys_step_Blocked(1) by metis
  next
    assume "sem_value (memory s) = 1"
    then show ?thesis using sys_step_inv[OF assms(1), of "Prod rnd"] assms(3) by (auto simp: ended_def)
  qed
  then obtain s' where s': "sys_step (Prod rnd) s = Stepped s'" "\<exists>mk'. sys_inv s' mk'"
    using sys_step_inv[OF assms(1), of "Prod rnd"] by blast
  then obtain m' p' where "producer_step rnd (memory s) (prod s) = Stepped (m', p')" "s' = s\<lparr>memory := m', prod := p'\<rparr>"
    by (auto simp: sys_step_def split: outcome.splits)
  with s' show ?thesis by blast
qed

lemma untouched_untaken:
  assumes "sys_inv s mk" "cons s = cons (sys_init n)" "0 < block_count (prod s)" "shm_head (memory s) \<noteq> 0"
  shows "first_unprocessed (node_at (memory s)) (shm_head (memory s)) \<noteq> Some 0"
proof -
  obtain bl pend where inv: "shm_inv (memory s) (prod s) (cons s) bl pend" using assms(1) by (auto simp: sys_inv_def)
  have "sum_list (map (accounted cells) (cons (sys_init n))) = {#}" for cells
    by (induction n) (simp_all add: sys_init_def accounted_def)
  then have "taken bl = []" using inv assms(2) by (auto simp: shm_inv_def work_inv_def)
  moreover have "bl \<noteq> []" using inv assms(4) by (auto simp: shm_inv_def list_inv_def)
  ultimately have "\<not> all_taken bl"
    unfolding all_taken_def taken_def by (cases bl) (auto simp: filter_empty_conv)
  then show ?thesis using inv by (cases rule: unprocessed[OF inv]) auto
qed

lemma size_t_neg: "x < 0 \<Longrightarrow> - (2 ^ 64) \<le> x \<Longrightarrow> size_t x = x + 2 ^ 64"
proof -
  assume x: "x < 0" "- (2 ^ 64) \<le> x"
  have "x mod 2 ^ 64 = (x + 2 ^ 64) mod 2 ^ 64" by simp
  also have "\<dots> = x + 2 ^ 64" using x by (intro mod_pos_pos_trivial) auto
  finally show ?thesis by (simp add: size_t_def)
qed

lemma size_t_pos: "0 \<le> x \<Longrightarrow> x < 2 ^ 64 \<Longrightarrow> size_t x = x"
  by (simp add: size_t_def)

text \<open>Whether the producer believes that a block of \<open>count\<close> numbers fits when it has used \<open>u\<close> bytes.\<close>

definition thinks_fits :: "nat \<Rightarrow> nat \<Rightarrow> bool" where
  "thinks_fits u c \<longleftrightarrow> int (sizeof_int + sizeof_ptr + c * sizeof_int) \<le> size_t (int SEGMENT_SIZE - int u)"

lemma loop_cases:
  assumes "fresh n u s"
  shows "producer_loop rnd (memory s) (prod s) =
    (if \<not> thinks_fits u (rand_count rnd) then (memory s, (prod s)\<lparr>p_pc := P_Finish\<rparr>)
     else let a = sizeof_SharedMemory + u in
       if PAGE_BYTES < a + sizeof_Node + rand_count rnd * sizeof_int then (memory s, (prod s)\<lparr>p_pc := P_Crashed\<rparr>)
       else (write_node a (rand_block rnd) (memory s), (prod s)\<lparr>p_pc := P_Link a\<rparr>))"
proof -
  have "1 \<le> rand_count rnd" by (simp add: rand_count_def)
  then show ?thesis using assms by (auto simp: producer_loop_def fresh_def thinks_fits_def Let_def sizeof_int_def)
qed

lemma link_result:
  assumes "producer_link a m p = Some (m', p')" "node_at m a = Some (node_of a b False 0)" "a \<noteq> 0"
  shows "used_memory p' = used_memory p + block_size b" "memory_start m' = memory_start m" "total_size m' = total_size m"
    "memory_end m' = memory_end m" "p_pc p' = P_Loop \<or> p_pc p' = P_Check" "0 < block_count p'" "shm_head m' \<noteq> 0"
  using assms
  by (auto simp: producer_link_def link_node_def semaphore_unlock_def block_size_def node_of_def bind_eq_Some_conv Let_def
      split: if_splits)

lemma run_prod: "sys_step (Prod rnd) s = Stepped s1 \<Longrightarrow> run_schedule es s1 = Some s2 \<Longrightarrow> run_schedule (Prod rnd # es) s = Some s2"
  by simp

lemma locking_same:
  "locking m p = Stepped (m', p') \<Longrightarrow> p' = p \<and> memory_start m' = memory_start m \<and> total_size m' = total_size m \<and>
    memory_end m' = memory_end m \<and> node_at m' = node_at m \<and> shm_head m' = shm_head m"
  by (auto simp: locking_def semaphore_lock_def split: if_splits)

text \<open>Linking the block and, every fifth time, looking for unprocessed blocks brings the producer back to the loop.\<close>

lemma fresh_after_link:
  assumes "sys_inv s mk" "cons s = cons (sys_init n)" "p_pc (prod s) = P_Loop \<or> p_pc (prod s) = P_Check"
    and "used_memory (prod s) = u" "memory_start (memory s) = sizeof_SharedMemory" "total_size (memory s) = SEGMENT_SIZE"
    and "memory_end (memory s) = SEGMENT_SIZE" "0 < block_count (prod s)" "shm_head (memory s) \<noteq> 0"
  shows "\<exists>es s'. run_schedule es s = Some s' \<and> fresh n u s'"
proof (cases "p_pc (prod s) = P_Loop")
  case True
  then have "run_schedule [] s = Some s \<and> fresh n u s" using assms by (auto simp: fresh_def)
  then show ?thesis by blast
next
  case False
  then have pc: "p_pc (prod s) = P_Check" using assms(3) by blast
  obtain m1 p1 mk1 where 1: "producer_step (\<lambda>_. 0) (memory s) (prod s) = Stepped (m1, p1)"
    "sys_step (Prod (\<lambda>_. 0)) s = Stepped (s\<lparr>memory := m1, prod := p1\<rparr>)" "sys_inv (s\<lparr>memory := m1, prod := p1\<rparr>) mk1"
    using alone_steps[OF assms(1,2), of "\<lambda>_. 0"] pc by (auto simp: p_ended_def)
  let ?s1 = "s\<lparr>memory := m1, prod := p1\<rparr>"
  have lock: "locking (memory s) ((prod s)\<lparr>p_pc := P_Checking\<rparr>) = Stepped (m1, p1)"
    using 1(1) pc by (simp add: producer_step_def)
  note same = locking_same[OF lock]
  have c1: "cons ?s1 = cons (sys_init n)" "p_pc p1 = P_Checking" using assms(2) same by simp_all
  obtain m2 p2 mk2 where 2: "producer_step (\<lambda>_. 0) m1 p1 = Stepped (m2, p2)"
    "sys_step (Prod (\<lambda>_. 0)) ?s1 = Stepped (?s1\<lparr>memory := m2, prod := p2\<rparr>)" "sys_inv (?s1\<lparr>memory := m2, prod := p2\<rparr>) mk2"
    using alone_steps[OF 1(3) c1(1), of "\<lambda>_. 0"] c1(2) by (auto simp: p_ended_def)
  have "first_unprocessed (node_at m1) (shm_head m1) \<noteq> Some 0"
    using untouched_untaken[OF 1(3) c1(1)] same assms(8,9) by simp
  moreover have chk: "producer_check m1 p1 = Some (m2, p2)"
    using 2(1) c1(2) by (simp add: producer_step_def or_fault_def split: option.splits)
  ultimately have "m2 = semaphore_unlock m1" "p2 = p1\<lparr>blocks_since_check := 0, p_pc := P_Loop\<rparr>"
    by (auto simp: producer_check_def bind_eq_Some_conv split: if_splits)
  then have "fresh n u (?s1\<lparr>memory := m2, prod := p2\<rparr>)"
    using 2(3) same assms by (auto simp: fresh_def semaphore_unlock_def)
  then show ?thesis using run_prod[OF 1(2) run_prod[OF 2(2) run_schedule.simps(1)]] by blast
qed

lemma producer_round:
  assumes "fresh n u s" "thinks_fits u (rand_count rnd)"
    "sizeof_SharedMemory + u + sizeof_Node + rand_count rnd * sizeof_int \<le> PAGE_BYTES"
  shows "\<exists>es s'. run_schedule es s = Some s' \<and> fresh n (u + sizeof_Node + rand_count rnd * sizeof_int) s'"
proof -
  let ?a = "sizeof_SharedMemory + u" and ?b = "rand_block rnd" and ?r = "\<lambda>_. 0 :: nat"
  have f: "cons s = cons (sys_init n)" "p_pc (prod s) = P_Loop" "used_memory (prod s) = u"
    "memory_start (memory s) = sizeof_SharedMemory" "total_size (memory s) = SEGMENT_SIZE" "memory_end (memory s) = SEGMENT_SIZE"
    using assms(1) by (simp_all add: fresh_def)
  obtain mk where mk: "sys_inv s mk" using assms(1) by (auto simp: fresh_def)
  define m1 where "m1 = write_node ?a ?b (memory s)"
  define p1 where "p1 = (prod s)\<lparr>p_pc := P_Link ?a\<rparr>"
  define s1 where "s1 = s\<lparr>memory := m1, prod := p1\<rparr>"
  have step1: "producer_step rnd (memory s) (prod s) = Stepped (m1, p1)"
    using loop_cases[OF assms(1), of rnd] assms(2,3) f(2) by (simp add: producer_step_def m1_def p1_def Let_def)
  obtain mk1 where 1: "sys_step (Prod rnd) s = Stepped s1" "sys_inv s1 mk1"
    using alone_steps[OF mk f(1), of rnd] f(2) step1 by (auto simp: p_ended_def s1_def)
  have c1: "cons s1 = cons (sys_init n)" "p_pc (prod s1) = P_Link ?a" using f(1) by (simp_all add: s1_def p1_def)
  obtain m2 p2 mk2 where 2: "producer_step ?r m1 p1 = Stepped (m2, p2)"
    "sys_step (Prod ?r) s1 = Stepped (s1\<lparr>memory := m2, prod := p2\<rparr>)" "sys_inv (s1\<lparr>memory := m2, prod := p2\<rparr>) mk2"
    using alone_steps[OF 1(2) c1(1), of ?r] c1(2) by (auto simp: p_ended_def s1_def)
  define s2 where "s2 = s1\<lparr>memory := m2, prod := p2\<rparr>"
  have lock: "locking m1 (p1\<lparr>p_pc := P_Linking ?a\<rparr>) = Stepped (m2, p2)"
    using 2(1) by (simp add: producer_step_def p1_def)
  note same = locking_same[OF lock]
  have c2: "cons s2 = cons (sys_init n)" "p_pc (prod s2) = P_Linking ?a" "sys_inv s2 mk2"
    using c1 same 2(3) by (simp_all add: s2_def)
  obtain m3 p3 mk3 where 3: "producer_step ?r m2 p2 = Stepped (m3, p3)"
    "sys_step (Prod ?r) s2 = Stepped (s2\<lparr>memory := m3, prod := p3\<rparr>)" "sys_inv (s2\<lparr>memory := m3, prod := p3\<rparr>) mk3"
    using alone_steps[OF c2(3,1), of ?r] c2(2) by (auto simp: p_ended_def s2_def)
  have link: "producer_link ?a m2 p2 = Some (m3, p3)"
    using 3(1) same by (simp add: producer_step_def or_fault_def split: option.splits)
  have node: "node_at m2 ?a = Some (node_of ?a ?b False 0)" "?a \<noteq> 0"
    using same by (simp_all add: m1_def write_node_def node_of_def sizeof_SharedMemory_def)
  note r = link_result[OF link node]
  have "used_memory p3 = u + sizeof_Node + rand_count rnd * sizeof_int"
    using r(1) same f(3) by (simp add: p1_def block_size_def rand_block_nonempty)
  moreover have "memory_start m3 = sizeof_SharedMemory" "total_size m3 = SEGMENT_SIZE" "memory_end m3 = SEGMENT_SIZE"
    using r(2-4) same f(4-6) by (simp_all add: m1_def write_node_def)
  ultimately obtain es s' where "run_schedule es (s2\<lparr>memory := m3, prod := p3\<rparr>) = Some s'"
    "fresh n (u + sizeof_Node + rand_count rnd * sizeof_int) s'"
    using fresh_after_link[OF 3(3), of n] c2(1) r(5-7) by auto
  then show ?thesis
    using run_prod[OF 1(1) run_prod[OF 2(2)[folded s2_def] run_prod[OF 3(2)]]] by blast
qed

lemma fresh_blocks:
  "fresh n u s \<Longrightarrow> (\<And>i. i < k \<Longrightarrow> thinks_fits (u + i * (sizeof_Node + c * sizeof_int)) c) \<Longrightarrow>
   sizeof_SharedMemory + u + k * (sizeof_Node + c * sizeof_int) \<le> PAGE_BYTES \<Longrightarrow> 20 \<le> c \<Longrightarrow> c < 70 \<Longrightarrow>
   \<exists>es s'. run_schedule es s = Some s' \<and> fresh n (u + k * (sizeof_Node + c * sizeof_int)) s'"
proof (induction k arbitrary: u s)
  case 0
  then have "run_schedule [] s = Some s \<and> fresh n (u + 0 * (sizeof_Node + c * sizeof_int)) s" by simp
  then show ?case by blast
next
  case (Suc k)
  let ?b = "sizeof_Node + c * sizeof_int"
  have c: "rand_count (\<lambda>_. c - 20) = c" using Suc.prems(4,5) by (simp add: rand_count_def)
  have "thinks_fits u c" using Suc.prems(2)[of 0] by simp
  moreover have "sizeof_SharedMemory + u + sizeof_Node + c * sizeof_int \<le> PAGE_BYTES" using Suc.prems(3) by simp
  ultimately obtain es s1 where 1: "run_schedule es s = Some s1" "fresh n (u + ?b) s1"
    using producer_round[OF Suc.prems(1), of "\<lambda>_. c - 20"] c by (auto simp: add.assoc)
  have "thinks_fits (u + ?b + i * ?b) c" if "i < k" for i
    using Suc.prems(2)[of "Suc i"] that by (simp add: add_ac)
  moreover have "sizeof_SharedMemory + (u + ?b) + k * ?b \<le> PAGE_BYTES" using Suc.prems(3) by (simp add: add_ac)
  ultimately obtain es' s' where "run_schedule es' s1 = Some s'" "fresh n (u + ?b + k * ?b) s'"
    using Suc.IH[OF 1(2) _ _ Suc.prems(4,5)] by blast
  then have "run_schedule (es @ es') s = Some s' \<and> fresh n (u + Suc k * ?b) s'"
    using 1(1) by (simp add: run_schedule_append add_ac)
  then show ?case by blast
qed

section \<open>The producer ends properly, or runs over\<close>

lemma producer_can_finish:
  assumes "fresh n u s" "\<not> thinks_fits u 69"
  shows "\<exists>es s'. run_schedule es s = Some s' \<and> p_pc (prod s') = P_Exited \<and> cons s' = cons (sys_init n)"
proof -
  let ?r = "\<lambda>_. 49 :: nat"
  have f: "cons s = cons (sys_init n)" "p_pc (prod s) = P_Loop" using assms(1) by (simp_all add: fresh_def)
  obtain mk where mk: "sys_inv s mk" using assms(1) by (auto simp: fresh_def)
  have "producer_step ?r (memory s) (prod s) = Stepped (memory s, (prod s)\<lparr>p_pc := P_Finish\<rparr>)"
    using loop_cases[OF assms(1), of ?r] assms(2) f(2) by (simp add: producer_step_def rand_count_def)
  then obtain mk1 where 1: "sys_step (Prod ?r) s = Stepped (s\<lparr>prod := (prod s)\<lparr>p_pc := P_Finish\<rparr>\<rparr>)"
    "sys_inv (s\<lparr>prod := (prod s)\<lparr>p_pc := P_Finish\<rparr>\<rparr>) mk1"
    using alone_steps[OF mk f(1), of ?r] f(2) by (auto simp: p_ended_def)
  let ?s1 = "s\<lparr>prod := (prod s)\<lparr>p_pc := P_Finish\<rparr>\<rparr>"
  obtain m2 p2 where 2: "producer_step ?r (memory ?s1) (prod ?s1) = Stepped (m2, p2)"
    "sys_step (Prod ?r) ?s1 = Stepped (?s1\<lparr>memory := m2, prod := p2\<rparr>)"
    using alone_steps[OF 1(2), of n ?r] f(1) by (auto simp: p_ended_def)
  then have "p_pc p2 = P_Finishing"
    using locking_same[of "memory s" "(prod s)\<lparr>p_pc := P_Finishing\<rparr>" m2 p2] by (auto simp: producer_step_def)
  then have 3: "sys_step (Prod ?r) (?s1\<lparr>memory := m2, prod := p2\<rparr>) = Stepped (?s1\<lparr>
      memory := semaphore_unlock (m2\<lparr>producer_finished := True\<rparr>), prod := p2\<lparr>p_pc := P_Exited\<rparr>\<rparr>)"
    by (simp add: sys_step_def producer_step_def)
  define s3 where "s3 = ?s1\<lparr>memory := semaphore_unlock (m2\<lparr>producer_finished := True\<rparr>), prod := p2\<lparr>p_pc := P_Exited\<rparr>\<rparr>"
  have "sys_step (Prod ?r) (?s1\<lparr>memory := m2, prod := p2\<rparr>) = Stepped s3" using 3 by (simp add: s3_def)
  note run_prod[OF 1(1) run_prod[OF 2(2) run_prod[OF this run_schedule.simps(1)]]]
  moreover have "p_pc (prod s3) = P_Exited" "cons s3 = cons (sys_init n)" using f(1) by (simp_all add: s3_def)
  ultimately show ?thesis by blast
qed

text \<open>A run in which the producer ends after six blocks of 69 numbers.\<close>

lemma producer_ends_somewhere: "\<exists>es s. run_schedule es (sys_init n) = Some s \<and> p_pc (prod s) = P_Exited"
proof -
  have fits: "thinks_fits (sizeof_SharedMemory + i * (sizeof_Node + 69 * sizeof_int)) 69" if "i < 6" for i
    using that by (subst thinks_fits_def, subst size_t_pos) (auto simp: shm_sizes)
  have "\<exists>es s'. run_schedule es (sys_init n) = Some s' \<and> fresh n (sizeof_SharedMemory + 6 * (sizeof_Node + 69 * sizeof_int)) s'"
    by (rule fresh_blocks[OF fresh_init fits]) (simp_all add: shm_sizes)
  then obtain es s where 1: "run_schedule es (sys_init n) = Some s"
    "fresh n (sizeof_SharedMemory + 6 * (sizeof_Node + 69 * sizeof_int)) s" by blast
  have "\<not> thinks_fits (sizeof_SharedMemory + 6 * (sizeof_Node + 69 * sizeof_int)) 69"
    by (subst thinks_fits_def, subst size_t_pos) (auto simp: shm_sizes)
  then obtain es' s' where "run_schedule es' s = Some s'" "p_pc (prod s') = P_Exited"
    using producer_can_finish[OF 1(2)] by blast
  then have "run_schedule (es @ es') (sys_init n) = Some s' \<and> p_pc (prod s') = P_Exited"
    using 1(1) by (simp add: run_schedule_append)
  then show ?thesis by blast
qed

section \<open>Every run that can end can be continued to its end\<close>

lemma can_complete:
  "untaken_inv u s \<Longrightarrow> \<exists>es s'. run_schedule es s = Some s' \<and> finished s' \<and> length (cons s') = length (cons s)"
proof (induction "to_go u (cons s)" arbitrary: u s rule: less_induct)
  case less
  show ?case
  proof (cases "finished s")
    case True
    then have "run_schedule [] s = Some s \<and> finished s" by simp
    then show ?thesis by blast
  next
    case False
    obtain mk where mk: "sys_inv s mk" using less.prems by (auto simp: untaken_inv_def sys_inv_def)
    then obtain e s1 where e: "sys_step e s = Stepped s1" using some_process_steps[OF mk False] by blast
    have len: "length (cons s1) = length (cons s)" using sys_step_inv[OF mk, of e] e by auto
    obtain u' where "untaken_inv u' s1" "to_go u' (cons s1) < to_go u (cons s)" using untaken_step[OF less.prems e] by blast
    then obtain es s' where "run_schedule es s1 = Some s'" "finished s'" "length (cons s') = length (cons s1)"
      using less.hyps by blast
    then have "run_schedule (e # es) s = Some s' \<and> finished s' \<and> length (cons s') = length (cons s)" using e len by simp
    then show ?thesis by blast
  qed
qed

lemma complete_run: "\<exists>es s. run_schedule es (sys_init n) = Some s \<and> finished s"
proof -
  obtain es s where 1: "run_schedule es (sys_init n) = Some s" "p_pc (prod s) = P_Exited"
    using producer_ends_somewhere by blast
  then have "sys_inv s (made es (sys_init n))" using run_init[of es n] by auto
  then obtain u where "untaken_inv u s" using untaken_made 1(2) by blast
  then obtain es' s' where "run_schedule es' s = Some s'" "finished s'" using can_complete by blast
  then have "run_schedule (es @ es') (sys_init n) = Some s' \<and> finished s'" using 1(1) by (simp add: run_schedule_append)
  then show ?thesis by blast
qed

lemma blocks_processed_once_witness:
  "\<exists>es s. run_schedule es (sys_init 2) = Some s \<and>
     mset (concat (map reports (cons s))) = mset (map summary (made es (sys_init 2)))"
proof -
  obtain es s where s: "run_schedule es (sys_init 2) = Some s" "finished s" using complete_run by blast
  then have "\<forall>c \<in> set (cons s). c_pc c = C_Exited" by (simp add: finished_def list_all_iff)
  from blocks_processed_once[OF _ s(1) this] s(1) show ?thesis by auto
qed

lemma consumers_terminate_witness:
  "\<exists>es s. run_schedule es (sys_init 2) = Some s \<and>
     steps_taken [Cons 0, Cons 1] s \<le> 6 * 2 * Suc (length (made es (sys_init 2)))"
proof -
  obtain es s where s: "run_schedule es (sys_init 2) = Some s" "p_pc (prod s) = P_Exited"
    using producer_ends_somewhere by blast
  from consumers_terminate[OF s, of "[Cons 0, Cons 1]"] s(1) show ?thesis by blast
qed

section \<open>The overrun\<close>

text \<open>Nothing moves a crashed producer, and without it no consumer ends.\<close>

lemma crashed_stays:
  "p_pc (prod s) = P_Crashed \<Longrightarrow> sys_inv s mk \<Longrightarrow> \<exists>s' mk'. run_schedule es s = Some s' \<and> sys_inv s' mk' \<and> p_pc (prod s') = P_Crashed"
proof (induction es arbitrary: s mk)
  case (Cons e es)
  show ?case
  proof (cases "sys_step e s")
    case (Stepped s1)
    then have "p_pc (prod s1) = P_Crashed"
      using Cons.prems(1) by (cases e) (auto simp: sys_step_def producer_step_def split: outcome.splits if_splits)
    moreover have "\<exists>mk'. sys_inv s1 mk'" using sys_step_inv[OF Cons.prems(2), of e] Stepped by auto
    ultimately show ?thesis using Cons.IH Stepped by auto
  next
    case Blocked
    then show ?thesis using Cons by auto
  next
    case Fault
    then show ?thesis using sys_step_inv[OF Cons.prems(2), of e] by simp
  qed
qed auto

lemma crashed_no_exit:
  assumes "sys_inv s mk" "p_pc (prod s) = P_Crashed"
  shows "list_all (\<lambda>c. c_pc c \<noteq> C_Exited) (cons s)"
  using assms by (auto simp: sys_inv_def shm_inv_def end_inv_def some_exited_def list_all_iff)

lemma crash_reached:
  "\<exists>es s. run_schedule es (sys_init n) = Some s \<and> p_pc (prod s) = P_Crashed \<and> memory_end (memory s) < used_memory (prod s)"
proof -
  let ?b = "sizeof_Node + 50 * sizeof_int" and ?c = "sizeof_Node + 49 * sizeof_int"
  have "\<exists>es s'. run_schedule es (sys_init n) = Some s' \<and> fresh n (sizeof_SharedMemory + 8 * ?b) s'"
    by (rule fresh_blocks[OF fresh_init])
       (simp_all add: thinks_fits_def shm_sizes size_t_pos)
  then obtain es1 s1 where 1: "run_schedule es1 (sys_init n) = Some s1" "fresh n (sizeof_SharedMemory + 8 * ?b) s1" by blast
  have "\<exists>es s'. run_schedule es s1 = Some s' \<and> fresh n (sizeof_SharedMemory + 8 * ?b + 1 * ?c) s'"
    by (rule fresh_blocks[OF 1(2)])
       (simp_all add: thinks_fits_def shm_sizes size_t_pos)
  then obtain es2 s2 where 2: "run_schedule es2 s1 = Some s2" "fresh n (sizeof_SharedMemory + 8 * ?b + 1 * ?c) s2" by blast
  have "\<exists>es s'. run_schedule es s2 = Some s' \<and> fresh n (sizeof_SharedMemory + 8 * ?b + 1 * ?c + 8 * ?b) s'"
    by (rule fresh_blocks[OF 2(2)])
       (simp_all add: thinks_fits_def shm_sizes size_t_neg)
  then obtain es3 s3 where 3: "run_schedule es3 s2 = Some s3" "fresh n (sizeof_SharedMemory + 8 * ?b + 1 * ?c + 8 * ?b) s3"
    by blast
  let ?r = "\<lambda>_. 30 :: nat"
  have "producer_loop ?r (memory s3) (prod s3) = (memory s3, (prod s3)\<lparr>p_pc := P_Crashed\<rparr>)"
    using loop_cases[OF 3(2), of ?r] by (simp add: thinks_fits_def shm_sizes size_t_neg rand_count_def)
  then have "sys_step (Prod ?r) s3 = Stepped (s3\<lparr>prod := (prod s3)\<lparr>p_pc := P_Crashed\<rparr>\<rparr>)"
    using 3(2) by (simp add: sys_step_def producer_step_def fresh_def)
  moreover define s4 where "s4 = s3\<lparr>prod := (prod s3)\<lparr>p_pc := P_Crashed\<rparr>\<rparr>"
  ultimately have "run_schedule (es1 @ es2 @ es3 @ [Prod ?r]) (sys_init n) = Some s4"
    using 1(1) 2(1) 3(1) by (simp add: run_schedule_append)
  moreover have "p_pc (prod s4) = P_Crashed" "memory_end (memory s4) < used_memory (prod s4)"
    using 3(2) by (simp_all add: s4_def fresh_def shm_sizes)
  ultimately show ?thesis by blast
qed

text \<open>With a producer that has been killed.\<close>

lemma semaphore_never_lost_witness:
  "\<exists>es s. run_schedule es (sys_init 1) = Some s \<and> p_pc (prod s) = P_Crashed \<and>
     PAGE_BYTES < memory_start (memory s) + used_memory (prod s) + sizeof_Node + 69 * sizeof_int"
proof -
  obtain es s where s: "run_schedule es (sys_init 1) = Some s" "p_pc (prod s) = P_Crashed"
    using crash_reached by blast
  then show ?thesis using semaphore_never_lost[of es 1] by (intro exI[of _ es] exI[of _ s]) auto
qed

text \<open>
  C23. The size check of the producer misses the node header, so the bytes used can exceed the segment,
  and then the unsigned difference is huge and every block seems to fit. Some runs come to this: the
  producer writes past the end of the segment until it is killed at the end of the page without having
  announced its end, and from then on no schedule ever ends a consumer.
\<close>

theorem producer_overrun_hangs_consumers:
  "\<exists>es s. run_schedule es (sys_init n) = Some s \<and> p_pc (prod s) = P_Crashed \<and> memory_end (memory s) < used_memory (prod s) \<and>
     (\<forall>es'. \<exists>s'. run_schedule es' s = Some s' \<and> list_all (\<lambda>c. c_pc c \<noteq> C_Exited) (cons s'))"
proof -
  obtain es s where s: "run_schedule es (sys_init n) = Some s" "p_pc (prod s) = P_Crashed"
    "memory_end (memory s) < used_memory (prod s)" using crash_reached by blast
  moreover have "sys_inv s (made es (sys_init n))" using run_init[of es n] s(1) by auto
  ultimately show ?thesis using crashed_stays crashed_no_exit by meson
qed

end
