(* ===== verification/Posix_Queue_Props.thy ===== *)
theory Posix_Queue_Props
  imports Posix_Queue Shm_Overrun_Props
begin

text \<open>
  The POSIX program refines the System V one, step by step, as long as no process is interrupted and
  the semaphore is new: so its blocks are processed exactly once, and the report lines its consumers
  print are those of the blocks. A process interrupted while it holds the semaphore, and a semaphore
  left over from such a run, leave everyone waiting.
\<close>

section \<open>The System V program as specification\<close>

definition as_sysv :: "posix_system \<Rightarrow> system" where
  "as_sysv s = \<lparr>memory = pmem s, prod = producer.truncate (pprod s), cons = map consumer.truncate (pcons s)\<rparr>"

fun uninterrupted :: "posix_event \<Rightarrow> bool" where
  "uninterrupted (PProd rnd) = True"
| "uninterrupted (PCons i) = True"
| "uninterrupted e = False"

fun as_event :: "posix_event \<Rightarrow> event" where
  "as_event (PProd rnd) = Prod rnd"
| "as_event (PCons i) = Cons i"
| "as_event e = Cons 0"

lemmas truncates = producer.truncate_def consumer.truncate_def

lemma lock_refines:
  "map_outcome (map_prod id f) (posix_semaphore_lock m p) = locking m (f p)"
  by (simp add: posix_semaphore_lock_def locking_def semaphore_lock_def)

lemma unlock_refines:
  "sem_value m \<le> 1 \<Longrightarrow> posix_semaphore_unlock m p failed = (semaphore_unlock m, p)"
  by (simp add: posix_semaphore_unlock_def semaphore_unlock_def SEM_VALUE_MAX_def)

lemma link_node_sem: "link_node a m = Some m1 \<Longrightarrow> sem_value m1 = sem_value m"
  by (auto simp: link_node_def split: if_splits)

lemma map_outcome_or_fault: "map_outcome f (or_fault r) = or_fault (map_option f r)"
  by (cases r) (simp_all add: or_fault_def)

lemma producer_refines:
  assumes "sem_value m \<le> 1"
  shows "map_outcome (map_prod id producer.truncate) (posix_producer_step rnd m p) =
    producer_step rnd m (producer.truncate p)"
proof -
  have loop: "map_prod id producer.truncate (posix_producer_loop rnd m p) = producer_loop rnd m (producer.truncate p)"
    by (simp add: posix_producer_loop_def producer_loop_def truncates Let_def)
  have link: "map_option (map_prod id producer.truncate) (posix_producer_link a m p) =
      producer_link a m (producer.truncate p)" for a
    using assms link_node_sem[of a m]
    by (auto simp: posix_producer_link_def producer_link_def truncates unlock_refines Let_def split: Option.bind_splits)
  have check: "map_option (map_prod id producer.truncate) (posix_producer_check m p) =
      producer_check m (producer.truncate p)"
    using assms by (auto simp: posix_producer_check_def producer_check_def truncates unlock_refines split: Option.bind_splits)
  have "sem_value (m\<lparr>producer_finished := True\<rparr>) \<le> 1" using assms by simp
  note fin = unlock_refines[OF this]
  from loop link check show ?thesis
    by (cases "p_pc p")
      (simp_all add: fin posix_producer_step_def producer_step_def lock_refines map_outcome_or_fault, simp_all add: truncates)
qed

lemma says_truncate [simp]: "consumer.truncate (says t c) = consumer.truncate c"
  by (simp add: says_def truncates)

lemma consumer_refines:
  assumes "sem_value m \<le> 1"
  shows "map_outcome (map_prod id consumer.truncate) (posix_consumer_step m c) =
    consumer_step m (consumer.truncate c)"
proof -
  have scan: "map_option (map_prod id consumer.truncate) (posix_consumer_scan m c) = consumer_scan m (consumer.truncate c)"
    using assms by (auto simp: posix_consumer_scan_def consumer_scan_def unlock_refines Let_def split: Option.bind_splits)
      (simp_all add: truncates)
  have take: "map_option (map_prod id consumer.truncate) (posix_consumer_take m c) = consumer_take m (consumer.truncate c)"
    using assms by (auto simp: posix_consumer_take_def consumer_take_def unlock_refines split: Option.bind_splits)
      (simp_all add: truncates)
  have process: "map_option consumer.truncate (posix_consumer_process k d m c) = consumer_process k d m (consumer.truncate c)" for k d
    by (auto simp: posix_consumer_process_def consumer_process_def split: Option.bind_splits) (simp_all add: truncates)
  have process': "map_option (map_prod id consumer.truncate) (map_option (Pair m) (posix_consumer_process k d m c)) =
      map_option (Pair m) (consumer_process k d m (consumer.truncate c))" for k d
    unfolding process[symmetric] by (cases "posix_consumer_process k d m c") simp_all
  from scan take process' show ?thesis
    by (cases "c_pc c")
      (simp_all add: posix_consumer_step_def consumer_step_def lock_refines map_outcome_or_fault, simp_all add: truncates)
qed

lemma step_refines:
  assumes "sem_value (pmem s) \<le> 1" "uninterrupted e"
  shows "map_outcome as_sysv (posix_sys_step e s) = sys_step (as_event e) (as_sysv s)"
proof (cases e)
  case (PProd rnd)
  then show ?thesis
    using producer_refines[OF assms(1), of rnd "pprod s", symmetric]
    by (cases "posix_producer_step rnd (pmem s) (pprod s)") (auto simp: posix_sys_step_def sys_step_def as_sysv_def)
next
  case (PCons i)
  then show ?thesis
    using consumer_refines[OF assms(1), of "pcons s ! i", symmetric]
    by (cases "posix_consumer_step (pmem s) (pcons s ! i)")
      (auto simp: posix_sys_step_def sys_step_def as_sysv_def map_update)
qed (use assms(2) in simp_all)

lemma run_refines:
  assumes "sys_inv (as_sysv s) mk" "\<forall>e \<in> set es. uninterrupted e"
  shows "map_option as_sysv (run_steps posix_sys_step es s) = run_schedule (map as_event es) (as_sysv s)"
  using assms
proof (induction es arbitrary: s mk)
  case (Cons e es)
  have "sem_value (memory (as_sysv s)) \<le> 1" using Cons.prems(1) by (auto simp: sys_inv_def shm_inv_def)
  then have r: "map_outcome as_sysv (posix_sys_step e s) = sys_step (as_event e) (as_sysv s)"
    using Cons.prems(2) by (intro step_refines) (simp_all add: as_sysv_def)
  from sys_step_inv[OF Cons.prems(1), of "as_event e"] show ?case
  proof
    assume "sys_step (as_event e) (as_sysv s) = Blocked \<and> (ended (as_event e) (as_sysv s) \<or> sem_value (memory (as_sysv s)) = 0)"
    then show ?thesis using r Cons.IH[OF Cons.prems(1)] Cons.prems(2) by (cases "posix_sys_step e s") simp_all
  next
    assume "\<exists>s'. sys_step (as_event e) (as_sysv s) = Stepped s' \<and> sys_inv s' (mk @ filled_by (as_event e) (as_sysv s) s') \<and>
        length (cons s') = length (cons (as_sysv s))"
    then show ?thesis using r Cons.IH Cons.prems(2) by (cases "posix_sys_step e s") auto
  qed
qed simp

lemma start_refines: "as_sysv (posix_sys_start 1 pid pids) = sys_init (length pids)"
proof -
  have "map consumer.truncate (map (\<lambda>(i, q). posix_consumer_start (int i) q) (enumerate k pids)) =
      replicate (length pids) \<lparr>c_pc = C_Loop, wait_count = 0, processed_blocks = 0, reports = []\<rparr>" for k
    by (induction pids arbitrary: k) (simp_all add: posix_consumer_start_def truncates says_def)
  then show ?thesis
    by (simp add: as_sysv_def posix_sys_start_def sys_init_def posix_producer_start_def truncates shm_init_def)
qed

section \<open>What the consumers print\<close>

fun report_line :: "int \<Rightarrow> int \<times> int \<times> int \<Rightarrow> string" where
  "report_line i (n, lo, hi) = consumer_line i (report_text n lo hi)"

definition is_report :: "int \<Rightarrow> string \<Rightarrow> bool" where
  "is_report i l \<longleftrightarrow> l \<in> range (report_line i)"

text \<open>The lines about blocks among those a consumer prints.\<close>

definition printed_reports :: "posix_consumer \<Rightarrow> string list" where
  "printed_reports c = filter (is_report (c_id c)) (c_out c)"

definition prints_well :: "posix_consumer \<Rightarrow> bool" where
  "prints_well c \<longleftrightarrow> printed_reports c = map (report_line (c_id c)) (reports c)"

lemma not_reports [simp]:
  "\<not> is_report i ''sem_post''" "\<not> is_report i (consumer_line i (started_text pid))"
  "\<not> is_report i (consumer_line i (waiting_text k))" "\<not> is_report i (consumer_line i (processed_text k))"
  by (auto simp: is_report_def consumer_line_def report_text_def started_text_def waiting_text_def processed_text_def)

lemma is_report_line [simp]: "is_report i (consumer_line i (report_text n lo hi))"
  unfolding is_report_def by (intro image_eqI[of _ _ "(n, lo, hi)"]) simp_all

lemma says_prints:
  "c_id (says t c) = c_id c" "reports (says t c) = reports c"
  "printed_reports (says t c) =
     printed_reports c @ (if is_report (c_id c) (consumer_line (c_id c) t) then [consumer_line (c_id c) t] else [])"
  by (simp_all add: says_def printed_reports_def)

lemma says_other: "\<not> is_report (c_id c) (consumer_line (c_id c) t) \<Longrightarrow> prints_well (says t c) \<longleftrightarrow> prints_well c"
  by (simp add: prints_well_def says_prints)

lemma prints_frame [simp]:
  "printed_reports (c\<lparr>c_pc := x\<rparr>) = printed_reports c" "printed_reports (c\<lparr>wait_count := w\<rparr>) = printed_reports c"
  "printed_reports (c\<lparr>processed_blocks := k\<rparr>) = printed_reports c" "printed_reports (c\<lparr>reports := rs\<rparr>) = printed_reports c"
  "printed_reports (c_failed c) = printed_reports c" "c_id (c_failed c) = c_id c" "reports (c_failed c) = reports c"
  by (simp_all add: printed_reports_def c_failed_def)

lemma unlock_prints: "prints_well c \<Longrightarrow> prints_well f \<Longrightarrow> prints_well (snd (posix_semaphore_unlock m c f))"
  by (simp add: posix_semaphore_unlock_def)

lemma consumer_prints:
  assumes "prints_well c" "posix_consumer_step m c = Stepped (m', c')"
  shows "prints_well c'"
proof -
  have f: "prints_well (c_failed c)" using assms(1) by (simp add: prints_well_def)
  have scan: "prints_well c'" if s: "posix_consumer_scan m c = Some (m', c')"
  proof -
    have said: "prints_well (says (processed_text k) (c\<lparr>c_pc := x\<rparr>))" "prints_well (c\<lparr>wait_count := w, c_pc := x\<rparr>)"
        "prints_well (says (waiting_text k) (c\<lparr>wait_count := w, c_pc := x\<rparr>))" for k w x
      using assms(1) by (simp_all add: prints_well_def says_prints)
    obtain current where current: "first_unprocessed (node_at m) (shm_head m) = Some current"
      using s by (auto simp: posix_consumer_scan_def bind_eq_Some_conv)
    define d where "d = (if producer_finished m \<and> current = 0
        then says (processed_text (processed_blocks c)) (c\<lparr>c_pc := C_Exited\<rparr>)
        else if current = 0 \<and> \<not> producer_finished m
        then (if Suc (wait_count c) mod 5 = 0 then says (waiting_text (Suc (wait_count c))) else id)
               (c\<lparr>wait_count := Suc (wait_count c), c_pc := C_Loop\<rparr>)
        else c\<lparr>wait_count := 0, c_pc := C_Take\<rparr>)"
    have d: "posix_semaphore_unlock m d (c_failed c) = (m', c')" "prints_well d"
      using s current said by (auto simp: posix_consumer_scan_def d_def Let_def split: if_splits)
    show ?thesis using unlock_prints[OF d(2) f, of m] d(1) by simp
  qed
  have take: "prints_well c'" if s: "posix_consumer_take m c = Some (m', c')"
  proof -
    have "prints_well (c\<lparr>c_pc := x\<rparr>)" for x using assms(1) by (simp add: prints_well_def)
    then show ?thesis using s unlock_prints[OF _ f]
      by (auto simp: posix_consumer_take_def bind_eq_Some_conv split: if_splits) (metis snd_conv)+
  qed
  have process: "prints_well c'" if "posix_consumer_process k d m c = Some c'" for k d
    using that assms(1) by (auto simp: posix_consumer_process_def bind_eq_Some_conv prints_well_def says_prints)
  have lock: "prints_well c'" if "posix_semaphore_lock m (c\<lparr>c_pc := x\<rparr>) = Stepped (m', c')" for x
    using that assms(1) by (auto simp: posix_semaphore_lock_def prints_well_def split: if_splits)
  show ?thesis using assms(2) scan take process lock
    by (auto simp: posix_consumer_step_def split: consumer_pc.splits)
qed

lemma step_prints:
  assumes "\<forall>c \<in> set (pcons s). prints_well c" "posix_sys_step e s = Stepped s'"
  shows "\<forall>c \<in> set (pcons s'). prints_well c"
proof (cases e)
  case (PCons i)
  then obtain m c where c: "i < length (pcons s)" "posix_consumer_step (pmem s) (pcons s ! i) = Stepped (m, c)"
      "s' = s\<lparr>pmem := m, pcons := (pcons s)[i := c]\<rparr>"
    using assms(2) by (auto simp: posix_sys_step_def split: if_splits outcome.splits)
  have "prints_well c" using consumer_prints[OF _ c(2)] assms(1) c(1) by simp
  then show ?thesis using c(3) assms(1) by (auto dest!: set_update_subset_insert[THEN subsetD])
next
  case (InterruptCons i)
  then have "i < length (pcons s)" "s' = s\<lparr>names := False, pcons := (pcons s)[i := (pcons s ! i)\<lparr>c_pc := C_Exited\<rparr>]\<rparr>"
    using assms(2) by (auto simp: posix_sys_step_def posix_signal_handler_def split: if_splits)
  then show ?thesis using assms(1)
    by (auto dest!: set_update_subset_insert[THEN subsetD] simp: prints_well_def)
qed (use assms in \<open>auto simp: posix_sys_step_def posix_signal_handler_def split: if_splits outcome.splits\<close>)

lemma run_prints:
  "\<forall>c \<in> set (pcons s). prints_well c \<Longrightarrow> run_steps posix_sys_step es s = Some s' \<Longrightarrow> \<forall>c \<in> set (pcons s'). prints_well c"
proof (induction es arbitrary: s)
  case (Cons e es)
  then show ?case using step_prints[OF Cons.prems(1), of e] by (cases "posix_sys_step e s") auto
qed simp

lemma start_prints: "\<forall>c \<in> set (pcons (posix_sys_start v pid pids)). prints_well c"
  by (auto simp: posix_sys_start_def prints_well_def posix_consumer_start_def says_prints)
    (simp_all add: printed_reports_def)

text \<open>
  C24. With a new semaphore, the POSIX program makes under every schedule the steps of the System V one:
  no process faults, and when all consumers have ended, what they have printed about blocks are the
  reports of the blocks the producer has filled, each block in one line of one consumer.
\<close>

theorem posix_prints_every_block:
  assumes "\<forall>e \<in> set es. uninterrupted e"
  shows "\<exists>s. run_steps posix_sys_step es (posix_sys_start 1 pid pids) = Some s \<and>
    run_schedule (map as_event es) (sys_init (length pids)) = Some (as_sysv s) \<and>
    (pids \<noteq> [] \<and> (\<forall>c \<in> set (pcons s). c_pc c = C_Exited) \<longrightarrow>
       (\<exists>rs. map printed_reports (pcons s) = map2 (\<lambda>c. map (report_line (c_id c))) (pcons s) rs \<and>
          length rs = length pids \<and>
          mset (concat rs) = mset (map summary (made (map as_event es) (sys_init (length pids))))))"
proof -
  let ?s0 = "posix_sys_start 1 pid pids"
  have inv: "sys_inv (as_sysv ?s0) []" using start_refines sys_inv_init by simp
  have "map_option as_sysv (run_steps posix_sys_step es ?s0) = run_schedule (map as_event es) (sys_init (length pids))"
    using run_refines[OF inv assms] start_refines by simp
  moreover obtain t where t: "run_schedule (map as_event es) (sys_init (length pids)) = Some t" "length (cons t) = length pids"
    using run_init[of "map as_event es" "length pids"] by (auto simp: sys_init_def)
  ultimately obtain s where s: "run_steps posix_sys_step es ?s0 = Some s" "as_sysv s = t" by auto
  have prints: "\<forall>c \<in> set (pcons s). prints_well c" using run_prints[OF start_prints s(1)] .
  let ?rs = "map reports (pcons s)"
  have len: "length (pcons s) = length pids" using t(2) s(2) by (auto simp: as_sysv_def)
  have reports: "map reports (cons t) = ?rs" using s(2) by (auto simp: as_sysv_def truncates)
  have "map printed_reports (pcons s) = map2 (\<lambda>c. map (report_line (c_id c))) (pcons s) ?rs"
    using prints by (auto simp: prints_well_def list_eq_iff_nth_eq)
  moreover have "mset (concat ?rs) = mset (map summary (made (map as_event es) (sys_init (length pids))))"
    if "pids \<noteq> []" "\<forall>c \<in> set (pcons s). c_pc c = C_Exited"
  proof -
    have "\<forall>c \<in> set (cons t). c_pc c = C_Exited" using that(2) s(2) by (auto simp: as_sysv_def truncates)
    moreover have "cons t \<noteq> []" using t(2) that(1) by auto
    moreover have "sys_inv t (made (map as_event es) (sys_init (length pids)))"
      using t(1) run_init[of "map as_event es" "length pids"] by auto
    ultimately show ?thesis using all_exited_reports reports by metis
  qed
  ultimately show ?thesis using s t(1) len by (intro exI[of _ s]) auto
qed

lemma posix_prints_every_block_witness:
  "\<exists>es s. run_steps posix_sys_step es (posix_sys_start 1 70 [71, 72]) = Some s \<and>
    (\<exists>rs. map printed_reports (pcons s) = map2 (\<lambda>c. map (report_line (c_id c))) (pcons s) rs \<and> length rs = 2 \<and>
       mset (concat rs) = mset (map summary (made (map as_event es) (sys_init 2))))"
proof -
  obtain es s where s: "run_schedule es (sys_init 2) = Some s" "finished s" using complete_run by blast
  define es' where "es' = map (\<lambda>e. case e of Prod r \<Rightarrow> PProd r | Cons i \<Rightarrow> PCons i) es"
  have es': "\<forall>e \<in> set es'. uninterrupted e" "map as_event es' = es"
    by (auto simp: es'_def comp_def split: event.splits intro!: map_idI)
  have l: "length [71 :: int, 72] = 2" "[71 :: int, 72] \<noteq> []" by simp_all
  obtain t where t: "run_steps posix_sys_step es' (posix_sys_start 1 70 [71, 72]) = Some t"
      "run_schedule es (sys_init 2) = Some (as_sysv t)"
      "(\<forall>c \<in> set (pcons t). c_pc c = C_Exited) \<longrightarrow>
       (\<exists>rs. map printed_reports (pcons t) = map2 (\<lambda>c. map (report_line (c_id c))) (pcons t) rs \<and> length rs = 2 \<and>
          mset (concat rs) = mset (map summary (made es (sys_init 2))))"
    using posix_prints_every_block[OF es'(1), of 70 "[71, 72]", unfolded l(1) es'(2)] l(2) by blast
  have "\<forall>c \<in> set (pcons t). c_pc c = C_Exited"
    using s t(2) by (auto simp: finished_def list_all_iff as_sysv_def truncates)
  with t es'(2) show ?thesis by blast
qed

section \<open>A lost semaphore\<close>

text \<open>The semaphore is taken and no process is going to give it back.\<close>

definition lost :: "posix_system \<Rightarrow> bool" where
  "lost s \<longleftrightarrow> sem_value (pmem s) = 0 \<and> \<not> p_holds (producer.truncate (pprod s)) \<and>
     (\<forall>c \<in> set (pcons s). \<not> c_holds (consumer.truncate c))"

definition same_exits :: "posix_system \<Rightarrow> posix_system \<Rightarrow> bool" where
  "same_exits s s' \<longleftrightarrow> length (pcons s') = length (pcons s) \<and> (p_pc (pprod s') = P_Exited \<longleftrightarrow> p_pc (pprod s) = P_Exited) \<and>
     (\<forall>i < length (pcons s). c_pc (pcons s' ! i) = C_Exited \<longleftrightarrow> c_pc (pcons s ! i) = C_Exited)"

lemma loop_keeps:
  assumes "posix_producer_loop rnd m p = (m', p')"
  shows "sem_value m' = sem_value m" "p_pc p' \<in> {P_Finish, P_Crashed} \<union> range P_Link"
  using assms by (auto simp: posix_producer_loop_def write_node_def Let_def split: if_splits)

lemma lost_step:
  assumes "lost s" "uninterrupted e" "posix_sys_step e s = Stepped s'"
  shows "lost s' \<and> same_exits s s'"
proof (cases e)
  case (PProd rnd)
  then obtain m p where p: "posix_producer_step rnd (pmem s) (pprod s) = Stepped (m, p)" "s' = s\<lparr>pmem := m, pprod := p\<rparr>"
    using assms(3) by (auto simp: posix_sys_step_def split: outcome.splits)
  then have "posix_producer_loop rnd (pmem s) (pprod s) = (m, p)" "p_pc (pprod s) = P_Loop"
    using assms(1)
    by (auto simp: posix_producer_step_def lost_def p_holds_def truncates posix_semaphore_lock_def split: producer_pc.splits)
  from loop_keeps[OF this(1)] this(2) p(2) assms(1) show ?thesis
    by (auto simp: lost_def same_exits_def p_holds_def truncates)
next
  case (PCons i)
  then obtain m c where c: "i < length (pcons s)" "posix_consumer_step (pmem s) (pcons s ! i) = Stepped (m, c)"
      "s' = s\<lparr>pmem := m, pcons := (pcons s)[i := c]\<rparr>"
    using assms(3) by (auto simp: posix_sys_step_def split: if_splits outcome.splits)
  have "\<not> c_holds (consumer.truncate (pcons s ! i))" using assms(1) c(1) by (simp add: lost_def)
  then obtain k d where "c_pc (pcons s ! i) = C_Process k d" "m = pmem s" "posix_consumer_process k d (pmem s) (pcons s ! i) = Some c"
    using assms(1) c(2)
    by (auto simp: posix_consumer_step_def lost_def c_holds_def truncates posix_semaphore_lock_def split: consumer_pc.splits)
  moreover from this(3) have "c_pc c = C_Loop" by (auto simp: posix_consumer_process_def bind_eq_Some_conv says_def)
  ultimately show ?thesis using assms(1) c
    by (auto simp: lost_def same_exits_def c_holds_def truncates nth_list_update dest!: set_update_subset_insert[THEN subsetD])
qed (use assms(2) in simp_all)

lemma lost_run:
  "lost s \<Longrightarrow> \<forall>e \<in> set es. uninterrupted e \<Longrightarrow> run_steps posix_sys_step es s = Some s' \<Longrightarrow> lost s' \<and> same_exits s s'"
proof (induction es arbitrary: s)
  case (Cons e es)
  show ?case
  proof (cases "posix_sys_step e s")
    case (Stepped s1)
    with lost_step[OF Cons.prems(1) _ Stepped] Cons.prems(2) have "lost s1 \<and> same_exits s s1" by simp
    with Stepped Cons show ?thesis by (auto simp: same_exits_def)
  qed (use Cons in auto)
qed (simp add: same_exits_def)

text \<open>A semaphore of value 0 that an earlier run has left: nobody ever gets anywhere.\<close>

lemma stale_semaphore_hangs:
  assumes "\<forall>e \<in> set es. uninterrupted e" "run_steps posix_sys_step es (posix_sys_start 0 pid pids) = Some s"
  shows "lost s \<and> same_exits (posix_sys_start 0 pid pids) s"
proof -
  have "lost (posix_sys_start 0 pid pids)"
    by (auto simp: lost_def posix_sys_start_def p_holds_def c_holds_def truncates posix_producer_start_def
        posix_consumer_start_def says_def)
  from lost_run[OF this assms] show ?thesis .
qed

lemma one_holder:
  assumes "\<forall>e \<in> set es. uninterrupted e" "run_steps posix_sys_step es (posix_sys_start 1 pid pids) = Some s"
  shows "sem_value (pmem s) + holders (producer.truncate (pprod s)) (map consumer.truncate (pcons s)) = 1"
    "length (pcons s) = length pids"
proof -
  have inv: "sys_inv (as_sysv (posix_sys_start 1 pid pids)) []" using start_refines sys_inv_init by simp
  have r: "run_schedule (map as_event es) (sys_init (length pids)) = Some (as_sysv s)"
    using run_refines[OF inv assms(1)] assms(2) start_refines by simp
  with run_init[of "map as_event es" "length pids"] show "length (pcons s) = length pids"
    by (auto simp: as_sysv_def sys_init_def)
  show "sem_value (pmem s) + holders (producer.truncate (pprod s)) (map consumer.truncate (pcons s)) = 1"
    using run_sound[of "map as_event es" "length pids"] r by (auto simp: as_sysv_def)
qed

text \<open>
  C25. A consumer that is interrupted while it holds the semaphore never gives it back: from then on no
  other consumer exits and the producer does not either, unless it is interrupted too, so that the parent,
  which waits for them, does not end.
\<close>

theorem interrupted_holder_hangs_all:
  assumes "\<forall>e \<in> set es. uninterrupted e" "run_steps posix_sys_step es (posix_sys_start 1 pid pids) = Some s"
    and "k < length pids" "c_pc (pcons s ! k) \<in> {C_Scanning, C_Taking}"
    and "\<forall>e \<in> set es'. uninterrupted e" "run_steps posix_sys_step (InterruptCons k # es') s = Some s'"
  shows "sem_value (pmem s') = 0 \<and> (p_pc (pprod s') = P_Exited \<longleftrightarrow> p_pc (pprod s) = P_Exited) \<and>
    (\<forall>i < length pids. i \<noteq> k \<longrightarrow> (c_pc (pcons s' ! i) = C_Exited \<longleftrightarrow> c_pc (pcons s ! i) = C_Exited))"
proof -
  let ?s1 = "s\<lparr>names := False, pcons := (pcons s)[k := (pcons s ! k)\<lparr>c_pc := C_Exited\<rparr>]\<rparr>"
  note h = one_holder[OF assms(1,2)]
  have k: "k < length (pcons s)" using assms(3) h(2) by simp
  then have run: "run_steps posix_sys_step es' ?s1 = Some s'" using assms(4,6) by (auto simp: posix_sys_step_def posix_signal_handler_def)
  let ?cs = "map consumer.truncate (pcons s)"
  have holds: "c_holds (?cs ! k)" using assms(4) k by (auto simp: c_holds_def truncates)
  let ?H = "{i. i < length ?cs \<and> c_holds (?cs ! i)}"
  have n: "of_bool (p_holds (producer.truncate (pprod s))) + sem_value (pmem s) + card ?H = (1 :: nat)"
    using h(1) by (simp only: holders_def length_filter_conv_card ac_simps)
  have fin: "finite ?H" "k \<in> ?H" using holds k by auto
  then have "0 < card ?H" using card_gt_0_iff by blast
  with n have one: "sem_value (pmem s) = 0" "\<not> p_holds (producer.truncate (pprod s))" "card ?H \<le> Suc 0"
    by (auto split: if_splits simp: of_bool_def)
  have "\<not> c_holds (consumer.truncate (pcons s ! i))" if "i < length (pcons s)" "i \<noteq> k" for i
    using that card_le_Suc0_iff_eq[OF fin(1)] one(3) fin(2) by auto
  moreover have "\<not> c_holds (consumer.truncate ((pcons s ! k)\<lparr>c_pc := C_Exited\<rparr>))" by (simp add: c_holds_def truncates)
  ultimately have "\<not> c_holds (consumer.truncate (pcons ?s1 ! i))" if "i < length (pcons s)" for i
    using that by (cases "i = k") simp_all
  then have "lost ?s1" using one(1,2) by (auto simp: lost_def in_set_conv_nth)
  from lost_run[OF this assms(5) run] h(2) show ?thesis by (auto simp: lost_def same_exits_def nth_list_update)
qed

lemma interrupted_holder_hangs_all_witness:
  "\<exists>s s'. run_steps posix_sys_step [PCons 0] (posix_sys_start 1 70 [71, 72]) = Some s \<and>
    run_steps posix_sys_step (InterruptCons 0 # [PCons 1, PCons 1]) s = Some s' \<and>
    sem_value (pmem s') = 0 \<and> (p_pc (pprod s') = P_Exited \<longleftrightarrow> p_pc (pprod s) = P_Exited) \<and>
    (\<forall>i < length [71 :: int, 72]. i \<noteq> 0 \<longrightarrow> (c_pc (pcons s' ! i) = C_Exited \<longleftrightarrow> c_pc (pcons s ! i) = C_Exited))"
proof -
  obtain s where s: "run_steps posix_sys_step [PCons 0] (posix_sys_start 1 70 [71, 72]) = Some s"
      "c_pc (pcons s ! 0) = C_Scanning" "c_pc (pcons s ! 1) = C_Loop" "length (pcons s) = 2" "p_pc (pprod s) = P_Loop"
      "sem_value (pmem s) = 0"
    by (simp add: posix_sys_start_def posix_sys_step_def posix_consumer_step_def posix_consumer_start_def says_def
        posix_semaphore_lock_def shm_init_def posix_producer_start_def)
  obtain s' where s': "run_steps posix_sys_step (InterruptCons 0 # [PCons 1, PCons 1]) s = Some s'"
    using s(2-6) by (simp add: posix_sys_step_def posix_signal_handler_def posix_consumer_step_def posix_semaphore_lock_def)
  show ?thesis using interrupted_holder_hangs_all[OF _ s(1) _ _ _ s'] s(1,2) s' by auto
qed

end
