(* ===== verification/Sysv_Signals.thy ===== *)
theory Sysv_Signals
  imports Shm_System_Props Shm_Ipc
begin

text \<open>
  module3/04 with its signals: the processes of Shm\_Queue together with the parent that waits for them
  (main.c), any of which may get SIGINT or SIGTERM. The handler, inherited by the children, removes the
  semaphore, so that every other process ends at its next operation on it. Unlike the POSIX program of
  module3/05, an interrupted run therefore ends, if the semaphore's identifier is not 0.
\<close>

section \<open>ipc\_utils.c and main.c\<close>

text \<open>
  The identifiers are those every process has in its variables since it was forked; what the system holds
  is shared. The semaphore of the memory counts as long as it exists.
\<close>

record sysv_system =
  base :: system
  ids :: sysv
  parent_waits :: bool

definition semop_fails :: "sysv_system \<Rightarrow> bool" where
  "semop_fails s \<longleftrightarrow> semid (ids s) \<notin> semaphores (ids s)"

text \<open>\<open>cleanup_all_ipc\<close> changes the variables of the process that calls it, which ends, and the shared objects.\<close>

definition remove_objects :: "sysv_system \<Rightarrow> sysv_system" where
  "remove_objects s =
     (let c = sysv_cleanup_all (ids s)
      in s\<lparr>ids := (ids s)\<lparr>segments := segments c, semaphores := semaphores c\<rparr>\<rparr>)"

definition sysv_signal_handler :: "sysv_system \<Rightarrow> sysv_system" where
  "sysv_signal_handler s = remove_objects s"

text \<open>\<open>exit\<close> of a child, after a failed \<open>semop\<close> or at the end of the handler.\<close>

definition exit_child :: "event \<Rightarrow> sysv_system \<Rightarrow> sysv_system" where
  "exit_child e s =
     (let b = base s in
      s\<lparr>base := (case e of
          Prod rnd \<Rightarrow> b\<lparr>prod := (prod b)\<lparr>p_pc := P_Exited\<rparr>\<rparr>
        | Cons i \<Rightarrow> b\<lparr>cons := (cons b)[i := (cons b ! i)\<lparr>c_pc := C_Exited\<rparr>]\<rparr>)\<rparr>)"

text \<open>The calls of \<open>semop\<close>: a process about to take the semaphore, and one whose step ends with its release.\<close>

definition p_locks :: "producer \<Rightarrow> bool" where
  "p_locks p = (case p_pc p of P_Link new \<Rightarrow> True | P_Check \<Rightarrow> True | P_Finish \<Rightarrow> True | _ \<Rightarrow> False)"

definition p_unlocks :: "producer \<Rightarrow> bool" where
  "p_unlocks p = (case p_pc p of P_Linking new \<Rightarrow> True | P_Checking \<Rightarrow> True | P_Finishing \<Rightarrow> True | _ \<Rightarrow> False)"

definition c_locks :: "consumer \<Rightarrow> bool" where
  "c_locks c = (case c_pc c of C_Loop \<Rightarrow> True | C_Take \<Rightarrow> True | _ \<Rightarrow> False)"

definition c_unlocks :: "consumer \<Rightarrow> bool" where
  "c_unlocks c = (case c_pc c of C_Scanning \<Rightarrow> True | C_Taking \<Rightarrow> True | _ \<Rightarrow> False)"

definition locks :: "event \<Rightarrow> system \<Rightarrow> bool" where
  "locks e b = (case e of Prod rnd \<Rightarrow> p_locks (prod b) | Cons i \<Rightarrow> i < length (cons b) \<and> c_locks (cons b ! i))"

definition unlocks :: "event \<Rightarrow> system \<Rightarrow> bool" where
  "unlocks e b = (case e of Prod rnd \<Rightarrow> p_unlocks (prod b) | Cons i \<Rightarrow> i < length (cons b) \<and> c_unlocks (cons b ! i))"

definition sysv_child_step :: "event \<Rightarrow> sysv_system \<Rightarrow> sysv_system outcome" where
  "sysv_child_step e s =
     (if semop_fails s \<and> locks e (base s) then Stepped (exit_child e s)
      else case sys_step e (base s) of
             Stepped b \<Rightarrow>
               Stepped (if semop_fails s \<and> unlocks e (base s) then exit_child e (s\<lparr>base := b\<rparr>) else s\<lparr>base := b\<rparr>)
           | Blocked \<Rightarrow> Blocked | Fault \<Rightarrow> Fault)"

text \<open>
  A child runs, a child or the parent is signalled, or the parent, whose children have all ended, removes
  the objects and exits.
\<close>

datatype sysv_event = Child event | Signal_Child event | Signal_Parent | Parent_Done

definition all_ended :: "sysv_system \<Rightarrow> bool" where
  "all_ended s \<longleftrightarrow> finished (base s)"

definition sysv_sys_step :: "sysv_event \<Rightarrow> sysv_system \<Rightarrow> sysv_system outcome" where
  "sysv_sys_step ev s =
     (case ev of
        Child e \<Rightarrow> sysv_child_step e s
      | Signal_Child e \<Rightarrow>
          if ended e (base s) then Blocked else Stepped (exit_child e (sysv_signal_handler s))
      | Signal_Parent \<Rightarrow>
          if parent_waits s then Stepped ((sysv_signal_handler s)\<lparr>parent_waits := False\<rparr>) else Blocked
      | Parent_Done \<Rightarrow>
          if parent_waits s \<and> all_ended s then Stepped ((remove_objects s)\<lparr>parent_waits := False\<rparr>) else Blocked)"

text \<open>The processes as forked, with the objects \<open>init_shared_memory\<close> and \<open>init_semaphore\<close> have made.\<close>

definition sysv_sys_start :: "int \<Rightarrow> int \<Rightarrow> nat \<Rightarrow> sysv_system" where
  "sysv_sys_start shm sem n =
     \<lparr>base = sys_init n,
      ids = snd (sysv_init_semaphore sem True (snd (sysv_init_shared_memory shm True sysv_start))),
      parent_waits = True\<rparr>"

section \<open>No process faults\<close>

text \<open>
  An interrupted run is a run without interruption in which some processes are given no more steps: \<open>g\<close>
  is its state.
\<close>

definition stopped_from :: "system \<Rightarrow> system \<Rightarrow> bool" where
  "stopped_from g b \<longleftrightarrow> memory b = memory g \<and> (prod b = prod g \<or> p_ended (prod b)) \<and> length (cons b) = length (cons g) \<and>
     (\<forall>i < length (cons g). cons b ! i = cons g ! i \<or> c_pc (cons b ! i) = C_Exited)"

definition sound :: "sysv_system \<Rightarrow> bool" where
  "sound s \<longleftrightarrow> (\<exists>g mk. sys_inv g mk \<and> stopped_from g (base s) \<and> (\<not> semop_fails s \<longrightarrow> base s = g)) \<and> 0 < semid (ids s)"

lemma stopped_refl: "stopped_from b b"
  by (simp add: stopped_from_def)

lemma nth_update_if: "j < length xs \<Longrightarrow> xs[i := x] ! j = (if i = j then x else xs ! j)"
  by (cases "i = j") simp_all

lemma stopped_exit: "stopped_from g (base s) \<Longrightarrow> stopped_from g (base (exit_child e s))"
  by (auto simp: stopped_from_def exit_child_def p_ended_def nth_update_if Let_def split: event.splits)

lemma exit_child_simps [simp]:
  "ids (exit_child e s) = ids s" "parent_waits (exit_child e s) = parent_waits s" "semop_fails (exit_child e s) = semop_fails s"
  by (simp_all add: exit_child_def semop_fails_def Let_def)

lemma remove_objects_simps [simp]:
  "base (remove_objects s) = base s" "semid (ids (remove_objects s)) = semid (ids s)"
  "parent_waits (remove_objects s) = parent_waits s" "0 < semid (ids s) \<Longrightarrow> semop_fails (remove_objects s)"
  "semop_fails s \<Longrightarrow> semop_fails (remove_objects s)"
  by (auto simp: remove_objects_def semop_fails_def sysv_cleanup_all_def sysv_cleanup_semaphore_def
      sysv_cleanup_shared_memory_def sysv_detach_def Let_def)

text \<open>A process that has not been stopped takes the step it takes in the uninterrupted run.\<close>

lemma stopped_step:
  assumes "sys_inv g mk" "stopped_from g b" "\<not> ended e b"
  shows "sys_step e b = Blocked \<and> sem_value (memory b) = 0 \<or>
    (\<exists>b' g' mk'. sys_step e b = Stepped b' \<and> sys_inv g' mk' \<and> stopped_from g' b')"
proof -
  have same: "sys_step e b = (case sys_step e g of Stepped g' \<Rightarrow> Stepped (b\<lparr>memory := memory g',
        prod := (case e of Prod rnd \<Rightarrow> prod g' | Cons i \<Rightarrow> prod b),
        cons := (case e of Prod rnd \<Rightarrow> cons b | Cons i \<Rightarrow> (cons b)[i := cons g' ! i])\<rparr>)
      | Blocked \<Rightarrow> Blocked | Fault \<Rightarrow> Fault)"
    using assms(2,3)
    by (auto simp: sys_step_def stopped_from_def ended_def split: event.splits outcome.splits)
  have not_ended: "\<not> ended e g"
    using assms(2,3) by (auto simp: ended_def stopped_from_def split: event.splits)
  from sys_step_inv[OF assms(1), of e] show ?thesis
  proof
    assume "sys_step e g = Blocked \<and> (ended e g \<or> sem_value (memory g) = 0)"
    with not_ended assms(2) same show ?thesis by (simp add: stopped_from_def)
  next
    assume "\<exists>s'. sys_step e g = Stepped s' \<and> sys_inv s' (mk @ filled_by e g s') \<and> length (cons s') = length (cons g)"
    then obtain g' where g': "sys_step e g = Stepped g'" "sys_inv g' (mk @ filled_by e g g')" "length (cons g') = length (cons g)"
      by blast
    moreover have "(case e of Prod rnd \<Rightarrow> cons g' = cons g | Cons i \<Rightarrow> prod g' = prod g \<and> (\<forall>k. k \<noteq> i \<longrightarrow> cons g' ! k = cons g ! k))"
      using g'(1) by (auto simp: sys_step_def split: event.splits outcome.splits if_splits)
    ultimately have "stopped_from g' (b\<lparr>memory := memory g',
        prod := (case e of Prod rnd \<Rightarrow> prod g' | Cons i \<Rightarrow> prod b),
        cons := (case e of Prod rnd \<Rightarrow> cons b | Cons i \<Rightarrow> (cons b)[i := cons g' ! i])\<rparr>)"
      using assms(2) by (auto simp: stopped_from_def nth_update_if split: event.splits)
    with same g'(1,2) show ?thesis by auto
  qed
qed

lemma locks_not_ended: "locks e b \<Longrightarrow> \<not> ended e b"
  by (auto simp: locks_def p_locks_def c_locks_def ended_def p_ended_def split: event.splits)

lemma ended_Blocked: "ended e b \<Longrightarrow> sys_step e b = Blocked"
  by (auto simp: sys_step_def ended_def p_ended_def producer_step_def consumer_step_def split: event.splits)

lemma sound_removed:
  "sound s \<Longrightarrow> stopped_from g b \<Longrightarrow> sys_inv g mk \<Longrightarrow> semop_fails t \<Longrightarrow> semid (ids t) = semid (ids s) \<Longrightarrow> base t = b \<Longrightarrow> sound t"
  by (auto simp: sound_def)

lemma child_step_sound:
  assumes "sound s"
  shows "sysv_child_step e s \<noteq> Fault \<and> (\<forall>s'. sysv_child_step e s = Stepped s' \<longrightarrow> sound s')"
proof -
  obtain g mk where g: "sys_inv g mk" "stopped_from g (base s)" "\<not> semop_fails s \<Longrightarrow> base s = g" "0 < semid (ids s)"
    using assms by (auto simp: sound_def)
  show ?thesis
  proof (cases "semop_fails s \<and> locks e (base s)")
    case True
    then show ?thesis using sound_removed[OF assms stopped_exit[OF g(2)] g(1)] by (simp add: sysv_child_step_def)
  next
    case False
    show ?thesis
    proof (cases "ended e (base s)")
      case True
      with False ended_Blocked[OF True] show ?thesis by (auto simp: sysv_child_step_def)
    next
      case running: False
      show ?thesis
      proof (cases "semop_fails s")
        case True
        from stopped_step[OF g(1,2) running] show ?thesis
        proof
          assume "\<exists>b' g' mk'. sys_step e (base s) = Stepped b' \<and> sys_inv g' mk' \<and> stopped_from g' b'"
          then obtain b' g' mk' where b': "sys_step e (base s) = Stepped b'" "sys_inv g' mk'" "stopped_from g' b'" by blast
          have st: "stopped_from g' (base (s\<lparr>base := b'\<rparr>))" using b'(3) by simp
          have "sound (exit_child e (s\<lparr>base := b'\<rparr>))"
            by (rule sound_removed[OF assms stopped_exit[OF st] b'(2)]) (use True in \<open>simp_all add: semop_fails_def\<close>)
          moreover have "sound (s\<lparr>base := b'\<rparr>)"
            by (rule sound_removed[OF assms b'(3,2)]) (use True in \<open>simp_all add: semop_fails_def\<close>)
          ultimately show ?thesis using b'(1) False by (auto simp: sysv_child_step_def)
        qed (use True False in \<open>simp add: sysv_child_step_def\<close>)
      next
        case False
        then have "base s = g" using g(3) by simp
        have still: "sound (s\<lparr>base := b\<rparr>)" if "sys_inv b mk'" for b mk'
          using that g(4) stopped_refl[of b] by (auto simp: sound_def)
        with \<open>base s = g\<close> sys_step_inv[OF g(1), of e] False show ?thesis by (auto simp: sysv_child_step_def)
      qed
    qed
  qed
qed

lemma sysv_step_sound:
  assumes "sound s"
  shows "sysv_sys_step ev s \<noteq> Fault" "sysv_sys_step ev s = Stepped s' \<Longrightarrow> sound s'"
proof -
  obtain g mk where g: "sys_inv g mk" "stopped_from g (base s)" "0 < semid (ids s)"
    using assms by (auto simp: sound_def)
  have gone: "semop_fails (remove_objects s)" using g(3) by simp
  have parent: "sound ((remove_objects s)\<lparr>parent_waits := w\<rparr>)" for w
    using gone by (intro sound_removed[OF assms g(2,1)]) (simp_all add: semop_fails_def)
  have child: "sound (exit_child e (remove_objects s))" for e
    using gone g(2) by (intro sound_removed[OF assms stopped_exit g(1)]) simp_all
  show "sysv_sys_step ev s \<noteq> Fault" "sysv_sys_step ev s = Stepped s' \<Longrightarrow> sound s'"
    using child_step_sound[OF assms] parent child
    by (auto simp: sysv_sys_step_def sysv_signal_handler_def split: sysv_event.splits if_splits)
qed

interpretation signalled: step_invariant sysv_sys_step sound
  by unfold_locales (fact sysv_step_sound)+

section \<open>An interrupted run ends\<close>

text \<open>What is left to do without a semaphore: at most one piece of work and one failing call.\<close>

definition p_left :: "producer \<Rightarrow> nat" where
  "p_left p = (case p_pc p of P_Loop \<Rightarrow> 2 | P_Exited \<Rightarrow> 0 | P_Crashed \<Rightarrow> 0 | _ \<Rightarrow> 1)"

definition c_left :: "consumer \<Rightarrow> nat" where
  "c_left c = (case c_pc c of C_Process n d \<Rightarrow> 2 | C_Exited \<Rightarrow> 0 | _ \<Rightarrow> 1)"

definition still_to_do :: "sysv_system \<Rightarrow> nat" where
  "still_to_do s = p_left (prod (base s)) + sum_list (map c_left (cons (base s))) + of_bool (parent_waits s)"

lemma still_to_do_bound: "still_to_do s \<le> 2 * length (cons (base s)) + 3"
proof -
  have c: "sum_list (map c_left cs) \<le> 2 * length cs" for cs
    by (induction cs) (auto simp: c_left_def split: consumer_pc.splits)
  have p: "p_left p \<le> 2" for p by (simp add: p_left_def split: producer_pc.splits)
  show ?thesis using c[of "cons (base s)"] p[of "prod (base s)"] by (simp add: still_to_do_def of_bool_def)
qed

lemma c_left_update:
  "i < length cs \<Longrightarrow> c_left c < c_left (cs ! i) \<Longrightarrow> sum_list (map c_left (cs[i := c])) < sum_list (map c_left cs)"
  using sum_list_map_update[of i cs c_left c] by simp

lemma exit_child_left: "\<not> ended e (base s) \<Longrightarrow> still_to_do (exit_child e s) < still_to_do s"
  using c_left_update[of _ "cons (base s)"]
  by (auto simp: still_to_do_def exit_child_def ended_def p_ended_def p_left_def c_left_def Let_def
      split: event.splits producer_pc.splits consumer_pc.splits)

text \<open>A step of a process that does not touch the semaphore brings it nearer to its next call of \<open>semop\<close>.\<close>

lemma work_left:
  assumes "sys_step e b = Stepped b'" "\<not> locks e b" "\<not> unlocks e b"
  shows "still_to_do (s\<lparr>base := b'\<rparr>) < still_to_do (s\<lparr>base := b\<rparr>)"
proof (cases e)
  case (Prod rnd)
  with assms have "p_pc (prod b) = P_Loop" "b' = b\<lparr>memory := fst (producer_loop rnd (memory b) (prod b)), prod := snd (producer_loop rnd (memory b) (prod b))\<rparr>"
    by (auto simp: sys_step_def locks_def unlocks_def p_locks_def p_unlocks_def producer_step_def split: outcome.splits producer_pc.splits prod.splits)
  then show ?thesis
    by (auto simp: still_to_do_def p_left_def producer_loop_def Let_def)
next
  case (Cons i)
  with assms obtain n d c where i: "i < length (cons b)" "c_pc (cons b ! i) = C_Process n d"
      "consumer_process n d (memory b) (cons b ! i) = Some c" "b' = b\<lparr>cons := (cons b)[i := c]\<rparr>"
    by (auto simp: sys_step_def locks_def unlocks_def c_locks_def c_unlocks_def consumer_step_def
        split: outcome.splits consumer_pc.splits if_splits)
  then have "c_left c < c_left (cons b ! i)" by (auto simp: consumer_process_def c_left_def bind_eq_Some_conv)
  with c_left_update[OF i(1)] i(4) show ?thesis by (simp add: still_to_do_def)
qed

text \<open>After the release of the semaphore has failed the process has ended, whatever its step did.\<close>

lemma release_left:
  assumes "sys_step e b = Stepped b'" "unlocks e b"
  shows "still_to_do (exit_child e (s\<lparr>base := b'\<rparr>)) < still_to_do (s\<lparr>base := b\<rparr>)"
proof (cases e)
  case (Prod rnd)
  then have "cons b' = cons b" using assms(1) by (auto simp: sys_step_def split: outcome.splits)
  with Prod assms(2) show ?thesis
    by (auto simp: still_to_do_def exit_child_def unlocks_def p_unlocks_def p_left_def Let_def split: producer_pc.splits)
next
  case (Cons i)
  then obtain c where "i < length (cons b)" "cons b' = (cons b)[i := c]" "prod b' = prod b" "c_left (cons b ! i) = 1"
    using assms by (auto simp: sys_step_def unlocks_def c_unlocks_def c_left_def split: outcome.splits consumer_pc.splits if_splits)
  with c_left_update[of i "cons b"] Cons show ?thesis
    by (simp add: still_to_do_def exit_child_def Let_def c_left_def)
qed

definition doomed :: "sysv_system \<Rightarrow> bool" where
  "doomed s \<longleftrightarrow> sound s \<and> semop_fails s"

lemma doomed_decreases:
  assumes "doomed s" "sysv_sys_step ev s = Stepped s'"
  shows "still_to_do s' < still_to_do s" "semop_fails s'"
proof -
  have fails: "semop_fails s" using assms(1) by (simp add: doomed_def)
  have base: "semop_fails (s\<lparr>base := b\<rparr>)" for b using fails by (simp add: semop_fails_def)
  have same: "still_to_do (remove_objects s) = still_to_do s" by (simp add: still_to_do_def)
  have parent: "parent_waits s \<Longrightarrow> still_to_do ((remove_objects s)\<lparr>parent_waits := False\<rparr>) < still_to_do s"
    "semop_fails ((remove_objects s)\<lparr>parent_waits := w\<rparr>)" for w
    using remove_objects_simps(5)[OF fails] by (simp_all add: still_to_do_def semop_fails_def)
  have child: "still_to_do s' < still_to_do s \<and> semop_fails s'" if st: "sysv_child_step e s = Stepped s'" for e
  proof (cases "locks e (base s)")
    case True
    with st fails show ?thesis using exit_child_left[OF locks_not_ended[OF True]] by (auto simp: sysv_child_step_def)
  next
    case False
    then obtain b where b: "sys_step e (base s) = Stepped b"
        "s' = (if unlocks e (base s) then exit_child e (s\<lparr>base := b\<rparr>) else s\<lparr>base := b\<rparr>)"
      using st fails by (cases "sys_step e (base s)") (auto simp: sysv_child_step_def)
    with work_left[OF b(1) False, of s] release_left[OF b(1), of s] base show ?thesis by auto
  qed
  have killed: "still_to_do (exit_child e (remove_objects s)) < still_to_do s" if "\<not> ended e (base s)" for e
    using exit_child_left[of e "remove_objects s"] that same by simp
  show "still_to_do s' < still_to_do s" "semop_fails s'"
    using assms(2) child parent killed remove_objects_simps(5)[OF fails]
    by (auto simp: sysv_sys_step_def sysv_signal_handler_def split: sysv_event.splits if_splits)
qed

interpretation stopping: step_measure sysv_sys_step doomed still_to_do
  by unfold_locales
     (use sysv_step_sound doomed_decreases in \<open>auto simp: doomed_def\<close>)

lemma unfinished_steps:
  assumes "doomed s" "\<not> ended e (base s)"
  shows "sysv_sys_step (Child e) s \<noteq> Blocked"
proof (cases "locks e (base s)")
  case True
  then show ?thesis using assms(1) by (simp add: sysv_sys_step_def sysv_child_step_def doomed_def)
next
  case False
  have "sys_step e (base s) \<noteq> Blocked"
    using False assms(2)
    by (cases e) (auto simp: locks_def p_locks_def c_locks_def ended_def p_ended_def sys_step_def producer_step_def
        consumer_step_def split: outcome.splits producer_pc.splits consumer_pc.splits)
  then show ?thesis using False by (simp add: sysv_sys_step_def sysv_child_step_def split: outcome.splits)
qed

lemma sound_start: "0 < sem \<Longrightarrow> sound (sysv_sys_start shm sem n)"
  using sys_inv_init[of n] stopped_refl[of "sys_init n"]
  by (auto simp: sound_def sysv_sys_start_def sysv_init_semaphore_def Let_def)

lemma same_children:
  assumes "sysv_sys_step ev s = Stepped s'"
  shows "length (cons (base s')) = length (cons (base s))"
proof -
  have "length (cons b') = length (cons b)" if "sys_step e b = Stepped b'" for e b b'
    using that by (auto simp: sys_step_def split: event.splits outcome.splits if_splits)
  moreover have "length (cons (base (exit_child e t))) = length (cons (base t))" for e t
    by (simp add: exit_child_def Let_def split: event.splits)
  ultimately show ?thesis
    using assms by (auto simp: sysv_sys_step_def sysv_child_step_def sysv_signal_handler_def split: sysv_event.splits if_splits outcome.splits)
qed

lemma same_children_run: "run_steps sysv_sys_step es s = Some s' \<Longrightarrow> length (cons (base s')) = length (cons (base s))"
  by (induction es arbitrary: s) (auto simp: same_children split: outcome.splits)

text \<open>
  C26. When the semaphore's identifier is not 0 (for 0 the handler does not remove it:
  \<open>identifier_zero_kept\<close>) and a process of the System V program is interrupted, whatever it holds, the others
  end: under every schedule no process follows a bad pointer, at most \<open>2 n + 3\<close> more steps are made with
  \<open>n\<close> consumers, no process that has not ended waits any more, and once they all have ended the parent can
  exit. The end of a process is its return, the exit after a failed semaphore call or, for the producer,
  the kernel's SIGSEGV when it writes behind the page (\<open>P_Crashed\<close>).
\<close>

theorem interrupted_run_ends:
  assumes "0 < sem" "run_steps sysv_sys_step es (sysv_sys_start shm sem n) = Some s"
    and "sysv_sys_step sig s = Stepped s1" "sig = Signal_Parent \<or> sig = Signal_Child e"
  shows "\<exists>s'. run_steps sysv_sys_step es' s1 = Some s' \<and> steps_made sysv_sys_step es' s1 \<le> 2 * n + 3 \<and>
    (\<forall>e. sysv_sys_step (Child e) s' = Blocked \<longrightarrow> ended e (base s')) \<and>
    (all_ended s' \<and> parent_waits s' \<longrightarrow> sysv_sys_step Parent_Done s' \<noteq> Blocked)"
proof -
  have s: "sound s" using signalled.run_goodD[OF sound_start[OF assms(1)] assms(2)] .
  moreover have "semop_fails s1"
    using assms(3,4) s remove_objects_simps(4)[of s]
    by (auto simp: sysv_sys_step_def sysv_signal_handler_def sound_def semop_fails_def split: if_splits)
  ultimately have s1: "doomed s1" using signalled.keeps[OF _ assms(3)] by (simp add: doomed_def)
  obtain s' where s': "run_steps sysv_sys_step es' s1 = Some s'" "doomed s'" using stopping.run_good[OF s1] by blast
  have "length (cons (base s1)) = n"
    using same_children[OF assms(3)] same_children_run[OF assms(2)] by (simp add: sysv_sys_start_def sys_init_def)
  then have "steps_made sysv_sys_step es' s1 \<le> 2 * n + 3"
    using stopping.schedule_bounded[OF s1, of es'] still_to_do_bound[of s1] by simp
  moreover have "all_ended s' \<and> parent_waits s' \<longrightarrow> sysv_sys_step Parent_Done s' \<noteq> Blocked" by (simp add: sysv_sys_step_def)
  ultimately show ?thesis using s' unfinished_steps[OF s'(2)] by blast
qed

lemma interrupted_run_ends_witness:
  "\<exists>s s1 s'. run_steps sysv_sys_step [Child (Cons 0)] (sysv_sys_start 1 1 2) = Some s \<and>
    sysv_sys_step (Signal_Child (Cons 0)) s = Stepped s1 \<and>
    run_steps sysv_sys_step [Child (Cons 1)] s1 = Some s' \<and> steps_made sysv_sys_step [Child (Cons 1)] s1 \<le> 7 \<and>
    (\<forall>e. sysv_sys_step (Child e) s' = Blocked \<longrightarrow> ended e (base s'))"
proof -
  obtain s where s: "run_steps sysv_sys_step [Child (Cons 0)] (sysv_sys_start 1 1 2) = Some s"
    using signalled.run_good[OF sound_start, of 1 "[Child (Cons 0)]" 1 2] by auto
  then have "\<not> ended (Cons 0) (base s)"
    by (auto simp: sysv_sys_step_def sysv_child_step_def sysv_sys_start_def sysv_init_semaphore_def sysv_init_shared_memory_def
        semop_fails_def sys_step_def sys_init_def consumer_step_def locking_def semaphore_lock_def shm_init_def
        ended_def numeral_2_eq_2 Let_def split: if_splits)
  then obtain s1 where "sysv_sys_step (Signal_Child (Cons 0)) s = Stepped s1" by (simp add: sysv_sys_step_def)
  with s interrupted_run_ends[OF _ s this, of "Cons 0" "[Child (Cons 1)]"] show ?thesis by auto
qed

text \<open>With the identifier 0 the handler removes nothing: the others go on waiting, as in module3/05.\<close>

lemma identifier_zero_kept:
  "semid (ids s) = 0 \<Longrightarrow> semop_fails (sysv_signal_handler s) = semop_fails s"
  by (simp add: sysv_signal_handler_def remove_objects_def semop_fails_def sysv_cleanup_all_def sysv_cleanup_semaphore_def
      sysv_cleanup_shared_memory_def sysv_detach_def Let_def)

end
