(* ===== verification/Raw_Echo.thy ===== *)
theory Raw_Echo
  imports C_Net
begin

text \<open>
  module3/cross1: an echo server and its client over raw UDP sockets, which build the IP and UDP
  headers themselves (server.c, client.c, checksum.c). A packet is the list of its bytes. Addresses
  and ports are kept as they lie in memory, that is in network order. \<open>None\<close> is undefined behaviour.
\<close>

unbundle bit_operations_syntax

section \<open>common.h, headers in memory\<close>

definition ECHO_BUFFER :: nat where "ECHO_BUFFER = 1024"
definition ECHO_PORT :: "16 word" where "ECHO_PORT = 51000"
definition ECHO_CLIENTS :: nat where "ECHO_CLIENTS = 100"

definition to_bytes :: "string \<Rightarrow> byte list" where
  "to_bytes s = map (\<lambda>c. word_of_nat (of_char c)) s"

definition to_string :: "byte list \<Rightarrow> string" where
  "to_string bs = map (\<lambda>b. char_of (unat b)) bs"

text \<open>A 16-bit store on a little-endian machine.\<close>

definition store16 :: "16 word \<Rightarrow> byte list" where
  "store16 w = [word_of_nat (unat w mod 256), word_of_nat (unat w div 256)]"

fun addr_bytes :: "ip4 \<Rightarrow> byte list" where
  "addr_bytes (a, b, c, d) = [a, b, c, d]"

record sockaddr =
  sin_addr :: ip4
  sin_port :: "16 word"

record client_info =
  ci_addr :: sockaddr
  counter :: int
  active :: bool

section \<open>checksum.c\<close>

definition add_carry :: "32 word \<Rightarrow> 16 word \<Rightarrow> 32 word" where
  "add_carry acc w =
     (let acc = acc + ucast w in if acc AND 0x10000 \<noteq> 0 then (acc + 1) AND 0xFFFF else acc)"

text \<open>The loops over 16-bit units; \<open>n\<close> units are read from the bytes.\<close>

fun add_words :: "nat \<Rightarrow> byte list \<Rightarrow> 32 word \<Rightarrow> 32 word option" where
  "add_words 0 bs acc = Some acc"
| "add_words (Suc n) (b0 # b1 # bs) acc = add_words n bs (add_carry acc (ntohs (load16 b0 b1)))"
| "add_words (Suc n) _ acc = None"

definition udp_checksum :: "ip4 \<Rightarrow> ip4 \<Rightarrow> byte list \<Rightarrow> byte list \<Rightarrow> nat \<Rightarrow> 16 word option" where
  "udp_checksum saddr daddr udp_header data data_len = do {
     let total_len = 8 + data_len;
     let pseudo = addr_bytes saddr @ addr_bytes daddr @ [0, IPPROTO_UDP] @ store16 (htons (word_of_nat total_len));
     sum1 \<leftarrow> add_words 6 pseudo 0;
     sum2 \<leftarrow> add_words 4 udp_header sum1;
     sum3 \<leftarrow> add_words (data_len div 2) data sum2;
     sum4 \<leftarrow> (if data_len mod 2 \<noteq> 0
              then (if Suc data_len \<le> length data
                    then Some (add_carry sum3 (ntohs (load16 (data ! (data_len - 1)) (data ! data_len) AND 0xFF00)))
                    else None)
              else Some sum3);
     Some (htons (ucast (NOT sum4)))
   }"

section \<open>server.c\<close>

definition same_addr :: "sockaddr \<Rightarrow> client_info \<Rightarrow> bool" where
  "same_addr addr c \<longleftrightarrow> active c \<and> sin_addr (ci_addr c) = sin_addr addr \<and> sin_port (ci_addr c) = sin_port addr"

definition find_client :: "sockaddr \<Rightarrow> client_info list \<Rightarrow> (nat \<times> client_info list) option" where
  "find_client addr clients =
     (case find_from (same_addr addr) clients 0 ECHO_CLIENTS of
        Some i \<Rightarrow> Some (i, clients)
      | None \<Rightarrow>
          (case find_from (\<lambda>c. \<not> active c) clients 0 ECHO_CLIENTS of
             Some i \<Rightarrow> Some (i, clients[i := \<lparr>ci_addr = addr, counter = 1, active = True\<rparr>])
           | None \<Rightarrow> None))"

definition remove_client_slot :: "sockaddr \<Rightarrow> client_info list \<Rightarrow> client_info list" where
  "remove_client_slot addr clients =
     (case find_from (same_addr addr) clients 0 ECHO_CLIENTS of
        Some i \<Rightarrow> clients[i := (clients ! i)\<lparr>active := False, counter := 0\<rparr>]
      | None \<Rightarrow> clients)"

text \<open>
  The IP header, 20 bytes: version and header length, type of service, total length, identification,
  fragment offset, time to live, protocol, header checksum, the addresses. The UDP header, 8 bytes:
  the ports, the length and the checksum.
\<close>

definition ip_header :: "16 word \<Rightarrow> ip4 \<Rightarrow> ip4 \<Rightarrow> nat \<Rightarrow> byte list" where
  "ip_header ipid saddr daddr data_len =
     [0x45, 0] @ store16 (htons (word_of_nat (20 + 8 + data_len))) @ store16 (htons ipid) @ [0, 0, 64, IPPROTO_UDP, 0, 0]
     @ addr_bytes saddr @ addr_bytes daddr"

definition udp_header :: "16 word \<Rightarrow> 16 word \<Rightarrow> nat \<Rightarrow> 16 word \<Rightarrow> byte list" where
  "udp_header source dest data_len check =
     store16 source @ store16 dest @ store16 (htons (word_of_nat (8 + data_len))) @ store16 check"

text \<open>\<open>data\<close> is the whole buffer the payload is taken from; \<open>ipid\<close> is \<open>rand() % 65535\<close>.\<close>

definition build_udp_packet :: "16 word \<Rightarrow> sockaddr \<Rightarrow> sockaddr \<Rightarrow> byte list \<Rightarrow> nat \<Rightarrow> byte list option" where
  "build_udp_packet ipid src dst data data_len = do {
     check \<leftarrow> udp_checksum (sin_addr src) (sin_addr dst) (udp_header (sin_port src) (sin_port dst) data_len 0) data data_len;
     Some (ip_header ipid (sin_addr src) (sin_addr dst) data_len
           @ udp_header (sin_port src) (sin_port dst) data_len check @ take data_len data)
   }"

text \<open>\<open>recvfrom\<close> into the zeroed buffer.\<close>

definition received :: "byte list \<Rightarrow> byte list" where
  "received pkt = take ECHO_BUFFER pkt @ replicate (ECHO_BUFFER - length pkt) 0"

definition ihl_bytes :: "byte list \<Rightarrow> nat" where
  "ihl_bytes buf = unat (buf ! 0 AND 0x0F) * 4"

definition INADDR_LOOPBACK :: ip4 where "INADDR_LOOPBACK = (127, 0, 0, 1)"

text \<open>
  One packet: what is sent back, and the client table. A text without its terminating NUL would be
  read past the buffer.
\<close>

definition server_packet :: "16 word \<Rightarrow> byte list \<Rightarrow> client_info list \<Rightarrow> ((byte list) option \<times> client_info list) option" where
  "server_packet ipid pkt clients =
     (let buffer = received pkt;
          bytes = length (take ECHO_BUFFER pkt);
          ip_len = ihl_bytes buffer;
          source = load16_at buffer ip_len;
          dest = load16_at buffer (ip_len + 2);
          data = to_string (drop (ip_len + 8) buffer);
          data_len = int bytes - int ip_len - 8
      in if ntohs source = ECHO_PORT then Some (None, clients)
         else if ntohs dest \<noteq> ECHO_PORT then Some (None, clients)
         else let client_sock = \<lparr>sin_addr = addr_at buffer 12, sin_port = source\<rparr> in
           if 5 \<le> data_len \<and> strncmp (cstr data) ''CLOSE'' 5 = 0
           then Some (None, remove_client_slot client_sock clients)
           else case find_client client_sock clients of
             None \<Rightarrow> Some (None, clients)
           | Some (i, clients1) \<Rightarrow>
               if NUL \<notin> set data then None
               else do {
                 let response = snprintf_into ECHO_BUFFER (cstr data @ '' '' @ show_int (counter (clients1 ! i)));
                 let clients2 = clients1[i := (clients1 ! i)\<lparr>counter := counter (clients1 ! i) + 1\<rparr>];
                 reply \<leftarrow> build_udp_packet ipid \<lparr>sin_addr = INADDR_LOOPBACK, sin_port = htons ECHO_PORT\<rparr> client_sock
                           (to_bytes (response @ [NUL])) (length response);
                 Some (Some reply, clients2)
               })"

definition echo_start :: "client_info list" where
  "echo_start = replicate ECHO_CLIENTS \<lparr>ci_addr = \<lparr>sin_addr = (0, 0, 0, 0), sin_port = 0\<rparr>, counter = 0, active = False\<rparr>"

section \<open>client.c\<close>

text \<open>
  The client sends each line typed that is not empty; its own address is \<open>INADDR_ANY\<close>. On SIGINT it
  sends \<open>CLOSE\<close>.
\<close>

definition client_send :: "16 word \<Rightarrow> sockaddr \<Rightarrow> 16 word \<Rightarrow> string \<Rightarrow> byte list option" where
  "client_send ipid server client_port line =
     (let buffer = chomp line in
      if length buffer = 0 then Some []
      else build_udp_packet ipid \<lparr>sin_addr = (0, 0, 0, 0), sin_port = htons client_port\<rparr> server
             (to_bytes (buffer @ [NUL])) (length buffer))"

definition client_close :: "16 word \<Rightarrow> sockaddr \<Rightarrow> 16 word \<Rightarrow> byte list option" where
  "client_close ipid server client_port =
     build_udp_packet ipid \<lparr>sin_addr = (0, 0, 0, 0), sin_port = htons client_port\<rparr> server (to_bytes (''CLOSE'' @ [NUL])) 5"

text \<open>
  What the client prints for a packet it receives. The text is terminated at its length, which is
  outside the buffer when the packet fills it.
\<close>

definition client_packet :: "sockaddr \<Rightarrow> 16 word \<Rightarrow> byte list \<Rightarrow> string option option" where
  "client_packet server client_port pkt =
     (let response = received pkt;
          bytes = length (take ECHO_BUFFER pkt);
          ip_len = ihl_bytes response;
          source = load16_at response ip_len;
          dest = load16_at response (ip_len + 2);
          data_len = int bytes - int ip_len - 8
      in if ntohs source = client_port then Some None
         else if ntohs source \<noteq> ECHO_PORT then Some None
         else if ntohs dest \<noteq> client_port then Some None
         else if addr_at response 12 \<noteq> sin_addr server then Some None
         else if 0 < data_len then
           (if ECHO_BUFFER \<le> bytes then None
            else Some (Some (''Server response: '' @ cstr (to_string (take (nat data_len) (drop (ip_len + 8) response))))))
         else Some None)"

text \<open>
  Sending through a raw socket with \<open>IP_HDRINCL\<close>: the kernel fills in the total length, and the source
  address when it is zero (raw(7)); the header checksum, which it fills in too and nobody here reads,
  is left as it is.
\<close>

definition raw_send :: "ip4 \<Rightarrow> byte list \<Rightarrow> byte list" where
  "raw_send local pkt =
     (let pkt = take 2 pkt @ store16 (htons (word_of_nat (length pkt))) @ drop 4 pkt
      in if addr_at pkt 12 = (0, 0, 0, 0) then take 12 pkt @ addr_bytes local @ drop 16 pkt else pkt)"

end
