(* ===== verification/Raw_Echo_Props.thy ===== *)
theory Raw_Echo_Props
  imports Raw_Echo
begin

text \<open>
  The checksums of the raw UDP echo: which of its packets carry the one RFC 768 asks for, and which a
  receiver accepts.
\<close>

unbundle bit_operations_syntax

section \<open>One's complement sums\<close>

text \<open>The reference: the sum of the 16-bit big-endian words, a last odd byte padded with zero (RFC 768).\<close>

fun word_sum :: "byte list \<Rightarrow> nat" where
  "word_sum (b0 # b1 # bs) = 256 * unat b0 + unat b1 + word_sum bs"
| "word_sum [b] = 256 * unat b"
| "word_sum [] = 0"

lemma word_sum_append: "even (length xs) \<Longrightarrow> word_sum (xs @ ys) = word_sum xs + word_sum ys"
  by (induction xs rule: word_sum.induct) auto

lemma carry_bit: "t < 131072 \<Longrightarrow> bit t 16 \<longleftrightarrow> 65536 \<le> (t :: nat)"
proof -
  assume "t < 131072"
  then have "t div 65536 = (if 65536 \<le> t then 1 else 0)" by (auto intro: div_nat_eqI)
  then show ?thesis by (simp add: bit_iff_odd)
qed

lemma unat_add_carry:
  assumes "unat acc < 65536"
  shows "unat (add_carry acc w) = (if 65536 \<le> unat acc + unat w then unat acc + unat w - 65535 else unat acc + unat w)"
proof -
  define t where "t = acc + ucast w"
  have "unat (ucast w :: 32 word) = unat w" by (simp add: unsigned_ucast_eq take_bit_nat_eq_self half_bound less_trans[OF half_bound])
  then have t: "unat t = unat acc + unat w" "unat t < 131071"
    using assms half_bound[of w] by (auto simp: t_def unat_word_ariths)
  have "(t AND 0x10000 \<noteq> 0) = bit t 16"
    by (simp add: bit_iff_and_push_bit_not_eq_0)
  also have "\<dots> = (65536 \<le> unat t)" using carry_bit[of "unat t"] t(2) by (simp add: bit_unsigned_iff[symmetric] bit_unsigned_iff)
  finally have carry: "(t AND 0x10000 \<noteq> 0) = (65536 \<le> unat t)" .
  have "(t + 1) AND 0xFFFF = take_bit 16 (t + 1)" by (simp add: take_bit_eq_mask mask_eq_exp_minus_1)
  moreover have "unat (take_bit 16 (t + 1)) = take_bit 16 (unat (t + 1))" by (rule unsigned_take_bit_eq)
  moreover have "unat (t + 1) = unat t + 1" using t(2) by (simp add: unat_word_ariths)
  ultimately have "unat ((t + 1) AND 0xFFFF) = (unat t + 1) mod 65536"
    unfolding take_bit_eq_mod by simp
  moreover have "(unat t + 1) mod 65536 = unat t - 65535" if "65536 \<le> unat t"
    using that t(2) by (simp add: mod_if)
  ultimately show ?thesis using carry t(1) by (auto simp: add_carry_def Let_def t_def[symmetric])
qed

lemma add_carry_mod:
  assumes "unat acc < 65536"
  shows "unat (add_carry acc w) < 65536" "unat (add_carry acc w) mod 65535 = (unat acc + unat w) mod 65535"
proof -
  show "unat (add_carry acc w) < 65536" 
    using assms half_bound[of w] unfolding unat_add_carry[OF assms] by (simp split: if_split) linarith
  show "unat (add_carry acc w) mod 65535 = (unat acc + unat w) mod 65535"
    using assms by (auto simp: unat_add_carry le_mod_geq)
qed

lemma add_words_sum:
  "2 * n \<le> length bs \<Longrightarrow> unat acc < 65536 \<Longrightarrow>
   \<exists>acc'. add_words n bs acc = Some acc' \<and> unat acc' < 65536 \<and>
     unat acc' mod 65535 = (unat acc + word_sum (take (2 * n) bs)) mod 65535"
proof (induction n arbitrary: bs acc)
  case (Suc n)
  obtain b0 b1 bs' where bs: "bs = b0 # b1 # bs'" using Suc.prems(1) by (cases bs; cases "tl bs") auto
  let ?acc = "add_carry acc (ntohs (load16 b0 b1))"
  note c = add_carry_mod[OF Suc.prems(2), of "ntohs (load16 b0 b1)"]
  obtain acc' where acc': "add_words n bs' ?acc = Some acc'" "unat acc' < 65536"
    "unat acc' mod 65535 = (unat ?acc + word_sum (take (2 * n) bs')) mod 65535"
    using Suc.IH[of bs' ?acc] Suc.prems(1) bs c(1) by auto
  have "(unat ?acc + word_sum (take (2 * n) bs')) mod 65535 =
      (unat acc + unat (ntohs (load16 b0 b1)) + word_sum (take (2 * n) bs')) mod 65535"
    using c(2) by (rule mod_add_cong) simp
  then show ?case using acc' bs by (simp add: unat_ntohs_load16 add.assoc)
qed simp

text \<open>The bytes a store leaves, read back in network order.\<close>

lemma unat_byte: "unat (word_of_nat n :: byte) = n mod 256"
  by (simp add: unat_of_nat take_bit_eq_mod)

lemma word_sum_store16: "word_sum (store16 (htons w)) = unat w"
proof -
  have "unat w div 256 < 256" using half_bound[of w] by (simp add: less_mult_imp_div_less)
  then show ?thesis by (simp add: store16_def htons_def unat_swap16 unat_byte)
qed

lemma length_store16 [simp]: "length (store16 w) = 2" by (simp add: store16_def)
lemma length_addr_bytes [simp]: "length (addr_bytes a) = 4" by (cases a) simp

lemma word_sum_store16_0: "word_sum (store16 0) = 0"
  by (simp add: store16_def)

section \<open>The checksum\<close>

text \<open>
  What a receiver sums (RFC 768): the addresses, the protocol and the UDP length as they are in the
  packet, then the UDP header with its checksum and the data.
\<close>

definition wire_sum :: "byte list \<Rightarrow> nat" where
  "wire_sum pkt = word_sum (take 8 (drop 12 pkt) @ [0, pkt ! 9] @ take 2 (drop 24 pkt)) + word_sum (drop 20 pkt)"

text \<open>
  The field RFC 768 asks for: the complement of the one's complement sum taken with the field as zero, where a
  computed zero is sent as all ones; a field of zero means that the sender made no checksum. So a receiver
  accepts a packet whose field is zero, or whose sum is all ones, that is (not being 0) a multiple of 65535.
\<close>

definition ones_sum :: "nat \<Rightarrow> nat" where
  "ones_sum t = (if t = 0 then 0 else Suc ((t - 1) mod 65535))"

definition checksum_field :: "byte list \<Rightarrow> nat" where
  "checksum_field pkt = 256 * unat (pkt ! 26) + unat (pkt ! 27)"

definition rfc768_field :: "byte list \<Rightarrow> nat" where
  "rfc768_field pkt =
     (let c = 65535 - ones_sum (wire_sum (pkt[26 := 0, 27 := 0])) in if c = 0 then 65535 else c)"

definition receiver_accepts :: "byte list \<Rightarrow> bool" where
  "receiver_accepts pkt \<longleftrightarrow> checksum_field pkt = 0 \<or> ones_sum (wire_sum pkt) = 65535"

text \<open>The sum the code should compute, with the checksum field 0.\<close>

definition udp_sum :: "ip4 \<Rightarrow> ip4 \<Rightarrow> 16 word \<Rightarrow> 16 word \<Rightarrow> byte list \<Rightarrow> nat" where
  "udp_sum saddr daddr source dest data =
     word_sum (addr_bytes saddr) + word_sum (addr_bytes daddr) + 17 + 2 * unat (word_of_nat (8 + length data) :: 16 word)
     + word_sum (store16 source) + word_sum (store16 dest) + word_sum data"

lemma pseudo_sum:
  "word_sum (addr_bytes saddr @ addr_bytes daddr @ [0, IPPROTO_UDP] @ store16 (htons w)) =
   word_sum (addr_bytes saddr) + word_sum (addr_bytes daddr) + 17 + unat w"
  by (simp add: word_sum_append word_sum_store16 IPPROTO_UDP_def)

lemma header_sum:
  "word_sum (udp_header source dest n 0) = word_sum (store16 source) + word_sum (store16 dest) + unat (word_of_nat (8 + n) :: 16 word)"
  by (simp add: udp_header_def word_sum_append word_sum_store16 word_sum_store16_0)

lemma header_sum_check:
  "word_sum (udp_header source dest n (htons check)) = word_sum (udp_header source dest n 0) + unat check"
  by (simp add: udp_header_def word_sum_append word_sum_store16 word_sum_store16_0)

lemma length_headers [simp]: "length (udp_header p q n c) = 8" "length (ip_header i a b n) = 20"
  by (simp_all add: udp_header_def ip_header_def)

lemma wire_sum_packet:
  assumes "pkt = ip_header ipid saddr daddr n @ udp_header source dest n (htons check) @ data" "length data = n"
  shows "wire_sum pkt = udp_sum saddr daddr source dest data + unat check"
proof -
  have hdr: "ip_header ipid saddr daddr n =
      ([0x45, 0] @ store16 (htons (word_of_nat (20 + 8 + n))) @ store16 (htons ipid) @ [0, 0, 64, IPPROTO_UDP, 0, 0])
        @ addr_bytes saddr @ addr_bytes daddr"
    by (simp add: ip_header_def)
  have "take 8 (drop 12 pkt) = addr_bytes saddr @ addr_bytes daddr" "pkt ! 9 = IPPROTO_UDP"
    unfolding assms(1) hdr by (simp_all add: store16_def)
  moreover have "take 2 (drop 24 pkt) = store16 (htons (word_of_nat (8 + n)))"
    unfolding assms(1) udp_header_def by (simp add: drop_Cons' ip_header_def store16_def)
  moreover have "drop 20 pkt = udp_header source dest n (htons check) @ data" unfolding assms(1) by simp
  ultimately show ?thesis
    using assms(2) pseudo_sum header_sum
    by (simp add: wire_sum_def udp_sum_def word_sum_append header_sum_check)
qed

lemma whole_words:
  "word_sum data = word_sum (take (2 * (length data div 2)) data) + (if even (length data) then 0 else 256 * unat (last data))"
proof (cases "even (length data)")
  case False
  then have n: "2 * (length data div 2) = length data - 1" "data \<noteq> []" by (auto elim: oddE)
  have "data = butlast data @ [last data]" using n(2) by simp
  moreover have "take (2 * (length data div 2)) data = butlast data" using n by (simp add: butlast_conv_take)
  moreover have "word_sum (butlast data @ [last data]) = word_sum (butlast data) + 256 * unat (last data)"
    using False by (subst word_sum_append) simp_all
  ultimately show ?thesis using False by simp
qed simp

text \<open>The last odd byte is masked away: what is added is the byte after it, the terminating NUL.\<close>

lemma masked_last: "ntohs (load16 b 0 AND 0xFF00) = 0"
proof -
  have "load16 b 0 = (ucast b :: 16 word)" by (simp add: load16_def)
  moreover have "(0xFF00 :: 16 word) = push_bit 8 (mask 8)" by (simp add: mask_eq_exp_minus_1 push_bit_eq_mult)
  moreover have "(ucast b :: 16 word) AND push_bit 8 (mask 8) = 0" by (rule bit_word_eqI) (auto simp: bit_simps dest: bit_imp_le_length)
  ultimately have "load16 b 0 AND 0xFF00 = 0" by simp
  then show ?thesis by (simp add: ntohs_def swap16_def)
qed

lemma add_carry_0: "unat acc < 65536 \<Longrightarrow> add_carry acc 0 = acc"
  using unat_add_carry[of acc 0] by (simp add: word_unat_eq_iff)

lemma unat_complement16:
  assumes "unat (x :: 32 word) < 65536"
  shows "unat (ucast (NOT x) :: 16 word) = 65535 - unat x"
proof -
  have "NOT x = -1 - x" by (simp add: not_eq_complement)
  then have "unat (NOT x) = 4294967295 - unat x" using unat_sub[OF word_n1_ge[of x]]
    by (simp add: unsigned_minus_1_eq_mask mask_eq_exp_minus_1)
  then have "unat (ucast (NOT x) :: 16 word) = (4294967295 - unat x) mod 65536"
    by (simp add: unsigned_ucast_eq take_bit_eq_mod)
  moreover have "4294967295 - unat x = 65535 - unat x + 65535 * 65536" using assms by linarith
  moreover have "(65535 - unat x + 65535 * 65536) mod 65536 = (65535 - unat x) mod 65536" by (rule mod_mult_self1)
  moreover have "(65535 - unat x) mod 65536 = 65535 - unat x" by (rule mod_less) linarith
  ultimately show ?thesis by metis
qed

text \<open>What \<open>udp_checksum\<close> computes: the sum of all whole words, complemented; the last odd byte is left out.\<close>

lemma udp_checksum_value:
  "\<exists>check. udp_checksum saddr daddr (udp_header source dest (length data) 0) (data @ [0]) (length data) = Some (htons check) \<and>
    (udp_sum saddr daddr source dest data + unat check) mod 65535 =
    (if even (length data) then 0 else 256 * unat (last data)) mod 65535"
proof -
  let ?n = "length data" and ?h = "udp_header source dest (length data) 0"
  let ?pseudo = "addr_bytes saddr @ addr_bytes daddr @ [0, IPPROTO_UDP] @ store16 (htons (word_of_nat (8 + ?n)))"
  let ?whole = "take (2 * (?n div 2)) data"
  obtain s1 where 1: "add_words 6 ?pseudo 0 = Some s1" "unat s1 < 65536" "unat s1 mod 65535 = word_sum ?pseudo mod 65535"
    using add_words_sum[of 6 ?pseudo 0] by auto
  obtain s2 where 2: "add_words 4 ?h s1 = Some s2" "unat s2 < 65536" "unat s2 mod 65535 = (unat s1 + word_sum ?h) mod 65535"
    using add_words_sum[of 4 ?h s1] 1(2) by auto
  have "2 * (?n div 2) \<le> length (data @ [0])" by (simp add: le_SucI)
  moreover have "take (2 * (?n div 2)) (data @ [0]) = ?whole" by simp
  ultimately obtain s3 where 3: "add_words (?n div 2) (data @ [0]) s2 = Some s3" "unat s3 < 65536"
    "unat s3 mod 65535 = (unat s2 + word_sum ?whole) mod 65535"
    using add_words_sum[of "?n div 2" "data @ [0]" s2] 2(2) by metis
  let ?all = "word_sum ?pseudo + word_sum ?h + word_sum ?whole" and ?check = "ucast (NOT s3) :: 16 word"
  have s3: "unat s3 mod 65535 = ?all mod 65535"
    using 1(3) 2(3) 3(3) by (metis mod_add_left_eq)
  have "(data @ [0]) ! (?n - 1) = last data" "(data @ [0]) ! ?n = 0" if "odd ?n"
  proof -
    have "data \<noteq> []" using that by auto
    then show "(data @ [0]) ! (?n - 1) = last data" "(data @ [0]) ! ?n = 0" by (simp_all add: nth_append last_conv_nth)
  qed
  then have last: "add_carry s3 (ntohs (load16 ((data @ [0]) ! (?n - 1)) ((data @ [0]) ! ?n) AND 0xFF00)) = s3" if "odd ?n"
    using that masked_last add_carry_0[OF 3(2)] by simp
  have "udp_checksum saddr daddr ?h (data @ [0]) ?n = Some (htons ?check)"
    using 1(1) 2(1) 3(1) last by (simp add: udp_checksum_def odd_iff_mod_2_eq_one)
  moreover have "udp_sum saddr daddr source dest data = ?all + (if even ?n then 0 else 256 * unat (last data))"
    using whole_words[of data] unfolding udp_sum_def pseudo_sum header_sum by simp
  moreover have "(?all + x + unat ?check) mod 65535 = x mod 65535" for x
  proof -
    have "(?all + x + unat ?check) mod 65535 = (unat s3 + (x + unat ?check)) mod 65535"
      using mod_add_cong[OF s3 refl, of "x + unat ?check"] by (simp add: add_ac)
    also have "unat s3 + (x + unat ?check) = x + 65535" using unat_complement16[OF 3(2)] 3(2) by simp
    finally show ?thesis by simp
  qed
  ultimately show ?thesis by (intro exI[of _ ?check]) simp
qed

lemma unat_to_byte: "unat (word_of_nat (of_char c) :: byte) = of_char c"
  using of_char_mod_256[of c, where 'a = nat] by (simp add: unat_byte)

lemma last_to_bytes: "s \<noteq> [] \<Longrightarrow> NUL \<notin> set s \<Longrightarrow> 0 < unat (last (to_bytes s)) \<and> unat (last (to_bytes s)) < 256"
proof -
  assume s: "s \<noteq> []" "NUL \<notin> set s"
  then have "last (to_bytes s) = word_of_nat (of_char (last s))" by (simp add: to_bytes_def last_map)
  moreover have "last s \<noteq> NUL" using s last_in_set by metis
  moreover have "of_char NUL = (0 :: nat)" by (simp add: NUL_def)
  ultimately have "of_char (last s) \<noteq> (0 :: nat)" "last (to_bytes s) = word_of_nat (of_char (last s))"
    using of_char_eq_iff[of "last s" NUL, where 'a = nat] by simp_all
  then show ?thesis using unat_to_byte[of "last s"] byte_bound[of "last (to_bytes s)"] by simp
qed

lemma length_to_bytes [simp]: "length (to_bytes s) = length s"
  by (simp add: to_bytes_def)

lemma to_bytes_append: "to_bytes (s @ [NUL]) = to_bytes s @ [0]"
  by (simp add: to_bytes_def NUL_def)

text \<open>Packets as the programs build them from a text.\<close>

lemma packet_built:
  "\<exists>check. build_udp_packet ipid src dst (to_bytes (s @ [NUL])) (length s) =
      Some (ip_header ipid (sin_addr src) (sin_addr dst) (length s)
        @ udp_header (sin_port src) (sin_port dst) (length s) (htons check) @ to_bytes s) \<and>
    (udp_sum (sin_addr src) (sin_addr dst) (sin_port src) (sin_port dst) (to_bytes s) + unat check) mod 65535 =
    (if even (length s) then 0 else 256 * unat (last (to_bytes s))) mod 65535"
  using udp_checksum_value[of "sin_addr src" "sin_addr dst" "sin_port src" "sin_port dst" "to_bytes s"]
  by (auto simp: build_udp_packet_def to_bytes_append)

lemma ones_sum_mod: "ones_sum t mod 65535 = t mod 65535" "ones_sum t \<le> 65535" "ones_sum t = 0 \<longleftrightarrow> t = 0"
proof -
  show "ones_sum t mod 65535 = t mod 65535" by (cases t) (simp_all add: ones_sum_def mod_Suc_eq)
  have "(t - 1) mod 65535 < 65535" by simp
  then show "ones_sum t \<le> 65535" by (simp add: ones_sum_def Suc_le_eq del: mod_less_divisor)
qed (simp add: ones_sum_def)

lemma ones_sum_all: "ones_sum t = 65535 \<longleftrightarrow> t mod 65535 = 0 \<and> t \<noteq> 0"
proof -
  have "ones_sum t mod 65535 = 0 \<and> ones_sum t \<noteq> 0 \<longleftrightarrow> ones_sum t = 65535"
    using ones_sum_mod(2)[of t] by (cases "ones_sum t = 65535") (auto simp: le_less)
  then show ?thesis by (simp add: ones_sum_mod)
qed

lemma complement_of_sum:
  assumes "c \<le> 65535" "c \<noteq> 0"
  shows "c = (let d = 65535 - ones_sum t in if d = 0 then 65535 else d) \<longleftrightarrow> (t + c) mod 65535 = 0"
proof -
  let ?s = "ones_sum t"
  have "(t + c) mod 65535 = (?s + c) mod 65535" using ones_sum_mod(1)[of t] by (metis mod_add_left_eq)
  also have "\<dots> = 0 \<longleftrightarrow> ?s + c = 65535 \<or> ?s + c = 131070"
  proof -
    have "?s + c \<le> 131070" "0 < ?s + c" using ones_sum_mod(2)[of t] assms by linarith+
    then show ?thesis by (cases "?s + c < 65535"; cases "?s + c < 131070") (auto simp: le_mod_geq)
  qed
  also have "\<dots> \<longleftrightarrow> c = (let d = 65535 - ?s in if d = 0 then 65535 else d)"
    using ones_sum_mod(2)[of t] assms by (auto simp: Let_def)
  finally show ?thesis by simp
qed

lemma packet_field:
  assumes "pkt = ip_header ipid saddr daddr n @ udp_header source dest n (htons check) @ data"
  shows "checksum_field pkt = unat check"
    "pkt[26 := 0, 27 := 0] = ip_header ipid saddr daddr n @ udp_header source dest n (htons 0) @ data"
proof -
  obtain b0 b1 where b: "store16 (htons check) = [b0, b1]" by (simp add: store16_def)
  then have "unat check = 256 * unat b0 + unat b1" using word_sum_store16[of check] by simp
  then show "checksum_field pkt = unat check"
    by (simp add: assms checksum_field_def udp_header_def nth_append b)
  have "store16 (htons 0) = [0, 0]" by (simp add: store16_def htons_def swap16_def)
  then show "pkt[26 := 0, 27 := 0] = ip_header ipid saddr daddr n @ udp_header source dest n (htons 0) @ data"
    by (simp add: assms udp_header_def list_update_append b)
qed

text \<open>
  C29. The checksum of a packet the server or the client builds from a text is the one RFC 768 asks for
  exactly when the text has an even number of bytes and the field is not zero. The two ways to miss it:
  the last byte of a text of odd length is left out of the sum, and a computed zero is sent as it is,
  which says that there is no checksum. So a receiver rejects the packet exactly when the text has an odd
  number of bytes and the field happens not to be zero.
\<close>

theorem checksum_matches_rfc768:
  assumes "NUL \<notin> set s"
  shows "\<exists>pkt. build_udp_packet ipid src dst (to_bytes (s @ [NUL])) (length s) = Some pkt \<and>
    (checksum_field pkt = rfc768_field pkt \<longleftrightarrow> even (length s) \<and> checksum_field pkt \<noteq> 0) \<and>
    (receiver_accepts pkt \<longleftrightarrow> even (length s) \<or> checksum_field pkt = 0)"
proof -
  let ?t = "udp_sum (sin_addr src) (sin_addr dst) (sin_port src) (sin_port dst) (to_bytes s)"
  obtain check where c: "build_udp_packet ipid src dst (to_bytes (s @ [NUL])) (length s) =
      Some (ip_header ipid (sin_addr src) (sin_addr dst) (length s)
        @ udp_header (sin_port src) (sin_port dst) (length s) (htons check) @ to_bytes s)"
    "(?t + unat check) mod 65535 = (if even (length s) then 0 else 256 * unat (last (to_bytes s))) mod 65535"
    using packet_built by blast
  define pkt where "pkt = ip_header ipid (sin_addr src) (sin_addr dst) (length s)
        @ udp_header (sin_port src) (sin_port dst) (length s) (htons check) @ to_bytes s"
  note field = packet_field[OF pkt_def]
  have sums: "wire_sum pkt = ?t + unat check" "wire_sum (pkt[26 := 0, 27 := 0]) = ?t"
    using wire_sum_packet[OF pkt_def] wire_sum_packet[OF refl, where check = 0 and data = "to_bytes s" and n = "length s"]
    by (simp_all add: field(2))
  have "256 * unat (last (to_bytes s)) mod 65535 \<noteq> 0" if "odd (length s)"
  proof -
    have "s \<noteq> []" using that by auto
    then have "0 < 256 * unat (last (to_bytes s))" "256 * unat (last (to_bytes s)) < 65535" using last_to_bytes[OF _ assms] by auto
    then show ?thesis by simp
  qed
  then have even: "(?t + unat check) mod 65535 = 0 \<longleftrightarrow> even (length s)" using c(2) by auto
  have "unat check \<le> 65535" using half_bound[of check] by simp
  then have "unat check \<noteq> 0 \<Longrightarrow> unat check = rfc768_field pkt \<longleftrightarrow> even (length s)" "rfc768_field pkt \<noteq> 0"
    using complement_of_sum[of "unat check" ?t] even by (auto simp: rfc768_field_def sums(2) Let_def)
  moreover have "receiver_accepts pkt \<longleftrightarrow> even (length s) \<or> checksum_field pkt = 0"
    using even by (auto simp: receiver_accepts_def ones_sum_all sums(1) field(1))
  ultimately show ?thesis using c(1) by (intro exI[of _ pkt]) (auto simp: pkt_def[symmetric] field(1))
qed

lemma checksum_matches_rfc768_witness:
  "\<exists>pkt. build_udp_packet 7 \<lparr>sin_addr = (127, 0, 0, 1), sin_port = 5\<rparr> \<lparr>sin_addr = (127, 0, 0, 1), sin_port = 6\<rparr>
     (to_bytes (''abcd'' @ [NUL])) (length ''abcd'') = Some pkt \<and> receiver_accepts pkt"
  using checksum_matches_rfc768[of "''abcd''" 7 "\<lparr>sin_addr = (127, 0, 0, 1), sin_port = 5\<rparr>"
    "\<lparr>sin_addr = (127, 0, 0, 1), sin_port = 6\<rparr>"] by (auto simp: NUL_def)

end
