(* ===== verification/Raw_Echo_Table.thy ===== *)
theory Raw_Echo_Table
  imports Raw_Echo_Props
begin

text \<open>
  The server's client table stands for a map from client addresses to the number of their next
  message; each operation of the table implements the operation of the map.
\<close>

section \<open>The table and the map\<close>

definition client_at :: "client_info list \<Rightarrow> sockaddr \<Rightarrow> int \<Rightarrow> nat \<Rightarrow> bool" where
  "client_at cs a n i \<longleftrightarrow> i < length cs \<and> active (cs ! i) \<and> ci_addr (cs ! i) = a \<and> counter (cs ! i) = n"

definition table_for :: "client_info list \<Rightarrow> (sockaddr \<rightharpoonup> int) \<Rightarrow> bool" where
  "table_for cs m \<longleftrightarrow> length cs = ECHO_CLIENTS \<and>
     (\<forall>a n k i j. client_at cs a n i \<and> client_at cs a k j \<longrightarrow> i = j) \<and>
     (\<forall>a n. m a = Some n \<longleftrightarrow> (\<exists>i. client_at cs a n i))"

lemma same_addr_iff: "same_addr a c \<longleftrightarrow> active c \<and> ci_addr c = a"
  by (auto simp: same_addr_def)

lemma table_for_start: "table_for echo_start Map.empty"
  by (auto simp: table_for_def echo_start_def client_at_def)

lemma table_forD:
  assumes "table_for cs m"
  shows "length cs = ECHO_CLIENTS" "client_at cs a n i \<Longrightarrow> m a = Some n"
    "m a = Some n \<Longrightarrow> \<exists>i. client_at cs a n i"
    "client_at cs a n i \<Longrightarrow> client_at cs a k j \<Longrightarrow> i = j"
  using assms by (auto simp: table_for_def)

lemma table_forI:
  assumes "length cs = ECHO_CLIENTS" "\<And>a n k i j. client_at cs a n i \<Longrightarrow> client_at cs a k j \<Longrightarrow> i = j"
    and "\<And>a n. m a = Some n \<longleftrightarrow> (\<exists>i. client_at cs a n i)"
  shows "table_for cs m"
  using assms unfolding table_for_def by blast

lemma find_slot:
  assumes "table_for cs m"
  shows "(\<exists>i n. find_from (same_addr a) cs 0 ECHO_CLIENTS = Some i \<and> m a = Some n \<and> client_at cs a n i) \<or>
    (find_from (same_addr a) cs 0 ECHO_CLIENTS = None \<and> m a = None)"
proof (cases "find_from (same_addr a) cs 0 ECHO_CLIENTS")
  case None
  then have "\<not> client_at cs a n i" for n i
    using table_forD(1)[OF assms] by (auto simp: find_from_None_iff same_addr_iff client_at_def)
  then show ?thesis using None assms by (cases "m a") (auto simp: table_for_def)
next
  case (Some i)
  then have "client_at cs a (counter (cs ! i)) i"
    using table_forD(1)[OF assms] by (auto simp: find_from_Some_iff same_addr_iff client_at_def)
  then show ?thesis using Some table_forD(2)[OF assms] by blast
qed

lemma free_slot:
  assumes "table_for cs m" "card (dom m) < ECHO_CLIENTS"
  shows "\<exists>i. find_from (\<lambda>c. \<not> active c) cs 0 ECHO_CLIENTS = Some i \<and> i < length cs \<and> \<not> active (cs ! i)"
proof -
  note len = table_forD(1)[OF assms(1)]
  have "\<exists>i < length cs. \<not> active (cs ! i)"
  proof (rule ccontr)
    assume "\<not> (\<exists>i < length cs. \<not> active (cs ! i))"
    then have all: "client_at cs (ci_addr (cs ! i)) (counter (cs ! i)) i" if "i < length cs" for i
      using that by (simp add: client_at_def)
    have "inj_on (\<lambda>i. ci_addr (cs ! i)) {..<length cs}"
      using table_forD(4)[OF assms(1)] all by (intro inj_onI) (metis lessThan_iff)
    moreover have "dom m = (\<lambda>i. ci_addr (cs ! i)) ` {..<length cs}"
      using table_forD(2,3)[OF assms(1)] all by (auto simp: client_at_def image_iff) blast
    ultimately have "card (dom m) = length cs" by (simp add: card_image)
    then show False using assms(2) len by simp
  qed
  then obtain i where "find_from (\<lambda>c. \<not> active c) cs 0 ECHO_CLIENTS = Some i"
    using find_from_None_iff[of "\<lambda>c. \<not> active c" cs 0 ECHO_CLIENTS] len
    by (cases "find_from (\<lambda>c. \<not> active c) cs 0 ECHO_CLIENTS") auto
  then show ?thesis using len by (auto simp: find_from_Some_iff)
qed

lemma no_slot:
  assumes "table_for cs m" "ECHO_CLIENTS \<le> card (dom m)"
  shows "find_from (\<lambda>c. \<not> active c) cs 0 ECHO_CLIENTS = None"
proof -
  note len = table_forD(1)[OF assms(1)]
  have "active (cs ! i)" if i: "i < length cs" for i
  proof (rule ccontr)
    assume inactive: "\<not> active (cs ! i)"
    have "dom m \<subseteq> (\<lambda>j. ci_addr (cs ! j)) ` ({..<length cs} - {i})"
    proof
      fix a assume "a \<in> dom m"
      then obtain n j where "client_at cs a n j" using table_forD(3)[OF assms(1)] by blast
      then show "a \<in> (\<lambda>j. ci_addr (cs ! j)) ` ({..<length cs} - {i})" using inactive by (auto simp: client_at_def)
    qed
    then have "card (dom m) \<le> card ({..<length cs} - {i})"
      using surj_card_le[of "{..<length cs} - {i}" "dom m" "\<lambda>j. ci_addr (cs ! j)"] by blast
    also have "\<dots> < length cs" using i by simp
    finally show False using assms(2) len by simp
  qed
  then show ?thesis using len by (simp add: find_from_None_iff)
qed

lemma table_for_set:
  assumes "table_for cs m" "i < length cs" "active c" "ci_addr c = a"
    and "\<not> active (cs ! i) \<and> m a = None \<or> active (cs ! i) \<and> ci_addr (cs ! i) = a"
  shows "table_for (cs[i := c]) (m(a \<mapsto> counter c))"
proof -
  have other: "j = i" if "j < length cs" "active (cs ! j)" "ci_addr (cs ! j) = a" for j
  proof -
    have "client_at cs a (counter (cs ! j)) j" using that by (simp add: client_at_def)
    then have "m a \<noteq> None" using table_forD(2)[OF assms(1)] by fastforce
    then have "client_at cs a (counter (cs ! i)) i" using assms(2,5) by (auto simp: client_at_def)
    then show ?thesis using table_forD(4)[OF assms(1)] \<open>client_at cs a (counter (cs ! j)) j\<close> by blast
  qed
  have at: "client_at (cs[i := c]) b n j \<longleftrightarrow> (if j = i then b = a \<and> n = counter c else client_at cs b n j)" for b n j
    using assms(2-4) by (auto simp: client_at_def nth_list_update)
  have "(m(a \<mapsto> counter c)) b = Some n \<longleftrightarrow> (\<exists>j. client_at (cs[i := c]) b n j)" for b n
  proof (cases "b = a")
    case True
    then show ?thesis using at other by (auto simp: client_at_def)
  next
    case False
    have "client_at cs b n j \<Longrightarrow> j \<noteq> i" for j
      using False assms(5) by (auto simp: client_at_def)
    then show ?thesis using False at assms(1) by (auto simp: table_for_def) 
  qed
  moreover have "j = k" if "client_at (cs[i := c]) b n j" "client_at (cs[i := c]) b n' k" for b n n' j k
  proof (cases "b = a")
    case True
    then have "j = i" "k = i" using that at other by (auto simp: client_at_def split: if_splits)
    then show ?thesis by simp
  next
    case False
    then have "client_at cs b n j" "client_at cs b n' k" using that at by (auto split: if_splits)
    then show ?thesis using table_forD(4)[OF assms(1)] by blast
  qed
  ultimately show ?thesis using table_forD(1)[OF assms(1)] by (intro table_forI) simp_all
qed

lemma table_for_clear:
  assumes "table_for cs m" "client_at cs a n i" "\<not> active c"
  shows "table_for (cs[i := c]) (m(a := None))"
proof -
  have i: "i < length cs" "active (cs ! i)" "ci_addr (cs ! i) = a" using assms(2) by (auto simp: client_at_def)
  have at: "client_at (cs[i := c]) b k j \<longleftrightarrow> j \<noteq> i \<and> client_at cs b k j" for b k j
    using i(1) assms(3) by (auto simp: client_at_def nth_list_update)
  have "(m(a := None)) b = Some k \<longleftrightarrow> (\<exists>j. client_at (cs[i := c]) b k j)" for b k
  proof (cases "b = a")
    case True
    then show ?thesis using at table_forD(4)[OF assms(1)] assms(2) by auto
  next
    case False
    then have "client_at cs b k j \<Longrightarrow> j \<noteq> i" for j using i by (auto simp: client_at_def)
    then show ?thesis using False at assms(1) by (auto simp: table_for_def)
  qed
  moreover have "j = k" if "client_at (cs[i := c]) b n j" "client_at (cs[i := c]) b n' k" for b n n' j k
  proof -
    have "client_at cs b n j" "client_at cs b n' k" using that unfolding at by simp_all
    then show ?thesis by (rule table_forD(4)[OF assms(1)])
  qed
  ultimately show ?thesis using table_forD(1)[OF assms(1)] by (intro table_forI) simp_all
qed

definition next_number :: "(sockaddr \<rightharpoonup> int) \<Rightarrow> sockaddr \<Rightarrow> int" where
  "next_number m a = (case m a of None \<Rightarrow> 1 | Some n \<Rightarrow> n)"

text \<open>Finding the client and counting its message.\<close>

lemma find_client_ok:
  assumes "table_for cs m" "m a \<noteq> None \<or> card (dom m) < ECHO_CLIENTS"
  shows "\<exists>i cs1. find_client a cs = Some (i, cs1) \<and> counter (cs1 ! i) = next_number m a \<and>
    table_for (cs1[i := (cs1 ! i)\<lparr>counter := next_number m a + 1\<rparr>]) (m(a \<mapsto> next_number m a + 1))"
proof -
  from find_slot[OF assms(1), of a] show ?thesis
  proof
    assume "\<exists>i n. find_from (same_addr a) cs 0 ECHO_CLIENTS = Some i \<and> m a = Some n \<and> client_at cs a n i"
    then obtain i n where i: "find_from (same_addr a) cs 0 ECHO_CLIENTS = Some i" "m a = Some n" "client_at cs a n i" by blast
    then have "table_for (cs[i := (cs ! i)\<lparr>counter := n + 1\<rparr>]) (m(a \<mapsto> n + 1))"
      using table_for_set[OF assms(1), of i "(cs ! i)\<lparr>counter := n + 1\<rparr>" a] by (simp add: client_at_def)
    then show ?thesis using i by (simp add: find_client_def next_number_def client_at_def)
  next
    assume none: "find_from (same_addr a) cs 0 ECHO_CLIENTS = None \<and> m a = None"
    then obtain i where i: "find_from (\<lambda>c. \<not> active c) cs 0 ECHO_CLIENTS = Some i" "i < length cs" "\<not> active (cs ! i)"
      using free_slot[OF assms(1)] assms(2) by blast
    have "table_for (cs[i := \<lparr>ci_addr = a, counter = 2, active = True\<rparr>]) (m(a \<mapsto> 2))"
      using table_for_set[OF assms(1) i(2), of "\<lparr>ci_addr = a, counter = 2, active = True\<rparr>" a] i(3) none by simp
    then show ?thesis using i none by (simp add: find_client_def next_number_def)
  qed
qed

lemma find_client_full:
  assumes "table_for cs m" "m a = None" "ECHO_CLIENTS \<le> card (dom m)"
  shows "find_client a cs = None"
  using find_slot[OF assms(1), of a] no_slot[OF assms(1,3)] assms(2) by (auto simp: find_client_def)

lemma remove_client_slot_ok:
  assumes "table_for cs m"
  shows "table_for (remove_client_slot a cs) (m(a := None))"
  using find_slot[OF assms, of a]
proof
  assume "\<exists>i n. find_from (same_addr a) cs 0 ECHO_CLIENTS = Some i \<and> m a = Some n \<and> client_at cs a n i"
  then show ?thesis using table_for_clear[OF assms] by (auto simp: remove_client_slot_def)
next
  assume "find_from (same_addr a) cs 0 ECHO_CLIENTS = None \<and> m a = None"
  moreover from this have "m(a := None) = m" by auto
  ultimately show ?thesis using assms by (simp add: remove_client_slot_def)
qed

end
