(* ===== verification/Raw_Echo_Run.thy ===== *)
theory Raw_Echo_Run
  imports Raw_Echo_Table
begin

text \<open>
  The echo end to end: clients, the kernel's sending and the server together, against a specification
  that only counts messages.
\<close>

unbundle bit_operations_syntax

section \<open>Packets on the wire\<close>

lemma load_store16: "load16 (word_of_nat (unat w mod 256)) (word_of_nat (unat w div 256)) = w"
proof -
  have "unat w div 256 < 256" using half_bound[of w] by (simp add: less_mult_imp_div_less)
  then show ?thesis by (simp add: word_unat_eq_iff unat_load16 unat_byte)
qed

lemma to_string_to_bytes [simp]: "to_string (to_bytes s) = s"
  by (simp add: to_string_def to_bytes_def map_idI unat_to_byte)

definition datagram :: "byte list \<Rightarrow> ip4 \<Rightarrow> ip4 \<Rightarrow> 16 word \<Rightarrow> 16 word \<Rightarrow> 16 word \<Rightarrow> string \<Rightarrow> byte list" where
  "datagram h s d p q c t = h @ addr_bytes s @ addr_bytes d @ udp_header p q (length t) c @ to_bytes t"

definition ip_start :: "byte list \<Rightarrow> bool" where
  "ip_start h \<longleftrightarrow> length h = 12 \<and> h ! 0 = 0x45"

lemma udp_header_Cons:
  "\<exists>l0 l1 c0 c1. udp_header p q n c =
    [word_of_nat (unat p mod 256), word_of_nat (unat p div 256), word_of_nat (unat q mod 256), word_of_nat (unat q div 256),
     l0, l1, c0, c1]"
  by (simp add: udp_header_def store16_def)

lemma datagram_fields:
  assumes "ip_start h" "buf = datagram h s d p q c t @ z"
  shows "ihl_bytes buf = 20" "load16_at buf 20 = p" "load16_at buf 22 = q" "addr_at buf 12 = s"
    "drop 28 buf = to_bytes t @ z"
proof -
  obtain h0 h1 h2 h3 h4 h5 h6 h7 h8 h9 h10 h11 where h: "h = [h0, h1, h2, h3, h4, h5, h6, h7, h8, h9, h10, h11]"
    using assms(1) by (auto simp: ip_start_def eval_nat_numeral length_Suc_conv)
  then have h0: "h0 = 0x45" using assms(1) by (simp add: ip_start_def)
  obtain s0 s1 s2 s3 where s: "s = (s0, s1, s2, s3)" by (cases s)
  obtain d0 d1 d2 d3 where d: "d = (d0, d1, d2, d3)" by (cases d)
  obtain l0 l1 c0 c1 where u: "udp_header p q (length t) c =
    [word_of_nat (unat p mod 256), word_of_nat (unat p div 256), word_of_nat (unat q mod 256), word_of_nat (unat q div 256),
     l0, l1, c0, c1]" using udp_header_Cons by blast
  have buf: "buf = [h0, h1, h2, h3, h4, h5, h6, h7, h8, h9, h10, h11, s0, s1, s2, s3, d0, d1, d2, d3,
      word_of_nat (unat p mod 256), word_of_nat (unat p div 256), word_of_nat (unat q mod 256), word_of_nat (unat q div 256),
      l0, l1, c0, c1] @ to_bytes t @ z"
    unfolding assms(2) datagram_def h s d u by simp
  show "ihl_bytes buf = 20" unfolding buf h0 by (simp add: ihl_bytes_def)
  show "load16_at buf 20 = p" "load16_at buf 22 = q" unfolding buf by (simp_all add: load16_at_def load_store16)
  show "addr_at buf 12 = s" unfolding buf s by (simp add: addr_at_def)
  show "drop 28 buf = to_bytes t @ z" unfolding buf by simp
qed

lemma length_datagram: "ip_start h \<Longrightarrow> length (datagram h s d p q c t) = 28 + length t"
  by (simp add: datagram_def ip_start_def)

lemma received_datagram:
  assumes "ip_start h" "length t < 996"
  shows "received (datagram h s d p q c t) = datagram h s d p q c t @ replicate (996 - length t) 0"
    "take ECHO_BUFFER (datagram h s d p q c t) = datagram h s d p q c t"
  using length_datagram[OF assms(1), of s d p q c t] assms(2)
  by (simp_all add: received_def ECHO_BUFFER_def)

text \<open>Sending: the kernel puts in the source address when it is zero.\<close>

lemma take_drop_append: "length a = n \<Longrightarrow> take n (a @ b) = a" "length a = n \<Longrightarrow> drop n (a @ b) = b"
  by simp_all

lemma raw_send_packet:
  "\<exists>h. ip_start h \<and> raw_send local (ip_header ipid s d (length t) @ udp_header p q (length t) c @ to_bytes t) =
     datagram h (if s = (0, 0, 0, 0) then local else s) d p q c t"
proof -
  define pkt where "pkt = ip_header ipid s d (length t) @ udp_header p q (length t) c @ to_bytes t"
  define tl where "tl = store16 (htons (word_of_nat (length pkt)))"
  define h where "h = [0x45, 0] @ tl @ store16 (htons ipid) @ [0, 0, 64, IPPROTO_UDP, 0, 0]"
  have h: "ip_start h" by (simp add: ip_start_def h_def tl_def)
  have "pkt = [0x45, 0] @ store16 (htons (word_of_nat (20 + 8 + length t))) @ store16 (htons ipid) @ [0, 0, 64, IPPROTO_UDP, 0, 0]
      @ addr_bytes s @ addr_bytes d @ udp_header p q (length t) c @ to_bytes t"
    by (simp add: pkt_def ip_header_def)
  then have rest: "take 2 pkt @ tl @ drop 4 pkt = datagram h s d p q c t"
    by (simp add: datagram_def h_def store16_def)
  have "addr_at (datagram h s d p q c t) 12 = s" using datagram_fields(4)[OF h, of _ s d p q c t "[]"] by simp
  moreover have "take 12 (datagram h s d p q c t) @ addr_bytes local @ drop 16 (datagram h s d p q c t) = datagram h local d p q c t"
    using h by (simp add: datagram_def ip_start_def)
  moreover have "raw_send local pkt = (if addr_at (take 2 pkt @ tl @ drop 4 pkt) 12 = (0, 0, 0, 0)
      then take 12 (take 2 pkt @ tl @ drop 4 pkt) @ addr_bytes local @ drop 16 (take 2 pkt @ tl @ drop 4 pkt)
      else take 2 pkt @ tl @ drop 4 pkt)"
    unfolding raw_send_def Let_def tl_def ..
  ultimately have "raw_send local pkt = datagram h (if s = (0, 0, 0, 0) then local else s) d p q c t"
    unfolding rest by (cases "s = (0, 0, 0, 0)") simp_all
  with h show ?thesis unfolding pkt_def by blast
qed

section \<open>The server's answer to a text\<close>

lemma cstr_padded: "NUL \<notin> set t \<Longrightarrow> cstr (t @ replicate (Suc k) NUL) = t"
  by (simp add: cstr_def)

lemma to_string_padded: "to_string (to_bytes t @ replicate k 0) = t @ replicate k NUL"
proof -
  have "to_string (xs @ ys) = to_string xs @ to_string ys" for xs ys by (simp add: to_string_def)
  moreover have "char_of (0 :: nat) = NUL" by (simp add: NUL_def char_of_def)
  ultimately show ?thesis by (simp add: to_string_def[of "replicate k 0"])
qed

text \<open>What the server sees of a datagram.\<close>

lemma datagram_view:
  assumes "ip_start h" "length t < 996" "NUL \<notin> set t" "pkt = datagram h s d p q c t"
  shows "ihl_bytes (received pkt) = 20" "load16_at (received pkt) 20 = p" "load16_at (received pkt) 22 = q"
    "addr_at (received pkt) 12 = s" "length (take ECHO_BUFFER pkt) = 28 + length t"
    "cstr (to_string (drop 28 (received pkt))) = t" "NUL \<in> set (to_string (drop 28 (received pkt)))"
    "to_string (take (length t) (drop 28 (received pkt))) = t"
proof -
  have r: "received pkt = datagram h s d p q c t @ replicate (996 - length t) 0"
    using received_datagram(1)[OF assms(1,2)] by (simp add: assms(4))
  note f = datagram_fields[OF assms(1) r]
  show "ihl_bytes (received pkt) = 20" "load16_at (received pkt) 20 = p" "load16_at (received pkt) 22 = q"
    "addr_at (received pkt) 12 = s" by (fact f(1) f(2) f(3) f(4))+
  show "length (take ECHO_BUFFER pkt) = 28 + length t"
    using received_datagram(2)[OF assms(1,2)] length_datagram[OF assms(1)] by (simp add: assms(4))
  have "996 - length t = Suc (995 - length t)" using assms(2) by simp
  then have "to_string (drop 28 (received pkt)) = t @ replicate (Suc (995 - length t)) NUL"
    using f(5) to_string_padded by metis
  then show "cstr (to_string (drop 28 (received pkt))) = t" "NUL \<in> set (to_string (drop 28 (received pkt)))"
    using cstr_padded[OF assms(3)] by simp_all
  show "to_string (take (length t) (drop 28 (received pkt))) = t"
    using f(5) to_string_to_bytes[of t] by simp
qed

lemma close_prefix: "strncmp t ''CLOSE'' 5 = 0 \<longleftrightarrow> prefix ''CLOSE'' t"
  using strncmp_prefix[of t "''CLOSE''"] by (simp add: eval_nat_numeral)

lemma server_text:
  assumes "table_for cs m" "ip_start h" "length t \<le> 900" "NUL \<notin> set t" "\<not> prefix ''CLOSE'' t" "ntohs p \<noteq> ECHO_PORT"
    and "m \<lparr>sin_addr = s, sin_port = p\<rparr> \<noteq> None \<or> card (dom m) < ECHO_CLIENTS"
    and "n = next_number m \<lparr>sin_addr = s, sin_port = p\<rparr>" "- (2 ^ 31) \<le> n" "n < 2 ^ 31"
  shows "\<exists>cs' check. server_packet ipid (datagram h s d p (htons ECHO_PORT) c t) cs =
      Some (Some (ip_header ipid INADDR_LOOPBACK s (length (t @ '' '' @ show_int n))
        @ udp_header (htons ECHO_PORT) p (length (t @ '' '' @ show_int n)) check @ to_bytes (t @ '' '' @ show_int n)), cs') \<and>
    table_for cs' (m(\<lparr>sin_addr = s, sin_port = p\<rparr> \<mapsto> n + 1))"
proof -
  let ?a = "\<lparr>sin_addr = s, sin_port = p\<rparr>" and ?t = "t @ '' '' @ show_int n"
  obtain i cs1 where f: "find_client ?a cs = Some (i, cs1)" "counter (cs1 ! i) = n"
    "table_for (cs1[i := (cs1 ! i)\<lparr>counter := n + 1\<rparr>]) (m(?a \<mapsto> n + 1))"
    using find_client_ok[OF assms(1,7)] assms(8) by auto
  have "length t < 996" using assms(3) by simp
  note v = datagram_view[OF assms(2) this assms(4) refl, of s d p "htons ECHO_PORT" c]
  have "length ?t < ECHO_BUFFER" using assms(3) length_show_int[OF assms(9,10)] by (simp add: ECHO_BUFFER_def)
  then have resp: "snprintf_into ECHO_BUFFER ?t = ?t" by simp
  obtain check where b: "build_udp_packet ipid \<lparr>sin_addr = INADDR_LOOPBACK, sin_port = htons ECHO_PORT\<rparr> ?a (to_bytes (?t @ [NUL])) (length ?t) =
      Some (ip_header ipid INADDR_LOOPBACK s (length ?t) @ udp_header (htons ECHO_PORT) p (length ?t) (htons check) @ to_bytes ?t)"
    using packet_built[of ipid "\<lparr>sin_addr = INADDR_LOOPBACK, sin_port = htons ECHO_PORT\<rparr>" ?a ?t] by auto
  have "server_packet ipid (datagram h s d p (htons ECHO_PORT) c t) cs =
      Some (Some (ip_header ipid INADDR_LOOPBACK s (length ?t) @ udp_header (htons ECHO_PORT) p (length ?t) (htons check) @ to_bytes ?t),
        cs1[i := (cs1 ! i)\<lparr>counter := n + 1\<rparr>])"
    using assms(5,6) f(1,2) b resp
    unfolding server_packet_def Let_def v(1) v(5) numeral_plus_numeral
    by (simp add: v close_prefix del: append_assoc append.simps)
  then show ?thesis using f(3) by blast
qed

lemma server_close:
  assumes "table_for cs m" "ip_start h" "length t \<le> 900" "NUL \<notin> set t" "prefix ''CLOSE'' t" "ntohs p \<noteq> ECHO_PORT"
  shows "\<exists>cs'. server_packet ipid (datagram h s d p (htons ECHO_PORT) c t) cs = Some (None, cs') \<and>
    table_for cs' (m(\<lparr>sin_addr = s, sin_port = p\<rparr> := None))"
proof -
  have "length t < 996" using assms(3) by simp
  note v = datagram_view[OF assms(2) this assms(4) refl, of s d p "htons ECHO_PORT" c]
  have "5 \<le> length t" using prefix_length_le[OF assms(5)] by simp
  then have "server_packet ipid (datagram h s d p (htons ECHO_PORT) c t) cs =
      Some (None, remove_client_slot \<lparr>sin_addr = s, sin_port = p\<rparr> cs)"
    using assms(5,6) unfolding server_packet_def Let_def v(1) v(5) numeral_plus_numeral
    by (simp add: v close_prefix)
  then show ?thesis using remove_client_slot_ok[OF assms(1)] by blast
qed

text \<open>With 100 clients a text from a new address is ignored.\<close>

lemma server_full:
  assumes "table_for cs m" "ip_start h" "length t \<le> 900" "NUL \<notin> set t" "\<not> prefix ''CLOSE'' t" "ntohs p \<noteq> ECHO_PORT"
    and "m \<lparr>sin_addr = s, sin_port = p\<rparr> = None" "ECHO_CLIENTS \<le> card (dom m)"
  shows "server_packet ipid (datagram h s d p (htons ECHO_PORT) c t) cs = Some (None, cs)"
proof -
  have "length t < 996" using assms(3) by simp
  note v = datagram_view[OF assms(2) this assms(4) refl, of s d p "htons ECHO_PORT" c]
  show ?thesis
    using assms(5,6) find_client_full[OF assms(1,7,8)] unfolding server_packet_def Let_def v(1) v(5) numeral_plus_numeral
    by (simp add: v close_prefix)
qed

section \<open>The client's side\<close>

definition echo_server :: "ip4 \<Rightarrow> sockaddr" where
  "echo_server host = \<lparr>sin_addr = host, sin_port = htons ECHO_PORT\<rparr>"

lemma request_built:
  "\<exists>pkt h c. build_udp_packet ipid \<lparr>sin_addr = (0, 0, 0, 0), sin_port = htons port\<rparr> (echo_server host) (to_bytes (t @ [NUL])) (length t) = Some pkt \<and>
    ip_start h \<and> raw_send local pkt = datagram h local host (htons port) (htons ECHO_PORT) c t"
proof -
  obtain check where b: "build_udp_packet ipid \<lparr>sin_addr = (0, 0, 0, 0), sin_port = htons port\<rparr> (echo_server host) (to_bytes (t @ [NUL])) (length t) =
      Some (ip_header ipid (0, 0, 0, 0) host (length t)
        @ udp_header (htons port) (htons ECHO_PORT) (length t) (htons check) @ to_bytes t)"
    using packet_built[of ipid "\<lparr>sin_addr = (0, 0, 0, 0), sin_port = htons port\<rparr>" "echo_server host" t] by (auto simp: echo_server_def)
  moreover obtain h where "ip_start h" "raw_send local (ip_header ipid (0, 0, 0, 0) host (length t)
        @ udp_header (htons port) (htons ECHO_PORT) (length t) (htons check) @ to_bytes t) =
      datagram h local host (htons port) (htons ECHO_PORT) (htons check) t"
    using raw_send_packet[of local ipid "(0, 0, 0, 0)" host t "htons port" "htons ECHO_PORT" "htons check"] by auto
  ultimately show ?thesis by blast
qed

lemma client_request:
  assumes "t \<noteq> []" "NL \<notin> set t" "local \<noteq> (0, 0, 0, 0)"
  shows "\<exists>pkt h c. client_send ipid (echo_server host) port (t @ [NL]) = Some pkt \<and> ip_start h \<and>
    raw_send local pkt = datagram h local host (htons port) (htons ECHO_PORT) c t"
proof -
  have "chomp (t @ [NL]) = t" using assms(2) by simp
  then have "client_send ipid (echo_server host) port (t @ [NL]) =
      build_udp_packet ipid \<lparr>sin_addr = (0, 0, 0, 0), sin_port = htons port\<rparr> (echo_server host) (to_bytes (t @ [NUL])) (length t)"
    using assms(1) by (simp add: client_send_def Let_def)
  then show ?thesis using request_built[of ipid port host t local] by simp
qed

lemma client_bye:
  "\<exists>pkt h c. client_close ipid (echo_server host) port = Some pkt \<and> ip_start h \<and>
    raw_send local pkt = datagram h local host (htons port) (htons ECHO_PORT) c ''CLOSE''"
proof -
  have "length ''CLOSE'' = 5" by simp
  then show ?thesis using request_built[of ipid port host "''CLOSE''" local] unfolding client_close_def by metis
qed

lemma client_reply:
  assumes "NUL \<notin> set t" "t \<noteq> []" "length t < 996" "port \<noteq> ECHO_PORT"
  shows "client_packet (echo_server host) port (raw_send INADDR_LOOPBACK
      (ip_header ipid INADDR_LOOPBACK a (length t) @ udp_header (htons ECHO_PORT) (htons port) (length t) c @ to_bytes t)) =
    Some (if host = INADDR_LOOPBACK then Some (''Server response: '' @ t) else None)"
proof -
  obtain h where h: "ip_start h" "raw_send INADDR_LOOPBACK
      (ip_header ipid INADDR_LOOPBACK a (length t) @ udp_header (htons ECHO_PORT) (htons port) (length t) c @ to_bytes t) =
      datagram h INADDR_LOOPBACK a (htons ECHO_PORT) (htons port) c t"
    using raw_send_packet[of INADDR_LOOPBACK ipid INADDR_LOOPBACK a t "htons ECHO_PORT" "htons port" c] by auto
  note v = datagram_view[OF h(1) assms(3,1) refl, of INADDR_LOOPBACK a "htons ECHO_PORT" "htons port" c]
  have "cstr t = t" using assms(1) by (simp add: cstr_def)
  then show ?thesis
    using assms(2-4) unfolding h(2) client_packet_def Let_def v(1) v(5) numeral_plus_numeral
    by (simp add: v echo_server_def ECHO_BUFFER_def)
qed

section \<open>Clients, kernel and server together\<close>

text \<open>
  A client, at its address and port, types a text or is stopped; all clients were started with the
  server's address \<open>host\<close>. A step gives what the client prints.
\<close>

datatype echo_event = Say ip4 "16 word" string | Bye ip4 "16 word"

definition echo_step :: "16 word \<Rightarrow> ip4 \<Rightarrow> echo_event \<Rightarrow> client_info list \<Rightarrow> (string option \<times> client_info list) option" where
  "echo_step ipid host ev cs =
     (case ev of
        Say local port t \<Rightarrow> do {
          pkt \<leftarrow> client_send ipid (echo_server host) port (t @ [NL]);
          (reply, cs') \<leftarrow> server_packet ipid (raw_send local pkt) cs;
          shown \<leftarrow> (case reply of None \<Rightarrow> Some None
                    | Some r \<Rightarrow> client_packet (echo_server host) port (raw_send INADDR_LOOPBACK r));
          Some (shown, cs')
        }
      | Bye local port \<Rightarrow> do {
          pkt \<leftarrow> client_close ipid (echo_server host) port;
          (reply, cs') \<leftarrow> server_packet ipid (raw_send local pkt) cs;
          Some (None, cs')
        })"

fun echo_run :: "16 word \<Rightarrow> ip4 \<Rightarrow> echo_event list \<Rightarrow> client_info list \<Rightarrow> string option list option" where
  "echo_run ipid host [] cs = Some []"
| "echo_run ipid host (ev # evs) cs = do {
     (shown, cs') \<leftarrow> echo_step ipid host ev cs;
     rest \<leftarrow> echo_run ipid host evs cs';
     Some (shown # rest)
   }"

text \<open>
  The specification only counts the messages of at most 100 addresses; \<open>hears\<close> says whether the clients
  take the answers. A text that begins with CLOSE is not answered and starts the count again.
\<close>

fun numbered :: "bool \<Rightarrow> echo_event list \<Rightarrow> (sockaddr \<rightharpoonup> int) \<Rightarrow> string option list" where
  "numbered hears [] m = []"
| "numbered hears (Say local port t # evs) m =
     (let a = \<lparr>sin_addr = local, sin_port = htons port\<rparr>; n = next_number m a in
      if prefix ''CLOSE'' t then None # numbered hears evs (m(a := None))
      else if m a = None \<and> 100 \<le> card (dom m) then None # numbered hears evs m
      else (if hears then Some (''Server response: '' @ t @ '' '' @ show_int n) else None)
             # numbered hears evs (m(a \<mapsto> n + 1)))"
| "numbered hears (Bye local port # evs) m =
     None # numbered hears evs (m(\<lparr>sin_addr = local, sin_port = htons port\<rparr> := None))"

definition event_ok :: "echo_event \<Rightarrow> bool" where
  "event_ok ev = (case ev of
     Say local port t \<Rightarrow> local \<noteq> (0, 0, 0, 0) \<and> port \<noteq> ECHO_PORT \<and> t \<noteq> [] \<and> NUL \<notin> set t \<and> NL \<notin> set t \<and> length t \<le> 900
   | Bye local port \<Rightarrow> local \<noteq> (0, 0, 0, 0) \<and> port \<noteq> ECHO_PORT)"

lemma say_step:
  assumes "table_for cs m" "event_ok (Say local port t)" "a = \<lparr>sin_addr = local, sin_port = htons port\<rparr>" "\<not> prefix ''CLOSE'' t"
    and "m a \<noteq> None \<or> card (dom m) < ECHO_CLIENTS" "n = next_number m a" "0 < n" "n < 2 ^ 31"
  shows "\<exists>cs'. echo_step ipid host (Say local port t) cs =
      Some (if host = INADDR_LOOPBACK then Some (''Server response: '' @ t @ '' '' @ show_int n) else None, cs') \<and>
    table_for cs' (m(a \<mapsto> n + 1))"
proof -
  let ?t = "t @ '' '' @ show_int n"
  have ok: "local \<noteq> (0, 0, 0, 0)" "port \<noteq> ECHO_PORT" "t \<noteq> []" "NUL \<notin> set t" "NL \<notin> set t" "length t \<le> 900"
    using assms(2) by (simp_all add: event_ok_def)
  obtain pkt h c where p: "client_send ipid (echo_server host) port (t @ [NL]) = Some pkt" "ip_start h"
    "raw_send local pkt = datagram h local host (htons port) (htons ECHO_PORT) c t"
    using client_request[OF ok(3,5,1)] by blast
  obtain cs' check where sv: "server_packet ipid (raw_send local pkt) cs =
      Some (Some (ip_header ipid INADDR_LOOPBACK local (length ?t)
        @ udp_header (htons ECHO_PORT) (htons port) (length ?t) check @ to_bytes ?t), cs')"
    "table_for cs' (m(a \<mapsto> n + 1))"
    using server_text[OF assms(1) p(2) ok(6,4) assms(4), of "htons port" local n ipid host c] assms(3,5-8) ok(2) p(3) by auto
  have "NUL \<notin> set ?t" using ok(4) show_int_chars[of NUL n] by (auto simp: NUL_def[symmetric]) (simp add: NUL_def)
  moreover have "length ?t < 996" using ok(6) length_show_int[of n] assms(7,8) by simp
  ultimately have "client_packet (echo_server host) port (raw_send INADDR_LOOPBACK (ip_header ipid INADDR_LOOPBACK local (length ?t)
        @ udp_header (htons ECHO_PORT) (htons port) (length ?t) check @ to_bytes ?t)) =
      Some (if host = INADDR_LOOPBACK then Some (''Server response: '' @ ?t) else None)"
    using client_reply[OF _ _ _ ok(2)] by blast
  then show ?thesis using p(1) sv by (simp add: echo_step_def del: append_assoc append.simps)
qed

lemma say_unheard:
  assumes "table_for cs m" "event_ok (Say local port t)" "a = \<lparr>sin_addr = local, sin_port = htons port\<rparr>"
  shows "prefix ''CLOSE'' t \<Longrightarrow> \<exists>cs'. echo_step ipid host (Say local port t) cs = Some (None, cs') \<and> table_for cs' (m(a := None))"
    and "\<not> prefix ''CLOSE'' t \<Longrightarrow> m a = None \<Longrightarrow> ECHO_CLIENTS \<le> card (dom m) \<Longrightarrow>
      echo_step ipid host (Say local port t) cs = Some (None, cs)"
proof -
  have ok: "local \<noteq> (0, 0, 0, 0)" "ntohs (htons port) \<noteq> ECHO_PORT" "t \<noteq> []" "NUL \<notin> set t" "NL \<notin> set t" "length t \<le> 900"
    using assms(2) by (simp_all add: event_ok_def)
  obtain pkt h c where p: "client_send ipid (echo_server host) port (t @ [NL]) = Some pkt" "ip_start h"
    "raw_send local pkt = datagram h local host (htons port) (htons ECHO_PORT) c t"
    using client_request[OF ok(3,5,1)] by blast
  show "\<exists>cs'. echo_step ipid host (Say local port t) cs = Some (None, cs') \<and> table_for cs' (m(a := None))" if "prefix ''CLOSE'' t"
    using server_close[OF assms(1) p(2) ok(6,4) that ok(2), of ipid local host c] p assms(3) by (auto simp: echo_step_def)
  show "echo_step ipid host (Say local port t) cs = Some (None, cs)"
    if "\<not> prefix ''CLOSE'' t" "m a = None" "ECHO_CLIENTS \<le> card (dom m)"
    using server_full[OF assms(1) p(2) ok(6,4) that(1) ok(2), of local ipid host c] that p assms(3) by (simp add: echo_step_def)
qed

lemma bye_step:
  assumes "table_for cs m" "event_ok (Bye local port)"
  shows "\<exists>cs'. echo_step ipid host (Bye local port) cs = Some (None, cs') \<and>
    table_for cs' (m(\<lparr>sin_addr = local, sin_port = htons port\<rparr> := None))"
proof -
  have ok: "ntohs (htons port) \<noteq> ECHO_PORT" using assms(2) by (simp add: event_ok_def)
  have close: "length ''CLOSE'' \<le> 900" "NUL \<notin> set ''CLOSE''" "prefix ''CLOSE'' ''CLOSE''" by (simp_all add: NUL_def)
  obtain pkt h c where p: "client_close ipid (echo_server host) port = Some pkt" "ip_start h"
    "raw_send local pkt = datagram h local host (htons port) (htons ECHO_PORT) c ''CLOSE''"
    using client_bye by blast
  then show ?thesis using server_close[OF assms(1) p(2) close ok, of ipid local host c] by (auto simp: echo_step_def)
qed

lemma echo_run_numbered:
  assumes "table_for cs m" "\<forall>ev \<in> set evs. event_ok ev"
    and "\<And>a n. m a = Some n \<Longrightarrow> 0 < n \<and> n + int (length evs) < 2 ^ 31" "int (length evs) < 2 ^ 31 - 1"
  shows "echo_run ipid host evs cs = Some (numbered (host = INADDR_LOOPBACK) evs m)"
  using assms
proof (induction evs arbitrary: cs m)
  case (Cons ev evs)
  have IH: "echo_run ipid host evs cs' = Some (numbered (host = INADDR_LOOPBACK) evs m')"
    if "table_for cs' m'" "\<And>b n. m' b = Some n \<Longrightarrow> m b = Some n \<or> 0 < n \<and> n + int (length evs) < 2 ^ 31" for cs' m'
  proof (rule Cons.IH[OF that(1)])
    show "0 < n \<and> n + int (length evs) < 2 ^ 31" if "m' b = Some n" for b n
      using \<open>\<And>b n. m' b = Some n \<Longrightarrow> _\<close>[OF that] Cons.prems(3)[of b n] by auto
  qed (use Cons.prems in auto)
  show ?case
  proof (cases ev)
    case (Say local port t)
    let ?a = "\<lparr>sin_addr = local, sin_port = htons port\<rparr>"
    have ok: "event_ok (Say local port t)" using Cons.prems(2) Say by simp
    consider (close) "prefix ''CLOSE'' t" | (full) "\<not> prefix ''CLOSE'' t" "m ?a = None" "ECHO_CLIENTS \<le> card (dom m)"
      | (heard) "\<not> prefix ''CLOSE'' t" "m ?a \<noteq> None \<or> card (dom m) < ECHO_CLIENTS" by force
    then show ?thesis
    proof cases
      case close
      then obtain cs' where st: "echo_step ipid host ev cs = Some (None, cs')" "table_for cs' (m(?a := None))"
        using say_unheard(1)[OF Cons.prems(1) ok refl] Say by blast
      have "echo_run ipid host evs cs' = Some (numbered (host = INADDR_LOOPBACK) evs (m(?a := None)))"
        by (intro IH[OF st(2)]) (auto split: if_splits)
      then show ?thesis using st(1) Say close by simp
    next
      case full
      then have "echo_step ipid host ev cs = Some (None, cs)"
        using say_unheard(2)[OF Cons.prems(1) ok refl] Say by simp
      moreover have "echo_run ipid host evs cs = Some (numbered (host = INADDR_LOOPBACK) evs m)"
        by (intro IH[OF Cons.prems(1)]) auto
      ultimately show ?thesis using Say full by (simp add: ECHO_CLIENTS_def)
    next
      case heard
      have n: "0 < next_number m ?a" "next_number m ?a + int (length (ev # evs)) < 2 ^ 31"
        using Cons.prems(3)[of ?a] Cons.prems(4) by (auto simp: next_number_def split: option.splits)
      then obtain cs' where st: "echo_step ipid host ev cs =
          Some (if host = INADDR_LOOPBACK then Some (''Server response: '' @ t @ '' '' @ show_int (next_number m ?a)) else None, cs')"
        "table_for cs' (m(?a \<mapsto> next_number m ?a + 1))"
        using say_step[OF Cons.prems(1) ok refl heard refl, of ipid host] Say by auto
      have "echo_run ipid host evs cs' = Some (numbered (host = INADDR_LOOPBACK) evs (m(?a \<mapsto> next_number m ?a + 1)))"
        using n by (intro IH[OF st(2)]) (auto split: if_splits)
      then show ?thesis using st(1) Say heard by (auto simp: Let_def ECHO_CLIENTS_def)
    qed
  next
    case (Bye local port)
    obtain cs' where st: "echo_step ipid host ev cs = Some (None, cs')"
        "table_for cs' (m(\<lparr>sin_addr = local, sin_port = htons port\<rparr> := None))"
      using bye_step[OF Cons.prems(1), of local port ipid host] Cons.prems(2) Bye by auto
    have "echo_run ipid host evs cs' =
        Some (numbered (host = INADDR_LOOPBACK) evs (m(\<lparr>sin_addr = local, sin_port = htons port\<rparr> := None)))"
      by (intro IH[OF st(2)]) (auto split: if_splits)
    then show ?thesis using st(1) Bye by simp
  qed
qed simp

text \<open>
  C28. The echo numbers each client's messages: whatever clients on the server's machine type and in whatever
  order, one event after the other, through the packets they build, the kernel's sending, the server's table
  and its replies. The server keeps a count for each of up to 100 addresses, from an address's first text or
  from the last time it closed; a text is answered by itself followed by its number, except that one beginning
  with CLOSE (like CLOSED) is taken for the end of the client, and that with 100 clients a text from another
  address is ignored. The answers are shown if the clients were started with the server's address 127.0.0.1,
  and none is shown for any other address, since the server always answers from that one. The texts are
  lines of 1 to 900 bytes; a client's port is not the server's.
\<close>

theorem echo_numbers_messages:
  assumes "\<forall>ev \<in> set evs. event_ok ev" "int (length evs) < 2 ^ 31 - 1"
  shows "echo_run ipid host evs echo_start = Some (numbered (host = (127, 0, 0, 1)) evs Map.empty)"
  using echo_run_numbered[OF table_for_start assms(1)] assms(2) by (simp add: INADDR_LOOPBACK_def)

lemma echo_numbers_messages_witness:
  "echo_run 7 (127, 0, 0, 1) [Say (127, 0, 0, 1) 40000 ''hi'', Say (127, 0, 0, 1) 40001 ''you'', Bye (127, 0, 0, 1) 40001,
     Say (127, 0, 0, 1) 40000 ''again'', Say (127, 0, 0, 1) 40000 ''CLOSED''] echo_start =
   Some [Some ''Server response: hi 1'', Some ''Server response: you 1'', None, Some ''Server response: again 2'', None]"
proof -
  let ?evs = "[Say (127, 0, 0, 1) 40000 ''hi'', Say (127, 0, 0, 1) 40001 ''you'', Bye (127, 0, 0, 1) 40001,
     Say (127, 0, 0, 1) 40000 ''again'', Say (127, 0, 0, 1) 40000 ''CLOSED'']"
  have "\<forall>ev \<in> set ?evs. event_ok ev"
    by (simp add: event_ok_def ECHO_PORT_def NUL_def NL_def)
  then have "echo_run 7 (127, 0, 0, 1) ?evs echo_start = Some (numbered True ?evs Map.empty)"
    using echo_numbers_messages[of ?evs 7 "(127, 0, 0, 1)"] by simp
  moreover have "htons (40000 :: 16 word) \<noteq> htons 40001" by (simp add: htons_def swap16_def)
  moreover have "show_int 1 = ''1''" "show_int 2 = ''2''" by code_simp+
  ultimately show ?thesis by (simp add: next_number_def Let_def)
qed

end
