(* ===== verification/Sockets.thy ===== *)
theory Sockets
  imports C_Net "HOL-Library.State_Monad"
begin

text \<open>
  The socket calls of the network programs. The state is the process's table of descriptors, the
  directories and socket files of the file system, the outcomes of the calls that may fail (in the
  order they are made; when the list is exhausted they fail) and what was printed, \<open>perror\<close>
  included. Programs are in the state monad, so that they read as the code does; \<open>-1\<close> is a
  failure, which for a \<open>main\<close> means that it exits.
\<close>

section \<open>Descriptors\<close>

datatype domain = AF_INET | AF_UNIX | AF_PACKET
datatype sock_type = SOCK_STREAM | SOCK_DGRAM | SOCK_RAW
datatype sock_opt = SO_REUSEADDR | SO_BROADCAST | IP_HDRINCL | TCP_NODELAY
datatype address = Inet ip4 "16 word" | Path string

record socket =
  s_domain :: domain
  s_type :: sock_type
  s_protocol :: int
  s_opts :: "sock_opt set"
  s_bound :: "address option"
  s_peer :: "address option"
  s_backlog :: "nat option"
  s_nonblocking :: bool

datatype descriptor = Sock socket | Epoll "int set"

text \<open>Descriptors 0 to 2 are the standard streams; \<open>table_fds\<close> lists those from 3 on.\<close>

record io =
  table_fds :: "descriptor option list"
  dirs :: "string set"
  paths :: "string set"
  outcomes :: "bool list"
  screen :: "string list"

type_synonym 'a prog = "(io, 'a) state"

fun lowest_free :: "'a option list \<Rightarrow> nat" where
  "lowest_free [] = 0"
| "lowest_free (None # xs) = 0"
| "lowest_free (Some x # xs) = Suc (lowest_free xs)"

definition entry :: "io \<Rightarrow> int \<Rightarrow> descriptor option" where
  "entry s fd = (let i = nat (fd - 3) in if fd < 3 \<or> length (table_fds s) \<le> i then None else table_fds s ! i)"

definition put_entry :: "int \<Rightarrow> descriptor option \<Rightarrow> io \<Rightarrow> io" where
  "put_entry fd d s =
     (let i = nat (fd - 3); t = table_fds s
      in s\<lparr>table_fds := (if i < length t then t[i := d] else t @ replicate (i - length t) None @ [d])\<rparr>)"

definition new_fd :: "io \<Rightarrow> int" where
  "new_fd s = int (lowest_free (table_fds s)) + 3"

lemma lowest_free_bound: "lowest_free t \<le> length t"
  by (induction t rule: lowest_free.induct) auto

lemma lowest_free_None: "lowest_free t < length t \<Longrightarrow> t ! lowest_free t = None"
  by (induction t rule: lowest_free.induct) auto

lemma entry_new_fd [simp]: "entry s (new_fd s) = None" "3 \<le> new_fd s"
  using lowest_free_None[of "table_fds s"] by (auto simp: entry_def new_fd_def Let_def)

lemma new_fd_nonneg [simp]: "\<not> new_fd s < 0" "new_fd s \<noteq> -1"
  by (simp_all add: new_fd_def)

lemma entry_put: "3 \<le> fd \<Longrightarrow> entry (put_entry fd d s) fd' = (if fd' = fd then d else entry s fd')"
  by (auto simp: entry_def put_entry_def Let_def nth_append nth_Cons' eq_nat_nat_iff)

lemma entry_simps [simp]:
  "entry (s\<lparr>outcomes := os\<rparr>) = entry s" "entry (s\<lparr>screen := ls\<rparr>) = entry s"
  "entry (s\<lparr>paths := ps\<rparr>) = entry s" "entry (s\<lparr>dirs := ds\<rparr>) = entry s"
  by (simp_all add: entry_def Let_def fun_eq_iff)

lemma put_entry_simps [simp]:
  "outcomes (put_entry fd d s) = outcomes s" "screen (put_entry fd d s) = screen s"
  "paths (put_entry fd d s) = paths s" "dirs (put_entry fd d s) = dirs s"
  by (simp_all add: put_entry_def Let_def)

lemma entry_Some_range: "entry s fd = Some d \<Longrightarrow> 3 \<le> fd"
  by (auto simp: entry_def Let_def split: if_splits)

section \<open>Calls\<close>

definition succeeds :: "bool prog" where
  "succeeds = State (\<lambda>s. case outcomes s of [] \<Rightarrow> (False, s) | ok # os \<Rightarrow> (ok, s\<lparr>outcomes := os\<rparr>))"

definition say :: "string \<Rightarrow> unit prog" where
  "say l = State (\<lambda>s. ((), s\<lparr>screen := screen s @ [l]\<rparr>))"

definition perror :: "string \<Rightarrow> unit prog" where "perror = say"

definition open_fd :: "descriptor \<Rightarrow> int prog" where
  "open_fd d = do {
     ok \<leftarrow> succeeds;
     State (\<lambda>s. if ok then (new_fd s, put_entry (new_fd s) (Some d) s) else (-1, s))
   }"

definition sys_socket :: "domain \<Rightarrow> sock_type \<Rightarrow> int \<Rightarrow> int prog" where
  "sys_socket d t protocol = open_fd (Sock \<lparr>s_domain = d, s_type = t, s_protocol = protocol, s_opts = {}, s_bound = None, s_peer = None,
     s_backlog = None, s_nonblocking = False\<rparr>)"

definition sys_epoll_create :: "int prog" where "sys_epoll_create = open_fd (Epoll {})"

text \<open>A call that changes an open socket; on any other descriptor it fails.\<close>

definition on_socket :: "(socket \<Rightarrow> socket) \<Rightarrow> int \<Rightarrow> int prog" where
  "on_socket f fd = do {
     ok \<leftarrow> succeeds;
     State (\<lambda>s. case entry s fd of
         Some (Sock k) \<Rightarrow> if ok then (0, put_entry fd (Some (Sock (f k))) s) else (-1, s)
       | _ \<Rightarrow> (-1, s))
   }"

definition sys_setsockopt :: "int \<Rightarrow> sock_opt \<Rightarrow> bool \<Rightarrow> int prog" where
  "sys_setsockopt fd opt on =
     on_socket (\<lambda>k. k\<lparr>s_opts := (if on then insert opt (s_opts k) else s_opts k - {opt})\<rparr>) fd"

definition sys_connect :: "int \<Rightarrow> address \<Rightarrow> int prog" where
  "sys_connect fd a = on_socket (\<lambda>k. k\<lparr>s_peer := Some a\<rparr>) fd"

definition sys_listen :: "int \<Rightarrow> nat \<Rightarrow> int prog" where
  "sys_listen fd n = on_socket (\<lambda>k. k\<lparr>s_backlog := Some n\<rparr>) fd"

text \<open>Binding to a path creates the socket file, and fails when the path is there already.\<close>

definition sys_bind :: "int \<Rightarrow> address \<Rightarrow> int prog" where
  "sys_bind fd a = do {
     taken \<leftarrow> State (\<lambda>s. (case a of Path p \<Rightarrow> p \<in> paths s | Inet ip p \<Rightarrow> False, s));
     if taken then do { ok \<leftarrow> succeeds; State_Monad.return (-1) }
     else do {
       r \<leftarrow> on_socket (\<lambda>k. k\<lparr>s_bound := Some a\<rparr>) fd;
       State (\<lambda>s. (r, case a of Path p \<Rightarrow> if r = 0 then s\<lparr>paths := insert p (paths s)\<rparr> else s | Inet ip p \<Rightarrow> s))
     }
   }"

definition sys_fcntl_nonblock :: "int \<Rightarrow> int prog" where
  "sys_fcntl_nonblock fd = on_socket (\<lambda>k. k\<lparr>s_nonblocking := True\<rparr>) fd"

definition sys_fcntl_getfl :: "int \<Rightarrow> int prog" where
  "sys_fcntl_getfl fd = on_socket id fd"

definition sys_epoll_add :: "int \<Rightarrow> int \<Rightarrow> int prog" where
  "sys_epoll_add ep fd = do {
     ok \<leftarrow> succeeds;
     State (\<lambda>s. case entry s ep of
         Some (Epoll fds) \<Rightarrow> if ok then (0, put_entry ep (Some (Epoll (insert fd fds))) s) else (-1, s)
       | _ \<Rightarrow> (-1, s))
   }"

definition sys_close :: "int \<Rightarrow> unit prog" where
  "sys_close fd = State (\<lambda>s. ((), if entry s fd = None then s else put_entry fd None s))"

definition sys_unlink :: "string \<Rightarrow> unit prog" where
  "sys_unlink p = State (\<lambda>s. ((), s\<lparr>paths := paths s - {p}\<rparr>))"

section \<open>What a program does to the descriptors\<close>

text \<open>
  \<open>wp p Q e\<close>: from every state whose descriptors are \<open>e\<close>, whatever the outcomes of its calls, \<open>p\<close> ends
  with a value and descriptors that satisfy \<open>Q\<close>.
\<close>

definition wp :: "'a prog \<Rightarrow> ('a \<Rightarrow> (int \<Rightarrow> descriptor option) \<Rightarrow> bool) \<Rightarrow> (int \<Rightarrow> descriptor option) \<Rightarrow> bool" where
  "wp p Q e \<longleftrightarrow> (\<forall>s. entry s = e \<longrightarrow> Q (fst (run_state p s)) (entry (snd (run_state p s))))"

lemma wp_return: "Q x e \<Longrightarrow> wp (State_Monad.return x) Q e"
  by (simp add: wp_def)

lemma wp_bind: "wp p (\<lambda>x. wp (f x) Q) e \<Longrightarrow> wp (p \<bind> f) Q e"
  by (simp add: wp_def split_beta)

lemma wp_mono: "wp p Q e \<Longrightarrow> (\<And>x e'. Q x e' \<Longrightarrow> R x e') \<Longrightarrow> wp p R e"
  by (simp add: wp_def)

lemma wp_if: "(b \<Longrightarrow> wp p Q e) \<Longrightarrow> (\<not> b \<Longrightarrow> wp q Q e) \<Longrightarrow> wp (if b then p else q) Q e"
  by simp

lemma wp_say: "Q () e \<Longrightarrow> wp (say l) Q e" "Q () e \<Longrightarrow> wp (perror l) Q e"
  by (simp_all add: wp_def say_def perror_def)

lemma wp_open:
  "Q (-1) e \<Longrightarrow> (\<And>fd. 3 \<le> fd \<Longrightarrow> e fd = None \<Longrightarrow> Q fd (e(fd \<mapsto> d))) \<Longrightarrow> wp (open_fd d) Q e"
  unfolding wp_def
proof (intro allI impI)
  fix s
  assume q: "Q (-1) e" "\<And>fd. 3 \<le> fd \<Longrightarrow> e fd = None \<Longrightarrow> Q fd (e(fd \<mapsto> d))" and s: "entry s = e"
  have "entry (put_entry (new_fd s') (Some d) s') = (entry s')(new_fd s' \<mapsto> d)" for s'
    by (simp add: fun_eq_iff entry_put)
  moreover have "entry (s\<lparr>outcomes := os\<rparr>) = e" for os using s by simp
  ultimately show "Q (fst (run_state (open_fd d) s)) (entry (snd (run_state (open_fd d) s)))"
    using q(1) q(2)[of "new_fd (s\<lparr>outcomes := os\<rparr>)" for os] s entry_new_fd[of "s\<lparr>outcomes := os\<rparr>" for os]
    by (auto simp: open_fd_def succeeds_def split: list.splits)
qed

lemma wp_on_socket:
  "e fd = Some (Sock k) \<Longrightarrow> Q (-1) e \<Longrightarrow> Q 0 (e(fd \<mapsto> Sock (f k))) \<Longrightarrow> wp (on_socket f fd) Q e"
  unfolding wp_def
proof (intro allI impI)
  fix s
  assume e: "e fd = Some (Sock k)" and q: "Q (-1) e" "Q 0 (e(fd \<mapsto> Sock (f k)))" and s: "entry s = e"
  then have "3 \<le> fd" using entry_Some_range by metis
  then have "entry (put_entry fd (Some d) s') = (entry s')(fd \<mapsto> d)" for d s'
    by (simp add: fun_eq_iff entry_put)
  moreover have "entry (s\<lparr>outcomes := os\<rparr>) = e" for os using s by simp
  ultimately show "Q (fst (run_state (on_socket f fd) s)) (entry (snd (run_state (on_socket f fd) s)))"
    using e q s by (auto simp: on_socket_def succeeds_def split: list.splits)
qed

lemma wp_calls:
  assumes "e fd = Some (Sock k)" "Q (-1) e"
  shows "Q 0 (e(fd \<mapsto> Sock (k\<lparr>s_opts := (if on then insert opt (s_opts k) else s_opts k - {opt})\<rparr>))) \<Longrightarrow>
      wp (sys_setsockopt fd opt on) Q e"
    and "Q 0 (e(fd \<mapsto> Sock (k\<lparr>s_peer := Some a\<rparr>))) \<Longrightarrow> wp (sys_connect fd a) Q e"
    and "Q 0 (e(fd \<mapsto> Sock (k\<lparr>s_backlog := Some n\<rparr>))) \<Longrightarrow> wp (sys_listen fd n) Q e"
    and "Q 0 (e(fd \<mapsto> Sock (k\<lparr>s_nonblocking := True\<rparr>))) \<Longrightarrow> wp (sys_fcntl_nonblock fd) Q e"
    and "Q 0 e \<Longrightarrow> wp (sys_fcntl_getfl fd) Q e"
    and "Q 0 (e(fd \<mapsto> Sock (k\<lparr>s_bound := Some a\<rparr>))) \<Longrightarrow> wp (sys_bind fd a) Q e"
proof -
  note os = wp_on_socket[where Q = Q, OF assms]
  show "Q 0 (e(fd \<mapsto> Sock (k\<lparr>s_opts := (if on then insert opt (s_opts k) else s_opts k - {opt})\<rparr>))) \<Longrightarrow>
      wp (sys_setsockopt fd opt on) Q e"
    "Q 0 (e(fd \<mapsto> Sock (k\<lparr>s_peer := Some a\<rparr>))) \<Longrightarrow> wp (sys_connect fd a) Q e"
    "Q 0 (e(fd \<mapsto> Sock (k\<lparr>s_backlog := Some n\<rparr>))) \<Longrightarrow> wp (sys_listen fd n) Q e"
    "Q 0 (e(fd \<mapsto> Sock (k\<lparr>s_nonblocking := True\<rparr>))) \<Longrightarrow> wp (sys_fcntl_nonblock fd) Q e"
    unfolding sys_setsockopt_def sys_connect_def sys_listen_def sys_fcntl_nonblock_def by (erule os)+
  show "Q 0 e \<Longrightarrow> wp (sys_fcntl_getfl fd) Q e"
    unfolding sys_fcntl_getfl_def using assms(1) by (intro os) (simp add: map_upd_triv)
  assume q: "Q 0 (e(fd \<mapsto> Sock (k\<lparr>s_bound := Some a\<rparr>)))"
  have "Q (fst (run_state (on_socket (\<lambda>k. k\<lparr>s_bound := Some a\<rparr>) fd) s)) (entry (snd (run_state (on_socket (\<lambda>k. k\<lparr>s_bound := Some a\<rparr>) fd) s)))"
    if "entry s = e" for s
    using os[where f = "\<lambda>k. k\<lparr>s_bound := Some a\<rparr>"] q that unfolding wp_def by blast
  then show "wp (sys_bind fd a) Q e"
    using assms(2) by (auto simp: sys_bind_def wp_def succeeds_def split_beta split: address.splits list.splits) metis+
qed

lemma wp_close: "Q () (e(fd := None)) \<Longrightarrow> wp (sys_close fd) Q e"
  unfolding wp_def
proof (intro allI impI)
  fix s
  assume q: "Q () (e(fd := None))" and s: "entry s = e"
  have "entry (snd (run_state (sys_close fd) s)) = e(fd := None)"
    using s entry_Some_range[of s fd] by (auto simp: sys_close_def fun_eq_iff entry_put)
  with q show "Q (fst (run_state (sys_close fd) s)) (entry (snd (run_state (sys_close fd) s)))" by simp
qed

text \<open>The socket behind a descriptor, so that the rules leave no variable open.\<close>

fun sock_of :: "descriptor option \<Rightarrow> socket" where
  "sock_of (Some (Sock k)) = k"
| "sock_of d = \<lparr>s_domain = AF_INET, s_type = SOCK_STREAM, s_protocol = 0, s_opts = {}, s_bound = None, s_peer = None, s_backlog = None, s_nonblocking = False\<rparr>"

lemmas wp_socket_calls = wp_calls[where k = "sock_of (e fd)" and e = e and fd = fd for e fd]

lemmas wp_rules = wp_return wp_bind wp_if wp_say wp_open wp_socket_calls wp_close

end
