(* ===== verification/Socket_Setup.thy ===== *)
theory Socket_Setup
  imports Sockets
begin

text \<open>
  How the network programs make their sockets: module3/06 network.c, module3/07 client.c, server.c and
  chat\_utils.c, module3/08 raw\_udp\_capture.c, module3/cross1 client.c and server.c, module3/cross2
  driver.c. What \<open>inet_aton\<close> makes of an address given by the user is a parameter.
\<close>

definition PORT :: "16 word" where "PORT = 51000"
definition INADDR_ANY :: ip4 where "INADDR_ANY = (0, 0, 0, 0)"
definition INADDR_BROADCAST :: ip4 where "INADDR_BROADCAST = (255, 255, 255, 255)"

text \<open>All kinds of Ethernet frames (linux/if\_ether.h).\<close>

definition ETH_P_ALL :: "16 word" where "ETH_P_ALL = 0x0003"

definition port_text :: string where "port_text = show_nat (unat PORT)"

section \<open>TCP chat (module3/07)\<close>

definition set_nonblocking :: "int \<Rightarrow> unit prog" where
  "set_nonblocking fd = do {
     flags \<leftarrow> sys_fcntl_getfl fd;
     if flags = -1 then perror ''fcntl F_GETFL''
     else do {
       r \<leftarrow> sys_fcntl_nonblock fd;
       if r = -1 then perror ''fcntl F_SETFL'' else State_Monad.return ()
     }
   }"

definition set_tcp_nodelay :: "int \<Rightarrow> unit prog" where
  "set_tcp_nodelay fd = do {
     r \<leftarrow> sys_setsockopt fd TCP_NODELAY True;
     if r = -1 then perror ''setsockopt TCP_NODELAY'' else State_Monad.return ()
   }"

definition flush_socket_buffer :: "int \<Rightarrow> unit prog" where
  "flush_socket_buffer fd = do {
     r1 \<leftarrow> sys_setsockopt fd TCP_NODELAY True;
     r2 \<leftarrow> sys_setsockopt fd TCP_NODELAY False;
     State_Monad.return ()
   }"

definition create_directory :: "string \<Rightarrow> int prog" where
  "create_directory dir_name = do {
     there \<leftarrow> State (\<lambda>s. (dir_name \<in> dirs s, s));
     if there then State_Monad.return 0
     else do {
       ok \<leftarrow> succeeds;
       if \<not> ok then do { perror ''mkdir failed''; State_Monad.return (-1) }
       else State (\<lambda>s. (1, s\<lparr>dirs := insert dir_name (dirs s)\<rparr>))
     }
   }"

definition FILES_DIR :: string where "FILES_DIR = ''server_files''"
definition RECEIVED_DIR :: string where "RECEIVED_DIR = ''received_files''"

definition init_file_storage :: "unit prog" where
  "init_file_storage = do {
     r \<leftarrow> create_directory FILES_DIR;
     say (''File storage: '' @ FILES_DIR @ [NL])
   }"

definition init_server_socket :: "int prog" where
  "init_server_socket = do {
     server_fd \<leftarrow> sys_socket AF_INET SOCK_STREAM 0;
     if server_fd < 0 then do { perror ''socket creation''; State_Monad.return (-1) }
     else do {
       r1 \<leftarrow> sys_setsockopt server_fd SO_REUSEADDR True;
       r2 \<leftarrow> sys_bind server_fd (Inet INADDR_ANY (htons PORT));
       if r2 < 0 then do { perror ''bind''; sys_close server_fd; State_Monad.return (-1) }
       else do {
         r3 \<leftarrow> sys_listen server_fd 100;
         if r3 < 0 then do { perror ''listen''; sys_close server_fd; State_Monad.return (-1) }
         else do {
           set_nonblocking server_fd;
           say (''Listening on port '' @ port_text @ [NL]);
           State_Monad.return server_fd
         }
       }
     }
   }"

text \<open>The server up to its event loop: the two descriptors, or none when it exits.\<close>

definition server_main_start :: "(int \<times> int) option prog" where
  "server_main_start = do {
     say (''   TCP Chat Server '' @ [NL]);
     say (''Port: '' @ port_text @ [NL]);
     init_file_storage;
     server_fd \<leftarrow> init_server_socket;
     if server_fd < 0 then State_Monad.return None
     else do {
       epoll_fd \<leftarrow> sys_epoll_create;
       if epoll_fd = -1 then do { perror ''epoll_create1''; sys_close server_fd; State_Monad.return None }
       else do {
         r \<leftarrow> sys_epoll_add epoll_fd server_fd;
         State_Monad.return (Some (server_fd, epoll_fd))
       }
     }
   }"

definition connect_to_server :: "string \<Rightarrow> ip4 option \<Rightarrow> int prog" where
  "connect_to_server server_ip aton = do {
     sockfd \<leftarrow> sys_socket AF_INET SOCK_STREAM 0;
     if sockfd < 0 then do { perror ''socket creation''; State_Monad.return (-1) }
     else do {
       set_tcp_nodelay sockfd;
       case aton of
         None \<Rightarrow> do { say (''Invalid IP: '' @ server_ip @ [NL]); sys_close sockfd; State_Monad.return (-1) }
       | Some addr \<Rightarrow> do {
           r \<leftarrow> sys_connect sockfd (Inet addr (htons PORT));
           if r < 0 then do { perror ''connection failed''; sys_close sockfd; State_Monad.return (-1) }
           else do {
             say (''Connected to '' @ server_ip @ '':'' @ port_text @ [NL]);
             State_Monad.return sockfd
           }
         }
     }
   }"

section \<open>UDP chat (module3/06)\<close>

definition init_socket :: "int prog" where
  "init_socket = do {
     sockfd \<leftarrow> sys_socket AF_INET SOCK_DGRAM 0;
     if sockfd < 0 then do { perror ''socket creation error''; State_Monad.return (-1) }
     else do {
       r1 \<leftarrow> sys_setsockopt sockfd SO_REUSEADDR True;
       if r1 < 0 then do { perror ''setsockopt SO_REUSEADDR error''; sys_close sockfd; State_Monad.return (-1) }
       else do {
         r2 \<leftarrow> sys_setsockopt sockfd SO_BROADCAST True;
         if r2 < 0 then do { perror ''setsockopt error''; sys_close sockfd; State_Monad.return (-1) }
         else do {
           r3 \<leftarrow> sys_bind sockfd (Inet INADDR_ANY (htons PORT));
           if r3 < 0 then do { perror ''bind error''; sys_close sockfd; State_Monad.return (-1) }
           else do {
             say (''Broadcasting to: '' @ dotted INADDR_BROADCAST @ '':'' @ port_text @ [NL]);
             State_Monad.return sockfd
           }
         }
       }
     }
   }"

definition close_socket :: "int \<Rightarrow> unit prog" where
  "close_socket sockfd = (if 0 \<le> sockfd then sys_close sockfd else State_Monad.return ())"

text \<open>The host name, unless \<open>gethostname\<close> fails, and the addresses \<open>gethostbyname\<close> finds for it.\<close>

definition address_lines :: "ip4 list \<Rightarrow> string list" where
  "address_lines addrs = map (\<lambda>(i, a). ''IP address '' @ show_nat (i + 1) @ '': '' @ dotted a @ [NL]) (enumerate 0 addrs)"

fun say_all :: "string list \<Rightarrow> unit prog" where
  "say_all [] = State_Monad.return ()"
| "say_all (l # ls) = do { say l; say_all ls }"

definition print_network_info :: "string option \<Rightarrow> (string \<Rightarrow> ip4 list option) \<Rightarrow> unit prog" where
  "print_network_info hostname lookup = do {
     say (''Network: '' @ [NL]);
     case hostname of
       None \<Rightarrow> State_Monad.return ()
     | Some h \<Rightarrow> do {
         say (''hostname: '' @ h @ [NL]);
         case lookup h of None \<Rightarrow> State_Monad.return () | Some addrs \<Rightarrow> say_all (address_lines addrs)
       }
   }"

section \<open>Raw sockets (module3/cross1, module3/08)\<close>

definition raw_server_setup :: "int prog" where
  "raw_server_setup = do {
     raw_sock \<leftarrow> sys_socket AF_INET SOCK_RAW (uint IPPROTO_UDP);
     if raw_sock < 0 then do { perror ''socket creation failed''; State_Monad.return (-1) }
     else do {
       r1 \<leftarrow> sys_setsockopt raw_sock IP_HDRINCL True;
       if r1 < 0 then do { perror ''setsockopt failed''; sys_close raw_sock; State_Monad.return (-1) }
       else do {
         r2 \<leftarrow> sys_bind raw_sock (Inet INADDR_ANY (htons PORT));
         if r2 < 0 then do { perror ''bind failed''; sys_close raw_sock; State_Monad.return (-1) }
         else do {
           say (''UDP RAW Echo Server running on port '' @ port_text @ [NL]);
           say (''Waiting for messages...'' @ [NL]);
           State_Monad.return raw_sock
         }
       }
     }
   }"

text \<open>The client takes the server's address and its own port from the command line.\<close>

definition raw_client_setup :: "(string \<Rightarrow> ip4 option) \<Rightarrow> string list \<Rightarrow> int prog" where
  "raw_client_setup aton argv =
     (if length argv \<noteq> 3 then do {
        say (''Usage: '' @ hd argv @ '' <server_ip> <client_port>'' @ [NL]);
        say (''Example: '' @ hd argv @ '' 127.0.0.1 12345'' @ [NL]);
        State_Monad.return (-1)
      }
      else let client_port = atoi (argv ! 2) in
      if client_port < 1024 \<or> 65535 < client_port
      then do { say (''Port must be between 1024 and 65535'' @ [NL]); State_Monad.return (-1) }
      else do {
        raw_sock \<leftarrow> sys_socket AF_INET SOCK_RAW (uint IPPROTO_UDP);
        if raw_sock < 0 then do { perror ''socket creation failed''; State_Monad.return (-1) }
        else do {
          r1 \<leftarrow> sys_setsockopt raw_sock IP_HDRINCL True;
          if r1 < 0 then do { perror ''setsockopt failed''; sys_close raw_sock; State_Monad.return (-1) }
          else do {
            r2 \<leftarrow> sys_bind raw_sock (Inet INADDR_ANY (htons (word_of_int client_port)));
            if r2 < 0 then do { perror ''bind failed''; sys_close raw_sock; State_Monad.return (-1) }
            else case aton (argv ! 1) of
              None \<Rightarrow> do { say (''Invalid IP address'' @ [NL]); sys_close raw_sock; State_Monad.return (-1) }
            | Some addr \<Rightarrow> do {
                say (''UDP RAW Echo Client'' @ [NL]);
                say (''Client port: '' @ show_int client_port @ [NL]);
                say (''Server: '' @ argv ! 1 @ '':'' @ port_text @ [NL]);
                State_Monad.return raw_sock
              }
          }
        }
      })"

definition init_raw_socket :: "int prog" where
  "init_raw_socket = do {
     raw_sock \<leftarrow> sys_socket AF_PACKET SOCK_RAW (uint (htons ETH_P_ALL));
     if raw_sock < 0
     then do {
       perror ''socket creation failed'';
       say (''Error: Raw socket creation'' @ [NL]);
       State_Monad.return (-1)
     }
     else State_Monad.return raw_sock
   }"

section \<open>The taxi driver (module3/cross2)\<close>

text \<open>
  The path is copied into 256 bytes without a check (\<open>None\<close>: it does not fit), and its first 107
  bytes into the address.
\<close>

definition sun_path :: "string \<Rightarrow> string" where "sun_path socket_path = take 107 socket_path"

definition driver_listen :: "string \<Rightarrow> int prog" where
  "driver_listen socket_path = do {
     server_sock \<leftarrow> sys_socket AF_UNIX SOCK_STREAM 0;
     if server_sock < 0 then do { perror ''socket creation failed''; State_Monad.return (-1) }
     else do {
       sys_unlink socket_path;
       r1 \<leftarrow> sys_bind server_sock (Path (sun_path socket_path));
       if r1 < 0 then do { perror ''bind failed''; sys_close server_sock; State_Monad.return (-1) }
       else do {
         r2 \<leftarrow> sys_listen server_sock 1;
         if r2 < 0 then do { perror ''listen failed''; sys_close server_sock; State_Monad.return (-1) }
         else State_Monad.return server_sock
       }
     }
   }"

definition driver_setup :: "int \<Rightarrow> string list \<Rightarrow> int prog option" where
  "driver_setup pid argv =
     (if length argv \<noteq> 2
      then Some (do { say (''Usage: '' @ hd argv @ '' <socket_path>'' @ [NL]); State_Monad.return (-1) })
      else map_option (\<lambda>socket_path. do {
          server_sock \<leftarrow> driver_listen socket_path;
          if server_sock < 0 then State_Monad.return (-1)
          else do { say (''Driver started (PID: '' @ show_int pid @ '')'' @ [NL]); State_Monad.return server_sock }
        }) (strcpy_into 256 (argv ! 1)))"

text \<open>The end of the driver's loop.\<close>

definition driver_shutdown :: "int \<Rightarrow> string \<Rightarrow> unit prog" where
  "driver_shutdown server_sock socket_path = do {
     sys_close server_sock;
     sys_unlink socket_path;
     say (''Driver stopped'' @ [NL])
   }"

end
