(* ===== verification/Socket_Props.thy ===== *)
theory Socket_Props
  imports Socket_Setup
begin

text \<open>
  Each set-up makes one socket, configured as its program needs it, or fails and leaves no descriptor
  behind: the interface \<open>socket_setup\<close>, interpreted by the set-ups of all programs.
\<close>

section \<open>The interface\<close>

text \<open>The result of a set-up started in any state, whatever its calls do.\<close>

definition makes :: "int prog \<Rightarrow> (socket \<Rightarrow> bool) \<Rightarrow> bool" where
  "makes p good \<longleftrightarrow> (\<forall>s. let (r, s') = run_state p s in
     r = -1 \<and> entry s' = entry s \<or>
     3 \<le> r \<and> entry s r = None \<and> (\<exists>k. good k \<and> entry s' = (entry s)(r \<mapsto> Sock k)))"

definition made :: "(socket \<Rightarrow> bool) \<Rightarrow> (int \<Rightarrow> descriptor option) \<Rightarrow> int \<Rightarrow> (int \<Rightarrow> descriptor option) \<Rightarrow> bool" where
  "made good e r e' \<longleftrightarrow> r = -1 \<and> e' = e \<or> 3 \<le> r \<and> e r = None \<and> (\<exists>k. good k \<and> e' = e(r \<mapsto> Sock k))"

lemma makes_wp: "makes p good \<longleftrightarrow> (\<forall>e. wp p (made good e) e)"
  by (simp add: makes_def wp_def made_def Let_def split_beta)

lemma made_fail [simp]: "made good e (-1) e" "e fd = None \<Longrightarrow> made good e (-1) (e(fd := None))"
  by (auto simp: made_def)

lemma made_sock: "3 \<le> fd \<Longrightarrow> e fd = None \<Longrightarrow> good k \<Longrightarrow> made good e fd (e(fd \<mapsto> Sock k))"
  by (auto simp: made_def)

locale socket_setup =
  fixes mk :: "int prog"
    and good :: "socket \<Rightarrow> bool"
  assumes setup_makes: "makes mk good"
begin

lemma setup_wp: "wp mk (made good e) e"
  using setup_makes by (simp add: makes_wp)

lemma setup_close: "entry (snd (run_state (mk \<bind> close_socket) s)) = entry s"
proof -
  have "wp (mk \<bind> close_socket) (\<lambda>_ e'. e' = entry s) (entry s)"
  proof (rule wp_bind)
    have "wp (close_socket r) (\<lambda>_ e'. e' = entry s) e'" if "made good (entry s) r e'" for r e'
      using that unfolding close_socket_def by (auto simp: made_def intro!: wp_rules)
    then show "wp mk (\<lambda>r. wp (close_socket r) (\<lambda>_ e'. e' = entry s)) (entry s)"
      by (rule wp_mono[OF setup_wp])
  qed
  then show ?thesis by (simp add: wp_def)
qed

text \<open>Two set-ups that work give two sockets.\<close>

lemma setup_twice:
  assumes "run_state mk s = (r1, s1)" "run_state mk s1 = (r2, s2)" "0 \<le> r1" "0 \<le> r2"
  shows "r1 \<noteq> r2 \<and> (\<exists>k1 k2. good k1 \<and> good k2 \<and> entry s2 r1 = Some (Sock k1) \<and> entry s2 r2 = Some (Sock k2))"
proof -
  have "made good (entry s) r1 (entry s1)" "made good (entry s1) r2 (entry s2)"
    using setup_wp[of "entry s"] setup_wp[of "entry s1"] assms(1,2) by (auto simp: wp_def)
  with assms(3,4) show ?thesis by (auto simp: made_def)
qed

end

section \<open>What each program asks for\<close>

text \<open>
  The TCP programs go on when an option cannot be set, so their options are not certain; those of the
  other programs are.
\<close>

definition tcp_listener :: "socket \<Rightarrow> bool" where
  "tcp_listener k \<longleftrightarrow> s_domain k = AF_INET \<and> s_type k = SOCK_STREAM \<and> s_protocol k = 0 \<and> s_opts k \<subseteq> {SO_REUSEADDR} \<and>
     s_bound k = Some (Inet INADDR_ANY (htons 51000)) \<and> s_peer k = None \<and> s_backlog k = Some 100"

definition tcp_connection :: "ip4 option \<Rightarrow> socket \<Rightarrow> bool" where
  "tcp_connection aton k \<longleftrightarrow> s_domain k = AF_INET \<and> s_type k = SOCK_STREAM \<and> s_protocol k = 0 \<and> s_opts k \<subseteq> {TCP_NODELAY} \<and>
     (\<exists>addr. aton = Some addr \<and> s_peer k = Some (Inet addr (htons 51000))) \<and> s_bound k = None \<and> s_backlog k = None \<and>
     \<not> s_nonblocking k"

definition udp_broadcaster :: "socket \<Rightarrow> bool" where
  "udp_broadcaster k \<longleftrightarrow> k = \<lparr>s_domain = AF_INET, s_type = SOCK_DGRAM, s_protocol = 0, s_opts = {SO_REUSEADDR, SO_BROADCAST},
     s_bound = Some (Inet INADDR_ANY (htons 51000)), s_peer = None, s_backlog = None, s_nonblocking = False\<rparr>"

definition raw_udp :: "16 word \<Rightarrow> socket \<Rightarrow> bool" where
  "raw_udp port k \<longleftrightarrow> k = \<lparr>s_domain = AF_INET, s_type = SOCK_RAW, s_protocol = 17, s_opts = {IP_HDRINCL},
     s_bound = Some (Inet INADDR_ANY (htons port)), s_peer = None, s_backlog = None, s_nonblocking = False\<rparr>"

definition raw_client_socket :: "(string \<Rightarrow> ip4 option) \<Rightarrow> string list \<Rightarrow> socket \<Rightarrow> bool" where
  "raw_client_socket aton argv k \<longleftrightarrow> length argv = 3 \<and> aton (argv ! 1) \<noteq> None \<and>
     (\<exists>port. atoi (argv ! 2) = int (unat port) \<and> 1024 \<le> unat port \<and> raw_udp port k)"

definition packet_socket :: "socket \<Rightarrow> bool" where
  "packet_socket k \<longleftrightarrow> k = \<lparr>s_domain = AF_PACKET, s_type = SOCK_RAW, s_protocol = 0x300, s_opts = {},
     s_bound = None, s_peer = None, s_backlog = None, s_nonblocking = False\<rparr>"

definition driver_listener :: "string \<Rightarrow> socket \<Rightarrow> bool" where
  "driver_listener path k \<longleftrightarrow> k = \<lparr>s_domain = AF_UNIX, s_type = SOCK_STREAM, s_protocol = 0, s_opts = {},
     s_bound = Some (Path (take 107 path)), s_peer = None, s_backlog = Some 1, s_nonblocking = False\<rparr>"

text \<open>With every call successful the set-up makes exactly this socket.\<close>

definition opens :: "int prog \<Rightarrow> socket \<Rightarrow> bool" where
  "opens p k \<longleftrightarrow> (\<forall>s os. outcomes s = replicate 9 True @ os \<longrightarrow>
     (let (r, s') = run_state p s in 3 \<le> r \<and> entry s r = None \<and> entry s' = (entry s)(r \<mapsto> Sock k)))"

lemma protocols: "uint IPPROTO_UDP = 17" "uint (htons ETH_P_ALL) = 0x300"
  by (simp_all add: IPPROTO_UDP_def ETH_P_ALL_def htons_def swap16_def)

lemmas socket_kinds = tcp_listener_def tcp_connection_def udp_broadcaster_def raw_udp_def raw_client_socket_def
  packet_socket_def driver_listener_def protocols PORT_def sun_path_def

section \<open>The set-ups keep the contract\<close>

lemma wp_unlink: "Q () e \<Longrightarrow> wp (sys_unlink p) Q e"
  by (simp add: wp_def sys_unlink_def)

lemma wp_set_nonblocking:
  "e fd = Some (Sock (sock_of (e fd))) \<Longrightarrow> Q () e \<Longrightarrow>
   Q () (e(fd \<mapsto> Sock ((sock_of (e fd))\<lparr>s_nonblocking := True\<rparr>))) \<Longrightarrow> wp (set_nonblocking fd) Q e"
  unfolding set_nonblocking_def by (auto intro!: wp_rules)

lemma wp_set_tcp_nodelay:
  "e fd = Some (Sock (sock_of (e fd))) \<Longrightarrow> Q () e \<Longrightarrow>
   Q () (e(fd \<mapsto> Sock ((sock_of (e fd))\<lparr>s_opts := insert TCP_NODELAY (s_opts (sock_of (e fd)))\<rparr>))) \<Longrightarrow>
   wp (set_tcp_nodelay fd) Q e"
  unfolding set_tcp_nodelay_def by (auto intro!: wp_rules)

lemmas setup_rules = wp_rules wp_unlink wp_set_nonblocking wp_set_tcp_nodelay

interpretation tcp_server: socket_setup init_server_socket tcp_listener
  by unfold_locales (auto simp: makes_wp init_server_socket_def sys_socket_def socket_kinds intro!: setup_rules made_sock)

interpretation tcp_client: socket_setup "connect_to_server ip aton" "tcp_connection aton" for ip aton
  by (unfold_locales, cases aton)
    (auto simp: makes_wp connect_to_server_def sys_socket_def socket_kinds intro!: setup_rules made_sock)

interpretation udp_chat: socket_setup init_socket udp_broadcaster
  by unfold_locales (auto simp: makes_wp init_socket_def sys_socket_def socket_kinds intro!: setup_rules made_sock)

interpretation raw_server: socket_setup raw_server_setup "raw_udp PORT"
  by unfold_locales (auto simp: makes_wp raw_server_setup_def sys_socket_def socket_kinds intro!: setup_rules made_sock)

lemma raw_port:
  assumes "1024 \<le> p" "p \<le> 65535"
  shows "p = int (unat w) \<longleftrightarrow> w = (word_of_int p :: 16 word)" "1024 \<le> unat (word_of_int p :: 16 word)"
  using assms by (auto simp: unsigned_of_int take_bit_int_eq_self word_uint_eq_iff nat_le_iff)

interpretation raw_client: socket_setup "raw_client_setup aton argv" "raw_client_socket aton argv" for aton argv
proof
  let ?p = "atoi (argv ! 2)"
  have kind: "raw_client_socket aton argv k \<longleftrightarrow> raw_udp (word_of_int ?p) k"
    if "length argv = 3" "aton (argv ! 1) \<noteq> None" "1024 \<le> ?p" "?p \<le> 65535" for k
    using that raw_port[of ?p] by (auto simp: raw_client_socket_def)
  show "makes (raw_client_setup aton argv) (raw_client_socket aton argv)"
    by (cases "aton (argv ! 1)") (auto simp: makes_wp raw_client_setup_def Let_def sys_socket_def kind raw_udp_def protocols
        intro!: setup_rules made_sock)
qed

interpretation capture: socket_setup init_raw_socket packet_socket
  by unfold_locales (auto simp: makes_wp init_raw_socket_def sys_socket_def socket_kinds intro!: setup_rules made_sock)

interpretation taxi_driver: socket_setup "driver_listen path" "driver_listener path" for path
  by unfold_locales (auto simp: makes_wp driver_listen_def sys_socket_def socket_kinds intro!: setup_rules made_sock)

lemmas run_calls = driver_listen_def sys_socket_def open_fd_def succeeds_def sys_unlink_def sys_bind_def on_socket_def
  sys_listen_def sys_setsockopt_def sys_connect_def sys_fcntl_getfl_def sys_fcntl_nonblock_def
  perror_def say_def sys_close_def entry_put

lemma new_fd_outcomes [simp]: "new_fd (s\<lparr>outcomes := os\<rparr>) = new_fd s"
  by (simp add: new_fd_def)

lemma tcp_server_opens:
  "opens init_server_socket \<lparr>s_domain = AF_INET, s_type = SOCK_STREAM, s_protocol = 0, s_opts = {SO_REUSEADDR},
     s_bound = Some (Inet INADDR_ANY (htons 51000)), s_peer = None, s_backlog = Some 100, s_nonblocking = True\<rparr>"
  by (auto simp: opens_def init_server_socket_def set_nonblocking_def run_calls PORT_def eval_nat_numeral split_beta fun_eq_iff)

lemma tcp_client_opens:
  "opens (connect_to_server ip (Some a)) \<lparr>s_domain = AF_INET, s_type = SOCK_STREAM, s_protocol = 0, s_opts = {TCP_NODELAY},
     s_bound = None, s_peer = Some (Inet a (htons 51000)), s_backlog = None, s_nonblocking = False\<rparr>"
  by (auto simp: opens_def connect_to_server_def set_tcp_nodelay_def run_calls PORT_def eval_nat_numeral split_beta fun_eq_iff)

text \<open>
  C40. Whatever its system calls do, each program's set-up either makes one socket, on a descriptor not
  in use and with the domain, type, protocol and addresses the program needs, or fails and leaves every
  descriptor as it was; closing the socket at the end of the UDP chat restores them too. The UDP, raw, packet
  and local sockets have exactly the options their programs ask for; the TCP programs do not give up when
  an option is refused, and have the options they ask for (address reuse and no blocking for the server,
  no delay for the client) when no call fails.
\<close>

theorem sockets_made_or_nothing:
  "makes init_server_socket tcp_listener \<and> makes (connect_to_server ip addr) (tcp_connection addr) \<and>
   makes init_socket udp_broadcaster \<and> makes raw_server_setup (raw_udp 51000) \<and>
   makes (raw_client_setup aton argv) (raw_client_socket aton argv) \<and> makes init_raw_socket packet_socket \<and>
   makes (driver_listen path) (driver_listener path) \<and>
   entry (snd (run_state (init_socket \<bind> close_socket) s)) = entry s \<and>
   opens init_server_socket \<lparr>s_domain = AF_INET, s_type = SOCK_STREAM, s_protocol = 0, s_opts = {SO_REUSEADDR},
     s_bound = Some (Inet INADDR_ANY (htons 51000)), s_peer = None, s_backlog = Some 100, s_nonblocking = True\<rparr> \<and>
   opens (connect_to_server ip (Some a)) \<lparr>s_domain = AF_INET, s_type = SOCK_STREAM, s_protocol = 0, s_opts = {TCP_NODELAY},
     s_bound = None, s_peer = Some (Inet a (htons 51000)), s_backlog = None, s_nonblocking = False\<rparr>"
  using tcp_server.setup_makes tcp_client.setup_makes udp_chat.setup_makes raw_server.setup_makes tcp_server_opens tcp_client_opens
    raw_client.setup_makes capture.setup_makes taxi_driver.setup_makes udp_chat.setup_close by (simp add: PORT_def)

section \<open>Socket files of the driver\<close>

text \<open>A socket file left by an earlier driver does not disturb, unless its path is longer than 107 bytes.\<close>

lemma driver_replaces_file:
  assumes "outcomes s = [True, True, True]" "length path \<le> 107"
  shows "3 \<le> fst (run_state (driver_listen path) s) \<and> path \<in> paths (snd (run_state (driver_listen path) s))"
  using assms by (simp add: run_calls sun_path_def)

lemma driver_long_path_fails:
  assumes "107 < length path" "take 107 path \<in> paths s"
  shows "fst (run_state (driver_listen path) s) = -1"
proof -
  have "take 107 path \<noteq> path" using assms(1) by (metis length_take min.absorb4 nat_neq_iff)
  with assms show ?thesis
    by (auto simp: run_calls sun_path_def split: list.splits)
qed

text \<open>A driver whose \<open>listen\<close> fails leaves its socket file.\<close>

lemma driver_leaves_file:
  assumes "outcomes s = [True, True, False]" "length path \<le> 107"
  shows "fst (run_state (driver_listen path) s) = -1 \<and> path \<in> paths (snd (run_state (driver_listen path) s))"
  using assms by (simp add: run_calls sun_path_def)

end
