(* ===== verification/Raw_Echo_Loops.thy ===== *)
theory Raw_Echo_Loops
  imports Raw_Echo Socket_Props
begin

text \<open>
  The two programs of module3/cross1 from start to end: the set-up of the socket, the loop, and what
  the signal handlers do. An event is what \<open>recvfrom\<close> or \<open>select\<close> returns, or a signal.
\<close>

section \<open>The server\<close>

datatype server_event = Packet "16 word" "byte list" bool | Recv_Interrupted | Recv_Error | Server_Signal bool

record raw_server =
  rs_clients :: "client_info list"
  rs_sent :: "byte list list"
  rs_out :: "string list"
  rs_running :: bool

definition raw_server_signal_handler :: "raw_server \<Rightarrow> raw_server" where
  "raw_server_signal_handler s =
     s\<lparr>rs_out := rs_out s @ [[NL] @ ''Server shutting down...'' @ [NL]], rs_running := False\<rparr>"

text \<open>
  A packet comes with \<open>rand() % 65535\<close> and whether \<open>sendto\<close> works for its answer. \<open>signal\<close> makes an interrupted
  \<open>recvfrom\<close> start again: after \<open>Server_Signal True\<close>, a signal during \<open>recvfrom\<close>, the loop still waits for a
  packet. The result is the state, and whether the loop has ended.
\<close>

fun raw_server_loop :: "bool \<Rightarrow> server_event list \<Rightarrow> raw_server \<Rightarrow> (raw_server \<times> bool) option" where
  "raw_server_loop waiting [] s = Some (s, \<not> waiting \<and> \<not> rs_running s)"
| "raw_server_loop waiting (e # es) s =
     (if \<not> waiting \<and> \<not> rs_running s then Some (s, True)
      else case e of
        Recv_Interrupted \<Rightarrow> raw_server_loop False es s
      | Recv_Error \<Rightarrow> raw_server_loop False es (s\<lparr>rs_out := rs_out s @ [''recvfrom failed'']\<rparr>)
      | Server_Signal in_recv \<Rightarrow> raw_server_loop (waiting \<or> in_recv) es (raw_server_signal_handler s)
      | Packet ipid pkt sendto_ok \<Rightarrow>
          Option.bind (server_packet ipid pkt (rs_clients s)) (\<lambda>(reply, cs).
            raw_server_loop False es
              (case reply of
                 None \<Rightarrow> s\<lparr>rs_clients := cs\<rparr>
               | Some p \<Rightarrow> if sendto_ok then s\<lparr>rs_clients := cs, rs_sent := rs_sent s @ [p]\<rparr>
                           else s\<lparr>rs_clients := cs, rs_out := rs_out s @ [''sendto failed'']\<rparr>)))"

definition raw_server_start :: raw_server where
  "raw_server_start = \<lparr>rs_clients = echo_start, rs_sent = [], rs_out = [], rs_running = True\<rparr>"

definition raw_server_main :: "server_event list \<Rightarrow> raw_server main_result prog" where
  "raw_server_main events = do {
     raw_sock \<leftarrow> raw_server_setup;
     if raw_sock < 0 then State_Monad.return (Exited 1 raw_server_start)
     else case raw_server_loop False events raw_server_start of
       None \<Rightarrow> State_Monad.return Undefined
     | Some (s, ended) \<Rightarrow>
         if \<not> ended then State_Monad.return (Waiting s)
         else do {
           sys_close raw_sock;
           say (''Server stopped'' @ [NL]);
           State_Monad.return (Exited 0 s)
         }
   }"

section \<open>The client\<close>

text \<open>
  A round of \<open>select\<close>: whether descriptor 0 is ready, and what \<open>recvfrom\<close> gives if the socket is (a
  failure or a packet).
\<close>

datatype client_event = Ready "16 word" bool bool "byte list option option" | Select_Interrupted | Select_Error
  | Client_Signal "16 word"

record raw_client =
  rc_keys :: string
  rc_sent :: "byte list list"
  rc_out :: "string list"
  rc_state :: "int option"

definition raw_client_receives :: "sockaddr \<Rightarrow> 16 word \<Rightarrow> byte list option option \<Rightarrow> raw_client \<Rightarrow> raw_client option" where
  "raw_client_receives server port sock c =
     (case sock of
        None \<Rightarrow> Some c
      | Some None \<Rightarrow> Some (c\<lparr>rc_out := rc_out c @ [''recvfrom failed'']\<rparr>)
      | Some (Some pkt) \<Rightarrow>
          map_option (\<lambda>shown. case shown of None \<Rightarrow> c | Some l \<Rightarrow> c\<lparr>rc_out := rc_out c @ [l @ [NL]]\<rparr>)
            (client_packet server port pkt))"

text \<open>At the end of the input, after an empty line and when \<open>sendto\<close> fails the rest of the round is skipped.\<close>

definition raw_client_round ::
  "sockaddr \<Rightarrow> 16 word \<Rightarrow> 16 word \<Rightarrow> bool \<Rightarrow> bool \<Rightarrow> byte list option option \<Rightarrow> raw_client \<Rightarrow> raw_client option" where
  "raw_client_round server port ipid sendto_ok stdin_ready sock c =
     (if \<not> stdin_ready then raw_client_receives server port sock c
      else case fgets ECHO_BUFFER (rc_keys c) of
        None \<Rightarrow> Some c
      | Some (l, rest) \<Rightarrow>
          (let c1 = c\<lparr>rc_keys := rest\<rparr> in
           if length (chomp l) = 0 then Some c1
           else Option.bind (client_send ipid server port l) (\<lambda>packet.
             if sendto_ok then raw_client_receives server port sock (c1\<lparr>rc_sent := rc_sent c @ [packet]\<rparr>)
             else Some (c1\<lparr>rc_out := rc_out c @ [''sendto failed'']\<rparr>))))"

definition raw_client_signal_handler :: "sockaddr \<Rightarrow> 16 word \<Rightarrow> 16 word \<Rightarrow> raw_client \<Rightarrow> raw_client option" where
  "raw_client_signal_handler server port ipid c =
     map_option (\<lambda>packet. c\<lparr>rc_sent := rc_sent c @ [packet], rc_state := Some 0,
         rc_out := rc_out c @ [[NL] @ ''Sending close message to server...'' @ [NL], ''Client shut down'' @ [NL]]\<rparr>)
       (client_close ipid server port)"

text \<open>\<open>rc_state\<close> is the exit status, or \<open>None\<close> while the loop goes on.\<close>

fun raw_client_loop :: "sockaddr \<Rightarrow> 16 word \<Rightarrow> client_event list \<Rightarrow> raw_client \<Rightarrow> raw_client option" where
  "raw_client_loop server port [] c = Some c"
| "raw_client_loop server port (e # es) c =
     (if rc_state c \<noteq> None then Some c
      else case e of
        Select_Interrupted \<Rightarrow> raw_client_loop server port es c
      | Select_Error \<Rightarrow> Some (c\<lparr>rc_out := rc_out c @ [''select failed''], rc_state := Some 0\<rparr>)
      | Client_Signal ipid \<Rightarrow> Option.bind (raw_client_signal_handler server port ipid c) (raw_client_loop server port es)
      | Ready ipid sendto_ok stdin_ready sock \<Rightarrow>
          Option.bind (raw_client_round server port ipid sendto_ok stdin_ready sock c) (raw_client_loop server port es))"

definition raw_client_start :: "string \<Rightarrow> raw_client" where
  "raw_client_start typed = \<lparr>rc_keys = typed, rc_sent = [], rc_out = [], rc_state = None\<rparr>"

definition raw_client_main ::
  "(string \<Rightarrow> ip4 option) \<Rightarrow> string list \<Rightarrow> string \<Rightarrow> client_event list \<Rightarrow> raw_client main_result prog" where
  "raw_client_main aton argv typed events = do {
     raw_sock \<leftarrow> raw_client_setup aton argv;
     if raw_sock < 0 then State_Monad.return (Exited 1 (raw_client_start typed))
     else case raw_client_loop \<lparr>sin_addr = the (aton (argv ! 1)), sin_port = htons PORT\<rparr> (word_of_int (atoi (argv ! 2)))
                 events (raw_client_start typed) of
       None \<Rightarrow> State_Monad.return Undefined
     | Some c \<Rightarrow>
         (case rc_state c of
            None \<Rightarrow> State_Monad.return (Waiting c)
          | Some status \<Rightarrow> do { sys_close raw_sock; State_Monad.return (Exited status c) })
   }"

section \<open>Whatever happens the socket is closed\<close>

definition left_closed :: "(int \<Rightarrow> descriptor option) \<Rightarrow> 'a main_result \<Rightarrow> (int \<Rightarrow> descriptor option) \<Rightarrow> bool" where
  "left_closed e r e' \<longleftrightarrow> (\<forall>status x. r = Exited status x \<longrightarrow> e' = e)"

lemma made_closed: "made good e r e' \<Longrightarrow> 0 \<le> r \<Longrightarrow> e'(r := None) = e"
  by (auto simp: made_def)

lemma raw_server_closes: "wp (raw_server_main events) (left_closed e) e"
proof -
  have "wp (if r < 0 then State_Monad.return (Exited 1 raw_server_start)
      else case raw_server_loop False events raw_server_start of
        None \<Rightarrow> State_Monad.return Undefined
      | Some (s, ended) \<Rightarrow> if \<not> ended then State_Monad.return (Waiting s)
         else do { sys_close r; say (''Server stopped'' @ [NL]); State_Monad.return (Exited 0 s) }) (left_closed e) e'"
    if "made (raw_udp PORT) e r e'" for r e'
    using that made_closed[OF that] by (auto simp: left_closed_def made_def split: option.splits intro!: wp_rules)
  then show ?thesis unfolding raw_server_main_def by (intro wp_bind wp_mono[OF raw_server.setup_wp])
qed

lemma raw_client_closes: "wp (raw_client_main aton argv typed events) (left_closed e) e"
proof -
  let ?server = "\<lparr>sin_addr = the (aton (argv ! 1)), sin_port = htons PORT\<rparr>"
  have "wp (if r < 0 then State_Monad.return (Exited 1 (raw_client_start typed))
      else case raw_client_loop ?server (word_of_int (atoi (argv ! 2))) events (raw_client_start typed) of
        None \<Rightarrow> State_Monad.return Undefined
      | Some c \<Rightarrow> (case rc_state c of None \<Rightarrow> State_Monad.return (Waiting c)
          | Some status \<Rightarrow> do { sys_close r; State_Monad.return (Exited status c) })) (left_closed e) e'"
    if "made (raw_client_socket aton argv) e r e'" for r e'
    using that made_closed[OF that] by (auto simp: left_closed_def made_def split: option.splits intro!: wp_rules)
  then show ?thesis unfolding raw_client_main_def by (intro wp_bind wp_mono[OF raw_client.setup_wp])
qed

section \<open>The loops\<close>

text \<open>
  A signal between two packets ends the server. One that arrives while it waits does not: the next
  packet is still answered, and only then the loop ends.
\<close>

lemma server_stopped: "\<not> rs_running s \<Longrightarrow> raw_server_loop False es s = Some (s, True)"
  by (cases es) simp_all

lemma server_loop_signal:
  assumes "rs_running s"
  shows "raw_server_loop False (Server_Signal False # es) s = Some (raw_server_signal_handler s, True)"
    and "raw_server_loop False [Server_Signal True] s = Some (raw_server_signal_handler s, False)"
    and "server_packet ipid pkt (rs_clients s) = Some (Some p, cs) \<Longrightarrow>
      raw_server_loop False (Server_Signal True # Packet ipid pkt True # es) s =
        Some ((raw_server_signal_handler s)\<lparr>rs_clients := cs, rs_sent := rs_sent s @ [p]\<rparr>, True)"
  using assms by (simp_all add: raw_server_signal_handler_def server_stopped)

text \<open>
  At the end of its input \<open>select\<close> reports descriptor 0 in every round, \<open>fgets\<close> fails and the round ends:
  answers that come later are never read, and the loop spins.
\<close>

lemma client_deaf_at_end:
  assumes "rc_keys c = []" "rc_state c = None" "\<forall>e \<in> set es. \<exists>ipid ok sock. e = Ready ipid ok True sock"
  shows "raw_client_loop server port es c = Some c"
  using assms(3)
proof (induction es)
  case (Cons e es)
  then obtain ipid ok sock where "e = Ready ipid ok True sock" by auto
  with Cons assms(1,2) show ?case by (simp add: raw_client_round_def fgets_def)
qed (simp add: assms(2))

end
