(* ===== verification/File_Copy.thy ===== *)
theory File_Copy
  imports Step_Interface C_Decimal
begin

text \<open>
  module3/01: a parent sends files through one pipe to a child, which writes the copies and
  acknowledges each through a second pipe (process.c, file\_utils.c), and the set-up of the two
  processes (main.c).

  A pipe is the bytes written and not yet read: \<open>read\<close> takes what is there, up to the size of the
  buffer, and waits for an empty pipe while the other process lives; \<open>write\<close> waits while the bytes do
  not fit and ends the process (SIGPIPE) when nobody reads any more. A step of a process is at most
  one such wait with the work up to the next. The \<open>usleep\<close> calls only delay and are left out: no
  order of steps follows from them. Progress messages are left out.
\<close>

definition COPY_BUFFER :: nat where "COPY_BUFFER = 4096"
definition MAX_FILENAME :: nat where "MAX_FILENAME = 256"
definition HEADER_LEN :: nat where "HEADER_LEN = 512"
definition PIPE_CAPACITY :: nat where "PIPE_CAPACITY = 65536"

lemmas copy_sizes = COPY_BUFFER_def MAX_FILENAME_def HEADER_LEN_def PIPE_CAPACITY_def

section \<open>State\<close>

text \<open>
  The parent waits for the ready message, is at the top of its loop over the names left, sends a file
  from an offset on, waits for the acknowledgement, has ended, or was ended by SIGPIPE.
\<close>

datatype parent_pc =
    Par_Ready "string list" | Par_File "string list" | Par_Send string nat "string list" | Par_Ack "string list"
  | Par_Done | Par_Killed

datatype child_pc = Chi_Start | Chi_Read | Chi_Done | Chi_Killed

record child =
  ch_pc :: child_pc
  ch_file :: "string option"
  ch_filename :: "string option"
  ch_file_size :: int
  ch_total :: int
  is_receiving :: bool

text \<open>
  \<open>readable\<close>, \<open>creatable\<close> and \<open>writable\<close> are the files on which opening for reading, creating and
  writing succeed.
\<close>

record copier =
  data_pipe :: string
  ack_pipe :: string
  parent :: parent_pc
  child :: child
  disk :: "string \<rightharpoonup> string"
  readable :: "string \<Rightarrow> bool"
  creatable :: "string \<Rightarrow> bool"
  writable :: "string \<Rightarrow> bool"

definition parent_gone :: "copier \<Rightarrow> bool" where
  "parent_gone s \<longleftrightarrow> parent s = Par_Done \<or> parent s = Par_Killed"

definition child_gone :: "copier \<Rightarrow> bool" where
  "child_gone s \<longleftrightarrow> ch_pc (child s) = Chi_Done \<or> ch_pc (child s) = Chi_Killed"

section \<open>file\_utils.c\<close>

definition create_copy_name :: "string \<Rightarrow> string option" where
  "create_copy_name original = strcpy_into MAX_FILENAME (original @ ''.copy'')"

definition get_file_size :: "copier \<Rightarrow> string \<Rightarrow> int" where
  "get_file_size s f = (if readable s f then (case disk s f of None \<Rightarrow> -1 | Some c \<Rightarrow> int (length c)) else -1)"

section \<open>parent\_process\<close>

definition file_header :: "string \<Rightarrow> int \<Rightarrow> string" where
  "file_header f sz = snprintf_into HEADER_LEN (''FILE:'' @ f @ ''|SIZE:'' @ show_int sz)"

text \<open>The parent writes to the data pipe and goes on to \<open>next\<close>.\<close>

definition parent_write :: "string \<Rightarrow> parent_pc \<Rightarrow> copier \<Rightarrow> copier outcome" where
  "parent_write bytes next s =
     (if child_gone s then Stepped (s\<lparr>parent := Par_Killed\<rparr>)
      else if PIPE_CAPACITY < length (data_pipe s) + length bytes then Blocked
      else Stepped (s\<lparr>data_pipe := data_pipe s @ bytes, parent := next\<rparr>))"

text \<open>It reads up to ten bytes of the acknowledgement pipe.\<close>

definition parent_read_ack :: "parent_pc \<Rightarrow> copier \<Rightarrow> copier outcome" where
  "parent_read_ack next s =
     (if ack_pipe s = [] \<and> \<not> child_gone s then Blocked
      else Stepped (s\<lparr>ack_pipe := drop 10 (ack_pipe s), parent := next\<rparr>))"

definition parent_step :: "copier \<Rightarrow> copier outcome" where
  "parent_step s =
     (case parent s of
        Par_Ready fs \<Rightarrow> parent_read_ack (Par_File fs) s
      | Par_File [] \<Rightarrow> parent_write (''END'' @ [NUL]) Par_Done s
      | Par_File (f # fs) \<Rightarrow>
          (if disk s f = None \<or> \<not> readable s f then Stepped (s\<lparr>parent := Par_File fs\<rparr>)
           else case create_copy_name f of
             None \<Rightarrow> Fault
           | Some _ \<Rightarrow> parent_write (file_header f (get_file_size s f) @ [NUL]) (Par_Send f 0 fs) s)
      | Par_Send f off fs \<Rightarrow>
          (let buffer = take COPY_BUFFER (drop off (case disk s f of None \<Rightarrow> [] | Some c \<Rightarrow> c)) in
           if buffer = [] then Stepped (s\<lparr>parent := Par_Ack fs\<rparr>)
           else parent_write buffer (Par_Send f (off + length buffer) fs) s)
      | Par_Ack fs \<Rightarrow> parent_read_ack (Par_File fs) s
      | Par_Done \<Rightarrow> Blocked
      | Par_Killed \<Rightarrow> Blocked)"

section \<open>child\_process\<close>

text \<open>\<open>write(ack_write_fd, ack, strlen(ack) + 1)\<close>; the pipe never fills up, one acknowledgement a file.\<close>

definition child_write_ack :: "string \<Rightarrow> copier \<Rightarrow> copier" where
  "child_write_ack text s =
     (if parent_gone s then s\<lparr>child := (child s)\<lparr>ch_pc := Chi_Killed\<rparr>\<rparr>
      else s\<lparr>ack_pipe := ack_pipe s @ text @ [NUL]\<rparr>)"

text \<open>The end of a file: the copy is closed and acknowledged.\<close>

definition close_copy :: "copier \<Rightarrow> copier" where
  "close_copy s = child_write_ack ''ACK'' (s\<lparr>child := (child s)\<lparr>ch_file := None, is_receiving := False\<rparr>\<rparr>)"

text \<open>
  The header in the buffer \<open>buf\<close>, which starts with \<open>FILE:\<close>. The name ends at the first bar after
  that, where a zero is stored; \<open>size_part\<close> was found in the whole buffer before. \<open>sscanf\<close> leaves the
  size as it is when there is no number.
\<close>

definition parse_header :: "string \<Rightarrow> string option \<Rightarrow> int \<Rightarrow> (string option \<times> int) option option" where
  "parse_header buf old_name old_size =
     (let file_part = drop 5 buf in
      case strstr buf ''SIZE:'' of
        None \<Rightarrow> Some None
      | Some i \<Rightarrow> do {
          (name, buf') \<leftarrow> (case strchr file_part (CHR ''|'') of
              None \<Rightarrow> Some (old_name, buf)
            | Some k \<Rightarrow> map_option (\<lambda>n. (Some n, take (5 + k) buf @ NUL # drop (6 + k) buf))
                         (strcpy_into MAX_FILENAME (take k file_part)));
          let size_part = cstr (drop i buf');
          Some (Some (name, if prefix ''SIZE:'' size_part
                            then (case strtol (drop 5 size_part) of None \<Rightarrow> old_size | Some n \<Rightarrow> n) else old_size))
        })"

definition child_header :: "string \<Rightarrow> copier \<Rightarrow> copier option" where
  "child_header buf s = do {
     let s1 = (if ch_file (child s) \<noteq> None then close_copy s else s);
     if ch_pc (child s1) = Chi_Killed then Some s1
     else do {
       r \<leftarrow> parse_header buf (ch_filename (child s1)) (ch_file_size (child s1));
       case r of
         None \<Rightarrow> Some s1
       | Some (name, sz) \<Rightarrow> do {
           f \<leftarrow> name;
           copy_name \<leftarrow> create_copy_name f;
           let c = (child s1)\<lparr>ch_filename := Some f, ch_file_size := sz\<rparr>;
           if \<not> creatable s1 copy_name then Some (s1\<lparr>child := c\<lparr>ch_file := None\<rparr>\<rparr>)
           else (let s2 = s1\<lparr>disk := (disk s1)(copy_name \<mapsto> [])\<rparr> in
             Some (if sz = 0 then close_copy (s2\<lparr>child := c\<lparr>ch_file := Some copy_name\<rparr>\<rparr>)
                   else s2\<lparr>child := c\<lparr>ch_file := Some copy_name, is_receiving := True, ch_total := 0\<rparr>\<rparr>))
         }
     }
   }"

definition child_end :: "copier \<Rightarrow> copier" where
  "child_end s =
     (let s1 = (if ch_file (child s) \<noteq> None
                then child_write_ack ''ACK'' (s\<lparr>child := (child s)\<lparr>ch_file := None\<rparr>\<rparr>) else s)
      in if ch_pc (child s1) = Chi_Killed then s1 else s1\<lparr>child := (child s1)\<lparr>ch_pc := Chi_Done\<rparr>\<rparr>)"

text \<open>Bytes of the file. The total is an \<open>int\<close>, whose overflow is undefined.\<close>

definition child_data :: "string \<Rightarrow> copier \<Rightarrow> copier option" where
  "child_data bytes s =
     (let c = child s in
      case ch_file c of
        None \<Rightarrow> Some s
      | Some path \<Rightarrow>
          if \<not> is_receiving c then Some s
          else (let bytes_to_write = ch_file_size c - ch_total c in
            if bytes_to_write \<le> 0 then Some (close_copy s)
            else (let write_bytes = (if int (length bytes) < bytes_to_write then length bytes else nat bytes_to_write) in
              if \<not> writable s path
              then Some (s\<lparr>child := c\<lparr>ch_file := None, is_receiving := False\<rparr>\<rparr>)
              else if 2 ^ 31 \<le> ch_total c + int write_bytes then None
              else do {
                old \<leftarrow> disk s path;
                let s1 = s\<lparr>disk := (disk s)(path \<mapsto> old @ take write_bytes bytes),
                           child := c\<lparr>ch_total := ch_total c + int write_bytes\<rparr>\<rparr>;
                Some (if ch_file_size c \<le> ch_total c + int write_bytes then close_copy s1 else s1)
              })))"

text \<open>One piece of at most 4095 bytes read from the pipe; the comparisons see it up to a NUL byte.\<close>

definition child_receive :: "string \<Rightarrow> copier \<Rightarrow> copier option" where
  "child_receive bytes s =
     (if strncmp (cstr bytes) ''FILE:'' 5 = 0 then child_header (cstr bytes) s
      else if strncmp (cstr bytes) ''END'' 3 = 0 then Some (child_end s)
      else child_data bytes s)"

definition child_step :: "copier \<Rightarrow> copier outcome" where
  "child_step s =
     (case ch_pc (child s) of
        Chi_Start \<Rightarrow>
          (let s1 = child_write_ack ''READY'' s in
           Stepped (if ch_pc (child s1) = Chi_Killed then s1 else s1\<lparr>child := (child s1)\<lparr>ch_pc := Chi_Read\<rparr>\<rparr>))
      | Chi_Read \<Rightarrow>
          (if data_pipe s = [] then
             (if parent_gone s then Stepped (s\<lparr>child := (child s)\<lparr>ch_file := None, ch_pc := Chi_Done\<rparr>\<rparr>) else Blocked)
           else or_fault (child_receive (take (COPY_BUFFER - 1) (data_pipe s))
                            (s\<lparr>data_pipe := drop (COPY_BUFFER - 1) (data_pipe s)\<rparr>)))
      | Chi_Done \<Rightarrow> Blocked
      | Chi_Killed \<Rightarrow> Blocked)"

section \<open>The two processes (main.c)\<close>

datatype who = Parent | Child

definition copy_step :: "who \<Rightarrow> copier \<Rightarrow> copier outcome" where
  "copy_step w s = (case w of Parent \<Rightarrow> parent_step s | Child \<Rightarrow> child_step s)"

definition copy_start :: "string list \<Rightarrow> (string \<rightharpoonup> string) \<Rightarrow> (string \<Rightarrow> bool) \<Rightarrow> (string \<Rightarrow> bool) \<Rightarrow> (string \<Rightarrow> bool) \<Rightarrow> copier" where
  "copy_start names files r c w =
     \<lparr>data_pipe = [], ack_pipe = [], parent = Par_Ready names,
      child = \<lparr>ch_pc = Chi_Start, ch_file = None, ch_filename = None, ch_file_size = 0, ch_total = 0, is_receiving = False\<rparr>,
      disk = files, readable = r, creatable = c, writable = w\<rparr>"

text \<open>The arguments: the name of the named pipes, if any, and the files.\<close>

datatype copy_error = Usage | PipeArguments | NoFiles

definition copy_arguments :: "string list \<Rightarrow> copy_error + (string option \<times> string list)" where
  "copy_arguments argv =
     (if length argv < 2 then Inl Usage
      else if strcmp (argv ! 1) ''-p'' = 0 then
        (if length argv < 4 then Inl PipeArguments
         else if length argv \<le> 3 then Inl NoFiles
         else Inr (Some (argv ! 2), drop 3 argv))
      else if length argv \<le> 1 then Inl NoFiles
      else Inr (None, drop 1 argv))"

text \<open>
  The named pipes on disk: the set of the names that exist. \<open>mkfifo\<close> makes one, finds the name taken
  (which is accepted), or fails. The result is whether the run goes on and what is on disk then.
\<close>

definition fifo_names :: "string \<Rightarrow> string \<times> string" where
  "fifo_names p = (snprintf_into 256 (p @ ''_data''), snprintf_into 256 (p @ ''_ack''))"

definition mkfifo :: "(string \<Rightarrow> bool) \<Rightarrow> string \<Rightarrow> string set \<Rightarrow> string set option" where
  "mkfifo ok nm fifos = (if nm \<in> fifos then Some fifos else if ok nm then Some (insert nm fifos) else None)"

definition make_fifos :: "(string \<Rightarrow> bool) \<Rightarrow> string \<Rightarrow> string set \<Rightarrow> bool \<times> string set" where
  "make_fifos ok p fifos =
     (let (data_name, ack_name) = fifo_names p in
      case mkfifo ok data_name fifos of
        None \<Rightarrow> (False, fifos)
      | Some fifos1 \<Rightarrow>
          (case mkfifo ok ack_name fifos1 of
             None \<Rightarrow> (False, fifos1 - {data_name})
           | Some fifos2 \<Rightarrow> (True, fifos2)))"

text \<open>
  Opening a named pipe waits for the other side: it succeeds in both processes, fails in both, or one
  waits for ever (\<open>None\<close>), the parent in \<open>open\<close> or, when its own \<open>open\<close> failed, in \<open>wait\<close>.
\<close>

definition open_both :: "bool \<times> bool \<Rightarrow> bool option" where
  "open_both r = (case r of (child_ok, parent_ok) \<Rightarrow> if child_ok = parent_ok then Some child_ok else None)"

definition copy_named :: "(string \<Rightarrow> bool) \<Rightarrow> bool \<Rightarrow> bool \<times> bool \<Rightarrow> bool \<times> bool \<Rightarrow> string \<Rightarrow> string set \<Rightarrow>
    (bool \<times> string set) option" where
  "copy_named ok fork_ok data_open ack_open p fifos =
     (let (made, fifos1) = make_fifos ok p fifos;
          removed = fifos1 - {fst (fifo_names p), snd (fifo_names p)}
      in if \<not> made then Some (False, fifos1)
         else if \<not> fork_ok then Some (False, removed)
         else do {
           d \<leftarrow> open_both data_open;
           if \<not> d then Some (False, removed)
           else do {
             a \<leftarrow> open_both ack_open;
             Some (a, removed)
           }
         })"

end
