(* ===== verification/File_Copy_Props.thy ===== *)
theory File_Copy_Props
  imports File_Copy
begin

text \<open>
  What the two copying processes achieve. With the order of steps the delays aim at, every file is
  copied and both processes end, whatever the schedule (\<open>copies_complete\<close>, \<open>copier_terminates\<close>); the
  hypotheses are what the header format and the recognition of messages in the byte stream need. Each
  of the other properties drops one of them.
\<close>

section \<open>The order assumed\<close>

text \<open>
  The code orders the parent's writes after the child's reads by delays only. \<open>polite_step\<close> is not code
  but the assumption that every delay is long enough: the schedules in which the parent goes on only when
  the child has read everything.
\<close>

definition polite_step :: "who \<Rightarrow> copier \<Rightarrow> copier outcome" where
  "polite_step w s = (if w = Parent \<and> data_pipe s \<noteq> [] then Blocked else copy_step w s)"

section \<open>Headers\<close>

definition plain_name :: "string \<Rightarrow> bool" where
  "plain_name f \<longleftrightarrow> NUL \<notin> set f \<and> CHR ''|'' \<notin> set f \<and> \<not> sublist ''SIZE:'' f \<and> length f + 5 < MAX_FILENAME"

text \<open>No block of 4096 bytes starts like a message.\<close>

definition plain_content :: "string \<Rightarrow> bool" where
  "plain_content c \<longleftrightarrow> length c < 2 ^ 31 \<and>
     (\<forall>j. \<not> prefix ''FILE:'' (drop (COPY_BUFFER * j) c) \<and> \<not> prefix ''END'' (drop (COPY_BUFFER * j) c))"

lemma strstr_at:
  assumes "\<And>i. i < length a \<Longrightarrow> \<not> prefix p (drop i (a @ p @ b))"
  shows "strstr (a @ p @ b) p = Some (length a)"
  using assms
proof (induction a)
  case Nil
  then show ?case by (cases "p @ b") (auto intro: prefixI[of _ p b])
next
  case (Cons x a)
  have "\<not> prefix p (drop i (a @ p @ b))" if "i < length a" for i using Cons.prems[of "Suc i"] that by simp
  then have "strstr (a @ p @ b) p = Some (length a)" by (rule Cons.IH)
  moreover have "\<not> prefix p (x # a @ p @ b)" using Cons.prems[of 0] by simp
  ultimately show ?case by simp
qed

lemma prefix_drop_sublist: "prefix p (drop i s) \<Longrightarrow> sublist p s"
  by (metis prefix_imp_sublist sublist_order.order.trans sublist_drop)

lemma prefix_before_bar:
  assumes "prefix p (drop i (a @ CHR ''|'' # b))" "i \<le> length a" "CHR ''|'' \<notin> set p"
  shows "prefix p (drop i a)"
proof -
  have "drop i (a @ CHR ''|'' # b) = drop i a @ CHR ''|'' # b" using assms(2) by simp
  then have p: "prefix p (drop i a @ CHR ''|'' # b)" using assms(1) by simp
  then show ?thesis
    using assms(3) by (auto simp: prefix_append prefix_Cons)
qed

lemma size_marker_first:
  assumes "plain_name f"
  shows "strstr (''FILE:'' @ f @ ''|SIZE:'' @ n) ''SIZE:'' = Some (6 + length f)"
proof -
  have "\<not> prefix ''SIZE:'' (drop i ((''FILE:'' @ f @ ''|'') @ ''SIZE:'' @ n))" if i: "i < length (''FILE:'' @ f @ ''|'')" for i
  proof
    assume "prefix ''SIZE:'' (drop i ((''FILE:'' @ f @ ''|'') @ ''SIZE:'' @ n))"
    then have p: "prefix ''SIZE:'' (drop i (''FILE:'' @ f))"
      using i prefix_before_bar[of "''SIZE:''" i "''FILE:'' @ f" "''SIZE:'' @ n"] by simp
    have "5 \<le> i"
      using p by (rule_tac ccontr) (auto simp: not_le numeral_eq_Suc less_Suc_eq)
    then have "prefix ''SIZE:'' (drop (i - 5) f)" using p by (simp add: drop_Cons' numeral_eq_Suc)
    then show False using assms prefix_drop_sublist by (auto simp: plain_name_def)
  qed
  from strstr_at[OF this] show ?thesis by simp
qed

lemma parse_header_name:
  assumes "plain_name f" "0 \<le> n" "n < 2 ^ 31"
  shows "parse_header (''FILE:'' @ f @ ''|SIZE:'' @ show_int n) nm sz = Some (Some (Some f, n))"
proof -
  let ?buf = "''FILE:'' @ f @ ''|SIZE:'' @ show_int n"
  have "strtol (show_int n @ []) = Some (clamp64 n)" by (rule strtol_show_int) simp
  moreover have "clamp64 n = n" using assms(2,3) by (simp add: clamp64_def)
  ultimately have num: "strtol (drop 5 (''SIZE:'' @ show_int n)) = Some n" by simp
  have "drop (6 + length f) (take (5 + length f) ?buf @ NUL # drop (6 + length f) ?buf) = ''SIZE:'' @ show_int n"
    by (simp add: drop_Cons')
  moreover have "cstr (''SIZE:'' @ show_int n) = ''SIZE:'' @ show_int n"
    by (simp add: cstr_def takeWhile_eq_all_conv) (simp add: NUL_def)
  ultimately have part: "cstr (drop (6 + length f) (take (5 + length f) ?buf @ NUL # drop (6 + length f) ?buf)) =
      ''SIZE:'' @ show_int n" by simp
  have "drop 5 ?buf = f @ CHR ''|'' # ''SIZE:'' @ show_int n" by simp
  moreover have "strchr (f @ CHR ''|'' # ''SIZE:'' @ show_int n) (CHR ''|'') = Some (length f)" "length f < MAX_FILENAME"
    using assms(1) by (simp_all add: plain_name_def MAX_FILENAME_def del: append_Cons)
  ultimately show ?thesis
    using size_marker_first[OF assms(1), of "show_int n"] num part by (simp add: parse_header_def Let_def del: append_Cons append.simps drop_append)
qed


lemma file_header_text:
  assumes "plain_name f" "0 \<le> n" "n < 2 ^ 31"
  shows "file_header f n = ''FILE:'' @ f @ ''|SIZE:'' @ show_int n" "length (file_header f n) < 300"
    "cstr (file_header f n @ [NUL]) = file_header f n" "NUL \<notin> set (file_header f n)"
proof -
  have len: "length (''FILE:'' @ f @ ''|SIZE:'' @ show_int n) < 300"
    using assms length_show_int[of n] by (simp add: plain_name_def MAX_FILENAME_def)
  then show h: "file_header f n = ''FILE:'' @ f @ ''|SIZE:'' @ show_int n"
    by (simp add: file_header_def HEADER_LEN_def del: append_Cons append.simps)
  with len show "length (file_header f n) < 300" by simp
  have "NUL \<notin> set (''FILE:'' @ f @ ''|SIZE:'' @ show_int n)"
    using assms(1) by (simp add: plain_name_def) (simp add: NUL_def)
  then show "NUL \<notin> set (file_header f n)" using h by metis
  then show "cstr (file_header f n @ [NUL]) = file_header f n"
    by (simp add: cstr_def)
qed

lemma not_killed [simp]: "\<not> parent_gone s \<Longrightarrow> close_copy s = s\<lparr>ack_pipe := ack_pipe s @ ''ACK'' @ [NUL],
    child := (child s)\<lparr>ch_file := None, is_receiving := False\<rparr>\<rparr>"
  by (simp add: close_copy_def child_write_ack_def parent_gone_def)

lemma tags: "strncmp b ''FILE:'' 5 = 0 \<longleftrightarrow> prefix ''FILE:'' b" "strncmp b ''END'' 3 = 0 \<longleftrightarrow> prefix ''END'' b"
  using strncmp_prefix[of b "''FILE:''"] strncmp_prefix[of b "''END''"] by (simp_all add: numeral_eq_Suc)

lemma child_reads_header:
  assumes "plain_name f" "0 \<le> n" "n < 2 ^ 31" "\<not> parent_gone s" "creatable s (f @ ''.copy'')"
    and "ch_pc (child s) = Chi_Read" "ch_file (child s) = None" "data_pipe s = file_header f n @ [NUL]"
  shows "\<exists>s'. child_step s = Stepped s' \<and> data_pipe s' = [] \<and> parent s' = parent s \<and>
    readable s' = readable s \<and> creatable s' = creatable s \<and> writable s' = writable s \<and>
    disk s' = (disk s)(f @ ''.copy'' \<mapsto> []) \<and> ch_pc (child s') = Chi_Read \<and>
    (if n = 0 then ch_file (child s') = None \<and> ack_pipe s' = ack_pipe s @ ''ACK'' @ [NUL]
     else ch_file (child s') = Some (f @ ''.copy'') \<and> is_receiving (child s') \<and> ch_file_size (child s') = n \<and>
          ch_total (child s') = 0 \<and> ack_pipe s' = ack_pipe s)"
proof -
  note h = file_header_text[OF assms(1-3)]
  have whole: "take (COPY_BUFFER - 1) (data_pipe s) = file_header f n @ [NUL]" "drop (COPY_BUFFER - 1) (data_pipe s) = []"
    using h(2) assms(8) by (simp_all add: COPY_BUFFER_def)
  have "prefix ''FILE:'' (file_header f n)" using h(1) by (metis prefixI)
  then have tag: "strncmp (file_header f n) ''FILE:'' 5 = 0" by (simp add: tags)
  have name: "create_copy_name f = Some (f @ ''.copy'')"
    using assms(1) by (simp add: create_copy_name_def plain_name_def)
  have "child_step s = or_fault (child_header (file_header f n) (s\<lparr>data_pipe := []\<rparr>))"
    using assms(6,8) whole tag h(3) by (simp add: child_step_def child_receive_def)
  moreover have "\<not> parent_gone (s\<lparr>data_pipe := [], disk := d, child := ch\<rparr>)" for d ch using assms(4) by (simp add: parent_gone_def)
  ultimately show ?thesis
    using assms(5-7) name parse_header_name[OF assms(1-3)] h(1) by (cases "n = 0") (simp_all add: child_header_def)
qed

section \<open>The invariant of a polite run\<close>

definition transferable :: "copier \<Rightarrow> string \<Rightarrow> string \<Rightarrow> bool" where
  "transferable s0 f c \<longleftrightarrow> disk s0 f = Some c \<and> readable s0 f"

definition copies :: "string list \<Rightarrow> string set" where
  "copies names = (\<lambda>f. f @ ''.copy'') ` set names"

text \<open>
  What a run needs of the files: names and contents that the stream protocol can carry, copies that can
  be made and that are not among the files to send.
\<close>

definition copy_ok :: "copier \<Rightarrow> string list \<Rightarrow> bool" where
  "copy_ok s0 names \<longleftrightarrow>
     (\<forall>f \<in> set names. f \<notin> copies names \<and>
        (\<forall>c. transferable s0 f c \<longrightarrow>
           plain_name f \<and> plain_content c \<and> creatable s0 (f @ ''.copy'') \<and> writable s0 (f @ ''.copy'')))"

definition copied :: "copier \<Rightarrow> string set \<Rightarrow> copier \<Rightarrow> bool" where
  "copied s0 F s \<longleftrightarrow> (\<forall>f \<in> F. \<forall>c. transferable s0 f c \<longrightarrow> disk s (f @ ''.copy'') = Some c)"

definition unchanged :: "copier \<Rightarrow> string list \<Rightarrow> copier \<Rightarrow> bool" where
  "unchanged s0 names s \<longleftrightarrow> readable s = readable s0 \<and> creatable s = creatable s0 \<and> writable s = writable s0 \<and>
     (\<forall>f. f \<notin> copies names \<longrightarrow> disk s f = disk s0 f)"

definition idle :: "copier \<Rightarrow> bool" where
  "idle s \<longleftrightarrow> ch_pc (child s) = Chi_Read \<and> ch_file (child s) = None"

text \<open>The child has \<open>k\<close> bytes of the file and the parent has sent \<open>off\<close>: the rest is in the pipe.\<close>

definition sending :: "string \<Rightarrow> string \<Rightarrow> nat \<Rightarrow> nat \<Rightarrow> copier \<Rightarrow> bool" where
  "sending f c off k s \<longleftrightarrow>
     ch_pc (child s) = Chi_Read \<and> ch_file (child s) = Some (f @ ''.copy'') \<and> is_receiving (child s) \<and>
     ch_file_size (child s) = int (length c) \<and> ch_total (child s) = int k \<and> disk s (f @ ''.copy'') = Some (take k c) \<and>
     data_pipe s = take (off - k) (drop k c) \<and> ack_pipe s = [] \<and> k \<le> off \<and> k < length c \<and>
     (COPY_BUFFER dvd k \<and> off \<le> k + COPY_BUFFER \<or> COPY_BUFFER dvd Suc k \<and> off \<le> Suc k)"

definition copy_inv :: "copier \<Rightarrow> string list \<Rightarrow> copier \<Rightarrow> bool" where
  "copy_inv s0 names s \<longleftrightarrow> unchanged s0 names s \<and>
     (case parent s of
        Par_Ready fs \<Rightarrow> fs = names \<and> data_pipe s = [] \<and> ch_file (child s) = None \<and>
          (ch_pc (child s) = Chi_Start \<and> ack_pipe s = [] \<or> ch_pc (child s) = Chi_Read \<and> ack_pipe s = ''READY'' @ [NUL])
      | Par_File fs \<Rightarrow> \<exists>pre. names = pre @ fs \<and> copied s0 (set pre) s \<and> data_pipe s = [] \<and> ack_pipe s = [] \<and> idle s
      | Par_Send f off fs \<Rightarrow> \<exists>pre c. names = pre @ f # fs \<and> transferable s0 f c \<and> copied s0 (set pre - {f}) s \<and>
          off \<le> length c \<and> (COPY_BUFFER dvd off \<or> off = length c) \<and>
          (off = 0 \<and> data_pipe s = file_header f (int (length c)) @ [NUL] \<and> ack_pipe s = [] \<and> idle s \<or>
           (\<exists>k. sending f c off k s) \<or>
           off = length c \<and> data_pipe s = [] \<and> ack_pipe s = ''ACK'' @ [NUL] \<and> idle s \<and> disk s (f @ ''.copy'') = Some c)
      | Par_Ack fs \<Rightarrow> \<exists>pre. names = pre @ fs \<and> copied s0 (set pre) s \<and> data_pipe s = [] \<and>
          ack_pipe s = ''ACK'' @ [NUL] \<and> idle s
      | Par_Done \<Rightarrow> copied s0 (set names) s \<and> ack_pipe s = [] \<and>
          (data_pipe s = ''END'' @ [NUL] \<and> idle s \<or> data_pipe s = [] \<and> ch_pc (child s) = Chi_Done)
      | Par_Killed \<Rightarrow> False)"


section \<open>The steps keep it\<close>

lemma polite_Parent: "polite_step Parent s = (if data_pipe s = [] then parent_step s else Blocked)"
  and polite_Child: "polite_step Child s = child_step s"
  by (simp_all add: polite_step_def copy_step_def)

lemma inv_alive: "copy_inv s0 names s \<Longrightarrow> data_pipe s = [] \<Longrightarrow> parent s \<noteq> Par_Done \<Longrightarrow> \<not> child_gone s"
  by (auto simp: copy_inv_def child_gone_def idle_def sending_def split: parent_pc.splits)

lemma unchanged_source: "unchanged s0 names s \<Longrightarrow> copy_ok s0 names \<Longrightarrow> f \<in> set names \<Longrightarrow> transferable s0 f c \<Longrightarrow> disk s f = Some c"
  by (auto simp: unchanged_def copy_ok_def transferable_def)

lemma dvd_block_end: "COPY_BUFFER dvd off \<Longrightarrow> COPY_BUFFER dvd off + min n COPY_BUFFER \<or> n < COPY_BUFFER"
  by (auto simp: min_def)

text \<open>The measure: what is left to write, twice the bytes of the files left and more than a header each, and to read.\<close>

fun rest_cost :: "copier \<Rightarrow> string list \<Rightarrow> nat" where
  "rest_cost s0 [] = 5"
| "rest_cost s0 (f # fs) = 520 + 2 * (case disk s0 f of None \<Rightarrow> 0 | Some c \<Rightarrow> length c) + rest_cost s0 fs"

definition copy_left :: "copier \<Rightarrow> copier \<Rightarrow> nat" where
  "copy_left s0 s =
     (case parent s of
        Par_Ready fs \<Rightarrow> rest_cost s0 fs + 1
      | Par_File fs \<Rightarrow> rest_cost s0 fs
      | Par_Send f off fs \<Rightarrow> rest_cost s0 fs + 2 + 2 * (case disk s0 f of None \<Rightarrow> 0 | Some c \<Rightarrow> length c - off)
      | Par_Ack fs \<Rightarrow> rest_cost s0 fs + 1
      | _ \<Rightarrow> 0) + length (data_pipe s) + (case ch_pc (child s) of Chi_Start \<Rightarrow> 2 | Chi_Read \<Rightarrow> 1 | _ \<Rightarrow> 0)"

lemma parent_keeps:
  assumes "copy_ok s0 names" "copy_inv s0 names s" "data_pipe s = []"
  shows "parent_step s = Blocked \<or> (\<exists>s'. parent_step s = Stepped s' \<and> copy_inv s0 names s' \<and> copy_left s0 s' < copy_left s0 s)"
proof (cases "parent s")
  case (Par_Ready fs)
  then show ?thesis using assms(2,3)
    by (auto simp: parent_step_def parent_read_ack_def copy_inv_def copied_def idle_def unchanged_def copy_left_def
        child_gone_def)
next
  case (Par_File fs)
  with assms obtain pre where pre: "names = pre @ fs" "copied s0 (set pre) s" "ack_pipe s = []" "idle s" "unchanged s0 names s"
    by (auto simp: copy_inv_def)
  show ?thesis
  proof (cases fs)
    case Nil
    then show ?thesis using Par_File pre assms(3) inv_alive[OF assms(2,3)]
      by (simp add: parent_step_def parent_write_def PIPE_CAPACITY_def copy_inv_def unchanged_def copied_def idle_def
          copy_left_def)
  next
    case (Cons f fs')
    have f: "f \<in> set names" "names = (pre @ [f]) @ fs'" using pre(1) Cons by auto
    show ?thesis
    proof (cases "disk s f = None \<or> \<not> readable s f")
      case True
      then have "\<not> transferable s0 f c" for c
        using unchanged_source[OF pre(5) assms(1) f(1), of c] pre(5) by (auto simp: transferable_def unchanged_def)
      then have "copied s0 (set (pre @ [f])) s" using pre(2) by (simp add: copied_def)
      with True Cons Par_File assms(3) pre f(2) show ?thesis
        by (simp add: parent_step_def copy_inv_def copied_def idle_def unchanged_def copy_left_def)
    next
      case False
      then obtain c where c: "disk s f = Some c" "readable s f" by auto
      have "f \<notin> copies names" using assms(1) f(1) by (auto simp: copy_ok_def)
      then have tr: "transferable s0 f c" using c pre(5) by (simp add: transferable_def unchanged_def)
      with assms(1) f(1) have ok: "plain_name f" "plain_content c" by (auto simp: copy_ok_def)
      then have len: "length c < 2 ^ 31" by (simp add: plain_content_def)
      let ?h = "file_header f (int (length c)) @ [NUL]"
      have short: "length ?h < 301" using file_header_text(2)[OF ok(1), of "int (length c)"] len by simp
      let ?s = "s\<lparr>data_pipe := ?h, parent := Par_Send f 0 fs'\<rparr>"
      have "parent_step s = Stepped ?s"
        using False c Cons Par_File assms(3) pre(4) short ok(1) inv_alive[OF assms(2,3)]
        by (simp add: parent_step_def parent_write_def create_copy_name_def plain_name_def get_file_size_def PIPE_CAPACITY_def)
      moreover have "copy_inv s0 names ?s"
        using pre f tr by (auto simp: copy_inv_def copied_def idle_def unchanged_def)
      moreover have "copy_left s0 ?s < copy_left s0 s"
        using Par_File Cons short tr assms(3) by (simp add: copy_left_def transferable_def)
      ultimately show ?thesis by blast
    qed
  qed
next
  case (Par_Send f off fs)
  with assms(2) obtain pre c where pre: "names = pre @ f # fs" "transferable s0 f c" "copied s0 (set pre - {f}) s"
      "off \<le> length c" "COPY_BUFFER dvd off \<or> off = length c" "unchanged s0 names s"
    and phase: "(\<exists>k. sending f c off k s) \<or>
      off = length c \<and> ack_pipe s = ''ACK'' @ [NUL] \<and> idle s \<and> disk s (f @ ''.copy'') = Some c"
    using assms(3) by (fastforce simp: copy_inv_def)
  have src: "disk s f = Some c" using unchanged_source[OF pre(6) assms(1) _ pre(2)] pre(1) by simp
  show ?thesis
  proof (cases "off = length c")
    case True
    with phase assms(3) have p: "ack_pipe s = ''ACK'' @ [NUL]" "idle s" "disk s (f @ ''.copy'') = Some c"
      by (auto simp: sending_def)
    let ?s = "s\<lparr>parent := Par_Ack fs\<rparr>"
    have "copied s0 (set (pre @ [f])) ?s" using pre(2,3) p(3) by (auto simp: copied_def transferable_def)
    moreover have "names = (pre @ [f]) @ fs" "unchanged s0 names ?s" "idle ?s"
      using pre(1,6) p(2) by (simp_all add: unchanged_def idle_def)
    ultimately have "copy_inv s0 names ?s" using p(1) assms(3) unfolding copy_inv_def by fastforce
    moreover have "parent_step s = Stepped ?s" using Par_Send True src by (simp add: parent_step_def)
    moreover have "copy_left s0 ?s < copy_left s0 s" using Par_Send by (simp add: copy_left_def)
    ultimately show ?thesis by blast
  next
    case False
    with phase pre(4,5) obtain k where k: "sending f c off k s" and off: "off < length c" "COPY_BUFFER dvd off" by auto
    have "k = off" using k assms(3) pre(4) by (auto simp: sending_def)
    let ?b = "take COPY_BUFFER (drop off c)"
    let ?s = "s\<lparr>data_pipe := ?b, parent := Par_Send f (off + length ?b) fs\<rparr>"
    have ne: "?b \<noteq> []" "length ?b \<le> COPY_BUFFER" using off by (auto simp: COPY_BUFFER_def)
    have "parent_step s = Stepped ?s"
      using Par_Send ne assms(3) src inv_alive[OF assms(2,3)]
      by (simp add: parent_step_def parent_write_def copy_sizes)
    moreover have "sending f c (off + length ?b) off ?s"
      using k \<open>k = off\<close> off by (auto simp: sending_def min_def)
    moreover have "COPY_BUFFER dvd off + length ?b \<or> off + length ?b = length c"
      using off by (auto simp: min_def)
    moreover have "copied s0 (set pre - {f}) ?s" "unchanged s0 names ?s" "off + length ?b \<le> length c"
      using pre(3,6) off(1) by (simp_all add: copied_def unchanged_def)
    ultimately have "parent_step s = Stepped ?s \<and> copy_inv s0 names ?s"
      using pre(1,2) unfolding copy_inv_def by (simp, blast)
    moreover have "copy_left s0 ?s < copy_left s0 s"
      using Par_Send ne off pre(2) assms(3) by (auto simp: copy_left_def transferable_def)
    ultimately show ?thesis by blast
  qed
next
  case (Par_Ack fs)
  then show ?thesis using assms(2,3)
    by (auto simp: parent_step_def parent_read_ack_def copy_inv_def copied_def idle_def unchanged_def copy_left_def)
qed (simp_all add: parent_step_def)


text \<open>A piece of the file that does not look like a message is appended to the copy.\<close>

lemma plain_piece:
  assumes "plain_content c" "COPY_BUFFER dvd k \<or> length p \<le> 1" "prefix p (drop k c)"
  shows "\<not> prefix ''FILE:'' (cstr p)" "\<not> prefix ''END'' (cstr p)"
proof -
  have "prefix (cstr p) p" by (simp add: cstr_def takeWhile_is_prefix)
  then have pre: "prefix x p" if "prefix x (cstr p)" for x using that prefix_order.trans by blast
  have "\<not> prefix x p" if "x = ''FILE:'' \<or> x = ''END''" for x
  proof (cases "COPY_BUFFER dvd k")
    case True
    then obtain j where "k = COPY_BUFFER * j" by auto
    then have "\<not> prefix x (drop k c)" using assms(1) that unfolding plain_content_def by blast
    then show ?thesis using assms(3) prefix_order.trans by blast
  next
    case False
    then have "length p < length x" using assms(2) that by auto
    then show ?thesis by (auto dest: prefix_length_le)
  qed
  with pre show "\<not> prefix ''FILE:'' (cstr p)" "\<not> prefix ''END'' (cstr p)" by blast+
qed

lemma child_reads_data:
  assumes "sending f c off k s" "k < off" "off \<le> length c" "COPY_BUFFER dvd off \<or> off = length c"
    and "plain_content c" "writable s (f @ ''.copy'')" "\<not> parent_gone s"
  shows "\<exists>s' k'. child_step s = Stepped s' \<and> parent s' = parent s \<and>
    readable s' = readable s \<and> creatable s' = creatable s \<and> writable s' = writable s \<and>
    length (data_pipe s') < length (data_pipe s) \<and> ch_pc (child s') = Chi_Read \<and>
    disk s' = (disk s)(f @ ''.copy'' \<mapsto> take k' c) \<and>
    (sending f c off k' s' \<or>
     k' = length c \<and> off = length c \<and> data_pipe s' = [] \<and> ack_pipe s' = ''ACK'' @ [NUL] \<and> idle s')"
proof -
  note snd = assms(1)[unfolded sending_def]
  define p where "p = take (COPY_BUFFER - 1) (data_pipe s)"
  define k' where "k' = k + length p"
  have len: "length p = min (COPY_BUFFER - 1) (off - k)" using snd assms(2,3) by (simp add: p_def)
  have p: "p = take (length p) (drop k c)" "0 < length p" "k' \<le> off" "prefix p (drop k c)"
    using snd assms(2,3) len by (auto simp: p_def k'_def COPY_BUFFER_def min_def take_is_prefix)
  have rest: "drop (COPY_BUFFER - 1) (data_pipe s) = take (off - k') (drop k' c)"
    using snd assms(3) len by (auto simp: k'_def drop_take min_def add.commute)
  have ext: "take k c @ p = take k' c" using p(1) by (metis k'_def take_add)
  have "COPY_BUFFER dvd k \<or> length p \<le> 1" using snd len by auto
  note np = plain_piece[OF assms(5) this p(4)]
  have small: "length c < 2 ^ 31" using assms(5) by (simp add: plain_content_def)
  let ?c = "(child s)\<lparr>ch_total := int k'\<rparr>"
  let ?s = "s\<lparr>data_pipe := take (off - k') (drop k' c), disk := (disk s)(f @ ''.copy'' \<mapsto> take k' c), child := ?c\<rparr>"
  have step: "child_step s = Stepped (if k' = length c then close_copy ?s else ?s)"
  proof -
    have "data_pipe s \<noteq> []" using snd assms(2,3) by auto
    then have "child_step s = or_fault (child_data p (s\<lparr>data_pipe := take (off - k') (drop k' c)\<rparr>))"
      using snd np rest by (simp add: child_step_def child_receive_def tags p_def)
    moreover have "(if int (length p) < int (length c) - int k then length p else nat (int (length c) - int k)) = length p"
      using p(3) assms(3) k'_def by auto
    moreover have "int k + int (length p) = int k'" "k < length c" "k' \<le> length c" "k' < 2 ^ 31"
      using snd p(3) assms(3) small by (simp_all add: k'_def)
    ultimately show ?thesis
      using snd assms(6) ext by (simp add: child_data_def Let_def)
  qed
  have alive: "\<not> parent_gone ?s" using assms(7) by (simp add: parent_gone_def)
  have shorter: "length (data_pipe ?s) < length (data_pipe s)" proof -
    have "length (data_pipe s) = off - k" "length (data_pipe ?s) = off - k'" using snd assms(3) by simp_all
    then show ?thesis using p(2,3) k'_def by linarith
  qed
  show ?thesis
  proof (cases "k' = length c")
    case True
    then show ?thesis
      using step alive shorter p(3) assms(3) snd by (intro exI[of _ "close_copy ?s"] exI[of _ k']) (simp add: idle_def)
  next
    case False
    have "COPY_BUFFER dvd k' \<and> off \<le> k' + COPY_BUFFER \<or> COPY_BUFFER dvd Suc k' \<and> off \<le> Suc k'"
    proof (cases "k' = off")
      case True
      then show ?thesis using assms(4) False by auto
    next
      case open_: False
      have "COPY_BUFFER dvd k" "off \<le> k + COPY_BUFFER" "length p = COPY_BUFFER - 1"
        using snd open_ len p(3) assms(2) by (auto simp: k'_def COPY_BUFFER_def min_def split: if_splits)
      moreover from this have "Suc k' = k + COPY_BUFFER" by (simp add: k'_def COPY_BUFFER_def)
      ultimately show ?thesis by simp
    qed
    then have "sending f c off k' ?s" using snd p(3) assms(3) False by (auto simp: sending_def)
    with False step shorter snd show ?thesis by (intro exI[of _ ?s] exI[of _ k']) simp
  qed
qed


lemma copied_update: "copied s0 F s \<Longrightarrow> f \<notin> F \<Longrightarrow> disk s' = (disk s)(f @ ''.copy'' \<mapsto> x) \<Longrightarrow> copied s0 F s'"
  by (auto simp: copied_def)

lemma unchanged_update:
  "unchanged s0 names s \<Longrightarrow> f \<in> set names \<Longrightarrow> disk s' = (disk s)(f @ ''.copy'' \<mapsto> x) \<Longrightarrow>
   readable s' = readable s \<Longrightarrow> creatable s' = creatable s \<Longrightarrow> writable s' = writable s \<Longrightarrow> unchanged s0 names s'"
  by (auto simp: unchanged_def copies_def)

lemma child_sent_keeps:
  assumes "copy_ok s0 names" "copy_inv s0 names s" "parent s = Par_Send f off fs"
  shows "child_step s = Blocked \<or> (\<exists>s'. child_step s = Stepped s' \<and> copy_inv s0 names s' \<and> copy_left s0 s' < copy_left s0 s)"
proof -
  from assms(2,3) obtain pre c where pre: "names = pre @ f # fs" "transferable s0 f c" "copied s0 (set pre - {f}) s"
      "off \<le> length c" "COPY_BUFFER dvd off \<or> off = length c" "unchanged s0 names s"
    and phase: "off = 0 \<and> data_pipe s = file_header f (int (length c)) @ [NUL] \<and> ack_pipe s = [] \<and> idle s \<or>
           (\<exists>k. sending f c off k s) \<or>
           off = length c \<and> data_pipe s = [] \<and> ack_pipe s = ''ACK'' @ [NUL] \<and> idle s \<and> disk s (f @ ''.copy'') = Some c"
    by (auto simp: copy_inv_def)
  have f: "f \<in> set names" using pre(1) by simp
  with assms(1) pre(2) have ok: "plain_name f" "plain_content c" "creatable s0 (f @ ''.copy'')" "writable s0 (f @ ''.copy'')"
    by (auto simp: copy_ok_def)
  have alive: "\<not> parent_gone s" using assms(3) by (simp add: parent_gone_def)
  have goal: ?thesis
    if "child_step s = Stepped s'" "parent s' = parent s" "readable s' = readable s" "creatable s' = creatable s"
      "writable s' = writable s" "disk s' = (disk s)(f @ ''.copy'' \<mapsto> x)" "length (data_pipe s') < length (data_pipe s)"
      "ch_pc (child s') = Chi_Read" "ch_pc (child s) = Chi_Read"
      "(\<exists>k. sending f c off k s') \<or>
         off = length c \<and> data_pipe s' = [] \<and> ack_pipe s' = ''ACK'' @ [NUL] \<and> idle s' \<and> x = c" for s' x
  proof -
    have "unchanged s0 names s'" "copied s0 (set pre - {f}) s'"
      using unchanged_update[OF pre(6) f that(6,3,4,5)] copied_update[OF pre(3) _ that(6)] by auto
    then have "copy_inv s0 names s'"
      using pre that(2,6,10) assms(3) unfolding copy_inv_def by (simp, metis fun_upd_same)
    moreover have "copy_left s0 s' < copy_left s0 s" using that(2,7,8,9) assms(3) by (simp add: copy_left_def)
    ultimately show ?thesis using that(1) by blast
  qed
  from phase show ?thesis
  proof (elim disjE exE conjE)
    assume p: "off = 0" "data_pipe s = file_header f (int (length c)) @ [NUL]" "ack_pipe s = []" "idle s"
    have "int (length c) < 2 ^ 31" "creatable s (f @ ''.copy'')" using ok pre(6) by (auto simp: plain_content_def unchanged_def)
    from child_reads_header[OF ok(1) _ this(1) alive this(2) _ _ p(2)] p(4)
    obtain s' where s': "child_step s = Stepped s'" "data_pipe s' = []" "parent s' = parent s"
        "readable s' = readable s" "creatable s' = creatable s" "writable s' = writable s"
        "disk s' = (disk s)(f @ ''.copy'' \<mapsto> [])" "ch_pc (child s') = Chi_Read"
        "if c = [] then ch_file (child s') = None \<and> ack_pipe s' = ack_pipe s @ ''ACK'' @ [NUL]
         else ch_file (child s') = Some (f @ ''.copy'') \<and> is_receiving (child s') \<and>
           ch_file_size (child s') = int (length c) \<and> ch_total (child s') = 0 \<and> ack_pipe s' = ack_pipe s"
      by (auto simp: idle_def)
    have "(\<exists>k. sending f c off k s') \<or>
         off = length c \<and> data_pipe s' = [] \<and> ack_pipe s' = ''ACK'' @ [NUL] \<and> idle s' \<and> [] = c"
      using s' p(1,3) by (cases "c = []") (auto simp: idle_def sending_def intro!: exI[of _ 0])
    from goal[OF s'(1,3,4,5,6,7) _ s'(8) _ this] s'(2) p(2,4) show ?thesis by (simp add: idle_def)
  next
    fix k assume k: "sending f c off k s"
    show ?thesis
    proof (cases "k < off")
      case True
      have "writable s (f @ ''.copy'')" using ok(4) pre(6) by (simp add: unchanged_def)
      from child_reads_data[OF k True pre(4,5) ok(2) this alive]
      obtain s' k' where "child_step s = Stepped s'" "parent s' = parent s" "readable s' = readable s"
        "creatable s' = creatable s" "writable s' = writable s" "disk s' = (disk s)(f @ ''.copy'' \<mapsto> take k' c)"
        "length (data_pipe s') < length (data_pipe s)" "ch_pc (child s') = Chi_Read"
        "sending f c off k' s' \<or> k' = length c \<and> off = length c \<and> data_pipe s' = [] \<and> ack_pipe s' = ''ACK'' @ [NUL] \<and> idle s'"
        by blast
      then show ?thesis using k goal[of s' "take k' c"] by (auto simp: sending_def)
    next
      case False
      then have "data_pipe s = []" using k by (simp add: sending_def)
      then show ?thesis using k alive by (simp add: child_step_def sending_def)
    qed
  qed (use alive in \<open>simp add: child_step_def idle_def\<close>)
qed

lemma child_keeps:
  assumes "copy_ok s0 names" "copy_inv s0 names s"
  shows "child_step s = Blocked \<or> (\<exists>s'. child_step s = Stepped s' \<and> copy_inv s0 names s' \<and> copy_left s0 s' < copy_left s0 s)"
proof (cases "parent s")
  case (Par_Send f off fs)
  with assms show ?thesis by (rule child_sent_keeps)
next
  case Par_Done
  have "take (COPY_BUFFER - 1) (''END'' @ [NUL]) = ''END'' @ [NUL]" "cstr (''END'' @ [NUL]) = ''END''"
    by (simp add: COPY_BUFFER_def, simp add: cstr_def NUL_def)
  with Par_Done assms(2) show ?thesis
    by (auto simp: child_step_def child_receive_def tags child_end_def copy_inv_def copied_def idle_def unchanged_def copy_left_def
        Let_def)
qed (use assms(2) in \<open>auto simp: child_step_def child_write_ack_def parent_gone_def copy_inv_def copied_def idle_def
       unchanged_def copy_left_def\<close>)

interpretation copying: step_measure polite_step "\<lambda>s. copy_ok s0 names \<and> copy_inv s0 names s" "copy_left s0" for s0 names
proof unfold_locales
  show "polite_step e s \<noteq> Fault" if "copy_ok s0 names \<and> copy_inv s0 names s" for e s
    using that parent_keeps[of s0 names s] child_keeps[of s0 names s] by (cases e) (auto simp: polite_Parent polite_Child)
  show "copy_ok s0 names \<and> copy_inv s0 names s'"
    if "copy_ok s0 names \<and> copy_inv s0 names s" "polite_step e s = Stepped s'" for e s s'
    using that parent_keeps[of s0 names s] child_keeps[of s0 names s]
    by (cases e) (auto simp: polite_Parent polite_Child split: if_splits)
  show "copy_left s0 s' < copy_left s0 s"
    if "copy_ok s0 names \<and> copy_inv s0 names s" "polite_step e s = Stepped s'" for e s s'
    using that parent_keeps[of s0 names s] child_keeps[of s0 names s]
    by (cases e) (auto simp: polite_Parent polite_Child split: if_splits)
qed


section \<open>Every file is copied\<close>

lemma inv_start: "copy_inv (copy_start names D r c w) names (copy_start names D r c w)"
  by (simp add: copy_inv_def copy_start_def unchanged_def)

lemma stuck_complete:
  assumes "copy_inv s0 names s" "stuck polite_step s"
  shows "parent s = Par_Done \<and> ch_pc (child s) = Chi_Done \<and> copied s0 (set names) s"
proof -
  from assms(2) have blocked: "polite_step Parent s = Blocked" "child_step s = Blocked"
    using polite_Child[of s] by (auto simp: stuck_def)
  have empty: "data_pipe s = []"
  proof (rule ccontr)
    assume d: "data_pipe s \<noteq> []"
    then have "ch_pc (child s) = Chi_Read"
      using assms(1) by (auto simp: copy_inv_def idle_def sending_def split: parent_pc.splits)
    with d blocked(2) show False by (simp add: child_step_def)
  qed
  then have "parent_step s = Blocked" using blocked(1) by (simp add: polite_Parent)
  then have "parent s = Par_Done"
    using assms(1) empty blocked(2) inv_alive[OF assms(1) empty]
    by (cases "parent s")
       (auto simp: parent_step_def parent_read_ack_def parent_write_def copy_inv_def child_step_def PIPE_CAPACITY_def
         COPY_BUFFER_def Let_def file_header_def snprintf_into_def HEADER_LEN_def split: list.splits option.splits if_splits)
  with assms(1) empty show ?thesis by (auto simp: copy_inv_def)
qed

text \<open>
  C30. Suppose each delay of the parent lasts until the child has read everything (\<open>polite_step\<close>), and each
  file that can be read has a name short enough for the buffers and without a bar or \<open>SIZE:\<close>, a content of
  less than 2^31 bytes no 4096-byte block of which begins with \<open>END\<close> or \<open>FILE:\<close>, and a copy that can be
  created and written and is not itself among the files. Then no schedule reaches anything undefined, and
  when no process can step any more, both have ended and every file that could be read has a copy with
  exactly its content. Without these conditions it fails: \<open>header_read_with_data_hangs\<close>,
  \<open>content_like_end_kills_parent\<close>.
\<close>

theorem copies_complete:
  assumes "copy_ok (copy_start names D r c w) names"
  shows "\<exists>s. run_steps polite_step es (copy_start names D r c w) = Some s \<and>
    (stuck polite_step s \<longrightarrow> parent s = Par_Done \<and> ch_pc (child s) = Chi_Done \<and>
       (\<forall>f \<in> set names. \<forall>x. D f = Some x \<and> r f \<longrightarrow> disk s (f @ ''.copy'') = Some x))"
proof -
  let ?s0 = "copy_start names D r c w"
  obtain s where "run_steps polite_step es ?s0 = Some s" "copy_inv ?s0 names s"
    using copying.run_good[of ?s0 names ?s0 es] assms inv_start by blast
  then show ?thesis using stuck_complete by (auto simp: copied_def transferable_def copy_start_def)
qed

lemma five_chars: "drop (COPY_BUFFER * j) ''hello'' = (if j = 0 then ''hello'' else [])"
  by (cases j) (simp_all add: COPY_BUFFER_def)

lemma hello_ok: "copy_ok (copy_start [''a'', ''none''] [''a'' \<mapsto> ''hello''] (\<lambda>_. True) (\<lambda>_. True) (\<lambda>_. True)) [''a'', ''none'']"
  using five_chars by (auto simp: copy_ok_def copies_def transferable_def copy_start_def plain_name_def plain_content_def
      MAX_FILENAME_def NUL_def sublist_Cons_right prefix_Cons)

lemma copies_complete_witness:
  "\<exists>s. run_steps polite_step (concat (replicate 9 [Child, Parent]))
      (copy_start [''a'', ''none''] [''a'' \<mapsto> ''hello''] (\<lambda>_. True) (\<lambda>_. True) (\<lambda>_. True)) = Some s \<and>
    (stuck polite_step s \<longrightarrow> disk s ''a.copy'' = Some ''hello'')"
  using copies_complete[OF hello_ok, of "concat (replicate 9 [Child, Parent])"] by auto

text \<open>
  C31. Under the same conditions it ends: the number of steps any such schedule can make is bounded, and from
  every state reached some continuation leads to where no process can step.
\<close>

theorem copier_terminates:
  assumes "copy_ok (copy_start names D r c w) names"
  shows "steps_made polite_step es (copy_start names D r c w) \<le>
      8 + (\<Sum>f\<leftarrow>names. 520 + 2 * (case D f of None \<Rightarrow> 0 | Some x \<Rightarrow> length x)) \<and>
    (\<exists>es' s. run_steps polite_step (es @ es') (copy_start names D r c w) = Some s \<and> stuck polite_step s)"
proof -
  let ?s0 = "copy_start names D r c w"
  have good: "copy_ok ?s0 names \<and> copy_inv ?s0 names ?s0" using assms inv_start by blast
  have "rest_cost ?s0 fs = 5 + (\<Sum>f\<leftarrow>fs. 520 + 2 * (case D f of None \<Rightarrow> 0 | Some x \<Rightarrow> length x))" for fs
    by (induction fs) (simp_all add: copy_start_def)
  then have "copy_left ?s0 ?s0 = 8 + (\<Sum>f\<leftarrow>names. 520 + 2 * (case D f of None \<Rightarrow> 0 | Some x \<Rightarrow> length x))"
    by (simp add: copy_left_def) (simp add: copy_start_def)
  then have "steps_made polite_step es ?s0 \<le> 8 + (\<Sum>f\<leftarrow>names. 520 + 2 * (case D f of None \<Rightarrow> 0 | Some x \<Rightarrow> length x))"
    using copying.schedule_bounded[OF good, of es] by simp
  moreover obtain s1 where s1: "run_steps polite_step es ?s0 = Some s1" "copy_ok ?s0 names \<and> copy_inv ?s0 names s1"
    using copying.run_good[OF good] by blast
  moreover obtain es' s where "run_steps polite_step es' s1 = Some s" "stuck polite_step s"
    using copying.reaches_stuck[OF s1(2)] by blast
  ultimately show ?thesis by (auto simp: run_steps_append)
qed

lemma copier_terminates_witness:
  "\<exists>es s. run_steps polite_step ([Child, Parent] @ es)
      (copy_start [''a'', ''none''] [''a'' \<mapsto> ''hello''] (\<lambda>_. True) (\<lambda>_. True) (\<lambda>_. True)) = Some s \<and> stuck polite_step s"
  using copier_terminates[OF hello_ok] by blast


section \<open>What goes wrong otherwise\<close>

lemma first_steps:
  assumes "plain_name f" "length x < 2 ^ 31" "D f = Some x" "r f"
  assumes "step = copy_step \<or> step = polite_step"
  shows "run_steps step [Child, Parent, Parent] (copy_start (f # fs) D r c w) =
    Some ((copy_start (f # fs) D r c w)\<lparr>data_pipe := file_header f (int (length x)) @ [NUL], parent := Par_Send f 0 fs,
       child := (child (copy_start [] D r c w))\<lparr>ch_pc := Chi_Read\<rparr>\<rparr>)"
proof -
  have "length (file_header f (int (length x))) < 300" using file_header_text(2)[OF assms(1)] assms(2) by simp
  then show ?thesis
    using assms
    by (elim disjE)
       (simp_all add: polite_step_def copy_step_def child_step_def parent_step_def copy_start_def child_write_ack_def
         parent_gone_def child_gone_def parent_read_ack_def parent_write_def create_copy_name_def plain_name_def
         get_file_size_def PIPE_CAPACITY_def)
qed

lemma header_step:
  assumes "plain_name f" "length x < 2 ^ 31" "length x + 300 < COPY_BUFFER" "\<not> parent_gone s"
    and "ch_pc (child s) = Chi_Read" "ch_file (child s) = None" "data_pipe s = file_header f (int (length x)) @ NUL # y"
    "length y \<le> length x"
  shows "child_step s = or_fault (child_header (''FILE:'' @ f @ ''|SIZE:'' @ show_int (int (length x))) (s\<lparr>data_pipe := []\<rparr>))"
proof -
  have h: "file_header f (int (length x)) = ''FILE:'' @ f @ ''|SIZE:'' @ show_int (int (length x))"
    "length (file_header f (int (length x))) < 300" "NUL \<notin> set (file_header f (int (length x)))"
    using file_header_text[OF assms(1), of "int (length x)"] assms(2) by simp_all
  have "cstr (file_header f (int (length x)) @ NUL # y) = file_header f (int (length x))"
    unfolding cstr_def by (rule takeWhile_neq_append[OF h(3)])
  moreover have "take (COPY_BUFFER - 1) (data_pipe s) = data_pipe s" "drop (COPY_BUFFER - 1) (data_pipe s) = []"
    using h(2) assms(3,7,8) by simp_all
  moreover have "prefix ''FILE:'' (file_header f (int (length x)))" using h(1) by (metis prefixI)
  ultimately show ?thesis
    using assms(5,7) h(1) by (simp add: child_step_def child_receive_def tags del: append_Cons append.simps)
qed

text \<open>
  Nothing but the delays keeps a header apart from the bytes of the file behind it: when the child
  reads both at once it drops the bytes, waits for them, and the parent waits for the acknowledgement,
  for ever; the copy stays empty.
\<close>

lemma header_read_with_data_hangs:
  assumes "plain_name f" "x \<noteq> []" "length x + 300 < COPY_BUFFER" "D f = Some x" "r f" "c (f @ ''.copy'')"
  shows "\<exists>s. run_steps copy_step [Child, Parent, Parent, Parent, Parent, Child] (copy_start (f # fs) D r c w) = Some s \<and>
    stuck copy_step s \<and> parent s \<noteq> Par_Done \<and> disk s (f @ ''.copy'') = Some []"
proof -
  let ?s1 = "(copy_start (f # fs) D r c w)\<lparr>data_pipe := file_header f (int (length x)) @ NUL # x, parent := Par_Ack fs,
       child := (child (copy_start [] D r c w))\<lparr>ch_pc := Chi_Read\<rparr>\<rparr>"
  let ?s = "?s1\<lparr>data_pipe := [], disk := D(f @ ''.copy'' \<mapsto> []), child := (child ?s1)\<lparr>ch_filename := Some f,
     ch_file_size := int (length x), ch_file := Some (f @ ''.copy''), is_receiving := True, ch_total := 0\<rparr>\<rparr>"
  have len: "length x < 2 ^ 31" "int (length x) < 2 ^ 31" "length x \<le> COPY_BUFFER" using assms(3) by (simp_all add: COPY_BUFFER_def)
  then have "length (file_header f (int (length x))) < 300" using file_header_text(2)[OF assms(1)] by simp
  then have mid: "run_steps copy_step [Parent, Parent] ((copy_start (f # fs) D r c w)\<lparr>data_pipe := file_header f (int (length x)) @ [NUL],
       parent := Par_Send f 0 fs, child := (child (copy_start [] D r c w))\<lparr>ch_pc := Chi_Read\<rparr>\<rparr>) = Some ?s1"
    using assms(2-4) len(3)
    by (simp add: copy_step_def parent_step_def copy_start_def child_gone_def parent_write_def PIPE_CAPACITY_def COPY_BUFFER_def)
  have "child_step ?s1 = Stepped ?s"
  proof -
    have "create_copy_name f = Some (f @ ''.copy'')" using assms(1) by (simp add: create_copy_name_def plain_name_def)
    then show ?thesis
      using header_step[OF assms(1) len(1) assms(3), of ?s1 x] parse_header_name[OF assms(1) _ len(2)] assms(2,6)
      by (simp add: parent_gone_def copy_start_def child_header_def del: append_Cons append.simps)
  qed
  then have "run_steps copy_step [Child] ?s1 = Some ?s" by (simp add: copy_step_def)
  from run_steps_trans[OF run_steps_trans[OF first_steps[of f x D r copy_step, OF assms(1) len(1) assms(4,5) disjI1[OF refl]] mid] this]
  have "run_steps copy_step [Child, Parent, Parent, Parent, Parent, Child] (copy_start (f # fs) D r c w) = Some ?s"
    by (simp only: append.simps)
  moreover have "stuck copy_step ?s"
    unfolding stuck_def
    by (intro allI, rename_tac e, case_tac e)
       (simp_all add: copy_step_def parent_step_def parent_read_ack_def child_step_def child_gone_def parent_gone_def copy_start_def)
  ultimately show ?thesis by (intro exI[of _ ?s]) simp
qed


lemma hello_hangs_hyps: "plain_name ''a''"
  by (simp add: plain_name_def MAX_FILENAME_def NUL_def sublist_Cons_right)

text \<open>
  A file whose content begins with \<open>END\<close> ends the transfer: even with the delays the child takes its
  bytes for the end message, acknowledges an empty copy and ends, and the parent is killed when it goes
  on to write.
\<close>

lemma content_like_end_kills_parent:
  assumes "plain_name f" "prefix ''END'' x" "length x < COPY_BUFFER" "D f = Some x" "r f" "c (f @ ''.copy'')"
  shows "\<exists>s. run_steps polite_step [Child, Parent, Parent, Child, Parent, Child, Parent, Parent, Parent]
      (copy_start [f] D r c w) = Some s \<and> parent s = Par_Killed \<and> disk s (f @ ''.copy'') = Some []"
proof -
  have len: "length x < 2 ^ 31" "int (length x) < 2 ^ 31" using assms(3) by (simp_all add: COPY_BUFFER_def)
  have ne: "x \<noteq> []" using assms(2) by auto
  have "cstr x = takeWhile (\<lambda>c. c \<noteq> NUL) x" by (simp add: cstr_def)
  then have tag: "prefix ''END'' (cstr x)" "\<not> prefix ''FILE:'' (cstr x)"
    using assms(2) by (auto simp: prefix_def NUL_def)
  let ?s1 = "(copy_start [f] D r c w)\<lparr>data_pipe := file_header f (int (length x)) @ [NUL], parent := Par_Send f 0 [],
       child := (child (copy_start [] D r c w))\<lparr>ch_pc := Chi_Read\<rparr>\<rparr>"
  obtain s2 where s2: "child_step ?s1 = Stepped s2" "data_pipe s2 = []" "parent s2 = Par_Send f 0 []"
      "disk s2 = D(f @ ''.copy'' \<mapsto> [])" "ch_pc (child s2) = Chi_Read" "ch_file (child s2) = Some (f @ ''.copy'')" "ack_pipe s2 = []"
    using child_reads_header[OF assms(1) _ len(2), of ?s1] ne assms(6) by (auto simp: copy_start_def parent_gone_def)
  have src: "disk s2 f = Some x" using s2(4) assms(4) by simp
  have "\<exists>s. run_steps polite_step [Parent, Child, Parent, Parent, Parent] s2 = Some s \<and> parent s = Par_Killed \<and>
      disk s (f @ ''.copy'') = Some []"
    using s2 src ne assms(3) tag
    by (simp add: polite_step_def copy_step_def parent_step_def parent_write_def child_gone_def copy_sizes Let_def child_step_def
        child_receive_def tags child_end_def child_write_ack_def parent_gone_def parent_read_ack_def)
  then obtain s where s: "run_steps polite_step [Parent, Child, Parent, Parent, Parent] s2 = Some s" "parent s = Par_Killed"
      "disk s (f @ ''.copy'') = Some []" by blast
  have one: "run_steps polite_step [Child] ?s1 = Some s2" using s2(1) by (simp add: polite_Child)
  from run_steps_trans[OF run_steps_trans[OF first_steps[of f x D r polite_step "[]"
    , OF assms(1) len(1) assms(4,5) disjI2[OF refl]] one] s(1)] s(2,3)
  show ?thesis by (auto simp only: append.simps)
qed

section \<open>The named pipes\<close>

lemma copy_named_leaves:
  "copy_named ok fork_ok data_open ack_open p fifos = Some (res, left) \<Longrightarrow> fst (fifo_names p) \<notin> left \<and> left \<subseteq> fifos"
  by (auto simp: copy_named_def make_fifos_def mkfifo_def open_both_def Let_def split: prod.splits option.splits if_splits
      bind_splits)

text \<open>A long name is cut before its ending: both pipes are then the same one.\<close>

lemma long_fifo_names_equal: "255 \<le> length p \<Longrightarrow> fst (fifo_names p) = snd (fifo_names p)"
  by (simp add: fifo_names_def snprintf_into_def)

end
