(* ===== verification/Mq_Chat.thy ===== *)
theory Mq_Chat
  imports Step_Interface C_Strings
begin

text \<open>
  module3/03: a chat of two processes over two POSIX message queues (chat.c, queue.c, signal.c). A
  queue is a list with the message to be received next first: \<open>mq_send\<close> puts a message behind those
  of its priority, waits while the queue is full, and a queue lives on while a process has it open even
  when its name is removed. The processes are step functions; a step is at most one operation on a
  queue or one look at the keyboard. Messages about the queues are left out of the output.
\<close>

definition MAX_MSG_SIZE :: nat where "MAX_MSG_SIZE = 256"
definition MAX_MSG_COUNT :: nat where "MAX_MSG_COUNT = 10"
definition EXIT_PRIORITY :: nat where "EXIT_PRIORITY = 10"
definition NORMAL_PRIORITY :: nat where "NORMAL_PRIORITY = 1"
definition EXIT_MSG :: string where "EXIT_MSG = ''EXIT''"
definition QUEUE_NAME_LEN :: nat where "QUEUE_NAME_LEN = 64"

lemmas mq_constants = MAX_MSG_SIZE_def MAX_MSG_COUNT_def EXIT_PRIORITY_def NORMAL_PRIORITY_def EXIT_MSG_def

section \<open>State\<close>

type_synonym mq_message = "nat \<times> string"

text \<open>
  Where a process is: opening the queues, at the check for messages, about to receive, at the keyboard,
  sending a line or the exit message, cleaning up; the last three of the handler of SIGINT.
\<close>

datatype mq_pc =
    M_Start | M_Create2 nat | M_Open1 | M_Open2 nat | M_Failed
  | M_Check | M_Recv | M_Input | M_Send string | M_SendExit | M_Cleanup
  | M_SigSend | M_SigCleanup | M_Done

record peer =
  base_name :: string
  queue_name_1 :: string
  queue_name_2 :: string
  queue_send :: "nat option"
  queue_recv :: "nat option"
  is_creator :: bool
  should_exit :: bool
  m_pc :: mq_pc
  keyboard :: string
  shown :: "string list"

text \<open>\<open>mq_names\<close> gives the queue of a name; \<open>mq_ok\<close> are the names \<open>mq_open\<close> can create.\<close>

record mq_system =
  mq_names :: "string \<rightharpoonup> nat"
  queues :: "mq_message list list"
  mq_ok :: "string \<Rightarrow> bool"
  peers :: "peer list"

fun mq_insert :: "mq_message \<Rightarrow> mq_message list \<Rightarrow> mq_message list" where
  "mq_insert m [] = [m]"
| "mq_insert m (x # q) = (if fst x < fst m then m # x # q else x # mq_insert m q)"

section \<open>queue.c\<close>

definition set_peer :: "nat \<Rightarrow> peer \<Rightarrow> mq_system \<Rightarrow> mq_system" where
  "set_peer i p s = s\<lparr>peers := (peers s)[i := p]\<rparr>"

definition new_queue :: "string \<Rightarrow> mq_system \<Rightarrow> mq_system" where
  "new_queue nm s = s\<lparr>mq_names := (mq_names s)(nm \<mapsto> length (queues s)), queues := queues s @ [[]]\<rparr>"

text \<open>
  \<open>init_queues\<close> in its steps: the first queue is opened exclusively; its creator then opens or creates
  the second, anyone else opens both as they are.
\<close>

definition init_queue_1 :: "nat \<Rightarrow> mq_system \<Rightarrow> mq_system" where
  "init_queue_1 i s =
     (let p = peers s ! i;
          p1 = p\<lparr>queue_name_1 := snprintf_into QUEUE_NAME_LEN (''/'' @ base_name p @ ''_1''),
                 queue_name_2 := snprintf_into QUEUE_NAME_LEN (''/'' @ base_name p @ ''_2'')\<rparr>;
          nm = queue_name_1 p1
      in if mq_names s nm = None \<and> mq_ok s nm
         then set_peer i (p1\<lparr>is_creator := True, m_pc := M_Create2 (length (queues s))\<rparr>) (new_queue nm s)
         else set_peer i (p1\<lparr>m_pc := M_Open1\<rparr>) s)"

definition init_queue_2 :: "nat \<Rightarrow> nat \<Rightarrow> mq_system \<Rightarrow> mq_system" where
  "init_queue_2 i mq1 s =
     (let p = peers s ! i; nm = queue_name_2 p in
      case mq_names s nm of
        Some mq2 \<Rightarrow> set_peer i (p\<lparr>queue_recv := Some mq1, queue_send := Some mq2, m_pc := M_Check\<rparr>) s
      | None \<Rightarrow>
          if mq_ok s nm
          then set_peer i (p\<lparr>queue_recv := Some mq1, queue_send := Some (length (queues s)), m_pc := M_Check\<rparr>) (new_queue nm s)
          else set_peer i (p\<lparr>m_pc := M_Failed\<rparr>) (s\<lparr>mq_names := (mq_names s)(queue_name_1 p := None)\<rparr>))"

definition open_queue_1 :: "nat \<Rightarrow> mq_system \<Rightarrow> mq_system" where
  "open_queue_1 i s =
     (let p = peers s ! i in
      case mq_names s (queue_name_1 p) of
        None \<Rightarrow> set_peer i (p\<lparr>m_pc := M_Failed\<rparr>) s
      | Some mq1 \<Rightarrow> set_peer i (p\<lparr>m_pc := M_Open2 mq1\<rparr>) s)"

definition open_queue_2 :: "nat \<Rightarrow> nat \<Rightarrow> mq_system \<Rightarrow> mq_system" where
  "open_queue_2 i mq1 s =
     (let p = peers s ! i in
      case mq_names s (queue_name_2 p) of
        None \<Rightarrow> set_peer i (p\<lparr>m_pc := M_Failed\<rparr>) s
      | Some mq2 \<Rightarrow> set_peer i (p\<lparr>queue_send := Some mq1, queue_recv := Some mq2, m_pc := M_Check\<rparr>) s)"

definition cleanup_queues :: "nat \<Rightarrow> mq_system \<Rightarrow> mq_system" where
  "cleanup_queues i s =
     (let p = peers s ! i in
      if is_creator p then s\<lparr>mq_names := (mq_names s)(queue_name_1 p := None, queue_name_2 p := None)\<rparr> else s)"

text \<open>
  \<open>send_message\<close> and \<open>send_exit_message\<close>: without a queue nothing happens, a message too long is
  refused, and the process goes on to \<open>next\<close>.
\<close>

definition send_then :: "nat \<Rightarrow> mq_pc \<Rightarrow> string \<Rightarrow> nat \<Rightarrow> mq_system \<Rightarrow> mq_system outcome" where
  "send_then i next message priority s =
     (let p = peers s ! i; s1 = set_peer i (p\<lparr>m_pc := next\<rparr>) s in
      case queue_send p of
        None \<Rightarrow> Stepped s1
      | Some d \<Rightarrow>
          if MAX_MSG_SIZE < length message + 1 then Stepped s1
          else if MAX_MSG_COUNT \<le> length (queues s ! d) then Blocked
          else Stepped (s1\<lparr>queues := (queues s)[d := mq_insert (priority, message) (queues s ! d)]\<rparr>))"

definition read_user_input :: "string \<Rightarrow> string option \<times> string" where
  "read_user_input inp =
     (case fgets MAX_MSG_SIZE inp of
        None \<Rightarrow> (None, inp)
      | Some (l, rest) \<Rightarrow>
          (if l = [] then None else Some (if last l = NL then butlast l else l), rest))"

section \<open>chat.c\<close>

text \<open>
  The loop of \<open>main\<close>. After an exit message was received the keyboard is looked at once more. \<open>ready\<close> says that \<open>select\<close> reports the keyboard; at end of input it does, and
  nothing is read.
\<close>

definition next_round :: "peer \<Rightarrow> mq_pc" where
  "next_round p = (if should_exit p then M_Cleanup else M_Check)"

definition check_step :: "nat \<Rightarrow> mq_system \<Rightarrow> mq_system" where
  "check_step i s =
     (let p = peers s ! i in
      case queue_recv p of
        None \<Rightarrow> set_peer i (p\<lparr>m_pc := M_Cleanup\<rparr>) s
      | Some d \<Rightarrow> set_peer i (p\<lparr>m_pc := if queues s ! d \<noteq> [] then M_Recv else M_Input\<rparr>) s)"

definition handle_received_message :: "mq_message \<Rightarrow> peer \<Rightarrow> peer" where
  "handle_received_message m p =
     (if fst m = EXIT_PRIORITY then p\<lparr>shown := shown p @ [[NL] @ ''[Peer exited]'' @ [NL]], should_exit := True, m_pc := M_Input\<rparr>
      else p\<lparr>shown := shown p @ [''[Peer]: '' @ snd m @ [NL]], m_pc := M_Check\<rparr>)"

definition receive_step :: "nat \<Rightarrow> mq_system \<Rightarrow> mq_system outcome" where
  "receive_step i s =
     (let p = peers s ! i in
      case queue_recv p of
        None \<Rightarrow> Stepped (set_peer i (p\<lparr>m_pc := M_Check\<rparr>) s)
      | Some d \<Rightarrow>
          (case queues s ! d of
             [] \<Rightarrow> Blocked
           | m # q \<Rightarrow> Stepped ((set_peer i (handle_received_message m p) s)\<lparr>queues := (queues s)[d := q]\<rparr>)))"

definition input_step :: "nat \<Rightarrow> bool \<Rightarrow> mq_system \<Rightarrow> mq_system" where
  "input_step i ready s =
     (let p = peers s ! i in
      if \<not> ready then set_peer i (p\<lparr>m_pc := next_round p\<rparr>) s
      else (let (line, rest) = read_user_input (keyboard p) in
        set_peer i (p\<lparr>keyboard := rest,
          m_pc := (case line of
              None \<Rightarrow> next_round p
            | Some send_buf \<Rightarrow>
                if strcmp send_buf ''exit'' = 0 \<or> strcmp send_buf ''quit'' = 0 then M_SendExit
                else if 0 < length send_buf then M_Send send_buf else next_round p)\<rparr>) s))"

definition chat_step :: "nat \<Rightarrow> bool \<Rightarrow> mq_system \<Rightarrow> mq_system outcome" where
  "chat_step i ready s =
     (case m_pc (peers s ! i) of
        M_Start \<Rightarrow> Stepped (init_queue_1 i s)
      | M_Create2 d \<Rightarrow> Stepped (init_queue_2 i d s)
      | M_Open1 \<Rightarrow> Stepped (open_queue_1 i s)
      | M_Open2 d \<Rightarrow> Stepped (open_queue_2 i d s)
      | M_Failed \<Rightarrow> Blocked
      | M_Check \<Rightarrow> Stepped (check_step i s)
      | M_Recv \<Rightarrow> receive_step i s
      | M_Input \<Rightarrow> Stepped (input_step i ready s)
      | M_Send message \<Rightarrow> send_then i (next_round (peers s ! i)) message NORMAL_PRIORITY s
      | M_SendExit \<Rightarrow> send_then i M_Cleanup EXIT_MSG EXIT_PRIORITY s
      | M_Cleanup \<Rightarrow> Stepped (set_peer i ((peers s ! i)\<lparr>m_pc := M_Done\<rparr>) (cleanup_queues i s))
      | M_SigSend \<Rightarrow> send_then i M_SigCleanup EXIT_MSG EXIT_PRIORITY s
      | M_SigCleanup \<Rightarrow> Stepped (set_peer i ((peers s ! i)\<lparr>m_pc := M_Done\<rparr>) (cleanup_queues i s))
      | M_Done \<Rightarrow> Blocked)"

text \<open>SIGINT: the handler sends the exit message, cleans up and exits; it does not interrupt itself.\<close>

definition interrupt :: "nat \<Rightarrow> mq_system \<Rightarrow> mq_system outcome" where
  "interrupt i s =
     (let p = peers s ! i in
      case m_pc p of
        M_SigSend \<Rightarrow> Blocked | M_SigCleanup \<Rightarrow> Blocked | M_Done \<Rightarrow> Blocked | M_Failed \<Rightarrow> Blocked
      | _ \<Rightarrow> Stepped (set_peer i (p\<lparr>m_pc := M_SigSend\<rparr>) s))"

datatype mq_event = Go nat bool | Interrupt nat

definition mq_step :: "mq_event \<Rightarrow> mq_system \<Rightarrow> mq_system outcome" where
  "mq_step e s =
     (case e of
        Go i ready \<Rightarrow> if i < length (peers s) then chat_step i ready s else Blocked
      | Interrupt i \<Rightarrow> if i < length (peers s) then interrupt i s else Blocked)"

definition mq_peer :: "string \<Rightarrow> string \<Rightarrow> peer" where
  "mq_peer base keys = \<lparr>base_name = base, queue_name_1 = [], queue_name_2 = [], queue_send = None, queue_recv = None,
     is_creator = False, should_exit = False, m_pc = M_Start, keyboard = keys, shown = []\<rparr>"

text \<open>Two processes started with the same name and these keyboards, where no queue exists.\<close>

definition mq_start :: "string \<Rightarrow> string \<Rightarrow> string \<Rightarrow> mq_system" where
  "mq_start base keys0 keys1 =
     \<lparr>mq_names = Map.empty, queues = [], mq_ok = (\<lambda>_. True), peers = [mq_peer base keys0, mq_peer base keys1]\<rparr>"

end
