(* ===== verification/Mq_Chat_Props.thy ===== *)
theory Mq_Chat_Props
  imports Mq_Chat
begin

text \<open>
  What two chat processes do to each other under every schedule of their steps, interrupts included:
  what each shows is a beginning of what the other typed (\<open>chat_in_order\<close>), and they never wait for
  each other (\<open>chat_never_deadlocks\<close>), until one ends (\<open>full_queue_blocks_for_good\<close>).
\<close>

section \<open>The connected pair\<close>

definition queue_names :: "string \<Rightarrow> string \<times> string" where
  "queue_names base = (snprintf_into QUEUE_NAME_LEN (''/'' @ base @ ''_1''), snprintf_into QUEUE_NAME_LEN (''/'' @ base @ ''_2''))"

definition mq_connected :: "string \<Rightarrow> string \<Rightarrow> string \<Rightarrow> mq_system" where
  "mq_connected base keys0 keys1 =
     (let (n1, n2) = queue_names base in
      \<lparr>mq_names = [n1 \<mapsto> 0, n2 \<mapsto> 1], queues = [[], []], mq_ok = (\<lambda>_. True),
       peers = [(mq_peer base keys0)\<lparr>queue_name_1 := n1, queue_name_2 := n2, queue_recv := Some 0, queue_send := Some 1,
                                     is_creator := True, m_pc := M_Check\<rparr>,
                (mq_peer base keys1)\<lparr>queue_name_1 := n1, queue_name_2 := n2, queue_recv := Some 1, queue_send := Some 0,
                                     m_pc := M_Check\<rparr>]\<rparr>)"

lemma queue_names_differ: "length base + 3 < QUEUE_NAME_LEN \<Longrightarrow> fst (queue_names base) \<noteq> snd (queue_names base)"
  by (simp add: queue_names_def)

lemma connected_reached:
  assumes "length base + 3 < QUEUE_NAME_LEN"
  shows "run_steps mq_step [Go 0 True, Go 0 True, Go 1 True, Go 1 True, Go 1 True] (mq_start base keys0 keys1) =
    Some (mq_connected base keys0 keys1)"
  using queue_names_differ[OF assms]
  by (simp add: mq_step_def chat_step_def mq_start_def mq_peer_def init_queue_1_def init_queue_2_def open_queue_1_def
      open_queue_2_def set_peer_def new_queue_def Let_def mq_connected_def queue_names_def fun_upd_twist)

text \<open>
  A name of 61 bytes or more loses its last byte: both queues are one, and the creator talks to itself.
\<close>

lemma long_name_one_queue: "61 \<le> length base \<Longrightarrow> fst (queue_names base) = snd (queue_names base)"
  by (cases "length base = 61") (simp_all add: queue_names_def snprintf_into_def QUEUE_NAME_LEN_def)

section \<open>The lines typed\<close>

function typed_lines :: "string \<Rightarrow> string list" where
  "typed_lines keys =
     (case fgets MAX_MSG_SIZE keys of
        None \<Rightarrow> []
      | Some (l, rest) \<Rightarrow>
          (let line = (if l \<noteq> [] \<and> last l = NL then butlast l else l) in
           if line = ''exit'' \<or> line = ''quit'' then []
           else if line = [] then typed_lines rest
           else line # typed_lines rest))"
  by pat_completeness auto
termination
  by (relation "measure length") (auto dest: fgets_progress simp: MAX_MSG_SIZE_def)

declare typed_lines.simps [simp del]

lemma typed_lines_read:
  "typed_lines keys =
     (case read_user_input keys of
        (None, rest) \<Rightarrow> if fgets MAX_MSG_SIZE keys = None then [] else typed_lines rest
      | (Some line, rest) \<Rightarrow> if line = ''exit'' \<or> line = ''quit'' then []
                            else if line = [] then typed_lines rest else line # typed_lines rest)"
  by (subst typed_lines.simps) (auto simp: read_user_input_def split: option.splits)

lemma read_user_input_eof: "fgets MAX_MSG_SIZE keys = None \<Longrightarrow> typed_lines keys = []"
  by (subst typed_lines.simps) simp

lemma read_user_input_fits:
  "read_user_input keys = (Some line, rest) \<Longrightarrow> length line + 1 \<le> MAX_MSG_SIZE"
  by (auto simp: read_user_input_def MAX_MSG_SIZE_def split: option.splits if_splits dest!: fgets_bounds(1))

section \<open>The invariant\<close>

definition peer_line :: "string \<Rightarrow> string" where
  "peer_line t = ''[Peer]: '' @ t @ [NL]"

definition exit_notice :: string where
  "exit_notice = [NL] @ ''[Peer exited]'' @ [NL]"

definition lines_of :: "mq_message list \<Rightarrow> string list" where
  "lines_of q = map (\<lambda>m. peer_line (snd m)) (filter (\<lambda>m. fst m = NORMAL_PRIORITY) q)"

definition lines_shown :: "peer \<Rightarrow> string list" where
  "lines_shown p = filter (\<lambda>l. l \<noteq> exit_notice) (shown p)"

fun chatting :: "mq_pc \<Rightarrow> bool" where
  "chatting M_Check = True" | "chatting M_Recv = True" | "chatting M_Input = True" | "chatting (M_Send _) = True"
| "chatting _ = False"

fun ending :: "mq_pc \<Rightarrow> bool" where
  "ending M_Cleanup = True" | "ending M_SigSend = True" | "ending M_SigCleanup = True" | "ending M_Done = True"
| "ending _ = False"

definition about_to_send :: "peer \<Rightarrow> string list" where
  "about_to_send p = (case m_pc p of M_Send t \<Rightarrow> [t] | _ \<Rightarrow> [])"

text \<open>One direction: what \<open>p\<close>, whose keyboard was \<open>keys\<close>, says to \<open>p'\<close> through \<open>q\<close>.\<close>

definition flow :: "string \<Rightarrow> peer \<Rightarrow> peer \<Rightarrow> mq_message list \<Rightarrow> bool" where
  "flow keys p p' q \<longleftrightarrow>
     (\<exists>sent. map peer_line sent = lines_shown p' @ lines_of q \<and> prefix sent (typed_lines keys) \<and>
        (chatting (m_pc p) \<longrightarrow> sent @ about_to_send p @ typed_lines (keyboard p) = typed_lines keys))"

text \<open>Past the check, a process has seen its queue empty and has at most one message to send.\<close>

definition past_check :: "peer \<Rightarrow> bool" where
  "past_check p \<longleftrightarrow> \<not> should_exit p \<and> (m_pc p = M_Input \<or> m_pc p = M_SendExit \<or> (\<exists>t. m_pc p = M_Send t))"

definition well_placed :: "peer \<Rightarrow> mq_message list \<Rightarrow> bool" where
  "well_placed p q \<longleftrightarrow> (chatting (m_pc p) \<or> m_pc p = M_SendExit \<or> ending (m_pc p)) \<and> (m_pc p = M_Recv \<longrightarrow> q \<noteq> []) \<and>
     (\<forall>t \<in> set (about_to_send p). length t + 1 \<le> MAX_MSG_SIZE) \<and> (\<forall>m \<in> set q. fst m = NORMAL_PRIORITY \<or> fst m = EXIT_PRIORITY)"

definition pair_ok :: "peer \<Rightarrow> peer \<Rightarrow> mq_message list \<Rightarrow> mq_message list \<Rightarrow> bool" where
  "pair_ok p p' q q' \<longleftrightarrow> well_placed p q \<and> well_placed p' q' \<and>
     (past_check p \<and> past_check p' \<longrightarrow> q = [] \<or> q' = []) \<and>
     (should_exit p \<or> (\<exists>m \<in> set q. fst m = EXIT_PRIORITY) \<longrightarrow> ending (m_pc p')) \<and>
     (should_exit p' \<or> (\<exists>m \<in> set q'. fst m = EXIT_PRIORITY) \<longrightarrow> ending (m_pc p))"

definition mq_inv :: "string \<Rightarrow> string \<Rightarrow> mq_system \<Rightarrow> bool" where
  "mq_inv keys0 keys1 s \<longleftrightarrow>
     (\<exists>p0 p1 q0 q1. peers s = [p0, p1] \<and> queues s = [q0, q1] \<and>
        queue_recv p0 = Some 0 \<and> queue_send p0 = Some 1 \<and> queue_recv p1 = Some 1 \<and> queue_send p1 = Some 0 \<and>
        pair_ok p0 p1 q0 q1 \<and> flow keys0 p0 p1 q1 \<and> flow keys1 p1 p0 q0)"

lemma mq_insert_normal: "\<forall>m \<in> set q. fst m = NORMAL_PRIORITY \<or> fst m = EXIT_PRIORITY \<Longrightarrow> mq_insert (NORMAL_PRIORITY, t) q = q @ [(NORMAL_PRIORITY, t)]"
  by (induction q) (auto simp: mq_constants)

lemma mq_insert_exit: "filter (\<lambda>m. fst m = NORMAL_PRIORITY) (mq_insert (EXIT_PRIORITY, t) q) = filter (\<lambda>m. fst m = NORMAL_PRIORITY) q"
  by (induction q) (auto simp: mq_constants)

lemma set_mq_insert [simp]: "set (mq_insert m q) = insert m (set q)" "mq_insert m q \<noteq> []"
  by (induction q) auto

lemma inv_connected: "mq_inv keys0 keys1 (mq_connected base keys0 keys1)"
  by (auto simp: mq_inv_def mq_connected_def mq_peer_def pair_ok_def well_placed_def past_check_def about_to_send_def flow_def
      lines_shown_def lines_of_def split: prod.splits)


section \<open>The steps of a connected process\<close>

text \<open>
  What process \<open>p\<close> with the queue \<open>q\<close> to receive from and \<open>q'\<close> to send to does when it can
  (\<open>None\<close>: SIGINT arrives).
\<close>

definition send_act :: "mq_pc \<Rightarrow> string \<Rightarrow> nat \<Rightarrow> peer \<Rightarrow> mq_message list \<Rightarrow> mq_message list \<Rightarrow>
    (peer \<times> mq_message list \<times> mq_message list) option" where
  "send_act next t prio p q q' =
     (if MAX_MSG_SIZE < length t + 1 then Some (p\<lparr>m_pc := next\<rparr>, q, q')
      else if MAX_MSG_COUNT \<le> length q' then None else Some (p\<lparr>m_pc := next\<rparr>, q, mq_insert (prio, t) q'))"

definition act :: "bool option \<Rightarrow> peer \<Rightarrow> mq_message list \<Rightarrow> mq_message list \<Rightarrow>
    (peer \<times> mq_message list \<times> mq_message list) option" where
  "act r p q q' =
     (case r of
        None \<Rightarrow> if m_pc p = M_SigSend \<or> m_pc p = M_SigCleanup \<or> m_pc p = M_Done then None
                else Some (p\<lparr>m_pc := M_SigSend\<rparr>, q, q')
      | Some ready \<Rightarrow>
          (case m_pc p of
             M_Check \<Rightarrow> Some (p\<lparr>m_pc := if q \<noteq> [] then M_Recv else M_Input\<rparr>, q, q')
           | M_Recv \<Rightarrow> (case q of [] \<Rightarrow> None | m # ms \<Rightarrow> Some (handle_received_message m p, ms, q'))
           | M_Input \<Rightarrow>
               (if ready then
                  (case read_user_input (keyboard p) of
                     (None, rest) \<Rightarrow> Some (p\<lparr>keyboard := rest, m_pc := next_round p\<rparr>, q, q')
                   | (Some l, rest) \<Rightarrow>
                       Some (p\<lparr>keyboard := rest, m_pc := (if l = ''exit'' \<or> l = ''quit'' then M_SendExit
                         else if l \<noteq> [] then M_Send l else next_round p)\<rparr>, q, q'))
                else Some (p\<lparr>m_pc := next_round p\<rparr>, q, q'))
           | M_Send t \<Rightarrow> send_act (next_round p) t NORMAL_PRIORITY p q q'
           | M_SendExit \<Rightarrow> send_act M_Cleanup EXIT_MSG EXIT_PRIORITY p q q'
           | M_SigSend \<Rightarrow> send_act M_SigCleanup EXIT_MSG EXIT_PRIORITY p q q'
           | M_Cleanup \<Rightarrow> Some (p\<lparr>m_pc := M_Done\<rparr>, q, q')
           | M_SigCleanup \<Rightarrow> Some (p\<lparr>m_pc := M_Done\<rparr>, q, q')
           | _ \<Rightarrow> None))"

definition event_of :: "nat \<Rightarrow> bool option \<Rightarrow> mq_event" where
  "event_of i r = (case r of None \<Rightarrow> Interrupt i | Some ready \<Rightarrow> Go i ready)"

lemma event_cases: "\<exists>i r. e = event_of i r"
  by (cases e) (metis event_of_def option.simps(4,5))+

lemma step_first:
  assumes "peers s = [p0, p1]" "queues s = [q0, q1]" "queue_recv p0 = Some 0" "queue_send p0 = Some 1" "well_placed p0 q0"
  shows "act r p0 q0 q1 = None \<and> mq_step (event_of 0 r) s = Blocked \<or>
    (\<exists>p q q' s'. act r p0 q0 q1 = Some (p, q, q') \<and> mq_step (event_of 0 r) s = Stepped s' \<and> peers s' = [p, p1] \<and> queues s' = [q, q'])"
  using assms
  by (cases r; cases "m_pc p0")
     (auto simp: act_def event_of_def mq_step_def chat_step_def interrupt_def check_step_def receive_step_def input_step_def
       send_then_def send_act_def set_peer_def cleanup_queues_def Let_def well_placed_def split: list.splits option.splits prod.splits)

lemma step_second:
  assumes "peers s = [p0, p1]" "queues s = [q0, q1]" "queue_recv p1 = Some 1" "queue_send p1 = Some 0" "well_placed p1 q1"
  shows "act r p1 q1 q0 = None \<and> mq_step (event_of 1 r) s = Blocked \<or>
    (\<exists>p q q' s'. act r p1 q1 q0 = Some (p, q, q') \<and> mq_step (event_of 1 r) s = Stepped s' \<and> peers s' = [p0, p] \<and> queues s' = [q', q])"
  using assms
  by (cases r; cases "m_pc p1")
     (auto simp: act_def event_of_def mq_step_def chat_step_def interrupt_def check_step_def receive_step_def input_step_def
       send_then_def send_act_def set_peer_def cleanup_queues_def Let_def well_placed_def split: list.splits option.splits prod.splits)


lemma flow_pc:
  assumes "flow keys p p' q'" "chatting (m_pc p2) \<Longrightarrow> chatting (m_pc p) \<and>
    about_to_send p2 @ typed_lines (keyboard p2) = about_to_send p @ typed_lines (keyboard p)"
  shows "flow keys p2 p' q'"
  using assms unfolding flow_def by metis

lemma flow_shown: "flow keys p p' q \<Longrightarrow> lines_shown p2 @ lines_of q2 = lines_shown p' @ lines_of q \<Longrightarrow> flow keys p p2 q2"
  unfolding flow_def by simp

lemma flow_send:
  assumes "flow keys p p' q'" "m_pc p = M_Send t" "keyboard p2 = keyboard p" "about_to_send p2 = []"
    and "\<forall>m \<in> set q'. fst m = NORMAL_PRIORITY \<or> fst m = EXIT_PRIORITY"
  shows "flow keys p2 p' (mq_insert (NORMAL_PRIORITY, t) q')"
proof -
  from assms(1,2) obtain sent where sent: "map peer_line sent = lines_shown p' @ lines_of q'"
    "sent @ [t] @ typed_lines (keyboard p) = typed_lines keys"
    by (auto simp: flow_def about_to_send_def)
  then have "prefix (sent @ [t]) (typed_lines keys)" by (metis append_assoc prefixI)
  with sent show ?thesis
    unfolding flow_def mq_insert_normal[OF assms(5)] using assms(3,4)
    by (intro exI[of _ "sent @ [t]"]) (simp add: lines_of_def)
qed

lemma handle_line:
  assumes "fst m = NORMAL_PRIORITY \<or> fst m = EXIT_PRIORITY"
  shows "lines_shown (handle_received_message m p) = lines_shown p @ lines_of [m]"
  using assms by (auto simp: handle_received_message_def lines_shown_def lines_of_def peer_line_def exit_notice_def mq_constants NL_def)

lemma lines_of_Cons: "lines_of (m # q) = lines_of [m] @ lines_of q"
  by (simp add: lines_of_def)

lemma lines_of_exit: "lines_of (mq_insert (EXIT_PRIORITY, t) q) = lines_of q"
  by (simp add: lines_of_def mq_insert_exit)

lemma flows_quiet:
  assumes "flow k p p' q'" "flow k' p' p q" "shown p2 = shown p"
    and "chatting (m_pc p2) \<Longrightarrow> chatting (m_pc p) \<and>
      about_to_send p2 @ typed_lines (keyboard p2) = about_to_send p @ typed_lines (keyboard p)"
  shows "flow k p2 p' q' \<and> flow k' p' p2 q"
  using flow_pc[OF assms(1,4)] flow_shown[OF assms(2), of p2 q] assms(3) by (simp add: lines_shown_def)

lemma flows_send_exit:
  assumes "flow k p p' q'" "flow k' p' p q" "shown p2 = shown p" "\<not> chatting (m_pc p2)"
  shows "flow k p2 p' (mq_insert (EXIT_PRIORITY, t) q') \<and> flow k' p' p2 q"
proof -
  have "flow k p p' (mq_insert (EXIT_PRIORITY, t) q')"
    by (rule flow_shown[OF assms(1)]) (simp only: lines_of_exit)
  then show ?thesis using flows_quiet assms by blast
qed

lemma act_flows:
  assumes "act r p q q' = Some (p2, q2, q2')" "pair_ok p p' q q'" "flow k p p' q'" "flow k' p' p q"
  shows "flow k p2 p' q2' \<and> flow k' p' p2 q2"
proof (cases r)
  case None
  with assms(1) have "p2 = p\<lparr>m_pc := M_SigSend\<rparr>" "q2 = q" "q2' = q'" by (auto simp: act_def split: if_splits)
  then show ?thesis using flows_quiet[OF assms(3,4), of p2] by simp
next
  case (Some ready)
  have prio: "\<forall>m \<in> set q'. fst m = NORMAL_PRIORITY \<or> fst m = EXIT_PRIORITY" "\<forall>m \<in> set q. fst m = NORMAL_PRIORITY \<or> fst m = EXIT_PRIORITY"
    and fits: "\<forall>t \<in> set (about_to_send p). length t + 1 \<le> MAX_MSG_SIZE"
    using assms(2) by (auto simp: pair_ok_def well_placed_def)
  show ?thesis
  proof (cases "m_pc p")
    case M_Check
    with Some assms(1) have "p2 = p\<lparr>m_pc := if q \<noteq> [] then M_Recv else M_Input\<rparr>" "q2 = q" "q2' = q'"
      by (auto simp: act_def)
    then show ?thesis using flows_quiet[OF assms(3,4), of p2] M_Check by (simp add: about_to_send_def)
  next
    case M_Recv
    then obtain m where m: "q = m # q2" "p2 = handle_received_message m p" "q2' = q'"
      using Some assms(1) by (auto simp: act_def split: list.splits)
    have "flow k p2 p' q2'"
      unfolding m(3) by (rule flow_pc[OF assms(3)]) (auto simp: m(2) M_Recv handle_received_message_def about_to_send_def)
    moreover have "flow k' p' p2 q2"
      by (rule flow_shown[OF assms(4)]) (use prio(2) m lines_of_Cons[of m q2] in \<open>simp add: handle_line\<close>)
    ultimately show ?thesis ..
  next
    case M_Input
    with Some assms(1) have q: "q2 = q" "q2' = q'" "shown p2 = shown p"
      by (auto simp: act_def split: if_splits prod.splits option.splits)
    have "about_to_send p2 @ typed_lines (keyboard p2) = typed_lines (keyboard p)" if "chatting (m_pc p2)"
    proof (cases ready)
      case True
      obtain ln rest where ln: "read_user_input (keyboard p) = (ln, rest)" by fastforce
      show ?thesis
      proof (cases ln)
        case None
        have p2: "p2 = p\<lparr>keyboard := rest, m_pc := next_round p\<rparr>" using True ln None M_Input Some assms(1) by (simp add: act_def)
        have "typed_lines (keyboard p) = typed_lines rest"
        proof (cases "fgets MAX_MSG_SIZE (keyboard p)")
          case None
          then show ?thesis using ln by (simp add: read_user_input_def)
        next
          case (Some x)
          then show ?thesis unfolding typed_lines_read[of "keyboard p"] ln \<open>ln = None\<close> by simp
        qed
        then show ?thesis using p2 by (simp add: about_to_send_def next_round_def)
      next
        case (Some l)
        have p2: "p2 = p\<lparr>keyboard := rest, m_pc := (if l = ''exit'' \<or> l = ''quit'' then M_SendExit
            else if l \<noteq> [] then M_Send l else next_round p)\<rparr>"
          using True ln Some M_Input \<open>r = Some ready\<close> assms(1) by (simp add: act_def)
        have "l \<noteq> ''exit'' \<and> l \<noteq> ''quit''" using p2 \<open>chatting (m_pc p2)\<close> by auto
        then have "typed_lines (keyboard p) = (if l = [] then typed_lines rest else l # typed_lines rest)"
          unfolding typed_lines_read[of "keyboard p"] ln Some by simp
        then show ?thesis using p2 \<open>l \<noteq> ''exit'' \<and> l \<noteq> ''quit''\<close> by (simp add: about_to_send_def next_round_def)
      qed
    qed (use M_Input Some assms(1) in \<open>auto simp: act_def about_to_send_def next_round_def\<close>)
    then show ?thesis using flows_quiet[OF assms(3,4) q(3)] q(1,2) M_Input by (simp add: about_to_send_def)
  next
    case (M_Send t)
    then have "length t + 1 \<le> MAX_MSG_SIZE" using fits by (simp add: about_to_send_def)
    with M_Send Some assms(1) have a: "p2 = p\<lparr>m_pc := next_round p\<rparr>" "q2 = q" "q2' = mq_insert (NORMAL_PRIORITY, t) q'"
      by (auto simp: act_def send_act_def split: if_splits)
    then have "about_to_send p2 = []" by (simp add: about_to_send_def next_round_def)
    then show ?thesis
      using flow_send[OF assms(3) M_Send _ _ prio(1), of p2] flow_shown[OF assms(4), of p2 q] a by (simp add: lines_shown_def)
  next
    case M_SendExit
    with Some assms(1) have "p2 = p\<lparr>m_pc := M_Cleanup\<rparr>" "q2 = q" "q2' = mq_insert (EXIT_PRIORITY, EXIT_MSG) q'"
      by (auto simp: act_def send_act_def mq_constants split: if_splits)
    then show ?thesis using flows_send_exit[OF assms(3,4), of p2] by simp
  next
    case M_SigSend
    with Some assms(1) have "p2 = p\<lparr>m_pc := M_SigCleanup\<rparr>" "q2 = q" "q2' = mq_insert (EXIT_PRIORITY, EXIT_MSG) q'"
      by (auto simp: act_def send_act_def mq_constants split: if_splits)
    then show ?thesis using flows_send_exit[OF assms(3,4), of p2] by simp
  next
    case M_Cleanup
    with Some assms(1) have "p2 = p\<lparr>m_pc := M_Done\<rparr>" "q2 = q" "q2' = q'" by (auto simp: act_def)
    then show ?thesis using flows_quiet[OF assms(3,4), of p2] by simp
  next
    case M_SigCleanup
    with Some assms(1) have "p2 = p\<lparr>m_pc := M_Done\<rparr>" "q2 = q" "q2' = q'" by (auto simp: act_def)
    then show ?thesis using flows_quiet[OF assms(3,4), of p2] by simp
  qed (use Some assms(1) in \<open>simp_all add: act_def\<close>)
qed


lemma ending_stays: "act r p q q' = Some (p2, q2, q2') \<Longrightarrow> ending (m_pc p) \<Longrightarrow> ending (m_pc p2)"
  by (cases "m_pc p") (auto simp: act_def send_act_def split: option.splits if_splits)

lemma act_queues:
  assumes "act r p q q' = Some (p2, q2, q2')" "well_placed p q" "well_placed p' q'"
  shows "well_placed p2 q2 \<and> well_placed p' q2' \<and> set q2 \<subseteq> set q \<and>
    (q2' = q' \<or> \<not> past_check p2 \<and> (\<exists>t. q2' = mq_insert (NORMAL_PRIORITY, t) q') \<or>
     ending (m_pc p2) \<and> (\<exists>t. q2' = mq_insert (EXIT_PRIORITY, t) q')) \<and>
    (should_exit p2 \<longrightarrow> should_exit p \<or> (\<exists>m \<in> set q. fst m = EXIT_PRIORITY)) \<and>
    (past_check p2 \<longrightarrow> past_check p \<and> q2 = q \<and> q2' = q' \<or> q2 = [])"
proof (cases r)
  case None
  with assms(1) have "p2 = p\<lparr>m_pc := M_SigSend\<rparr>" "q2 = q" "q2' = q'" by (auto simp: act_def split: if_splits)
  with assms(2,3) show ?thesis by (simp add: well_placed_def about_to_send_def past_check_def)
next
  case (Some ready)
  show ?thesis
  proof (cases "m_pc p")
    case M_Recv
    then obtain m where m: "q = m # q2" "p2 = handle_received_message m p" "q2' = q'"
      using Some assms(1) by (auto simp: act_def split: list.splits)
    show ?thesis
    proof (cases "fst m = EXIT_PRIORITY")
      case True
      then have "m_pc p2 = M_Input" "should_exit p2" by (simp_all add: m(2) handle_received_message_def)
      with m(1,3) True assms(2,3) show ?thesis by (auto simp: well_placed_def about_to_send_def past_check_def)
    next
      case False
      then have "m_pc p2 = M_Check" "should_exit p2 = should_exit p" by (simp_all add: m(2) handle_received_message_def)
      with m(1,3) assms(2,3) show ?thesis by (auto simp: well_placed_def about_to_send_def past_check_def)
    qed
  next
    case M_Input
    have pc: "m_pc p2 = next_round p \<or> m_pc p2 = M_SendExit \<or> (\<exists>l. m_pc p2 = M_Send l \<and> length l + 1 \<le> MAX_MSG_SIZE)"
      and p2: "should_exit p2 = should_exit p" "q2 = q" "q2' = q'"
      using M_Input Some assms(1) by (auto simp: act_def split: if_splits prod.splits option.splits dest: read_user_input_fits)
    have "(chatting (m_pc p2) \<or> m_pc p2 = M_SendExit \<or> ending (m_pc p2)) \<and> m_pc p2 \<noteq> M_Recv \<and>
        (\<forall>t \<in> set (about_to_send p2). length t + 1 \<le> MAX_MSG_SIZE)"
      using pc by (auto simp: next_round_def about_to_send_def split: if_splits)
    then have "well_placed p2 q" using assms(2) by (simp add: well_placed_def)
    moreover have "past_check p2 \<Longrightarrow> past_check p" using p2(1) M_Input by (simp add: past_check_def)
    ultimately show ?thesis using assms(3) p2 by simp
  next
    case (M_Send t)
    have "length t + 1 \<le> MAX_MSG_SIZE" using M_Send assms(2) by (simp add: well_placed_def about_to_send_def)
    with M_Send Some assms(1) have a: "p2 = p\<lparr>m_pc := next_round p\<rparr>" "q2 = q" "q2' = mq_insert (NORMAL_PRIORITY, t) q'"
      by (auto simp: act_def send_act_def split: if_splits)
    have "\<not> past_check p2" "well_placed p2 q" using a(1) assms(2)
      by (simp_all add: past_check_def next_round_def well_placed_def about_to_send_def)
    moreover have "well_placed p' q2'" using a(3) assms(3) by (simp add: well_placed_def)
    ultimately show ?thesis using a by auto
  next
    case M_Check
    with Some assms(1) have "p2 = p\<lparr>m_pc := if q \<noteq> [] then M_Recv else M_Input\<rparr>" "q2 = q" "q2' = q'" by (auto simp: act_def)
    then show ?thesis using assms(2,3) by (simp add: well_placed_def about_to_send_def past_check_def)
  next
    case M_SendExit
    with Some assms(1) have a: "p2 = p\<lparr>m_pc := M_Cleanup\<rparr>" "q2 = q" "q2' = mq_insert (EXIT_PRIORITY, EXIT_MSG) q'"
      by (auto simp: act_def send_act_def mq_constants split: if_splits)
    with assms(2,3) show ?thesis by (auto simp: well_placed_def about_to_send_def past_check_def)
  next
    case M_SigSend
    with Some assms(1) have a: "p2 = p\<lparr>m_pc := M_SigCleanup\<rparr>" "q2 = q" "q2' = mq_insert (EXIT_PRIORITY, EXIT_MSG) q'"
      by (auto simp: act_def send_act_def mq_constants split: if_splits)
    with assms(2,3) show ?thesis by (auto simp: well_placed_def about_to_send_def past_check_def)
  next
    case M_Cleanup
    with Some assms(1) have "p2 = p\<lparr>m_pc := M_Done\<rparr>" "q2 = q" "q2' = q'" by (auto simp: act_def)
    then show ?thesis using assms(2,3) by (simp add: well_placed_def about_to_send_def past_check_def)
  next
    case M_SigCleanup
    with Some assms(1) have "p2 = p\<lparr>m_pc := M_Done\<rparr>" "q2 = q" "q2' = q'" by (auto simp: act_def)
    then show ?thesis using assms(2,3) by (simp add: well_placed_def about_to_send_def past_check_def)
  qed (use Some assms in \<open>simp_all add: act_def\<close>)
qed

lemma act_pair:
  assumes "act r p q q' = Some (p2, q2, q2')" "pair_ok p p' q q'"
  shows "pair_ok p2 p' q2 q2'"
proof -
  have w: "well_placed p q" "well_placed p' q'" and past: "past_check p \<and> past_check p' \<Longrightarrow> q = [] \<or> q' = []"
    and own: "should_exit p \<or> (\<exists>m \<in> set q. fst m = EXIT_PRIORITY) \<Longrightarrow> ending (m_pc p')"
    and peer: "should_exit p' \<or> (\<exists>m \<in> set q'. fst m = EXIT_PRIORITY) \<Longrightarrow> ending (m_pc p)"
    using assms(2) unfolding pair_ok_def by blast+
  note a = act_queues[OF assms(1) w]
  have w2: "well_placed p2 q2" "well_placed p' q2'" "set q2 \<subseteq> set q" using a by blast+
  have "should_exit p2 \<or> (\<exists>m \<in> set q2. fst m = EXIT_PRIORITY) \<Longrightarrow> ending (m_pc p')"
    using a own by blast
  moreover have "ending (m_pc p2)" if "should_exit p' \<or> (\<exists>m \<in> set q2'. fst m = EXIT_PRIORITY)"
  proof (cases "ending (m_pc p2)")
    case False
    then have "q2' = q' \<or> (\<exists>t. q2' = mq_insert (NORMAL_PRIORITY, t) q')" using a by blast
    then have "(\<exists>m \<in> set q2'. fst m = EXIT_PRIORITY) \<Longrightarrow> \<exists>m \<in> set q'. fst m = EXIT_PRIORITY" by (auto simp: mq_constants)
    then have "ending (m_pc p)" using that peer by blast
    then show ?thesis by (rule ending_stays[OF assms(1)])
  qed
  moreover have "past_check p2 \<and> past_check p' \<Longrightarrow> q2 = [] \<or> q2' = []"
    using a past by blast
  ultimately show ?thesis using w2 unfolding pair_ok_def by blast
qed

lemma act_wiring: "act r p q q' = Some (p2, q2, q2') \<Longrightarrow> queue_recv p2 = queue_recv p \<and> queue_send p2 = queue_send p"
  by (cases "m_pc p")
     (auto simp: act_def send_act_def handle_received_message_def split: option.splits if_splits list.splits prod.splits)

lemma mq_inv_step:
  assumes "mq_inv k0 k1 s"
  shows "mq_step e s = Blocked \<or> (\<exists>s'. mq_step e s = Stepped s' \<and> mq_inv k0 k1 s')"
proof -
  from assms obtain p0 p1 q0 q1 where s: "peers s = [p0, p1]" "queues s = [q0, q1]" "queue_recv p0 = Some 0" "queue_send p0 = Some 1"
      "queue_recv p1 = Some 1" "queue_send p1 = Some 0"
    and ok: "pair_ok p0 p1 q0 q1" "flow k0 p0 p1 q1" "flow k1 p1 p0 q0" by (auto simp: mq_inv_def)
  have ok': "pair_ok p1 p0 q1 q0" using ok(1) by (auto simp: pair_ok_def)
  obtain i r where e: "e = event_of i r" using event_cases by blast
  consider "i = 0" | "i = 1" | "2 \<le> i" by linarith
  then show ?thesis
  proof cases
    case 1
    have "well_placed p0 q0" using ok(1) by (simp add: pair_ok_def)
    from step_first[OF s(1-4) this, of r] show ?thesis
    proof
      assume "\<exists>p q q' s'. act r p0 q0 q1 = Some (p, q, q') \<and> mq_step (event_of 0 r) s = Stepped s' \<and>
        peers s' = [p, p1] \<and> queues s' = [q, q']"
      then obtain p q q' s' where st: "act r p0 q0 q1 = Some (p, q, q')" "mq_step (event_of 0 r) s = Stepped s'"
        "peers s' = [p, p1]" "queues s' = [q, q']" by blast
      have "mq_inv k0 k1 s'"
        using st(3,4) s(3-6) act_wiring[OF st(1)] act_pair[OF st(1) ok(1)] act_flows[OF st(1) ok] by (simp add: mq_inv_def)
      then show ?thesis using st(2) e 1 by auto
    qed (use e 1 in simp)
  next
    case 2
    have "well_placed p1 q1" using ok(1) by (simp add: pair_ok_def)
    from step_second[OF s(1,2,5,6) this, of r] show ?thesis
    proof
      assume "\<exists>p q q' s'. act r p1 q1 q0 = Some (p, q, q') \<and> mq_step (event_of 1 r) s = Stepped s' \<and>
        peers s' = [p0, p] \<and> queues s' = [q', q]"
      then obtain p q q' s' where st: "act r p1 q1 q0 = Some (p, q, q')" "mq_step (event_of 1 r) s = Stepped s'"
        "peers s' = [p0, p]" "queues s' = [q', q]" by blast
      have "pair_ok p0 p q' q" using act_pair[OF st(1) ok'] by (auto simp: pair_ok_def)
      then have "mq_inv k0 k1 s'"
        using st(3,4) s(3-6) act_wiring[OF st(1)] act_flows[OF st(1) ok' ok(3,2)] by (simp add: mq_inv_def)
      then show ?thesis using st(2) e 2 by auto
    qed (use e 2 in simp)
  next
    case 3
    then have "mq_step e s = Blocked" using e s(1) by (cases r) (simp_all add: event_of_def mq_step_def)
    then show ?thesis ..
  qed
qed

interpretation mq_chat: step_invariant mq_step "mq_inv k0 k1" for k0 k1
proof unfold_locales
  show "mq_step e s \<noteq> Fault" if "mq_inv k0 k1 s" for e s using mq_inv_step[OF that, of e] by auto
  show "mq_inv k0 k1 s'" if "mq_inv k0 k1 s" "mq_step e s = Stepped s'" for e s s'
    using mq_inv_step[OF that(1), of e] that(2) by auto
qed


section \<open>What each shows\<close>

lemma connected_run:
  "\<exists>s. run_steps mq_step es (mq_connected base keys0 keys1) = Some s \<and> mq_inv keys0 keys1 s"
  using mq_chat.run_good[of keys0 keys1 "mq_connected base keys0 keys1" es] inv_connected by blast

text \<open>
  C32. Under every schedule, interrupts included, the lines a process has shown and those still in its
  queue are, in order, a beginning of the lines typed at the other one's keyboard.
\<close>

theorem chat_in_order:
  "\<exists>s p0 p1. run_steps mq_step es (mq_connected base keys0 keys1) = Some s \<and> peers s = [p0, p1] \<and>
    (\<exists>said. prefix said (typed_lines keys0) \<and> map peer_line said = lines_shown p1 @ lines_of (queues s ! 1)) \<and>
    (\<exists>said. prefix said (typed_lines keys1) \<and> map peer_line said = lines_shown p0 @ lines_of (queues s ! 0))"
proof -
  obtain s where "run_steps mq_step es (mq_connected base keys0 keys1) = Some s" "mq_inv keys0 keys1 s"
    using connected_run by blast
  then show ?thesis by (auto simp: mq_inv_def flow_def)
qed

section \<open>Waiting\<close>

lemma act_blocked:
  assumes "act (Some ready) p q q' = None" "well_placed p q" "\<not> ending (m_pc p)"
  shows "MAX_MSG_COUNT \<le> length q' \<and> (m_pc p = M_SendExit \<or> (\<exists>t. m_pc p = M_Send t))"
  using assms
  by (cases "m_pc p") (auto simp: act_def send_act_def well_placed_def split: if_splits prod.splits option.splits list.splits)

lemma ending_steps: "ending (m_pc p) \<Longrightarrow> m_pc p \<noteq> M_Done \<Longrightarrow> m_pc p \<noteq> M_SigSend \<Longrightarrow> act (Some ready) p q q' \<noteq> None"
  by (cases "m_pc p") (auto simp: act_def)

lemma one_acts:
  assumes "pair_ok p p' q q'" "m_pc p \<notin> {M_Done, M_SigSend}" "m_pc p' \<notin> {M_Done, M_SigSend}"
  shows "act (Some r) p q q' \<noteq> None \<or> act (Some r') p' q' q \<noteq> None"
proof (rule ccontr)
  assume "\<not> ?thesis"
  then have n: "act (Some r) p q q' = None" "act (Some r') p' q' q = None" by blast+
  then have e: "\<not> ending (m_pc p)" "\<not> ending (m_pc p')" using ending_steps assms(2,3) by blast+
  have b: "MAX_MSG_COUNT \<le> length q'" "m_pc p = M_SendExit \<or> (\<exists>t. m_pc p = M_Send t)"
    "MAX_MSG_COUNT \<le> length q" "m_pc p' = M_SendExit \<or> (\<exists>t. m_pc p' = M_Send t)"
    using act_blocked[OF n(1) _ e(1)] act_blocked[OF n(2) _ e(2)] assms(1) by (auto simp: pair_ok_def)
  then have "past_check p" "past_check p'" using e assms(1) by (auto simp: past_check_def pair_ok_def)
  then have "q = [] \<or> q' = []" using assms(1) by (simp add: pair_ok_def)
  with b show False by (auto simp: MAX_MSG_COUNT_def)
qed

text \<open>
  C33. Sending waits when the other one's queue is full, but two processes of which none has ended or was
  interrupted never wait for each other: under every schedule one of them can go on.
\<close>

theorem chat_never_deadlocks:
  assumes "run_steps mq_step es (mq_connected base keys0 keys1) = Some s"
    and "m_pc (peers s ! 0) \<notin> {M_Done, M_SigSend}" "m_pc (peers s ! 1) \<notin> {M_Done, M_SigSend}"
  shows "\<exists>i < 2. \<exists>s'. mq_step (Go i r) s = Stepped s'"
proof -
  have "mq_inv keys0 keys1 s" using connected_run[of es base keys0 keys1] assms(1) by auto
  then obtain p0 p1 q0 q1 where s: "peers s = [p0, p1]" "queues s = [q0, q1]" "queue_recv p0 = Some 0" "queue_send p0 = Some 1"
      "queue_recv p1 = Some 1" "queue_send p1 = Some 0" and ok: "pair_ok p0 p1 q0 q1" by (auto simp: mq_inv_def)
  have w: "well_placed p0 q0" "well_placed p1 q1" using ok by (simp_all add: pair_ok_def)
  from one_acts[OF ok, of r r] assms(2,3) s(1)
  have "act (Some r) p0 q0 q1 \<noteq> None \<or> act (Some r) p1 q1 q0 \<noteq> None" by simp
  then have "(\<exists>s'. mq_step (event_of 0 (Some r)) s = Stepped s') \<or> (\<exists>s'. mq_step (event_of 1 (Some r)) s = Stepped s')"
    using step_first[OF s(1-4) w(1), of "Some r"] step_second[OF s(1,2,5,6) w(2), of "Some r"]
    by (elim disjE conjE exE) simp_all
  then have "(\<exists>s'. mq_step (Go 0 r) s = Stepped s') \<or> (\<exists>s'. mq_step (Go 1 r) s = Stepped s')" by (simp add: event_of_def)
  moreover have "(0::nat) < 2" "(1::nat) < 2" by simp_all
  ultimately show ?thesis by blast
qed

lemma chat_never_deadlocks_witness:
  "\<exists>s. run_steps mq_step [Go 0 True] (mq_connected ''c'' ''hi'' []) = Some s \<and> (\<exists>i < 2. \<exists>s'. mq_step (Go i True) s = Stepped s')"
proof -
  obtain s where s: "run_steps mq_step [Go 0 True] (mq_connected ''c'' ''hi'' []) = Some s"
    "m_pc (peers s ! 0) = M_Input" "m_pc (peers s ! 1) = M_Check"
    by (simp add: mq_step_def chat_step_def check_step_def set_peer_def mq_connected_def queue_names_def mq_peer_def)
  from chat_never_deadlocks[OF s(1)] s show ?thesis by auto
qed


section \<open>When one ends\<close>

fun x_lines :: "nat \<Rightarrow> string" where
  "x_lines 0 = []"
| "x_lines (Suc n) = CHR ''x'' # NL # x_lines n"

abbreviation x_message :: mq_message where "x_message \<equiv> (NORMAL_PRIORITY, ''x'')"

definition filling :: "string \<Rightarrow> nat \<Rightarrow> mq_message list \<Rightarrow> mq_system" where
  "filling base n q = (let c = mq_connected base (x_lines n) (''quit'' @ [NL]) in
     c\<lparr>queues := [[], q], peers := [peers c ! 0, (peers c ! 1)\<lparr>m_pc := M_Input\<rparr>]\<rparr>)"

lemma read_x: "read_user_input (CHR ''x'' # NL # r) = (Some ''x'', r)"
  using fgets_line[of "''x''" MAX_MSG_SIZE r] by (simp add: read_user_input_def MAX_MSG_SIZE_def NL_def NUL_def)

lemma read_quit: "read_user_input (''quit'' @ [NL]) = (Some ''quit'', [])"
  using fgets_line[of "''quit''" MAX_MSG_SIZE "[]"] by (simp add: read_user_input_def MAX_MSG_SIZE_def NL_def NUL_def)

lemmas mq_steps = mq_step_def chat_step_def check_step_def input_step_def send_then_def set_peer_def next_round_def Let_def

lemma mq_insert_x: "mq_insert x_message (replicate n x_message) = replicate (Suc n) x_message"
  by (subst mq_insert_normal) (simp_all add: replicate_append_same)

lemma fill_one:
  "n < MAX_MSG_COUNT \<Longrightarrow> run_steps mq_step [Go 0 True, Go 0 True, Go 0 True] (filling base (Suc m) (replicate n x_message)) =
    Some (filling base m (replicate (Suc n) x_message))"
  by (simp add: filling_def mq_connected_def queue_names_def mq_peer_def mq_steps read_x mq_insert_x MAX_MSG_SIZE_def
      del: replicate.simps)

lemma fill_all:
  "i + n \<le> MAX_MSG_COUNT \<Longrightarrow> run_steps mq_step (concat (replicate n [Go 0 True, Go 0 True, Go 0 True]))
      (filling base (n + m) (replicate i x_message)) = Some (filling base m (replicate (i + n) x_message))"
proof (induction n arbitrary: i)
  case (Suc n)
  from run_steps_trans[OF fill_one[of i base "n + m"] Suc.IH[of "Suc i"]] Suc.prems show ?case by simp
qed simp

text \<open>The process is in \<open>mq_send\<close>, called by the loop or by the handler of SIGINT, with this text.\<close>

definition in_mq_send :: "peer \<Rightarrow> bool" where
  "in_mq_send p \<longleftrightarrow> (case m_pc p of M_Send m \<Rightarrow> True | M_SendExit \<Rightarrow> True | M_SigSend \<Rightarrow> True | _ \<Rightarrow> False)"

definition left_alone :: "nat \<Rightarrow> mq_message list list \<Rightarrow> mq_system \<Rightarrow> bool" where
  "left_alone i qs s \<longleftrightarrow> i < 2 \<and> length (peers s) = 2 \<and> queues s = qs \<and>
     (\<exists>d. queue_send (peers s ! i) = Some d \<and> length (qs ! d) = MAX_MSG_COUNT) \<and>
     m_pc (peers s ! (1 - i)) = M_Done \<and> in_mq_send (peers s ! i) \<and>
     (\<forall>m. m_pc (peers s ! i) = M_Send m \<longrightarrow> length m + 1 \<le> MAX_MSG_SIZE)"

lemma left_alone_stays:
  assumes "left_alone i qs s"
  shows "mq_step (Go i r) s = Blocked" "mq_step e s = Blocked \<or> (\<exists>s'. mq_step e s = Stepped s' \<and> left_alone i qs s')"
proof -
  show waits: "mq_step (Go i r) s = Blocked" for r
    using assms by (auto simp: left_alone_def in_mq_send_def mq_step_def chat_step_def send_then_def Let_def mq_constants EXIT_MSG_def
        split: mq_pc.splits)
  have two: "k < 2 \<Longrightarrow> k = i \<or> k = 1 - i" for k using assms by (auto simp: left_alone_def)
  show "mq_step e s = Blocked \<or> (\<exists>s'. mq_step e s = Stepped s' \<and> left_alone i qs s')"
  proof (cases e)
    case (Go k r)
    then show ?thesis using assms waits two[of k] by (auto simp: left_alone_def mq_step_def chat_step_def)
  next
    case (Interrupt k)
    show ?thesis
    proof (cases "k = i")
      case True
      with assms Interrupt show ?thesis
        by (auto simp: left_alone_def in_mq_send_def mq_step_def interrupt_def Let_def set_peer_def nth_list_update
            split: mq_pc.splits)
    next
      case False
      with assms Interrupt two[of k] show ?thesis by (auto simp: left_alone_def mq_step_def interrupt_def Let_def)
    qed
  qed
qed

interpretation alone: step_invariant mq_step "left_alone i qs" for i qs
  by unfold_locales (metis left_alone_stays(2) outcome.distinct(1,3,5), metis left_alone_stays(2) outcome.distinct(1,3,5) outcome.inject)

lemma left_alone_connected:
  assumes "run_steps mq_step es (mq_connected base keys0 keys1) = Some s" "i < 2" "m_pc (peers s ! (1 - i)) = M_Done"
    and "in_mq_send (peers s ! i)" "queue_send (peers s ! i) = Some d" "length (queues s ! d) = MAX_MSG_COUNT"
  shows "left_alone i (queues s) s"
proof -
  have "mq_inv keys0 keys1 s" using connected_run[of es base keys0 keys1] assms(1) by auto
  then have "length (peers s) = 2" "i = 0 \<or> i = 1 \<Longrightarrow> \<exists>q. well_placed (peers s ! i) q" for i
    by (auto simp: mq_inv_def pair_ok_def)
  moreover from this(2)[of i] assms(2) have "\<forall>m. m_pc (peers s ! i) = M_Send m \<longrightarrow> length m + 1 \<le> MAX_MSG_SIZE"
    by (auto simp: well_placed_def about_to_send_def less_2_cases_iff)
  ultimately show ?thesis using assms by (auto simp: left_alone_def)
qed

lemma last_steps:
  assumes "length q = MAX_MSG_COUNT"
  shows "\<exists>s. run_steps mq_step [Go 0 True, Go 0 True, Go 1 True, Go 1 True, Go 1 True] (filling base 1 q) = Some s \<and>
    m_pc (peers s ! 1) = M_Done \<and> m_pc (peers s ! 0) = M_Send ''x'' \<and> queue_send (peers s ! 0) = Some 1 \<and> queues s ! 1 = q"
proof -
  define s1 where "s1 = (filling base 1 q)\<lparr>peers := [(peers (filling base 1 q) ! 0)\<lparr>keyboard := [], m_pc := M_Send ''x''\<rparr>,
     peers (filling base 1 q) ! 1]\<rparr>"
  have "run_steps mq_step [Go 0 True, Go 0 True] (filling base 1 q) = Some s1"
    by (simp add: s1_def filling_def mq_connected_def queue_names_def mq_peer_def mq_steps read_x)
  moreover have "\<exists>s. run_steps mq_step [Go 1 True, Go 1 True, Go 1 True] s1 = Some s \<and> m_pc (peers s ! 1) = M_Done \<and>
      m_pc (peers s ! 0) = M_Send ''x'' \<and> queue_send (peers s ! 0) = Some 1 \<and> queues s ! 1 = q"
    using assms
    by (simp add: s1_def filling_def mq_connected_def queue_names_def mq_peer_def mq_steps read_quit[simplified]
        cleanup_queues_def EXIT_MSG_def MAX_MSG_SIZE_def MAX_MSG_COUNT_def)
  ultimately show ?thesis using run_steps_trans by fastforce
qed

text \<open>
  C34. When one of two connected processes has ended while the other is in \<open>mq_send\<close> on a full queue, called by
  its loop or by its handler of SIGINT, the other one stays there for ever: whatever steps and signals follow,
  it is still in \<open>mq_send\<close> and cannot go on, since nobody reads the queue any more.
\<close>

theorem full_queue_blocks_for_good:
  assumes "run_steps mq_step es (mq_connected base keys0 keys1) = Some s" "i < 2" "m_pc (peers s ! (1 - i)) = M_Done"
    and "in_mq_send (peers s ! i)" "queue_send (peers s ! i) = Some d" "length (queues s ! d) = MAX_MSG_COUNT"
  shows "\<exists>s'. run_steps mq_step es' s = Some s' \<and> queues s' = queues s \<and> in_mq_send (peers s' ! i) \<and>
    (\<forall>ready. mq_step (Go i ready) s' = Blocked)"
proof -
  obtain s' where "run_steps mq_step es' s = Some s'" "left_alone i (queues s) s'"
    using alone.run_good[OF left_alone_connected[OF assms]] by blast
  then show ?thesis using left_alone_stays(1) by (auto simp: left_alone_def)
qed

lemma full_queue_blocks_for_good_witness:
  "\<exists>es s. run_steps mq_step es (mq_connected ''c'' (x_lines 11) (''quit'' @ [NL])) = Some s \<and>
    m_pc (peers s ! 0) = M_Send ''x'' \<and> m_pc (peers s ! 1) = M_Done \<and>
    (\<exists>s'. run_steps mq_step [Interrupt 0, Go 0 True] s = Some s' \<and> in_mq_send (peers s' ! 0) \<and> mq_step (Go 0 True) s' = Blocked)"
proof -
  have a: "run_steps mq_step [Go 1 True] (mq_connected ''c'' (x_lines 11) (''quit'' @ [NL])) = Some (filling ''c'' 11 [])"
    by (simp add: filling_def mq_connected_def queue_names_def mq_peer_def mq_steps)
  have b: "run_steps mq_step (concat (replicate 10 [Go 0 True, Go 0 True, Go 0 True])) (filling ''c'' 11 []) =
      Some (filling ''c'' 1 (replicate 10 x_message))"
    using fill_all[of 0 10 "''c''" 1] by (simp add: MAX_MSG_COUNT_def replicate.simps(1) del: replicate.simps(2) x_lines.simps)
  obtain s where s: "run_steps mq_step [Go 0 True, Go 0 True, Go 1 True, Go 1 True, Go 1 True]
      (filling ''c'' 1 (replicate 10 x_message)) = Some s" "m_pc (peers s ! 1) = M_Done" "m_pc (peers s ! 0) = M_Send ''x''"
      "queue_send (peers s ! 0) = Some 1" "queues s ! 1 = replicate 10 x_message"
    using last_steps[of "replicate 10 x_message" "''c''"] unfolding MAX_MSG_COUNT_def length_replicate by blast
  note r = run_steps_trans[OF run_steps_trans[OF a b] s(1)]
  have "in_mq_send (peers s ! 0)" "length (queues s ! 1) = MAX_MSG_COUNT" "m_pc (peers s ! (1 - 0)) = M_Done" "(0::nat) < 2"
    using s by (simp_all add: in_mq_send_def MAX_MSG_COUNT_def)
  from full_queue_blocks_for_good[OF r this(4,3,1) s(4) this(2), of "[Interrupt 0, Go 0 True]"] r s(2,3) show ?thesis by blast
qed

end
