(* ===== verification/Udp_Chat.thy ===== *)
theory Udp_Chat
  imports C_Decimal
begin

text \<open>
  module3/06: a chat by UDP broadcast (chat.c, network.c, utils.c). Every process on the port gets
  every datagram, its own included, unless the network loses it; processes start and end at any time.
  An event is one process finding its keyboard or its socket ready, or a signal.
\<close>

definition UDP_BUFFER :: nat where "UDP_BUFFER = 1024"
definition UDP_NICKNAME :: nat where "UDP_NICKNAME = 50"

lemmas udp_sizes = UDP_BUFFER_def UDP_NICKNAME_def

section \<open>utils.c\<close>

definition is_valid_nickname :: "string \<Rightarrow> bool" where
  "is_valid_nickname nick \<longleftrightarrow> nick \<noteq> [] \<and> list_all (\<lambda>c. isalnum c \<or> c = CHR ''_'') nick"

definition udp_safe_strcpy :: "string \<Rightarrow> nat \<Rightarrow> string" where
  "udp_safe_strcpy src n = strncpy_term n src"

definition is_my_message :: "string \<Rightarrow> string \<Rightarrow> bool" where
  "is_my_message nick message \<longleftrightarrow> strstr message nick \<noteq> None"

section \<open>network.c\<close>

definition join_text :: "string \<Rightarrow> string" where
  "join_text nick = snprintf_into UDP_BUFFER (''['' @ nick @ ''] joined the chat'')"

definition leave_text :: "string \<Rightarrow> string" where
  "leave_text nick = snprintf_into UDP_BUFFER (''['' @ nick @ ''] left the chat'')"

definition chat_text :: "string \<Rightarrow> string \<Rightarrow> string" where
  "chat_text nick line = snprintf_into UDP_BUFFER (''['' @ nick @ '']: '' @ line)"

text \<open>
  A process: its nickname, its keyboard, the datagrams waiting in its socket, and what it printed: the
  messages shown and its own notices.
\<close>

datatype udp_output = Shown string | Notice string

record udp_peer =
  u_nick :: string
  u_keys :: string
  u_inbox :: "string list"
  u_screen :: "udp_output list"
  u_running :: bool

definition deliver :: "string \<Rightarrow> udp_peer \<Rightarrow> udp_peer" where
  "deliver message p = (if u_running p then p\<lparr>u_inbox := u_inbox p @ [message]\<rparr> else p)"

definition send_broadcast :: "string \<Rightarrow> udp_peer list \<Rightarrow> udp_peer list" where
  "send_broadcast message ps = map (deliver message) ps"

definition receive_message :: "udp_peer \<Rightarrow> (string \<times> udp_peer) option" where
  "receive_message p =
     (case u_inbox p of [] \<Rightarrow> None | d # ds \<Rightarrow> Some (take (UDP_BUFFER - 1) d, p\<lparr>u_inbox := ds\<rparr>))"

section \<open>chat.c\<close>

text \<open>
  The events: a process starts; its keyboard or its socket is ready; a datagram for it is lost; it gets
  SIGINT; \<open>recvfrom\<close> fails. The result is the processes and what was broadcast, with its sender.
\<close>

datatype udp_event = Join nat | Keys nat | Net nat | Lose nat | Sigint nat | Net_Error nat

definition start_chat :: "nat \<Rightarrow> udp_peer list \<Rightarrow> udp_peer list \<times> (nat \<times> string) list" where
  "start_chat i ps =
     (let p = ps ! i; nick = udp_safe_strcpy (u_nick p) UDP_NICKNAME in
      if u_running p then (ps, [])
      else if \<not> is_valid_nickname (u_nick p)
      then (ps[i := p\<lparr>u_screen := u_screen p @ [Notice (''Error: Invalid nickname. Use only letters, numbers and '' @ [CHR 0x27, CHR ''_'', CHR 0x27])]\<rparr>], [])
      else (send_broadcast (join_text nick) (ps[i := p\<lparr>u_nick := nick, u_running := True, u_inbox := []\<rparr>]), [(i, join_text nick)]))"

definition handle_exit :: "nat \<Rightarrow> udp_peer list \<Rightarrow> udp_peer list \<times> (nat \<times> string) list" where
  "handle_exit i ps =
     (let p = ps ! i; ps1 = send_broadcast (leave_text (u_nick p)) ps in
      (ps1[i := (ps1 ! i)\<lparr>u_screen := u_screen p @ [Notice ''Goodbye!''], u_running := False\<rparr>], [(i, leave_text (u_nick p))]))"

definition keyboard_ready :: "nat \<Rightarrow> udp_peer list \<Rightarrow> udp_peer list \<times> (nat \<times> string) list" where
  "keyboard_ready i ps =
     (let p = ps ! i in
      case fgets UDP_BUFFER (u_keys p) of
        None \<Rightarrow> (ps, [])
      | Some (l, rest) \<Rightarrow>
          (let send_buffer = chomp l; ps1 = ps[i := p\<lparr>u_keys := rest\<rparr>] in
           if strcmp send_buffer ''/quit'' = 0 then handle_exit i ps1
           else if strcmp send_buffer ''/whoami'' = 0
           then (ps1[i := (ps1 ! i)\<lparr>u_screen := u_screen p @ [Notice (''Your nickname: '' @ u_nick p)]\<rparr>], [])
           else if 0 < length send_buffer
           then (send_broadcast (chat_text (u_nick p) send_buffer) ps1, [(i, chat_text (u_nick p) send_buffer)])
           else (ps1, [])))"

definition socket_ready :: "nat \<Rightarrow> udp_peer list \<Rightarrow> udp_peer list" where
  "socket_ready i ps =
     (case receive_message (ps ! i) of
        None \<Rightarrow> ps
      | Some (recv_buffer, p) \<Rightarrow>
          ps[i := (if 0 < length recv_buffer \<and> \<not> is_my_message (u_nick p) (cstr recv_buffer)
                   then p\<lparr>u_screen := u_screen p @ [Shown (cstr recv_buffer)]\<rparr> else p)])"

definition udp_step :: "udp_event \<Rightarrow> udp_peer list \<Rightarrow> udp_peer list \<times> (nat \<times> string) list" where
  "udp_step e ps =
     (case e of
        Join i \<Rightarrow> if i < length ps then start_chat i ps else (ps, [])
      | Keys i \<Rightarrow> if i < length ps \<and> u_running (ps ! i) then keyboard_ready i ps else (ps, [])
      | Net i \<Rightarrow> (if i < length ps \<and> u_running (ps ! i) then socket_ready i ps else ps, [])
      | Lose i \<Rightarrow> (if i < length ps then ps[i := (ps ! i)\<lparr>u_inbox := drop 1 (u_inbox (ps ! i))\<rparr>] else ps, [])
      | Sigint i \<Rightarrow> if i < length ps \<and> u_running (ps ! i) then handle_exit i ps else (ps, [])
      | Net_Error i \<Rightarrow> (if i < length ps \<and> u_running (ps ! i) then ps[i := (ps ! i)\<lparr>u_running := False\<rparr>] else ps, []))"

fun udp_run :: "udp_event list \<Rightarrow> udp_peer list \<Rightarrow> udp_peer list \<times> (nat \<times> string) list" where
  "udp_run [] ps = (ps, [])"
| "udp_run (e # es) ps =
     (let (ps1, sent1) = udp_step e ps; (ps2, sent2) = udp_run es ps1 in (ps2, sent1 @ sent2))"

end
