(* ===== verification/Udp_Chat_Props.thy ===== *)
theory Udp_Chat_Props
  imports Udp_Chat
begin

text \<open>
  What the users of the UDP chat see. The receiver tells its own messages by its nickname occurring
  anywhere in the text: it never shows its own, and never those of others that contain it.
\<close>

section \<open>Messages\<close>

definition message_ok :: "string \<Rightarrow> bool" where
  "message_ok m \<longleftrightarrow> m \<noteq> [] \<and> NUL \<notin> set m \<and> length m < UDP_BUFFER"

definition peer_ok :: "udp_peer \<Rightarrow> bool" where
  "peer_ok p \<longleftrightarrow> (u_running p \<longrightarrow> is_valid_nickname (u_nick p) \<and> length (u_nick p) < UDP_NICKNAME \<and> list_all message_ok (u_inbox p))"

lemma isalnum_NUL [simp]: "\<not> isalnum NUL"
  by (simp add: isalnum_def isdigit_def NUL_def)

lemma valid_no_NUL: "is_valid_nickname nick \<Longrightarrow> NUL \<notin> set nick"
  using isalnum_NUL by (auto simp: is_valid_nickname_def list_all_iff dest!: bspec[of _ _ NUL]) (simp add: NUL_def)

lemma message_received: "message_ok d \<Longrightarrow> take (UDP_BUFFER - 1) d = d \<and> cstr d = d"
  by (auto simp: message_ok_def cstr_def)

lemma snprintf_ok:
  "\<lbrakk>NUL \<notin> set t; t \<noteq> []\<rbrakk> \<Longrightarrow> message_ok (snprintf_into UDP_BUFFER t)"
  by (auto simp: message_ok_def snprintf_into_def UDP_BUFFER_def dest: in_set_takeD)

lemma nick_in_message: "length a < 50 \<Longrightarrow> length nick < UDP_NICKNAME \<Longrightarrow> sublist nick (snprintf_into UDP_BUFFER (a @ nick @ b))"
  by (simp add: snprintf_into_def udp_sizes sublist_append)

lemma own_messages:
  assumes "is_valid_nickname nick" "length nick < UDP_NICKNAME" "NUL \<notin> set line"
  shows "message_ok (join_text nick) \<and> message_ok (leave_text nick) \<and> message_ok (chat_text nick line) \<and>
    sublist nick (join_text nick) \<and> sublist nick (leave_text nick) \<and> sublist nick (chat_text nick line)"
  using nick_in_message[of "''[''" nick] assms(2,3) valid_no_NUL[OF assms(1)]
  by (auto simp: join_text_def leave_text_def chat_text_def NUL_def intro!: snprintf_ok)


section \<open>What is shown\<close>

fun shown_texts :: "udp_output list \<Rightarrow> string list" where
  "shown_texts [] = []"
| "shown_texts (Shown m # os) = m # shown_texts os"
| "shown_texts (Notice _ # os) = shown_texts os"

lemma shown_texts_append [simp]: "shown_texts (a @ b) = shown_texts a @ shown_texts b"
  by (induction a rule: shown_texts.induct) auto

definition visible :: "string \<Rightarrow> string list \<Rightarrow> string list" where
  "visible nick ms = filter (\<lambda>m. \<not> sublist nick m) ms"

definition from_others :: "nat \<Rightarrow> (nat \<times> string) list \<Rightarrow> string list" where
  "from_others j log = map snd (filter (\<lambda>m. fst m \<noteq> j) log)"

definition account :: "string \<Rightarrow> udp_peer \<Rightarrow> string list" where
  "account nick p = shown_texts (u_screen p) @ visible nick (u_inbox p)"

text \<open>What a step may do to process \<open>j\<close> and add to the log.\<close>

definition step_ok :: "nat \<Rightarrow> string \<Rightarrow> udp_event \<Rightarrow> udp_peer list \<Rightarrow> udp_peer list \<Rightarrow> (nat \<times> string) list \<Rightarrow> bool" where
  "step_ok j nick e ps ps1 log \<longleftrightarrow> length ps1 = length ps \<and> list_all peer_ok ps1 \<and>
     (\<forall>m \<in> set log. fst m = j \<longrightarrow> sublist nick (snd m)) \<and> udp_safe_strcpy (u_nick (ps1 ! j)) UDP_NICKNAME = nick \<and>
     subseq (account nick (ps1 ! j)) (account nick (ps ! j) @ visible nick (map snd log)) \<and>
     (e \<noteq> Lose j \<and> e \<noteq> Join j \<and> u_running (ps1 ! j) \<longrightarrow> u_running (ps ! j) \<and>
        account nick (ps1 ! j) = account nick (ps ! j) @ visible nick (map snd log))"

lemma short_nick: "length nick < UDP_NICKNAME \<Longrightarrow> udp_safe_strcpy nick UDP_NICKNAME = nick"
  by (simp add: udp_safe_strcpy_def strncpy_term_def UDP_NICKNAME_def)

lemma visible_simps [simp]: "visible nick [] = []" "visible nick (a @ b) = visible nick a @ visible nick b"
  "visible nick (m # ms) = (if sublist nick m then visible nick ms else m # visible nick ms)"
  by (simp_all add: visible_def)

lemma deliver_ok: "peer_ok p \<Longrightarrow> message_ok m \<Longrightarrow> peer_ok (deliver m p)"
  by (simp add: peer_ok_def deliver_def)

lemma deliver_account:
  "subseq (account nick (deliver m p)) (account nick p @ visible nick [m])"
  "u_running p \<Longrightarrow> account nick (deliver m p) = account nick p @ visible nick [m]"
  "u_running (deliver m p) = u_running p" "u_nick (deliver m p) = u_nick p"
  by (auto simp: account_def deliver_def)

text \<open>A process changed and a message of its own broadcast to all.\<close>

lemma broadcast_ok:
  assumes "list_all peer_ok ps" "i < length ps" "j < length ps" "peer_ok p'" "message_ok m"
    and "i = j \<Longrightarrow> sublist nick m \<and> udp_safe_strcpy (u_nick p') UDP_NICKNAME = nick \<and> subseq (account nick p') (account nick (ps ! j)) \<and>
      (e \<noteq> Join j \<longrightarrow> u_running (ps ! j) \<and> account nick p' = account nick (ps ! j))"
    and "udp_safe_strcpy (u_nick (ps ! j)) UDP_NICKNAME = nick"
  shows "step_ok j nick e ps (send_broadcast m (ps[i := p'])) [(i, m)]"
proof -
  have nth: "send_broadcast m (ps[i := p']) ! j = deliver m (if i = j then p' else ps ! j)"
    using assms(2,3) by (simp add: send_broadcast_def)
  have "list_all peer_ok (send_broadcast m (ps[i := p']))"
    using assms(1,4,5) set_update_subset_insert[of ps i p'] deliver_ok by (auto simp: send_broadcast_def list_all_iff)
  moreover have "subseq (account nick (deliver m (if i = j then p' else ps ! j))) (account nick (ps ! j) @ visible nick [m])"
  proof (cases "i = j")
    case True
    then have "subseq (account nick p' @ visible nick [m]) (account nick (ps ! j) @ visible nick [m])"
      using assms(6) by (simp add: list_emb_append_mono)
    from subseq_order.order_trans[OF deliver_account(1) this] show ?thesis using True by simp
  qed (use deliver_account(1) in auto)
  ultimately show ?thesis
    using nth assms(6,7) deliver_account(2-4)[where m = m] unfolding step_ok_def
    by (auto simp: send_broadcast_def split: if_splits)
qed


text \<open>A process changed alone.\<close>

lemma local_ok:
  assumes "list_all peer_ok ps" "i < length ps" "j < length ps" "peer_ok p'" "udp_safe_strcpy (u_nick (ps ! j)) UDP_NICKNAME = nick"
    and "i = j \<Longrightarrow> u_nick p' = u_nick (ps ! j) \<and> subseq (account nick p') (account nick (ps ! j)) \<and>
      (e \<noteq> Lose j \<and> u_running p' \<longrightarrow> u_running (ps ! j) \<and> account nick p' = account nick (ps ! j))"
  shows "step_ok j nick e ps (ps[i := p']) []"
  using assms set_update_subset_insert[of ps i p'] by (auto simp: step_ok_def list_all_iff nth_list_update)

lemma nothing_ok:
  "list_all peer_ok ps \<Longrightarrow> udp_safe_strcpy (u_nick (ps ! j)) UDP_NICKNAME = nick \<Longrightarrow> step_ok j nick e ps ps []"
  by (simp add: step_ok_def)

lemma peer_ok_at: "list_all peer_ok ps \<Longrightarrow> i < length ps \<Longrightarrow> peer_ok (ps ! i)"
  by (simp add: list_all_length)

lemma running_nick:
  "list_all peer_ok ps \<Longrightarrow> j < length ps \<Longrightarrow> u_running (ps ! j) \<Longrightarrow> udp_safe_strcpy (u_nick (ps ! j)) UDP_NICKNAME = nick \<Longrightarrow>
   u_nick (ps ! j) = nick"
  using peer_ok_at[of ps j] short_nick by (auto simp: peer_ok_def)

lemma then_ends:
  assumes "step_ok j nick e ps ps1 log" "peer_ok p'"
    and "u_nick p' = u_nick (ps1 ! i)" "account nick p' = account nick (ps1 ! i)" "\<not> u_running p'"
  shows "step_ok j nick e ps (ps1[i := p']) log"
proof -
  have "list_all peer_ok (ps1[i := p'])"
    using assms(1,2) set_update_subset_insert[of ps1 i p'] by (auto simp: step_ok_def list_all_iff)
  moreover have "ps1[i := p'] ! j = (if i = j \<and> i < length ps1 then p' else ps1 ! j)"
    by (cases "i < length ps1") (simp_all add: nth_list_update list_update_beyond)
  ultimately show ?thesis using assms(1,3-5) unfolding step_ok_def by (simp split: if_splits)
qed

lemma exit_ok:
  assumes "list_all peer_ok ps" "i < length ps" "j < length ps" "u_running (ps ! i)" "udp_safe_strcpy (u_nick (ps ! j)) UDP_NICKNAME = nick"
    and "handle_exit i ps = (ps1, log)" "e \<noteq> Join j"
  shows "step_ok j nick e ps ps1 log"
proof -
  let ?m = "leave_text (u_nick (ps ! i))"
  have pi: "peer_ok (ps ! i)" using peer_ok_at assms(1,2) by blast
  then have m: "message_ok ?m" "sublist (u_nick (ps ! i)) ?m"
    using own_messages[of "u_nick (ps ! i)" "[]"] assms(4) by (simp_all add: peer_ok_def)
  have step: "step_ok j nick e ps (send_broadcast ?m (ps[i := ps ! i])) [(i, ?m)]"
    by (rule broadcast_ok[OF assms(1-3) pi m(1) _ assms(5)])
       (use assms(3-5) m(2) running_nick[OF assms(1,3) _ assms(5)] in auto)
  have eq: "ps1 = (send_broadcast ?m ps)[i := (send_broadcast ?m ps ! i)\<lparr>u_screen := u_screen (ps ! i) @ [Notice ''Goodbye!''],
      u_running := False\<rparr>]" "log = [(i, ?m)]"
    using assms(6) by (simp_all add: handle_exit_def Let_def)
  have "u_screen (send_broadcast ?m ps ! i) = u_screen (ps ! i)" using assms(2) by (simp add: send_broadcast_def deliver_def)
  then show ?thesis
    using step unfolding eq by (intro then_ends) (simp_all add: peer_ok_def account_def)
qed

lemma socket_ok:
  assumes "list_all peer_ok ps" "i < length ps" "j < length ps" "u_running (ps ! i)" "udp_safe_strcpy (u_nick (ps ! j)) UDP_NICKNAME = nick"
  shows "step_ok j nick e ps (socket_ready i ps) []"
proof (cases "u_inbox (ps ! i)")
  case Nil
  then show ?thesis using assms by (simp add: socket_ready_def receive_message_def nothing_ok)
next
  case (Cons d ds)
  have ok: "peer_ok (ps ! i)" "message_ok d" using peer_ok_at[OF assms(1,2)] Cons assms(4) by (auto simp: peer_ok_def)
  note d = message_received[OF ok(2)]
  let ?p = "(ps ! i)\<lparr>u_inbox := ds\<rparr>"
  let ?p' = "if is_my_message (u_nick (ps ! i)) d then ?p else ?p\<lparr>u_screen := u_screen (ps ! i) @ [Shown d]\<rparr>"
  have eq: "socket_ready i ps = ps[i := ?p']"
    using Cons d ok(2) by (simp add: socket_ready_def receive_message_def message_ok_def)
  have pok: "peer_ok ?p'" using ok(1) Cons by (simp add: peer_ok_def)
  show ?thesis unfolding eq
  proof (rule local_ok[OF assms(1-3) pok assms(5)])
    assume "i = j"
    then have "u_nick (ps ! i) = nick" using running_nick[OF assms(1,3) _ assms(5)] assms(4) by simp
    then have "account nick ?p' = account nick (ps ! i)"
      using Cons by (simp add: account_def is_my_message_def strstr_None_iff)
    then show "u_nick ?p' = u_nick (ps ! j) \<and> subseq (account nick ?p') (account nick (ps ! j)) \<and>
      (e \<noteq> Lose j \<and> u_running ?p' \<longrightarrow> u_running (ps ! j) \<and> account nick ?p' = account nick (ps ! j))"
      using \<open>i = j\<close> assms(4) by simp
  qed
qed


lemma start_ok:
  assumes "list_all peer_ok ps" "i < length ps" "j < length ps" "udp_safe_strcpy (u_nick (ps ! j)) UDP_NICKNAME = nick"
    and "start_chat i ps = (ps1, log)" "e = Join i"
  shows "step_ok j nick e ps ps1 log"
proof -
  let ?p = "ps ! i"
  let ?n = "udp_safe_strcpy (u_nick ?p) UDP_NICKNAME"
  consider "u_running ?p" | "\<not> u_running ?p" "\<not> is_valid_nickname (u_nick ?p)" | "\<not> u_running ?p" "is_valid_nickname (u_nick ?p)"
    by blast
  then show ?thesis
  proof cases
    case 1
    then show ?thesis using assms nothing_ok by (simp add: start_chat_def)
  next
    case 2
    then have eq: "log = []" "\<exists>n. ps1 = ps[i := ?p\<lparr>u_screen := u_screen ?p @ [Notice n]\<rparr>]"
      using assms(5) by (auto simp: start_chat_def Let_def)
    then obtain n where ps1: "ps1 = ps[i := ?p\<lparr>u_screen := u_screen ?p @ [Notice n]\<rparr>]" by blast
    show ?thesis unfolding eq(1) ps1
      by (rule local_ok[OF assms(1-3) _ assms(4)]) (use 2 in \<open>auto simp: peer_ok_def account_def\<close>)
  next
    case 3
    then have len: "length ?n < UDP_NICKNAME" "is_valid_nickname ?n"
      by (auto simp: udp_safe_strcpy_def strncpy_term_def UDP_NICKNAME_def is_valid_nickname_def list_all_iff dest: in_set_takeD)
    have eq: "ps1 = send_broadcast (join_text ?n) (ps[i := ?p\<lparr>u_nick := ?n, u_running := True, u_inbox := []\<rparr>])"
      "log = [(i, join_text ?n)]" using 3 assms(5) by (simp_all add: start_chat_def Let_def)
    have m: "message_ok (join_text ?n)" "sublist ?n (join_text ?n)" using own_messages[OF len(2,1), of "[]"] by simp_all
    show ?thesis unfolding eq
      by (rule broadcast_ok[OF assms(1-3) _ m(1) _ assms(4)])
         (use len m(2) assms(4,6) short_nick[OF len(1)] in \<open>auto simp: peer_ok_def account_def\<close>)
  qed
qed

lemma keyboard_ok:
  assumes "list_all peer_ok ps" "i < length ps" "j < length ps" "u_running (ps ! i)" "udp_safe_strcpy (u_nick (ps ! j)) UDP_NICKNAME = nick"
    and "keyboard_ready i ps = (ps1, log)" "e = Keys i"
  shows "step_ok j nick e ps ps1 log"
proof (cases "fgets UDP_BUFFER (u_keys (ps ! i))")
  case None
  then show ?thesis using assms nothing_ok by (simp add: keyboard_ready_def)
next
  case (Some lr)
  obtain l rest where lr: "lr = (l, rest)" by (cases lr)
  let ?p = "(ps ! i)\<lparr>u_keys := rest\<rparr>"
  let ?ps = "ps[i := ?p]"
  have pi: "peer_ok (ps ! i)" using peer_ok_at assms(1,2) by blast
  then have p: "peer_ok ?p" by (simp add: peer_ok_def)
  have acc: "account nick ?p = account nick (ps ! i)" by (simp add: account_def)
  have "NUL \<notin> set (chomp l)" using fgets_bounds(2)[OF Some[unfolded lr]] by (auto simp: chomp_eq_takeWhile dest: set_takeWhileD)
  then have m: "message_ok (chat_text (u_nick (ps ! i)) (chomp l))" "sublist (u_nick (ps ! i)) (chat_text (u_nick (ps ! i)) (chomp l))"
    using own_messages[of "u_nick (ps ! i)" "chomp l"] pi assms(4) by (simp_all add: peer_ok_def)
  have same: "u_nick (ps ! i) = nick" if "i = j" using that running_nick[OF assms(1,3) _ assms(5)] assms(4) by simp
  consider (quit) "chomp l = ''/quit''" | (who) "chomp l = ''/whoami''" | (chat) "chomp l \<noteq> ''/quit''" "chomp l \<noteq> ''/whoami''" "chomp l \<noteq> []"
    | (empty) "chomp l = []" by blast
  then show ?thesis
  proof cases
    case quit
    have "list_all peer_ok ?ps" using assms(1) p set_update_subset_insert[of ps i ?p] by (auto simp: list_all_iff)
    moreover have "udp_safe_strcpy (u_nick (?ps ! j)) UDP_NICKNAME = nick" "u_running (?ps ! i)"
      using assms(2,4,5) by (cases "i = j", simp_all)
    moreover have "handle_exit i ?ps = (ps1, log)" using assms(6) Some lr quit by (simp add: keyboard_ready_def Let_def)
    ultimately have "step_ok j nick e ?ps ps1 log" using exit_ok[of ?ps i j nick ps1 log e] assms(2,3,7) by simp
    moreover have "account nick (?ps ! j) = account nick (ps ! j)" "u_running (?ps ! j) = u_running (ps ! j)"
      using acc assms(3) by (cases "i = j"; simp)+
    ultimately show ?thesis by (simp add: step_ok_def)
  next
    case who
    then obtain n where eq: "ps1 = ps[i := ?p\<lparr>u_screen := u_screen (ps ! i) @ [Notice n]\<rparr>]" "log = []"
      using assms(2,6) Some lr by (auto simp: keyboard_ready_def Let_def)
    show ?thesis unfolding eq
      by (rule local_ok[OF assms(1-3) _ assms(5)]) (use pi assms(4) in \<open>auto simp: peer_ok_def account_def\<close>)
  next
    case chat
    then have eq: "ps1 = send_broadcast (chat_text (u_nick (ps ! i)) (chomp l)) ?ps" "log = [(i, chat_text (u_nick (ps ! i)) (chomp l))]"
      using assms(6) Some lr by (simp_all add: keyboard_ready_def Let_def)
    show ?thesis unfolding eq
      by (rule broadcast_ok[OF assms(1-3) p m(1) _ assms(5)]) (use m(2) same acc assms(4,5) in auto)
  next
    case empty
    then have eq: "ps1 = ?ps" "log = []" using assms(6) Some lr by (simp_all add: keyboard_ready_def Let_def)
    show ?thesis unfolding eq by (rule local_ok[OF assms(1-3) p assms(5)]) (use acc assms(4) in auto)
  qed
qed

lemma udp_step_ok:
  assumes "list_all peer_ok ps" "j < length ps" "udp_safe_strcpy (u_nick (ps ! j)) UDP_NICKNAME = nick" "udp_step e ps = (ps1, log)"
  shows "step_ok j nick e ps ps1 log"
proof (cases e)
  case (Join i)
  then show ?thesis using assms start_ok nothing_ok by (auto simp: udp_step_def split: if_splits)
next
  case (Keys i)
  then show ?thesis using assms keyboard_ok nothing_ok by (auto simp: udp_step_def split: if_splits)
next
  case (Net i)
  then show ?thesis using assms socket_ok nothing_ok by (auto simp: udp_step_def split: if_splits)
next
  case (Sigint i)
  then show ?thesis using assms exit_ok nothing_ok by (auto simp: udp_step_def split: if_splits)
next
  case (Net_Error i)
  show ?thesis
  proof (cases "i < length ps \<and> u_running (ps ! i)")
    case True
    then have eq: "ps1 = ps[i := (ps ! i)\<lparr>u_running := False\<rparr>]" "log = []" using assms(4) Net_Error by (simp_all add: udp_step_def)
    show ?thesis unfolding eq using True then_ends[OF nothing_ok[OF assms(1,3)], of "(ps ! i)\<lparr>u_running := False\<rparr>" i]
      by (simp add: peer_ok_def account_def)
  qed (use assms Net_Error nothing_ok in \<open>auto simp: udp_step_def\<close>)
next
  case (Lose i)
  let ?p = "(ps ! i)\<lparr>u_inbox := drop 1 (u_inbox (ps ! i))\<rparr>"
  show ?thesis
  proof (cases "i < length ps")
    case True
    have "peer_ok ?p" using peer_ok_at[OF assms(1) True] by (auto simp: peer_ok_def list_all_iff dest: in_set_dropD)
    moreover have "subseq (account nick ?p) (account nick (ps ! i))"
      by (cases "u_inbox (ps ! i)") (auto simp: account_def intro: list_emb_append_mono)
    ultimately have "step_ok j nick (Lose i) ps (ps[i := ?p]) []"
      by (intro local_ok[OF assms(1) True assms(2) _ assms(3)]) auto
    then show ?thesis using assms(4) Lose True by (simp add: udp_step_def)
  qed (use assms Lose nothing_ok in \<open>auto simp: udp_step_def\<close>)
qed


text \<open>Along a run.\<close>

lemma udp_run_ok:
  assumes "list_all peer_ok ps" "j < length ps" "udp_safe_strcpy (u_nick (ps ! j)) UDP_NICKNAME = nick" "udp_run es ps = (ps', log)"
  shows "(\<forall>m \<in> set log. fst m = j \<longrightarrow> sublist nick (snd m)) \<and>
    subseq (account nick (ps' ! j)) (account nick (ps ! j) @ visible nick (map snd log)) \<and>
    (Lose j \<notin> set es \<and> Join j \<notin> set es \<and> u_running (ps' ! j) \<longrightarrow> u_running (ps ! j) \<and>
       account nick (ps' ! j) = account nick (ps ! j) @ visible nick (map snd log))"
  using assms
proof (induction es arbitrary: ps log)
  case (Cons e es)
  obtain ps1 log1 where 1: "udp_step e ps = (ps1, log1)" by fastforce
  obtain ps2 log2 where 2: "udp_run es ps1 = (ps2, log2)" by fastforce
  have eq: "ps' = ps2" "log = log1 @ log2" using Cons.prems(4) 1 2 by simp_all
  have st: "step_ok j nick e ps ps1 log1" using udp_step_ok[OF Cons.prems(1-3) 1] .
  then have ih: "(\<forall>m \<in> set log2. fst m = j \<longrightarrow> sublist nick (snd m)) \<and>
    subseq (account nick (ps' ! j)) (account nick (ps1 ! j) @ visible nick (map snd log2)) \<and>
    (Lose j \<notin> set es \<and> Join j \<notin> set es \<and> u_running (ps' ! j) \<longrightarrow> u_running (ps1 ! j) \<and>
       account nick (ps' ! j) = account nick (ps1 ! j) @ visible nick (map snd log2))"
    using Cons.IH[of ps1 log2] Cons.prems(2) 2 eq(1) by (simp add: step_ok_def)
  have "subseq (account nick (ps1 ! j) @ visible nick (map snd log2))
      ((account nick (ps ! j) @ visible nick (map snd log1)) @ visible nick (map snd log2))"
    using st by (intro list_emb_append_mono) (simp_all add: step_ok_def)
  from subseq_order.order_trans[OF _ this] ih
  have "subseq (account nick (ps' ! j)) (account nick (ps ! j) @ visible nick (map snd log))" by (simp add: eq(2))
  then show ?case using st ih eq(2) by (auto simp: step_ok_def)
qed simp

text \<open>
  C35. Whatever the processes do and the network loses, a user is shown, in order, messages of others that
  do not contain the own nickname, never one of the own; and all of them, when the process was running
  from the beginning, lost nothing and has handled all its datagrams.
\<close>

theorem udp_chat_shows:
  assumes "list_all peer_ok ps" "j < length ps" "u_screen (ps ! j) = []" "u_inbox (ps ! j) = []" "udp_run es ps = (ps', log)"
  shows "subseq (shown_texts (u_screen (ps' ! j))) (visible (udp_safe_strcpy (u_nick (ps ! j)) UDP_NICKNAME) (from_others j log)) \<and>
    (Lose j \<notin> set es \<and> Join j \<notin> set es \<and> u_running (ps' ! j) \<and> u_inbox (ps' ! j) = [] \<longrightarrow>
       shown_texts (u_screen (ps' ! j)) = visible (udp_safe_strcpy (u_nick (ps ! j)) UDP_NICKNAME) (from_others j log))"
proof -
  define nick where "nick = udp_safe_strcpy (u_nick (ps ! j)) UDP_NICKNAME"
  note run = udp_run_ok[OF assms(1,2) nick_def[symmetric] assms(5)]
  have "account nick (ps ! j) = []" using assms(3,4) by (simp add: account_def)
  moreover have "visible nick (from_others j log) = visible nick (map snd log)"
    using run by (auto simp: from_others_def visible_def filter_map o_def intro!: arg_cong[of _ _ "map snd"] filter_cong)
  moreover have "subseq (shown_texts (u_screen (ps' ! j))) (account nick (ps' ! j))"
    unfolding account_def by (rule prefix_imp_subseq) simp
  ultimately show ?thesis using run subseq_order.order_trans unfolding nick_def[symmetric] by (auto simp: account_def)
qed

definition udp_peer_of :: "string \<Rightarrow> string \<Rightarrow> udp_peer" where
  "udp_peer_of nick keys = \<lparr>u_nick = nick, u_keys = keys, u_inbox = [], u_screen = [], u_running = True\<rparr>"

lemma udp_chat_shows_witness:
  "subseq (shown_texts (u_screen (fst (udp_run [Keys 0, Net 1] [udp_peer_of ''ann'' ''hi'', udp_peer_of ''bob'' []]) ! 1)))
     (visible ''bob'' (from_others 1 (snd (udp_run [Keys 0, Net 1] [udp_peer_of ''ann'' ''hi'', udp_peer_of ''bob'' []]))))"
proof -
  have "list_all peer_ok [udp_peer_of ''ann'' ''hi'', udp_peer_of ''bob'' []]"
    by (simp add: peer_ok_def udp_peer_of_def is_valid_nickname_def isalnum_def isdigit_def UDP_NICKNAME_def)
  moreover have "udp_safe_strcpy ''bob'' UDP_NICKNAME = ''bob''" by (rule short_nick) (simp add: UDP_NICKNAME_def)
  ultimately show ?thesis
    using udp_chat_shows[of "[udp_peer_of ''ann'' ''hi'', udp_peer_of ''bob'' []]" 1 "[Keys 0, Net 1]"]
    by (simp add: udp_peer_of_def del: udp_run.simps)
qed

end
