(* ===== verification/Udp_Capture.thy ===== *)
theory Udp_Capture
  imports C_Net
begin

text \<open>
  module3/08: a capture of UDP packets from a raw packet socket (raw\_udp\_capture.c, main.c). The
  frames received are lists of bytes, with the time at which they arrive; the receive buffer of 65536
  bytes keeps what longer frames left in it. Ports and lengths are 16-bit words. \<open>None\<close> is a copy from
  outside the buffer. Which calls of \<open>malloc\<close> succeed is an input, and the memory blocks held are counted.
  Diagnostics are left out, and so is the line with the time since the first packet, which is computed in
  floating point.
\<close>

unbundle bit_operations_syntax

section \<open>raw\_udp\_capture.h\<close>

definition CAPTURE_BUFFER :: nat where "CAPTURE_BUFFER = 65536"
definition MAX_FILTERS :: nat where "MAX_FILTERS = 10"
definition FILTER_NAME_SIZE :: nat where "FILTER_NAME_SIZE = 50"
definition ADDR_LEN :: nat where "ADDR_LEN = 16"
definition MAX_PACKETS :: nat where "MAX_PACKETS = 1000"

lemmas capture_sizes = CAPTURE_BUFFER_def MAX_FILTERS_def FILTER_NAME_SIZE_def ADDR_LEN_def MAX_PACKETS_def

record captured_packet =
  timestamp :: "int \<times> int"
  src_mac :: "byte list"
  dst_mac :: "byte list"
  src_ip :: string
  dst_ip :: string
  src_port :: "16 word"
  dst_port :: "16 word"
  udp_length :: "16 word"
  payload :: "byte list option"
  payload_length :: "16 word"

record filter_t =
  f_name :: string
  f_src_port :: "16 word"
  f_dst_port :: "16 word"
  f_src_ip :: string
  f_dst_ip :: string
  use_src_port :: bool
  use_dst_port :: bool
  use_src_ip :: bool
  use_dst_ip :: bool

record capture =
  filters :: "filter_t list"
  filter_count :: nat
  current_filter_index :: nat
  packets :: "captured_packet list"
  capturing :: bool
  array :: bool
  blocks :: nat

section \<open>Filters\<close>

text \<open>\<open>None\<close> is the null pointer.\<close>

definition add_filter :: "string \<Rightarrow> 16 word \<Rightarrow> 16 word \<Rightarrow> string option \<Rightarrow> string option \<Rightarrow> capture \<Rightarrow> capture" where
  "add_filter nm sp dp sip dip s =
     (if MAX_FILTERS \<le> filter_count s then s
      else (let old = filters s ! filter_count s;
                f = \<lparr>f_name = strncpy_term FILTER_NAME_SIZE nm, f_src_port = sp, f_dst_port = dp,
                     f_src_ip = (case sip of None \<Rightarrow> f_src_ip old | Some a \<Rightarrow> strncpy_term ADDR_LEN a),
                     f_dst_ip = (case dip of None \<Rightarrow> f_dst_ip old | Some a \<Rightarrow> strncpy_term ADDR_LEN a),
                     use_src_port = (sp \<noteq> 0), use_dst_port = (dp \<noteq> 0), use_src_ip = (sip \<noteq> None), use_dst_ip = (dip \<noteq> None)\<rparr>
            in s\<lparr>filters := (filters s)[filter_count s := f], filter_count := Suc (filter_count s)\<rparr>))"

definition init_filters :: "capture \<Rightarrow> capture" where
  "init_filters s =
     add_filter ''NTP (p 123)'' 123 123 None None
       (add_filter ''DNS (p 53)'' 53 53 None None
          (add_filter ''Chat messages (p 51000)'' 51000 51000 None None (s\<lparr>filter_count := 0\<rparr>)))"

text \<open>The filter on the buffer, whose IP and UDP headers start at \<open>ip\<close> and \<open>udp\<close>.\<close>

definition apply_filter :: "byte list \<Rightarrow> nat \<Rightarrow> nat \<Rightarrow> capture \<Rightarrow> bool" where
  "apply_filter buf ip udp s =
     (if filter_count s = 0 then True
      else let f = filters s ! current_filter_index s in
        if \<not> use_src_port f \<and> \<not> use_dst_port f \<and> \<not> use_src_ip f \<and> \<not> use_dst_ip f then True
        else let sp = ntohs (load16_at buf udp); dp = ntohs (load16_at buf (udp + 2)) in
          if (if f_src_port f = f_dst_port f \<and> use_src_port f \<and> use_dst_port f
              then \<not> (sp = f_src_port f \<or> dp = f_dst_port f)
              else use_src_port f \<and> sp \<noteq> f_src_port f \<or> use_dst_port f \<and> dp \<noteq> f_dst_port f)
          then False
          else if use_src_ip f \<and> strcmp (dotted (addr_at buf (ip + 12))) (f_src_ip f) \<noteq> 0 then False
          else if use_dst_ip f \<and> strcmp (dotted (addr_at buf (ip + 16))) (f_dst_ip f) \<noteq> 0 then False
          else True)"

section \<open>Packets\<close>

definition get_mac_address :: "byte list \<Rightarrow> byte list \<times> byte list" where
  "get_mac_address buf = (take 6 (drop 6 buf), take 6 buf)"

text \<open>
  \<open>payload_length\<close> is \<open>uint16_t\<close>, so that the difference wraps around when the frame is shorter than its
  headers claim. \<open>mem\<close> tells whether \<open>malloc\<close> finds memory for the payload; without it the packet is
  recorded all the same.
\<close>

definition add_packet :: "bool \<Rightarrow> int \<times> int \<Rightarrow> byte list \<Rightarrow> nat \<Rightarrow> nat \<Rightarrow> nat \<Rightarrow> capture \<Rightarrow> capture option" where
  "add_packet mem tv buf len ip udp s =
     (if MAX_PACKETS \<le> length (packets s) then Some (s\<lparr>capturing := False\<rparr>)
      else (let payload_offset = 14 + unat (buf ! ip AND 0x0F) * 4 + 8;
                plen = word_of_int (int len - int payload_offset) :: 16 word;
                (smac, dmac) = get_mac_address buf;
                pkt = \<lparr>timestamp = tv, src_mac = smac, dst_mac = dmac,
                       src_ip = dotted (addr_at buf (ip + 12)), dst_ip = dotted (addr_at buf (ip + 16)),
                       src_port = ntohs (load16_at buf udp), dst_port = ntohs (load16_at buf (udp + 2)),
                       udp_length = ntohs (load16_at buf (udp + 4)), payload = None, payload_length = plen\<rparr>
            in if plen = 0 \<or> \<not> mem then Some (s\<lparr>packets := packets s @ [pkt]\<rparr>)
               else if length buf < payload_offset + unat plen then None
               else Some (s\<lparr>packets := packets s @ [pkt\<lparr>payload := Some (take (unat plen) (drop payload_offset buf))\<rparr>],
                            blocks := Suc (blocks s)\<rparr>)))"

definition ETHERTYPE_IP :: "16 word" where "ETHERTYPE_IP = 0x0800"

definition process_packet :: "bool \<Rightarrow> int \<times> int \<Rightarrow> byte list \<Rightarrow> nat \<Rightarrow> capture \<Rightarrow> capture option" where
  "process_packet mem tv buf len s =
     (if ntohs (load16_at buf 12) \<noteq> ETHERTYPE_IP then Some s
      else if buf ! (14 + 9) \<noteq> IPPROTO_UDP then Some s
      else (let ip_header_len = unat (buf ! 14 AND 0x0F) * 4; udp = 14 + ip_header_len in
        if \<not> apply_filter buf 14 udp s then Some s
        else add_packet mem tv buf len 14 udp s))"

text \<open>
  What happens to the loop: a frame arrives at a time, \<open>recv\<close> is interrupted or fails, a signal stops
  the capture. \<open>signal\<close> installs the handler so that an interrupted \<open>recv\<close> is restarted (the program is
  compiled with the GNU defaults): \<open>Stop True\<close> is a signal during \<open>recv\<close>, which then goes on waiting for a
  frame. The result is the state, and whether the loop has ended: after the last event it may wait in
  \<open>recv\<close>.
\<close>

datatype capture_event = Frame "int \<times> int" "byte list" bool | Interrupted | Recv_Failed | Stop bool

definition capture_signal_handler :: "capture \<Rightarrow> capture" where
  "capture_signal_handler s = s\<lparr>capturing := False\<rparr>"

fun capture_loop :: "bool \<Rightarrow> capture_event list \<Rightarrow> byte list \<Rightarrow> capture \<Rightarrow> (capture \<times> bool) option" where
  "capture_loop waiting [] buf s = Some (s, \<not> waiting \<and> (\<not> capturing s \<or> MAX_PACKETS \<le> length (packets s)))"
| "capture_loop waiting (e # es) buf s =
     (if \<not> waiting \<and> (\<not> capturing s \<or> MAX_PACKETS \<le> length (packets s)) then Some (s, True)
      else case e of
        Interrupted \<Rightarrow> capture_loop False es buf s
      | Recv_Failed \<Rightarrow> Some (s, True)
      | Stop in_recv \<Rightarrow> capture_loop (waiting \<or> in_recv) es buf (capture_signal_handler s)
      | Frame tv frame mem \<Rightarrow>
          (let got = take CAPTURE_BUFFER frame; buf' = got @ drop (length got) buf in
           if got = [] then capture_loop False es buf' s
           else Option.bind (process_packet mem tv buf' (length got) s) (capture_loop False es buf')))"

text \<open>\<open>stack\<close> is what the buffer on the stack contains at first, \<open>room\<close> whether the table can be allocated.\<close>

definition capture_packets :: "bool \<Rightarrow> capture_event list \<Rightarrow> byte list \<Rightarrow> capture \<Rightarrow> (capture \<times> bool) option" where
  "capture_packets room es stack s =
     (if \<not> room then Some (s, True) else capture_loop False es stack (s\<lparr>array := True, blocks := Suc (blocks s)\<rparr>))"

text \<open>Every payload is freed, and then the table.\<close>

definition cleanup :: "capture \<Rightarrow> capture" where
  "cleanup s =
     (if \<not> array s then s
      else s\<lparr>packets := map (\<lambda>p. p\<lparr>payload := None\<rparr>) (packets s), array := False,
             blocks := blocks s - length (filter (\<lambda>p. payload p \<noteq> None) (packets s)) - 1\<rparr>)"

section \<open>Output\<close>

fun print_mac :: "byte list \<Rightarrow> string" where
  "print_mac [a, b, c, d, e, f] =
     hex02 a @ '':'' @ hex02 b @ '':'' @ hex02 c @ '':'' @ hex02 d @ '':'' @ hex02 e @ '':'' @ hex02 f"
| "print_mac _ = []"

definition hex_line :: "nat \<Rightarrow> byte list \<Rightarrow> string" where
  "hex_line n bs = concat (map (\<lambda>b. hex02 b @ '' '') (take n bs)) @ (if n < length bs then ''...'' else [])"

text \<open>The text on the screen: a dot for the first of a run of other bytes after a printable one, up to a zero.\<close>

fun text_line :: "bool \<Rightarrow> byte list \<Rightarrow> string" where
  "text_line printable [] = []"
| "text_line printable (b # bs) =
     (let c = char_of (unat b) in
      if isprint c then c # text_line True bs
      else if b = 0 then []
      else (if printable then ''.'' else []) @ text_line False bs)"

definition print_packet :: "captured_packet \<Rightarrow> nat \<Rightarrow> string list" where
  "print_packet pkt index =
     [[NL] @ ''   Packet #'' @ show_nat (index + 1) @ '':'',
      ''MAC src: '' @ print_mac (src_mac pkt) @ '' -> dst: '' @ print_mac (dst_mac pkt),
      ''IP src: '' @ src_ip pkt @ '' -> dst: '' @ dst_ip pkt,
      ''UDP port: '' @ show_nat (unat (src_port pkt)) @ '' -> '' @ show_nat (unat (dst_port pkt)),
      ''UDP length: '' @ show_nat (unat (udp_length pkt)) @ '' bytes'',
      ''Payload: '' @ show_nat (unat (payload_length pkt)) @ '' bytes'']
     @ (case payload pkt of
          None \<Rightarrow> []
        | Some bs \<Rightarrow> [''Data (hex): '' @ hex_line 32 bs, ''Data (text): '' @ text_line False (take 64 bs)])"

definition print_all_packets :: "capture \<Rightarrow> string list" where
  "print_all_packets s =
     (if packets s = [] then [''No packets captured.'']
      else ([NL] @ ''   Captured Packets ('' @ show_nat (length (packets s)) @ '')'')
           # concat (map (\<lambda>(i, p). print_packet p i) (enumerate 0 (packets s))))"

text \<open>The report file; \<open>now\<close> is the text of \<open>ctime\<close>.\<close>

definition pad6 :: "int \<Rightarrow> string" where
  "pad6 n = (let t = show_int n in replicate (6 - length t) (CHR ''0'') @ t)"

definition file_packet :: "captured_packet \<Rightarrow> nat \<Rightarrow> string list" where
  "file_packet pkt i =
     [''   Packet #'' @ show_nat (i + 1) @ '':'',
      ''Time: '' @ show_int (fst (timestamp pkt)) @ ''.'' @ pad6 (snd (timestamp pkt)),
      ''MAC: '' @ print_mac (src_mac pkt) @ '' -> '' @ print_mac (dst_mac pkt),
      ''IP: '' @ src_ip pkt @ '' -> '' @ dst_ip pkt,
      ''UDP: '' @ show_nat (unat (src_port pkt)) @ '' -> '' @ show_nat (unat (dst_port pkt)),
      ''Length: '' @ show_nat (unat (udp_length pkt)) @ '' bytes'',
      ''Payload: '' @ show_nat (unat (payload_length pkt)) @ '' bytes'']
     @ (case payload pkt of
          None \<Rightarrow> []
        | Some bs \<Rightarrow> [''Data (hex): '' @ hex_line 64 bs,
                      ''Data (text): '' @ filter isprint (map (\<lambda>b. char_of (unat b)) (take 64 bs))])
     @ [[]]"

text \<open>\<open>opens\<close> tells whether \<open>fopen\<close> succeeds; a file that cannot be opened is not written.\<close>

definition save_to_file :: "bool \<Rightarrow> string \<Rightarrow> string \<Rightarrow> capture \<Rightarrow> (string \<times> string list) option" where
  "save_to_file opens filename now s =
     (if \<not> opens then None else Some (filename,
     [''   UDP Packet Capture Report'', ''Total packets: '' @ show_nat (length (packets s)), ''Capture date: '' @ now, []]
     @ concat (map (\<lambda>(i, p). file_packet p i) (enumerate 0 (packets s)))))"

section \<open>main.c\<close>

text \<open>The choice of the filter, as \<open>scanf\<close> converts it, if it does.\<close>

definition select_filter :: "int option \<Rightarrow> nat" where
  "select_filter input =
     (let choice = (case input of None \<Rightarrow> 1 | Some c \<Rightarrow> c)
      in if choice < 1 \<or> 3 < choice then 0 else nat (choice - 1))"

definition capture_start :: capture where
  "capture_start = \<lparr>filters = replicate MAX_FILTERS \<lparr>f_name = [], f_src_port = 0, f_dst_port = 0, f_src_ip = [], f_dst_ip = [],
     use_src_port = False, use_dst_port = False, use_src_ip = False, use_dst_ip = False\<rparr>, filter_count = 0,
     current_filter_index = 0, packets = [], capturing = True, array = False, blocks = 0\<rparr>"

text \<open>What the user and the system give the program.\<close>

record surroundings =
  filter_input :: "int option"
  socket_opens :: bool
  table_fits :: bool
  arrivals :: "capture_event list"
  stack_bytes :: "byte list"
  output_input :: "int option"
  filename_input :: "string option"
  file_opens :: bool
  date_text :: string

text \<open>The lines displayed and the file written.\<close>

definition capture_results :: "surroundings \<Rightarrow> capture \<Rightarrow> string list \<times> (string \<times> string list) option" where
  "capture_results w s =
     (let choice = (case output_input w of None \<Rightarrow> 2 | Some c \<Rightarrow> c);
          filename = (case filename_input w of None \<Rightarrow> ''captured_packets.txt'' | Some f \<Rightarrow> take 255 f);
          save = (\<lambda>f. save_to_file (file_opens w) f (date_text w) s)
      in if packets s = [] then ([''No packets captured.''], None)
         else if choice = 1 then (print_all_packets s, None)
         else if choice = 2 then ([], save filename)
         else if choice = 3 then (print_all_packets s, save filename)
         else ([], save ''captured_packets.txt''))"

definition capture_main :: "surroundings \<Rightarrow> (capture \<times> string list \<times> (string \<times> string list) option) main_result" where
  "capture_main w =
     (let s = (init_filters capture_start)\<lparr>current_filter_index := select_filter (filter_input w)\<rparr> in
      if \<not> socket_opens w then Exited 1 (s, [], None)
      else case capture_packets (table_fits w) (arrivals w) (stack_bytes w) s of
             None \<Rightarrow> Undefined
           | Some (s1, ended) \<Rightarrow>
               (if ended then Exited 0 (cleanup s1, capture_results w s1) else Waiting (s1, [], None)))"

end
