(* ===== verification/Udp_Capture_Props.thy ===== *)
theory Udp_Capture_Props
  imports Udp_Capture
begin

text \<open>
  What the capture records. Of frames that are as long as their headers say, the packets recorded are
  exactly those of the chosen port, with their fields and the bytes behind the UDP header; a frame that is
  shorter makes the program copy from outside its buffer.
\<close>

section \<open>Frames\<close>

definition udp_at :: "byte list \<Rightarrow> nat" where
  "udp_at f = 14 + unat (f ! 14 AND 0x0F) * 4"

definition is_udp :: "byte list \<Rightarrow> bool" where
  "is_udp f \<longleftrightarrow> ntohs (load16_at f 12) = ETHERTYPE_IP \<and> f ! 23 = IPPROTO_UDP"

definition on_port :: "16 word \<Rightarrow> byte list \<Rightarrow> bool" where
  "on_port p f \<longleftrightarrow> ntohs (load16_at f (udp_at f)) = p \<or> ntohs (load16_at f (udp_at f + 2)) = p"

definition whole_frame :: "byte list \<Rightarrow> bool" where
  "whole_frame f \<longleftrightarrow> 14 \<le> length f \<and> length f \<le> CAPTURE_BUFFER \<and>
     (ntohs (load16_at f 12) = ETHERTYPE_IP \<longrightarrow> 34 \<le> length f) \<and> (is_udp f \<longrightarrow> udp_at f + 8 \<le> length f)"

definition packet_of :: "(int \<times> int) \<times> byte list \<times> bool \<Rightarrow> captured_packet" where
  "packet_of tf = (let (tv, f, mem) = tf; data = drop (udp_at f + 8) f in
     \<lparr>timestamp = tv, src_mac = take 6 (drop 6 f), dst_mac = take 6 f,
      src_ip = dotted (addr_at f 26), dst_ip = dotted (addr_at f 30),
      src_port = ntohs (load16_at f (udp_at f)), dst_port = ntohs (load16_at f (udp_at f + 2)),
      udp_length = ntohs (load16_at f (udp_at f + 4)),
      payload = (if data = [] \<or> \<not> mem then None else Some data), payload_length = word_of_nat (length data)\<rparr>)"

definition chosen_port :: "int option \<Rightarrow> 16 word" where
  "chosen_port c = (if c = Some 2 then 53 else if c = Some 3 then 123 else 51000)"

text \<open>The state in which the capture starts, and the filter in it.\<close>

definition capture_ready :: "int option \<Rightarrow> capture" where
  "capture_ready c = (init_filters capture_start)\<lparr>current_filter_index := select_filter c\<rparr>"

definition port_filter :: "16 word \<Rightarrow> capture \<Rightarrow> bool" where
  "port_filter p s \<longleftrightarrow> p \<noteq> 0 \<and> 0 < filter_count s \<and>
     (let f = filters s ! current_filter_index s in f_src_port f = p \<and> f_dst_port f = p \<and> use_src_port f \<and> use_dst_port f \<and>
        \<not> use_src_ip f \<and> \<not> use_dst_ip f)"

lemma capture_ready_filter: "port_filter (chosen_port c) (capture_ready c)" "packets (capture_ready c) = []" "capturing (capture_ready c)"
    "blocks (capture_ready c) = 0" "\<not> array (capture_ready c)"
proof -
  have "select_filter c = (if c = Some 2 then 1 else if c = Some 3 then 2 else 0)"
    by (cases c) (auto simp: select_filter_def Let_def)
  then show "port_filter (chosen_port c) (capture_ready c)" "packets (capture_ready c) = []" "capturing (capture_ready c)"
    "blocks (capture_ready c) = 0" "\<not> array (capture_ready c)"
    by (simp_all add: port_filter_def chosen_port_def capture_ready_def init_filters_def add_filter_def capture_start_def
        MAX_FILTERS_def Let_def nth_list_update)
qed

lemma apply_port_filter:
  "port_filter p s \<Longrightarrow> apply_filter buf ip udp s \<longleftrightarrow> ntohs (load16_at buf udp) = p \<or> ntohs (load16_at buf (udp + 2)) = p"
  by (auto simp: port_filter_def apply_filter_def Let_def)

section \<open>The buffer\<close>

lemma buffer_fields:
  assumes "buf = f @ r"
  shows "Suc i < length f \<Longrightarrow> load16_at buf i = load16_at f i" "i < length f \<Longrightarrow> buf ! i = f ! i"
    "i + 3 < length f \<Longrightarrow> addr_at buf i = addr_at f i"
  using assms by (simp_all add: load16_at_def addr_at_def nth_append)

definition held :: "captured_packet list \<Rightarrow> nat" where
  "held ps = length (filter (\<lambda>p. payload p \<noteq> None) ps)"

lemma held_simps [simp]: "held [] = 0" "held (ps @ qs) = held ps + held qs" "held [p] = (if payload p = None then 0 else 1)"
  by (simp_all add: held_def)

definition record_packet :: "captured_packet \<Rightarrow> capture \<Rightarrow> capture" where
  "record_packet p s = s\<lparr>packets := packets s @ [p], blocks := blocks s + held [p]\<rparr>"

lemma record_packet_frame [simp]:
  "packets (record_packet p s) = packets s @ [p]" "capturing (record_packet p s) = capturing s"
  "array (record_packet p s) = array s" "blocks (record_packet p s) = blocks s + held [p]"
  by (simp_all add: record_packet_def)

lemma process_whole_frame:
  assumes "port_filter p s" "whole_frame f" "length (f @ r) = CAPTURE_BUFFER" "length (packets s) < MAX_PACKETS"
  shows "process_packet mem tv (f @ r) (length f) s =
    Some (if is_udp f \<and> on_port p f then record_packet (packet_of (tv, f, mem)) s else s)"
proof (cases "is_udp f")
  case False
  then show ?thesis using assms(2) by (auto simp: process_packet_def is_udp_def whole_frame_def buffer_fields[OF refl])
next
  case True
  have len: "34 \<le> length f" "udp_at f + 8 \<le> length f" using True assms(2) by (auto simp: whole_frame_def is_udp_def)
  note b = buffer_fields[OF refl, of _ f r]
  have ihl: "14 + unat ((f @ r) ! 14 AND 0x0F) * 4 = udp_at f" using len b(2)[of 14] by (simp add: udp_at_def)
  have hdr: "ntohs (load16_at (f @ r) 12) = ETHERTYPE_IP" "(f @ r) ! (14 + 9) = IPPROTO_UDP"
    using True len b(1)[of 12] b(2)[of 23] by (simp_all add: is_udp_def)
  have flt: "apply_filter (f @ r) 14 (udp_at f) s \<longleftrightarrow> on_port p f"
    using apply_port_filter[OF assms(1)] b(1)[of "udp_at f"] b(1)[of "udp_at f + 2"] len by (simp add: on_port_def)
  let ?n = "length f - (udp_at f + 8)"
  have n: "?n < 65536" "int (length f) - int (udp_at f + 8) = int ?n"
    using len(2) assms(2) by (auto simp: whole_frame_def CAPTURE_BUFFER_def udp_at_def)
  have plen: "word_of_int (int (length f) - int (udp_at f + 8)) = (word_of_nat ?n :: 16 word)" "unat (word_of_nat ?n :: 16 word) = ?n"
    unfolding n(2) using n(1) by (simp_all add: unat_of_nat16)
  have zero: "(word_of_nat ?n :: 16 word) = 0 \<longleftrightarrow> drop (udp_at f + 8) f = []"
    using plen(2) by (metis diff_is_0_eq drop_eq_Nil unat_0 word_unat_eq_iff)
  have rest: "take ?n (drop (udp_at f + 8) (f @ r)) = drop (udp_at f + 8) f" using len(2) by simp
  have fields: "load16_at (f @ r) (udp_at f) = load16_at f (udp_at f)" "load16_at (f @ r) (udp_at f + 2) = load16_at f (udp_at f + 2)"
    "load16_at (f @ r) (udp_at f + 4) = load16_at f (udp_at f + 4)" "addr_at (f @ r) (14 + 12) = addr_at f 26"
    "addr_at (f @ r) (14 + 16) = addr_at f 30" "take 6 (drop 6 (f @ r)) = take 6 (drop 6 f)" "take 6 (f @ r) = take 6 f"
    using len b by simp_all
  show ?thesis
  proof (cases "on_port p f")
    case False
    then show ?thesis using hdr flt ihl by (simp add: process_packet_def Let_def)
  next
    case port: True
    have "process_packet mem tv (f @ r) (length f) s = add_packet mem tv (f @ r) (length f) 14 (udp_at f) s"
      using hdr flt ihl port by (simp add: process_packet_def Let_def)
    also have "\<dots> = Some (record_packet (packet_of (tv, f, mem)) s)"
    proof (cases "drop (udp_at f + 8) f = []")
      case True
      then have "(word_of_nat ?n :: 16 word) = 0" using zero by simp
      with True show ?thesis
        using assms(4) plen(1) ihl fields by (simp add: add_packet_def get_mac_address_def record_packet_def Let_def packet_of_def)
    next
      case False
      then have "(word_of_nat ?n :: 16 word) \<noteq> 0" using zero by simp
      with False show ?thesis
        using assms(3,4) plen ihl fields rest len(2)
          by (auto simp: add_packet_def get_mac_address_def record_packet_def Let_def packet_of_def)
    qed
    finally show ?thesis using True port by simp
  qed
qed


section \<open>A capture\<close>

definition wanted :: "16 word \<Rightarrow> ((int \<times> int) \<times> byte list \<times> bool) list \<Rightarrow> ((int \<times> int) \<times> byte list \<times> bool) list" where
  "wanted p fs = filter (\<lambda>(tv, f, mem). is_udp f \<and> on_port p f) fs"

definition frames :: "((int \<times> int) \<times> byte list \<times> bool) list \<Rightarrow> capture_event list" where
  "frames fs = map (\<lambda>(tv, f, mem). Frame tv f mem) fs"

lemma frames_simps [simp]: "frames [] = []" "frames ((tv, f, mem) # fs) = Frame tv f mem # frames fs"
  by (simp_all add: frames_def)

lemma port_filter_frame [simp]:
  "port_filter p (record_packet x s) = port_filter p s" "port_filter p (s\<lparr>array := a, blocks := n\<rparr>) = port_filter p s"
  by (simp_all add: port_filter_def record_packet_def)

lemma capture_frames:
  assumes "port_filter p s" "capturing s" "length (packets s) \<le> MAX_PACKETS" "length buf = CAPTURE_BUFFER"
    and "\<forall>tf \<in> set fs. whole_frame (fst (snd tf))"
  shows "\<exists>s'. capture_loop False (frames fs) buf s = Some (s', MAX_PACKETS \<le> length (packets s')) \<and>
    packets s' = packets s @ take (MAX_PACKETS - length (packets s)) (map packet_of (wanted p fs))"
  using assms
proof (induction fs arbitrary: s buf)
  case (Cons tf fs)
  obtain tv f mem where tf: "tf = (tv, f, mem)" by (cases tf)
  show ?case
  proof (cases "length (packets s) < MAX_PACKETS")
    case False
    then show ?thesis using Cons.prems(3) by (simp add: tf)
  next
    case True
    let ?r = "drop (length f) buf"
    have f: "whole_frame f" using Cons.prems(5) tf by simp
    then have got: "take CAPTURE_BUFFER f = f" "f \<noteq> []" "length (f @ ?r) = CAPTURE_BUFFER"
      using Cons.prems(4) by (auto simp: whole_frame_def)
    have cap: "CAPTURE_BUFFER \<noteq> 0" by (simp add: CAPTURE_BUFFER_def)
    define s1 where "s1 = (if is_udp f \<and> on_port p f then record_packet (packet_of (tv, f, mem)) s else s)"
    have step: "capture_loop False (frames (tf # fs)) buf s = capture_loop False (frames fs) (f @ ?r) s1"
      using process_whole_frame[OF Cons.prems(1) f got(3) True, of mem tv] Cons.prems(2) True got cap
      by (simp add: tf s1_def Let_def)
    have "port_filter p s1" "capturing s1" "length (packets s1) \<le> MAX_PACKETS"
      using Cons.prems(1,2) True by (auto simp: s1_def)
    from Cons.IH[OF this got(3)] Cons.prems(5) obtain s' where
      "capture_loop False (frames fs) (f @ ?r) s1 = Some (s', MAX_PACKETS \<le> length (packets s'))"
      "packets s' = packets s1 @ take (MAX_PACKETS - length (packets s1)) (map packet_of (wanted p fs))" by auto
    moreover have "packets s1 @ take (MAX_PACKETS - length (packets s1)) (map packet_of (wanted p fs)) =
        packets s @ take (MAX_PACKETS - length (packets s)) (map packet_of (wanted p (tf # fs)))"
    proof (cases "is_udp f \<and> on_port p f")
      case True
      then have "MAX_PACKETS - length (packets s) = Suc (MAX_PACKETS - length (packets s1))"
        using \<open>length (packets s) < MAX_PACKETS\<close> by (simp add: s1_def)
      then show ?thesis using True by (simp add: s1_def wanted_def tf)
    qed (auto simp: s1_def wanted_def tf)
    ultimately show ?thesis using step by auto
  qed
qed (simp add: wanted_def)

text \<open>
  C36. From frames that are as long as their headers say, the capture records, in order, exactly the UDP
  packets with the chosen port on either side, up to 1000 of them, with the fields of their headers and the
  bytes of the frame behind the UDP header, if \<open>malloc\<close> found memory for them; it ends with the 1000th.
\<close>

theorem capture_records_port:
  assumes "\<forall>tf \<in> set fs. whole_frame (fst (snd tf))" "length stack = CAPTURE_BUFFER"
  shows "\<exists>s. capture_packets True (frames fs) stack (capture_ready c) = Some (s, MAX_PACKETS \<le> length (wanted (chosen_port c) fs)) \<and>
    packets s = take MAX_PACKETS (map packet_of (wanted (chosen_port c) fs))"
proof -
  let ?s = "(capture_ready c)\<lparr>array := True, blocks := Suc (blocks (capture_ready c))\<rparr>"
  have "port_filter (chosen_port c) ?s" "capturing ?s" "packets ?s = []"
    using capture_ready_filter[of c] by simp_all
  from capture_frames[OF this(1,2) _ assms(2,1)] this(3) obtain s' where
    "capture_packets True (frames fs) stack (capture_ready c) = Some (s', MAX_PACKETS \<le> length (packets s'))"
    "packets s' = take MAX_PACKETS (map packet_of (wanted (chosen_port c) fs))"
    by (auto simp: capture_packets_def)
  moreover from this(2) have "MAX_PACKETS \<le> length (packets s') \<longleftrightarrow> MAX_PACKETS \<le> length (wanted (chosen_port c) fs)" by simp
  ultimately show ?thesis by auto
qed

definition dns_query :: "byte list" where
  "dns_query = replicate 12 1 @ [8, 0] @ [0x45, 0, 0, 30, 0, 0, 0, 0, 64, 17, 0, 0, 10, 0, 0, 1, 10, 0, 0, 2]
     @ [200, 0, 0, 53, 0, 10, 0, 0] @ [7, 9]"

lemma dns_query_fields:
  "udp_at dns_query = 34" "is_udp dns_query" "on_port 53 dns_query" "length dns_query = 44"
proof -
  show at: "udp_at dns_query = 34" by (simp add: udp_at_def dns_query_def nth_append nth_Cons')
  show "length dns_query = 44" by (simp add: dns_query_def)
  show "is_udp dns_query"
    by (simp add: is_udp_def dns_query_def load16_at_def nth_append nth_Cons' load16_def ntohs_def swap16_def ETHERTYPE_IP_def
        IPPROTO_UDP_def)
  show "on_port 53 dns_query"
    unfolding on_port_def at
    by (simp add: dns_query_def load16_at_def nth_append nth_Cons' load16_def ntohs_def swap16_def)
qed

lemma capture_records_port_witness:
  "\<exists>s. capture_packets True [Frame (1, 2) dns_query True] (replicate CAPTURE_BUFFER 0) (capture_ready (Some 2)) = Some (s, False) \<and>
    packets s = [packet_of ((1, 2), dns_query, True)]"
  using capture_records_port[of "[((1, 2), dns_query, True)]" "replicate CAPTURE_BUFFER 0" "Some 2"] dns_query_fields
  by (simp add: whole_frame_def CAPTURE_BUFFER_def wanted_def chosen_port_def MAX_PACKETS_def del: replicate.simps)

section \<open>Short frames\<close>

lemma wrap16:
  assumes "0 < k" "k < 65536"
  shows "unat (word_of_int (- int k) :: 16 word) = 65536 - k"
proof -
  have "uint (word_of_int (- int k) :: 16 word) = - int k mod 2 ^ 16" by (simp only: uint_word_of_int len_num1 len_bit0 len_num0) simp
  also have "\<dots> = 65536 - int k" using assms by (simp add: zmod_zminus1_eq_if)
  finally show ?thesis using assms by (simp add: unat_eq_nat_uint)
qed

text \<open>
  C37. A frame that ends before the payload its header length announces wraps the 16-bit payload length
  around, and the copy of the payload reads past the end of the receive buffer.
\<close>

theorem short_frame_reads_outside:
  assumes "24 \<le> length f" "is_udp f" "length f < udp_at f + 8" "on_port (chosen_port c) (f @ drop (length f) stack)"
    and "length stack = CAPTURE_BUFFER"
  shows "capture_packets True (Frame tv f True # es) stack (capture_ready c) = None"
proof -
  let ?b = "f @ drop (length f) stack"
  let ?s = "(capture_ready c)\<lparr>array := True, blocks := Suc (blocks (capture_ready c))\<rparr>"
  have cap: "CAPTURE_BUFFER \<noteq> 0" by (simp add: CAPTURE_BUFFER_def)
  have "unat (f ! 14 AND 0x0F) \<le> unat (0x0F :: byte)" by (metis word_and_le1 word_le_nat_alt)
  then have u: "udp_at f \<le> 74" by (simp add: udp_at_def)
  have got: "take CAPTURE_BUFFER f = f" "f \<noteq> []" "length ?b = CAPTURE_BUFFER"
    using assms(1,3,5) u by (auto simp: CAPTURE_BUFFER_def)
  note b = buffer_fields[OF refl, of _ f "drop (length f) stack"]
  have at: "14 + unat (?b ! 14 AND 0x0F) * 4 = udp_at f" "udp_at ?b = udp_at f" using assms(1) b(2)[of 14] by (simp_all add: udp_at_def)
  have hdr: "ntohs (load16_at ?b 12) = ETHERTYPE_IP" "?b ! (14 + 9) = IPPROTO_UDP"
    using assms(1,2) b(1)[of 12] b(2)[of 23] by (simp_all add: is_udp_def)
  have flt: "apply_filter ?b 14 (udp_at f) ?s"
    using apply_port_filter[of "chosen_port c" ?s] capture_ready_filter(1)[of c] assms(4) at(2) by (simp add: on_port_def)
  let ?k = "udp_at f + 8 - length f"
  have k: "0 < ?k" "?k < 65536" "int (length f) - int (udp_at f + 8) = - int ?k" using assms(3) u by simp_all
  have w: "unat (word_of_int (int (length f) - int (udp_at f + 8)) :: 16 word) = 65536 - ?k"
    unfolding k(3) using wrap16[OF k(1,2)] .
  then have "(word_of_int (int (length f) - int (udp_at f + 8)) :: 16 word) \<noteq> 0" using k(2) by auto
  moreover have "length ?b < udp_at f + 8 + (65536 - ?k)" using got(2,3) k(2) assms(3) by (simp add: CAPTURE_BUFFER_def)
  ultimately have "add_packet True tv ?b (length f) 14 (udp_at f) ?s = None"
    using at(1) w capture_ready_filter(2)[of c] by (simp add: add_packet_def get_mac_address_def Let_def MAX_PACKETS_def)
  then have "process_packet True tv ?b (length f) ?s = None"
    using hdr flt at(1) by (simp add: process_packet_def Let_def)
  then show ?thesis
    using got capture_ready_filter(2,3)[of c] cap by (simp add: capture_packets_def MAX_PACKETS_def Let_def)
qed

lemma short_frame_reads_outside_witness:
  "capture_packets True [Frame (1, 2) (take 40 dns_query) True] (replicate CAPTURE_BUFFER 0) (capture_ready (Some 2)) = None"
proof (rule short_frame_reads_outside)
  let ?f = "take 40 dns_query"
  have "?f ! i = dns_query ! i" if "i < 40" for i using that by simp
  then have same: "udp_at ?f = 34" "is_udp ?f" using dns_query_fields(1,2) by (simp_all add: udp_at_def is_udp_def load16_at_def)
  show "24 \<le> length ?f" "is_udp ?f" "length ?f < udp_at ?f + 8" using same dns_query_fields(4) by simp_all
  have "on_port 53 (?f @ r)" for r
    using dns_query_fields(1,3,4) by (simp add: on_port_def udp_at_def load16_at_def nth_append)
  then show "on_port (chosen_port (Some 2)) (?f @ drop (length ?f) (replicate CAPTURE_BUFFER 0))" by (simp add: chosen_port_def)
qed simp

section \<open>Memory and signals\<close>

text \<open>The blocks held are the table and the payloads recorded, whatever arrives.\<close>

definition accounted_for :: "capture \<Rightarrow> bool" where
  "accounted_for s \<longleftrightarrow> array s \<and> blocks s = Suc (held (packets s))"

lemma process_packet_accounted:
  "process_packet mem tv buf len s = Some s' \<Longrightarrow> accounted_for s \<Longrightarrow> accounted_for s'"
  by (auto simp: process_packet_def add_packet_def accounted_for_def get_mac_address_def Let_def split: if_splits)

lemma capture_loop_accounted:
  "capture_loop waiting es buf s = Some (s', ended) \<Longrightarrow> accounted_for s \<Longrightarrow> accounted_for s'"
proof (induction waiting es buf s rule: capture_loop.induct)
  case (2 waiting e es buf s)
  show ?case
  proof (cases "\<not> waiting \<and> (\<not> capturing s \<or> MAX_PACKETS \<le> length (packets s))")
    case False
    have stopped: "accounted_for (capture_signal_handler s)" using 2(6) by (simp add: accounted_for_def capture_signal_handler_def)
    show ?thesis
      using False 2 stopped process_packet_accounted
      by (cases e) (auto simp: Let_def bind_eq_Some_conv split: if_splits)
  qed (use 2 in auto)
qed simp

text \<open>A program that exits has freed what it allocated, whatever arrived and whichever allocations failed.\<close>

lemma capture_frees_all:
  assumes "capture_main w = Exited code (s, out)"
  shows "blocks s = 0 \<and> \<not> array s"
proof -
  let ?s = "capture_ready (filter_input w)"
  note ready = capture_ready_filter(2,4,5)[of "filter_input w"]
  consider "s = ?s" | s1 where "capture_packets (table_fits w) (arrivals w) (stack_bytes w) ?s = Some (s1, True)" "s = cleanup s1"
    using assms by (auto simp: capture_main_def capture_ready_def Let_def split: if_splits option.splits prod.splits)
  then show ?thesis
  proof cases
    case (2 s1)
    have "accounted_for (?s\<lparr>array := True, blocks := Suc (blocks ?s)\<rparr>)" using ready by (simp add: accounted_for_def)
    then have "s1 = ?s \<or> accounted_for s1"
      using 2(1) capture_loop_accounted by (fastforce simp: capture_packets_def split: if_splits)
    then show ?thesis using 2(2) ready by (auto simp: cleanup_def accounted_for_def held_def)
  qed (use ready in simp)
qed

text \<open>
  A signal that arrives while the program waits for a frame does not end the capture: the next frame
  is still received and recorded, and only then the loop ends.
\<close>

lemma signal_in_recv_waits:
  assumes "capturing s" "length (packets s) < MAX_PACKETS" "take CAPTURE_BUFFER f \<noteq> []"
  shows "capture_loop False [Stop True] buf s = Some (capture_signal_handler s, False)"
    and "capture_loop False (Stop True # Frame tv f mem # es) buf s =
      Option.bind (process_packet mem tv (take CAPTURE_BUFFER f @ drop (length (take CAPTURE_BUFFER f)) buf)
         (length (take CAPTURE_BUFFER f)) (capture_signal_handler s))
        (capture_loop False es (take CAPTURE_BUFFER f @ drop (length (take CAPTURE_BUFFER f)) buf))"
  using assms by (simp_all add: Let_def)

end
