(* ===== verification/Calculator.thy ===== *)
theory Calculator
  imports C_Decimal
begin

text \<open>
  module2/6\_3: a calculator whose operations are shared libraries found in a directory (calculator.c,
  main.c). The dynamic linker is a parameter, a map from the path of a library to its symbols, and so
  are numbers: \<open>'d\<close> is the type \<open>double\<close>, with its operations, its zero test, its reading by \<open>scanf\<close> and its printing with
  two decimals. \<open>None\<close> is a write outside an array, an indeterminate value used or a loop that never ends.
\<close>

definition MAX_COMMANDS :: nat where "MAX_COMMANDS = 20"
definition LIB_DIR :: string where "LIB_DIR = ''./plugins/''"

type_synonym 'd operation = "'d \<Rightarrow> 'd \<Rightarrow> 'd"
type_synonym 'd linker = "string \<rightharpoonup> (string \<rightharpoonup> 'd operation)"

record 'd command =
  c_name :: string
  c_symbol :: char
  c_func :: "'d operation"
  c_handle :: string

record 'd numbers =
  is_zero :: "'d \<Rightarrow> bool"
  zero :: 'd
  d_plus :: "'d operation"
  d_minus :: "'d operation"
  d_times :: "'d operation"
  d_over :: "'d operation"
  d_pow :: "'d operation"
  show2 :: "'d \<Rightarrow> string"
  scan_double :: "string \<Rightarrow> 'd option \<times> string"

section \<open>calculator.c\<close>

definition execute_command :: "'d numbers \<Rightarrow> 'd command \<Rightarrow> 'd \<Rightarrow> 'd \<Rightarrow> 'd \<times> bool" where
  "execute_command nu cmd a b =
     (let result = c_func cmd a b in
      if c_symbol cmd = CHR ''/'' \<and> is_zero nu b then (zero nu, True) else (result, False))"

definition print_result :: "'d numbers \<Rightarrow> 'd \<times> bool \<Rightarrow> string" where
  "print_result nu r = (if snd r then ''Error!!! Division by zero!'' @ [NL] else '' '' @ show2 nu (fst r) @ [NL])"

text \<open>The name of the operation in the path of a library, copied into 50 bytes.\<close>

definition func_name_of :: "string \<Rightarrow> string option" where
  "func_name_of lib_path =
     (let base = (case strrchr lib_path (CHR ''/'') of None \<Rightarrow> lib_path | Some i \<Rightarrow> drop (Suc i) lib_path);
          start = (if strncmp base ''lib'' 3 = 0 then drop 3 base else base)
      in case strchr start (CHR ''.'') of
           Some len \<Rightarrow> strcpy_into 50 (take len start)
         | None \<Rightarrow> strcpy_into 50 start)"

text \<open>\<open>islower\<close> and the shift to upper case of a first letter.\<close>

definition capitalize :: "string \<Rightarrow> string" where
  "capitalize nm =
     (case nm of [] \<Rightarrow> []
      | c # cs \<Rightarrow> (if CHR ''a'' \<le> c \<and> c \<le> CHR ''z'' then char_of ((of_char c :: nat) - 97 + 65) else c) # cs)"

definition symbol_and_name :: "string \<Rightarrow> char \<times> string" where
  "symbol_and_name func_name =
     (if strcmp func_name ''add'' = 0 then (CHR ''+'', ''Add'')
      else if strcmp func_name ''subtract'' = 0 then (CHR ''-'', ''Subtract'')
      else if strcmp func_name ''multiply'' = 0 then (CHR ''*'', ''Multiply'')
      else if strcmp func_name ''divide'' = 0 then (CHR ''/'', ''Divide'')
      else if strcmp func_name ''power'' = 0 then (CHR ''^'', ''Power'')
      else (if func_name = [] then NUL else hd func_name, capitalize func_name))"

text \<open>\<open>Some None\<close>: the library or its symbol cannot be loaded; the name goes into an array of 20 bytes.\<close>

definition load_library :: "'d linker \<Rightarrow> string \<Rightarrow> 'd command option option" where
  "load_library ld lib_path =
     (case ld lib_path of
        None \<Rightarrow> Some None
      | Some syms \<Rightarrow> do {
          func_name \<leftarrow> func_name_of lib_path;
          case syms func_name of
            None \<Rightarrow> Some None
          | Some func \<Rightarrow> do {
              let (symbol_char, nm) = symbol_and_name func_name;
              nm' \<leftarrow> strcpy_into 20 nm;
              Some (Some \<lparr>c_name = nm', c_symbol = symbol_char, c_func = func, c_handle = lib_path\<rparr>)
            }
        })"

definition is_plugin :: "string \<Rightarrow> bool" where
  "is_plugin nm \<longleftrightarrow> strncmp nm ''lib'' 3 = 0 \<and>
     (case strrchr nm (CHR ''.'') of None \<Rightarrow> False | Some i \<Rightarrow> strcmp (drop i nm) ''.so'' = 0)"

text \<open>
  The loop over the directory, with the commands loaded and the lines printed so far; the array has
  \<open>MAX_COMMANDS\<close> elements and the path 256 bytes. The reasons of failures go to standard error and are left out.
\<close>

definition loading_line :: "string \<Rightarrow> bool \<Rightarrow> string" where
  "loading_line nm ok = ''Loading: '' @ nm @ (if ok then ''  : success!'' else ''  : error!!'') @ [NL]"

fun load_entries :: "'d linker \<Rightarrow> string list \<Rightarrow> 'd command list \<Rightarrow> string list \<Rightarrow> ('d command list \<times> string list) option" where
  "load_entries ld [] cmds out = Some (cmds, out)"
| "load_entries ld (nm # names) cmds out =
     (if \<not> is_plugin nm then load_entries ld names cmds out
      else Option.bind (strcpy_into 256 (LIB_DIR @ nm)) (\<lambda>lib_path.
           Option.bind (load_library ld lib_path) (\<lambda>r.
             case r of
               None \<Rightarrow> load_entries ld names cmds (out @ [loading_line nm False])
             | Some cmd \<Rightarrow>
                 if MAX_COMMANDS \<le> length cmds then None
                 else load_entries ld names (cmds @ [cmd]) (out @ [loading_line nm True]))))"

text \<open>Without the array, the directory or any command the result is no commands.\<close>

definition load_commands :: "bool \<Rightarrow> 'd linker \<Rightarrow> string list option \<Rightarrow> ('d command list \<times> string list) option" where
  "load_commands malloc_ok ld dir =
     (if \<not> malloc_ok then Some ([], [])
      else case dir of
        None \<Rightarrow> Some ([], [])
      | Some names \<Rightarrow> do {
          (cmds, out) \<leftarrow> load_entries ld names [] [];
          Some (cmds, if cmds = [] then out @ [''No libraries found in '' @ LIB_DIR @ [NL]] else out)
        })"

text \<open>\<open>dlclose\<close> of every handle, in order.\<close>

definition unload_commands :: "'d command list \<Rightarrow> string list" where
  "unload_commands cmds = map c_handle cmds"

section \<open>The plugins of the repository\<close>

definition lib_add :: "'d numbers \<Rightarrow> 'd operation" where "lib_add nu a b = d_plus nu a b"
definition lib_subtract :: "'d numbers \<Rightarrow> 'd operation" where "lib_subtract nu a b = d_minus nu a b"
definition lib_multiply :: "'d numbers \<Rightarrow> 'd operation" where "lib_multiply nu a b = d_times nu a b"
definition lib_power :: "'d numbers \<Rightarrow> 'd operation" where "lib_power nu a b = d_pow nu a b"
definition lib_divide :: "'d numbers \<Rightarrow> 'd operation" where
  "lib_divide nu a b = (if is_zero nu b then d_over nu (zero nu) (zero nu) else d_over nu a b)"

text \<open>The directory as \<open>make\<close> leaves it.\<close>

definition built_linker :: "'d numbers \<Rightarrow> 'd linker" where
  "built_linker nu = map_of
     [(LIB_DIR @ ''libadd.so'', [''add'' \<mapsto> lib_add nu]), (LIB_DIR @ ''libsubtract.so'', [''subtract'' \<mapsto> lib_subtract nu]),
      (LIB_DIR @ ''libmultiply.so'', [''multiply'' \<mapsto> lib_multiply nu]), (LIB_DIR @ ''libdivide.so'', [''divide'' \<mapsto> lib_divide nu]),
      (LIB_DIR @ ''libpower.so'', [''power'' \<mapsto> lib_power nu])]"

section \<open>main.c\<close>

definition show_menu :: "'d command list \<Rightarrow> string" where
  "show_menu cmds =
     [NL] @ ''Calculator (Dynamic): '' @ [NL] @
     concat (map (\<lambda>(i, c). ''  '' @ show_nat (i + 1) @ ''. '' @ c_name c @ '' ('' @ [c_symbol c] @ '')'' @ [NL]) (enumerate 0 cmds)) @
     ''  0. Exit'' @ [NL]"

text \<open>A number that is not converted keeps its old value, indeterminate at first; then the rest of the line goes.\<close>

definition read_numbers :: "'d numbers \<Rightarrow> 'd option \<Rightarrow> 'd option \<Rightarrow> string \<Rightarrow> ('d option \<times> 'd option \<times> string) option" where
  "read_numbers nu a b inp =
     (let (x, i1) = scan_double nu inp; (y, i2) = scan_double nu i1;
          rest = dropWhile (\<lambda>c. c \<noteq> NL) i2
      in if rest = [] then None
         else Some (if x = None then a else x, if y = None then b else y, tl rest))"

definition calc_line :: "'d numbers \<Rightarrow> 'd command \<Rightarrow> 'd \<Rightarrow> 'd \<Rightarrow> string" where
  "calc_line nu cmd a b =
     [NL] @ show2 nu a @ '' '' @ [c_symbol cmd] @ '' '' @ show2 nu b @ '' = '' @ print_result nu (execute_command nu cmd a b) @ [NL]"

definition choice_prompt :: "'d command list \<Rightarrow> string" where
  "choice_prompt cmds = show_menu cmds @ ''Enter your choice: ''"

definition number_prompts :: "string list" where
  "number_prompts = [''Enter first number: '', ''Enter second number: '']"

text \<open>
  The loop: input buffer, choice and numbers keep their values from round to round; \<open>out\<close> is what was
  printed so far, menus and prompts included.
\<close>

partial_function (option) calc_loop :: "'d numbers \<Rightarrow> 'd command list \<Rightarrow> string option \<Rightarrow> int option \<Rightarrow> 'd option \<Rightarrow> 'd option \<Rightarrow>
    string \<Rightarrow> string list \<Rightarrow> string list option" where
  "calc_loop nu cmds input choice a b inp out =
     (let out1 = out @ [choice_prompt cmds];
          (input', inp') = (case fgets 10 inp of Some (l, rest) \<Rightarrow> (Some l, rest) | None \<Rightarrow> (input, inp)) in
      Option.bind input' (\<lambda>s.
      let choice' = (case sscanf_d s of Some v \<Rightarrow> Some v | None \<Rightarrow> choice) in
      Option.bind choice' (\<lambda>ch.
        if ch = 0 then Some (out1 @ [''Goodbye!'' @ [NL]])
        else if ch < 1 \<or> int (length cmds) < ch
        then calc_loop nu cmds input' choice' a b inp' (out1 @ [''Invalid choice!'' @ [NL, NL]])
        else Option.bind (read_numbers nu a b inp') (\<lambda>(a', b', inp'').
             Option.bind a' (\<lambda>x. Option.bind b' (\<lambda>y.
               calc_loop nu cmds input' choice' a' b' inp''
                 (out1 @ number_prompts @ [calc_line nu (cmds ! nat (ch - 1)) x y])))))))"

text \<open>The exit status, what was printed and the handles closed.\<close>

definition calc_main :: "'d numbers \<Rightarrow> 'd linker \<Rightarrow> string list option \<Rightarrow> string \<Rightarrow> (int \<times> string list \<times> string list) option" where
  "calc_main nu ld dir inp = do {
     (cmds, out) \<leftarrow> load_commands True ld dir;
     if cmds = [] then Some (1, out @ [''No commands loaded. Exiting.'' @ [NL]], [])
     else do {
       let out1 = out @ [[NL] @ ''Loaded '' @ show_nat (length cmds) @ '' commands.'' @ [NL]];
       out2 \<leftarrow> calc_loop nu cmds None None None None inp out1;
       Some (0, out2, unload_commands cmds)
     }
   }"

end
