(* ===== verification/Calculator_Props.thy ===== *)
theory Calculator_Props
  imports Calculator
begin

text \<open>
  What the calculator offers and computes: the commands are those of the loadable plugins, in the order of
  the directory, unless they are more than its array holds; a session prints the result of each request.
\<close>

section \<open>Plugins\<close>

text \<open>
  The specification: a file is a plugin when its name begins with \<open>lib\<close> and ends in \<open>.so\<close>; its function has the
  name between \<open>lib\<close> and the first dot, and is offered under a name and a symbol: those of the five operations,
  else the function's name with its first letter in upper case, and its first letter.
\<close>

definition plugin_name :: "string \<Rightarrow> bool" where
  "plugin_name nm \<longleftrightarrow> prefix ''lib'' nm \<and> suffix ''.so'' nm"

definition plugin_function :: "string \<Rightarrow> string" where
  "plugin_function nm = takeWhile (\<lambda>c. c \<noteq> CHR ''.'') (drop 3 nm)"

definition known_operations :: "(string \<times> char \<times> string) list" where
  "known_operations = [(''add'', CHR ''+'', ''Add''), (''subtract'', CHR ''-'', ''Subtract''), (''multiply'', CHR ''*'', ''Multiply''),
     (''divide'', CHR ''/'', ''Divide''), (''power'', CHR ''^'', ''Power'')]"

definition first_upper :: "string \<Rightarrow> string" where
  "first_upper f = (case f of [] \<Rightarrow> [] | c # cs \<Rightarrow>
     (case map_of (zip ''abcdefghijklmnopqrstuvwxyz'' ''ABCDEFGHIJKLMNOPQRSTUVWXYZ'') c of Some u \<Rightarrow> u | None \<Rightarrow> c) # cs)"

definition offered_as :: "string \<Rightarrow> char \<times> string" where
  "offered_as f = (case map_of known_operations f of Some x \<Rightarrow> x | None \<Rightarrow> (case f of [] \<Rightarrow> NUL | c # cs \<Rightarrow> c, first_upper f))"

definition provided :: "'d linker \<Rightarrow> string \<Rightarrow> 'd command list" where
  "provided ld nm =
     (if \<not> plugin_name nm then []
      else case Option.bind (ld (''./plugins/'' @ nm)) (\<lambda>syms. syms (plugin_function nm)) of
        None \<Rightarrow> []
      | Some f \<Rightarrow> [\<lparr>c_name = snd (offered_as (plugin_function nm)), c_symbol = fst (offered_as (plugin_function nm)),
                    c_func = f, c_handle = ''./plugins/'' @ nm\<rparr>])"

text \<open>The code decides the same.\<close>

lemma plugin_name_code: "is_plugin nm \<longleftrightarrow> plugin_name nm"
proof -
  have "strncmp nm ''lib'' 3 = 0 \<longleftrightarrow> prefix ''lib'' nm" using strncmp_prefix[of nm "''lib''"] by (simp add: numeral_eq_Suc)
  moreover have "(case strrchr nm (CHR ''.'') of None \<Rightarrow> False | Some i \<Rightarrow> drop i nm = ''.so'') \<longleftrightarrow> suffix ''.so'' nm"
  proof
    assume "case strrchr nm (CHR ''.'') of None \<Rightarrow> False | Some i \<Rightarrow> drop i nm = ''.so''"
    then obtain i where "drop i nm = ''.so''" by (auto split: option.splits)
    then show "suffix ''.so'' nm" using suffix_drop[of i nm] by simp
  next
    assume "suffix ''.so'' nm"
    then obtain f where nm: "nm = f @ ''.so''" by (auto simp: suffix_def)
    have "strrchr nm (CHR ''.'') = Some (length f)"
      using strchr_append[of "CHR ''.''" "''os''" "rev f"] by (simp add: strrchr_def nm)
    then show "case strrchr nm (CHR ''.'') of None \<Rightarrow> False | Some i \<Rightarrow> drop i nm = ''.so''" by (simp add: nm)
  qed
  ultimately show ?thesis by (simp add: is_plugin_def plugin_name_def cong: option.case_cong)
qed

lemma capitalize_code: "capitalize f = first_upper f"
proof (cases f)
  case (Cons c cs)
  have "(if CHR ''a'' \<le> c \<and> c \<le> CHR ''z'' then char_of ((of_char c :: nat) - 97 + 65) else c) =
    (case map_of (zip ''abcdefghijklmnopqrstuvwxyz'' ''ABCDEFGHIJKLMNOPQRSTUVWXYZ'') c of Some u \<Rightarrow> u | None \<Rightarrow> c)"
  proof (cases "CHR ''a'' \<le> c \<and> c \<le> CHR ''z''")
    case True
    then have "of_char c \<in> {97 ..< 123 :: nat}" by (simp add: less_eq_char_def)
    then have "c \<in> char_of ` set [97 ..< 123 :: nat]" by (metis char_of_char image_eqI set_upt)
    moreover have "map char_of [97 ..< 123 :: nat] = ''abcdefghijklmnopqrstuvwxyz''" by code_simp
    ultimately have "c \<in> set ''abcdefghijklmnopqrstuvwxyz''" by (metis list.set_map)
    moreover have "list_all (\<lambda>c. char_of ((of_char c :: nat) - 97 + 65) =
        (case map_of (zip ''abcdefghijklmnopqrstuvwxyz'' ''ABCDEFGHIJKLMNOPQRSTUVWXYZ'') c of Some u \<Rightarrow> u | None \<Rightarrow> c))
        ''abcdefghijklmnopqrstuvwxyz''" by code_simp
    ultimately show ?thesis using True unfolding list_all_iff by (simp only: if_True simp_thms)
  next
    case False
    then have "c \<notin> set ''abcdefghijklmnopqrstuvwxyz''" by (auto simp: less_eq_char_def)
    then have "map_of (zip ''abcdefghijklmnopqrstuvwxyz'' ''ABCDEFGHIJKLMNOPQRSTUVWXYZ'') c = None"
      by (subst map_of_zip_is_None) simp_all
    with False show ?thesis by (simp only: if_False option.case)
  qed
  with Cons show ?thesis by (simp add: capitalize_def first_upper_def)
qed (simp add: capitalize_def first_upper_def)

lemma offered_code: "symbol_and_name f = offered_as f"
  by (simp add: symbol_and_name_def offered_as_def known_operations_def capitalize_code split: list.split)

lemma base_name: "CHR ''/'' \<notin> set nm \<Longrightarrow> strrchr (LIB_DIR @ nm) (CHR ''/'') = Some 9"
proof -
  assume "CHR ''/'' \<notin> set nm"
  then have "strchr (rev (LIB_DIR @ nm)) (CHR ''/'') = Some (length (rev nm))"
    using strchr_append[of "CHR ''/''" "rev nm" "rev ''./plugins''"] by (simp add: LIB_DIR_def)
  then show ?thesis by (simp add: strrchr_def LIB_DIR_def)
qed

lemma func_name_plugin:
  assumes "CHR ''/'' \<notin> set nm" "is_plugin nm" "length (plugin_function nm) < 50"
  shows "func_name_of (LIB_DIR @ nm) = Some (plugin_function nm)"
proof -
  have l3: "strncmp nm ''lib'' 3 = 0" using assms(2) by (simp add: is_plugin_def)
  then have lib: "prefix ''lib'' nm" using strncmp_prefix[of nm "''lib''"] by (simp add: numeral_eq_Suc)
  from assms(2) obtain i where i: "strrchr nm (CHR ''.'') = Some i" by (auto simp: is_plugin_def split: option.splits)
  then have "CHR ''.'' \<in> set nm" by (auto simp: strrchr_def strchr_def split: if_splits)
  with lib have "CHR ''.'' \<in> set (drop 3 nm)" by (auto simp: prefix_def)
  then have "strchr (drop 3 nm) (CHR ''.'') = Some (length (plugin_function nm))"
    by (simp add: strchr_def plugin_function_def)
  moreover have "take (length (plugin_function nm)) (drop 3 nm) = plugin_function nm"
    unfolding plugin_function_def by (simp add: takeWhile_eq_take[symmetric])
  moreover have "drop 10 (LIB_DIR @ nm) = nm" by (simp add: LIB_DIR_def)
  ultimately show ?thesis using base_name[OF assms(1)] l3 assms(3) by (simp add: func_name_of_def)
qed

lemma length_capitalize [simp]: "length (capitalize s) = length s"
  by (cases s) (simp_all add: capitalize_def)

lemma name_fits: "length f < 20 \<Longrightarrow> length (snd (symbol_and_name f)) < 20"
  by (simp add: symbol_and_name_def)

definition short_names :: "string list \<Rightarrow> bool" where
  "short_names names \<longleftrightarrow> list_all (\<lambda>nm. CHR ''/'' \<notin> set nm \<and> length nm + length LIB_DIR < 256 \<and> length (plugin_function nm) < 20) names"

lemma load_library_plugin:
  assumes "CHR ''/'' \<notin> set nm" "is_plugin nm" "length (plugin_function nm) < 20"
  shows "load_library ld (LIB_DIR @ nm) = Some (if provided ld nm = [] then None else Some (hd (provided ld nm)))"
proof -
  have "func_name_of (LIB_DIR @ nm) = Some (plugin_function nm)" using func_name_plugin assms by simp
  then show ?thesis using name_fits[OF assms(3)] assms(2)
    by (auto simp: load_library_def provided_def offered_code plugin_name_code LIB_DIR_def split: option.splits prod.splits)
qed

lemma provided_cases: "provided ld nm = [] \<or> (\<exists>c. provided ld nm = [c])"
  by (auto simp: provided_def split: option.splits)

definition loading_lines :: "'d linker \<Rightarrow> string list \<Rightarrow> string list" where
  "loading_lines ld names =
     map (\<lambda>nm. ''Loading: '' @ nm @ (if provided ld nm \<noteq> [] then ''  : success!'' else ''  : error!!'') @ [NL]) (filter plugin_name names)"

lemma load_entries_provided:
  "short_names names \<Longrightarrow> length cmds \<le> MAX_COMMANDS \<Longrightarrow> load_entries ld names cmds out =
    (if length (cmds @ concat (map (provided ld) names)) \<le> MAX_COMMANDS
     then Some (cmds @ concat (map (provided ld) names), out @ loading_lines ld names) else None)"
proof (induction names arbitrary: cmds out)
  case Nil
  then show ?case by (simp add: loading_lines_def)
next
  case (Cons nm names)
  have nm: "CHR ''/'' \<notin> set nm" "length (LIB_DIR @ nm) < 256" "length (plugin_function nm) < 20" "short_names names"
    using Cons.prems(1) by (auto simp: short_names_def)
  have lines: "loading_lines ld (nm # names) =
      (if is_plugin nm then [loading_line nm (provided ld nm \<noteq> [])] else []) @ loading_lines ld names"
    by (simp add: loading_lines_def loading_line_def plugin_name_code)
  show ?case
  proof (cases "is_plugin nm")
    case False
    then have "provided ld nm = []" by (simp add: provided_def plugin_name_code)
    with False show ?thesis using Cons.IH[OF nm(4) Cons.prems(2)] lines by simp
  next
    case True
    note lib = load_library_plugin[OF nm(1) True nm(3), of ld]
    show ?thesis
    proof (cases "provided ld nm")
      case Nil
      then show ?thesis using Cons.IH[OF nm(4) Cons.prems(2)] True nm(2) lib lines by simp
    next
      case (Cons c cs)
      then have c: "provided ld nm = [c]" using provided_cases[of ld nm] by auto
      show ?thesis
      proof (cases "length cmds < MAX_COMMANDS")
        case True
        then show ?thesis using Cons.IH[OF nm(4), of "cmds @ [c]"] \<open>is_plugin nm\<close> nm(2) lib c lines by simp
      next
        case False
        then show ?thesis using \<open>is_plugin nm\<close> nm(2) lib c by simp
      qed
    qed
  qed
qed

text \<open>
  C38. For file names whose function has less than 20 bytes, the commands are those of the files of the
  directory that are plugins and can be loaded with their function, in the order of the directory, each with
  the name and symbol its function is offered under, and each plugin is reported as loaded or not; a 21st
  command is written outside the array.
\<close>

theorem load_commands_provided:
  assumes "short_names names"
  shows "load_commands True ld (Some names) =
    (let cmds = concat (map (provided ld) names) in
     if length cmds \<le> 20
     then Some (cmds, loading_lines ld names @ (if cmds = [] then [''No libraries found in ./plugins/'' @ [NL]] else []))
     else None)"
  using load_entries_provided[OF assms, of "[]" ld "[]"] by (simp add: load_commands_def Let_def MAX_COMMANDS_def LIB_DIR_def del: concat_eq_Nil_conv)

lemma load_one:
  "load_entries (\<lambda>p. Some [''add'' \<mapsto> (+)]) [''libadd.so'', ''README''] [] [] =
    Some ([\<lparr>c_name = ''Add'', c_symbol = CHR ''+'', c_func = ((+) :: int operation), c_handle = ''./plugins/libadd.so''\<rparr>],
      [loading_line ''libadd.so'' True])"
proof -
  have "short_names [''libadd.so'', ''README'']" by (simp add: short_names_def plugin_function_def LIB_DIR_def)
  moreover have "plugin_name ''libadd.so''" "\<not> plugin_name ''README''" "plugin_function ''libadd.so'' = ''add''"
    by (simp_all add: plugin_name_def plugin_function_def suffix_def)
  ultimately show ?thesis
    using load_entries_provided[of "[''libadd.so'', ''README'']" "[]" "\<lambda>p. Some [''add'' \<mapsto> ((+) :: int operation)]" "[]"]
    by (simp add: provided_def offered_as_def known_operations_def MAX_COMMANDS_def LIB_DIR_def loading_lines_def loading_line_def)
qed

lemma load_commands_provided_witness:
  "load_commands True (\<lambda>p. None :: (string \<rightharpoonup> int operation) option) (Some [''libadd.so'', ''README'']) =
    Some ([], [loading_line ''libadd.so'' False, ''No libraries found in ./plugins/'' @ [NL]])"
proof -
  have "short_names [''libadd.so'', ''README'']" by (simp add: short_names_def plugin_function_def LIB_DIR_def)
  moreover have "plugin_name ''libadd.so''" "\<not> plugin_name ''README''"
    by (simp_all add: plugin_name_def suffix_def)
  ultimately show ?thesis
    using load_commands_provided[of "[''libadd.so'', ''README'']" "\<lambda>p. None :: (string \<rightharpoonup> int operation) option"]
    by (simp add: provided_def loading_lines_def loading_line_def)
qed

text \<open>As built, the program offers its five operations, whatever order the directory has.\<close>

lemma built_provided:
  "nm \<in> {''libadd.so'', ''libsubtract.so'', ''libmultiply.so'', ''libdivide.so'', ''libpower.so''} \<Longrightarrow>
   \<exists>c. provided (built_linker nu) nm = [c] \<and> (nm = ''libdivide.so'' \<longrightarrow> c_symbol c = CHR ''/'' \<and> c_func c = lib_divide nu) \<and>
     (nm = ''libadd.so'' \<longrightarrow> c_symbol c = CHR ''+'' \<and> c_func c = lib_add nu) \<and>
     (nm = ''libsubtract.so'' \<longrightarrow> c_symbol c = CHR ''-'' \<and> c_func c = lib_subtract nu) \<and>
     (nm = ''libmultiply.so'' \<longrightarrow> c_symbol c = CHR ''*'' \<and> c_func c = lib_multiply nu) \<and>
     (nm = ''libpower.so'' \<longrightarrow> c_symbol c = CHR ''^'' \<and> c_func c = lib_power nu)"
  by (auto simp: provided_def built_linker_def plugin_function_def plugin_name_def suffix_def
      offered_as_def known_operations_def LIB_DIR_def)

section \<open>A session\<close>

text \<open>A request: the number of a command and the texts of two numbers, with their values.\<close>

type_synonym 'd request = "nat \<times> (string \<times> 'd) \<times> (string \<times> 'd)"

fun request_typed :: "'d request \<Rightarrow> string" where
  "request_typed (k, (ta, _), (tb, _)) = show_nat k @ NL # ta @ NL # tb @ [NL]"

text \<open>What the user is to see: the menu, the prompts, and the request with its result or the error.\<close>

fun menu_items :: "nat \<Rightarrow> 'd command list \<Rightarrow> string" where
  "menu_items i [] = []"
| "menu_items i (c # cs) = ''  '' @ show_nat i @ ''. '' @ c_name c @ '' ('' @ [c_symbol c] @ '')'' @ [NL] @ menu_items (Suc i) cs"

definition menu_shown :: "'d command list \<Rightarrow> string" where
  "menu_shown cmds =
     [NL] @ ''Calculator (Dynamic): '' @ [NL] @ menu_items 1 cmds @ ''  0. Exit'' @ [NL] @ ''Enter your choice: ''"

definition answer_shown :: "'d numbers \<Rightarrow> 'd command \<Rightarrow> 'd \<Rightarrow> 'd \<Rightarrow> string" where
  "answer_shown nu c a b =
     (if c_symbol c = CHR ''/'' \<and> is_zero nu b then ''Error!!! Division by zero!'' else '' '' @ show2 nu (c_func c a b)) @ [NL]"

fun request_printed :: "'d numbers \<Rightarrow> 'd command list \<Rightarrow> 'd request \<Rightarrow> string list" where
  "request_printed nu cmds (k, (_, a), (_, b)) =
     [menu_shown cmds, ''Enter first number: '', ''Enter second number: '',
      (let c = cmds ! (k - 1) in
       [NL] @ show2 nu a @ '' '' @ [c_symbol c] @ '' '' @ show2 nu b @ '' = '' @ answer_shown nu c a b @ [NL])]"

lemma menu_code: "choice_prompt cmds = menu_shown cmds"
proof -
  have "concat (map (\<lambda>(i, c). ''  '' @ show_nat (i + 1) @ ''. '' @ c_name c @ '' ('' @ [c_symbol c] @ '')'' @ [NL]) (enumerate n cs)) =
      menu_items (Suc n) cs" for n and cs :: "'a command list"
    by (induction cs arbitrary: n) simp_all
  then show ?thesis by (simp add: choice_prompt_def show_menu_def menu_shown_def)
qed

lemma answer_code: "calc_line nu c a b =
    [NL] @ show2 nu a @ '' '' @ [c_symbol c] @ '' '' @ show2 nu b @ '' = '' @ answer_shown nu c a b @ [NL]"
  by (simp add: calc_line_def execute_command_def print_result_def answer_shown_def Let_def)

text \<open>\<open>scanf("%lf")\<close> skips white space and reads the text as the number, up to the end of its line.\<close>

definition reads_as :: "'d numbers \<Rightarrow> string \<times> 'd \<Rightarrow> bool" where
  "reads_as nu t \<longleftrightarrow> (\<forall>r. scan_double nu (fst t @ NL # r) = (Some (snd t), NL # r) \<and>
     scan_double nu (NL # fst t @ NL # r) = (Some (snd t), NL # r))"

definition request_ok :: "'d numbers \<Rightarrow> 'd command list \<Rightarrow> 'd request \<Rightarrow> bool" where
  "request_ok nu cmds r \<longleftrightarrow> (case r of (k, ta, tb) \<Rightarrow> 0 < k \<and> k \<le> length cmds \<and> k < 10 ^ 8 \<and> reads_as nu ta \<and> reads_as nu tb)"

lemma choice_read:
  assumes "k < 10 ^ 8"
  shows "fgets 10 (show_nat k @ NL # r) = Some (show_nat k @ [NL], r)" "sscanf_d (show_nat k @ [NL]) = Some (int k)"
proof -
  have "length (show_nat k) \<le> 8" using length_show_nat[of k 7] assms by simp
  moreover have "NL \<notin> set (show_nat k)" "NUL \<notin> set (show_nat k)" using show_nat_digits[of _ k] by force+
  ultimately show "fgets 10 (show_nat k @ NL # r) = Some (show_nat k @ [NL], r)" by (simp add: fgets_line)
  have "sscanf_d (show_int (int k) @ [NL]) = Some (int k)" using assms by (intro sscanf_d_show_int) simp_all
  then show "sscanf_d (show_nat k @ [NL]) = Some (int k)" by (simp add: show_int_def)
qed

lemma calc_loop_request:
  assumes "request_ok nu cmds q"
  shows "\<exists>input choice a' b'. calc_loop nu cmds inp0 ch0 a0 b0 (request_typed q @ r) out =
    calc_loop nu cmds input choice a' b' r (out @ request_printed nu cmds q)"
proof -
  obtain k ta a tb b where q: "q = (k, (ta, a), (tb, b))" by (metis prod.collapse)
  with assms have k: "0 < k" "k \<le> length cmds" "k < 10 ^ 8" and nums: "reads_as nu (ta, a)" "reads_as nu (tb, b)"
    by (simp_all add: request_ok_def)
  have typed: "request_typed q @ r = show_nat k @ NL # ta @ NL # tb @ NL # r" by (simp add: q)
  have "read_numbers nu a0 b0 (ta @ NL # tb @ NL # r) = Some (Some a, Some b, r)"
    using nums by (simp add: read_numbers_def reads_as_def)
  then have "calc_loop nu cmds inp0 ch0 a0 b0 (request_typed q @ r) out =
    calc_loop nu cmds (Some (show_nat k @ [NL])) (Some (int k)) (Some a) (Some b) r (out @ request_printed nu cmds q)"
    using k choice_read[OF k(3)] unfolding typed
    by (subst calc_loop.simps) (simp add: q nat_diff_distrib menu_code answer_code number_prompts_def Let_def)
  then show ?thesis by blast
qed

lemma calc_loop_requests:
  "\<forall>q \<in> set qs. request_ok nu cmds q \<Longrightarrow>
   calc_loop nu cmds input choice a b (concat (map request_typed qs) @ show_nat 0 @ [NL]) out =
     Some (out @ concat (map (request_printed nu cmds) qs) @ [menu_shown cmds, ''Goodbye!'' @ [NL]])"
proof (induction qs arbitrary: input choice a b out)
  case Nil
  then show ?case using choice_read(1)[of 0 "[]"] choice_read(2)[of 0] by (subst calc_loop.simps) (simp add: menu_code)
next
  case (Cons q qs)
  obtain input' choice' a' b' where "calc_loop nu cmds input choice a b (request_typed q @ concat (map request_typed qs) @ show_nat 0 @ [NL]) out =
      calc_loop nu cmds input' choice' a' b' (concat (map request_typed qs) @ show_nat 0 @ [NL]) (out @ request_printed nu cmds q)"
    using calc_loop_request[of nu cmds q] Cons.prems by (metis list.set_intros(1))
  then show ?case using Cons.IH Cons.prems by simp
qed

text \<open>
  C39. A session of requests, each with the number of a command on offer and two numbers that \<open>scanf\<close>
  reads, shows for each the numbered menu and the prompts and prints the two numbers with the command's symbol
  and then what the command's function returns, or the division error when the symbol is / and the second
  number is zero; it ends at the choice 0, and then every library loaded is closed.
\<close>

theorem calculator_session:
  assumes "load_commands True ld dir = Some (cmds, loaded)" "cmds \<noteq> []" "\<forall>q \<in> set qs. request_ok nu cmds q"
  shows "calc_main nu ld dir (concat (map request_typed qs) @ show_nat 0 @ [NL]) =
    Some (0, loaded @ [[NL] @ ''Loaded '' @ show_nat (length cmds) @ '' commands.'' @ [NL]] @
      concat (map (request_printed nu cmds) qs) @ [menu_shown cmds, ''Goodbye!'' @ [NL]], map c_handle cmds)"
  using assms calc_loop_requests[OF assms(3), where input = None and choice = None and a = None and b = None]
  by (simp add: calc_main_def unload_commands_def Let_def)

definition whole_numbers :: "int numbers" where
  "whole_numbers = \<lparr>is_zero = (\<lambda>x. x = 0), zero = 0, d_plus = (+), d_minus = (-), d_times = (*), d_over = (div),
     d_pow = (\<lambda>a b. a ^ nat b), show2 = (\<lambda>x. show_int x @ ''.00''),
     scan_double = (\<lambda>s. let t = dropWhile isspace s in (strtol t, dropWhile (\<lambda>c. isdigit c \<or> c = CHR ''-'') t))\<rparr>"

lemma digits_skip: "dropWhile (\<lambda>c. isdigit c \<or> c = CHR ''-'') (show_nat n @ NL # r) = NL # r"
  using show_nat_digits[of _ n] not_isdigit_sign(5) by (subst dropWhile_append2) (auto simp: NL_def)

lemma whole_numbers_read: "n < 1000 \<Longrightarrow> reads_as whole_numbers (show_nat n, int n)"
proof -
  assume n: "n < 1000"
  have hd: "dropWhile isspace (show_nat n @ x) = show_nat n @ x" for x
    using show_nat_hd[of n] isdigit_not_space by (cases "show_nat n") auto
  have "isspace NL" by (simp add: isspace_def NL_def)
  moreover have "strtol (show_nat n @ NL # r) = Some (int n)" for r
    using strtol_show_int[of "NL # r" "int n"] n by (simp add: show_int_def clamp64_def)
  ultimately show ?thesis by (simp add: reads_as_def whole_numbers_def Let_def hd digits_skip)
qed

lemma calculator_session_witness:
  "\<exists>out. calc_main whole_numbers (\<lambda>p. Some [''add'' \<mapsto> (+)]) (Some [''libadd.so'', ''README''])
     (request_typed (1, (show_nat 2, 2), (show_nat 40, 40)) @ show_nat 0 @ [NL]) = Some (0, out, [''./plugins/libadd.so'']) \<and>
   calc_line whole_numbers \<lparr>c_name = ''Add'', c_symbol = CHR ''+'', c_func = (+), c_handle = ''./plugins/libadd.so''\<rparr> 2 40 \<in> set out"
proof -
  let ?c = "\<lparr>c_name = ''Add'', c_symbol = CHR ''+'', c_func = ((+) :: int operation), c_handle = ''./plugins/libadd.so''\<rparr>"
  have "load_commands True (\<lambda>p. Some [''add'' \<mapsto> ((+) :: int operation)]) (Some [''libadd.so'', ''README'']) =
      Some ([?c], [loading_line ''libadd.so'' True])"
    by (simp add: load_commands_def load_one del: load_entries.simps)
  moreover have "request_ok whole_numbers [?c] (1, (show_nat 2, 2), (show_nat 40, 40))"
    using whole_numbers_read[of 2] whole_numbers_read[of 40] by (simp add: request_ok_def)
  ultimately show ?thesis
    using calculator_session[of _ _ "[?c]" _ "[(1, (show_nat 2, 2), (show_nat 40, 40))]" whole_numbers]
    by (simp add: answer_code)
qed

end
