(* ===== verification/Spec2Isabelle.thy ===== *)
theory Spec2Isabelle
  imports Contacts_Types Contact_Tests Broker_System_Props Tcp_Chat_System_Props Firewall_Props Kernel_Props Taxi_Props Posix_Queue_Props Sysv_Signals Raw_Echo_Run Raw_Echo_Loops File_Copy_Props Mq_Chat_Props Udp_Chat_Props Udp_Capture_Props Calculator_Props
begin

text \<open>
  A verification of the C programs of this repository: exercises in system programming, each a
  small program of its own. The programs do not call one another; what they share is the C library,
  the network and the kernel's interfaces. Each has one or two theories for the model and one to
  three for its properties; this theory imports them all, directly or through one another.

  Conventions. Data are records and datatypes with the names of the source; every operation is a
  function of the state to the state it leaves. \<open>None\<close> means undefined behaviour (a read or write
  outside an object, a null or dangling pointer) or a call that never returns; a lemma that an operation
  returns \<open>Some\<close> is therefore a memory-safety and termination result. Errors the code handles are
  ordinary results: a message on the screen, an errno, a return code. Character arrays are kept as the
  C strings in them, with their capacities checked at each copy; \<open>int\<close> values that can overflow are
  cut to 32 bits where the code's result depends on it. The outcomes of system calls (fork, msgsnd, malloc,
  fopen, a failing copy from user space) are inputs. Printing is a log, or left out where
  nothing depends on it; sleeping is left out.

  Shared theories.
    C_Prelude: arrays with checked access, the search loops and the shift that closes a gap in a table.
    C_Strings, C_Decimal: the string functions of the C library, fgets, strtok, atoi, strtol,
    sscanf and printf of decimal numbers, with round trips between printing and parsing.
    C_Net: IPv4 addresses, their dotted form (injective), 16-bit byte order.
    Sockets: descriptors, socket options and the calls on them, each of which may fail; weakest
    preconditions for them.

  Interfaces, each a locale interpreted on the model's own definitions.
    Step_Interface: step_invariant (a step function of a system of processes, an invariant each step
    keeps, and so no fault under any schedule) and step_measure (a bound on the steps made). Interpreted
    by the file copy (File_Copy_Props), the message-queue chat (Mq_Chat_Props), the broker's processes
    (Broker_System_Props), the TCP chat (Tcp_Chat_System_Props) and the interrupted System V program
    (Sysv_Signals).
    Table_Interface: bounded_table (a table of fixed capacity without duplicates), interpreted by the
    broker's two tables (Broker_Props) and the firewall's block list (Firewall), whose invariants and
    agreement with a set come from it.
    Reader_Interface: sequential_reader (reads that hand out a content piece by piece), interpreted by
    the character device (Kernel_Props).
    Socket_Props: socket_setup (a set-up makes one socket or leaves the descriptors as they were),
    interpreted by the set-up functions of all network programs.

  module2/4_3 contacts.c, main.c, test.c: Contacts. The heap maps addresses to nodes; the recursive functions
  are partial over any heap, cyclic ones included. Contacts_Tree relates a heap to a HOL tree and
  shows each recursive function on it; Contacts_Props has the properties: a session keeps the book an
  acyclic tree, additions keep every person and the rebuilt tree is balanced, delete removes the chosen
  person, and where delete loses others: the struct copied over the node overwrites its left pointer.
  Contacts_Types: every field of every node holds a string that fits its array, in any session.
  Contact_Tests: the tests of test.c pass on every heap, and free what they allocate.

  module2/6_3 calculator.c, main.c and the plugins: Calculator and Calculator_Props. The dynamic linker and
  the arithmetic of double are parameters. The properties state by themselves which files are plugins
  (lib*.so), under which symbol and name each is offered, and what a request prints, division by zero
  included; a session closes every library once.

  module3/01 main.c, process.c, file_utils.c: File_Copy and File_Copy_Props. Parent and child as step
  functions over two pipes and the files. When the parent's data follow what the child has read (the
  order the delays in the code aim at: polite_step, an assumption and not code) and names and contents are
  such that the stream protocol can carry them, every file is copied and both processes end, whatever else
  the schedule does; the number of steps is bounded by a measure. Other properties of the theory show runs
  without these conditions that fail.

  module3/02 broker.c, utils.c, publisher.c, subscriber.c, main.c: Broker and Broker_Props have the
  broker's tables, message loop (its fuel is the number of messages: each handled message is taken off the
  queue, and broker_loop_serves gives enough of it) and parsers. The subscription table implements a set,
  the loop an abstract service (service), and handler_faults_exactly says which texts are undefined
  behaviour. Broker_System has the processes themselves, each stepping from one call that can block to the
  next, on a queue of bounded size. Broker_System_Props: under every schedule a subscriber is shown an
  unbroken run of what the publisher of its topic sent, with at most 100 subscribers; and once a
  subscriber that was interrupted leaves its copies in a queue without room for another, the broker and
  everyone sending wait forever.

  module3/03 chat.c, queue.c, signal.c: Mq_Chat and Mq_Chat_Props. Two processes over two priority queues,
  interrupts included: each shows a beginning of what the other typed, in order; without interrupts no
  state with an unfinished process is stuck; and a peer that waits in mq_send for a full queue when the
  other has ended waits for good.

  module3/06 chat.c, network.c, utils.c: Udp_Chat and Udp_Chat_Props. Datagrams reach every process on the
  port or are lost; a process hides each message that contains its own nickname.

  module3/07 chat_utils.c, server.c, client.c: Tcp_Chat (state and operations), Tcp_Chat_Server (the
  broadcast, whose failed sends remove clients and broadcast again: a measure shows that it ends),
  Tcp_Chat_Props (who receives what, uploads and downloads, and the overflows). Tcp_Chat_System has the
  server's event loop with clients in their select loops, under every schedule of connections, typing,
  events, departures and the shutdown; Tcp_Chat_System_Props shows no fault and that the chat lines of one
  client reach each other one in order. Messages that come in two parts and connections that are reset
  (a failing send, or the signal that ends the server) are events of the model too; the theorem is about
  the schedules without them, and lemmas show that each can lose lines or the server. Descriptors are not
  used again; for the theorem there are at most 100 clients, nobody asks for the list of files and
  the sender's nickname is its own.

  module3/08 raw_udp_capture.c, main.c: Udp_Capture and Udp_Capture_Props. The packets recorded are those
  of the chosen port, field by field; a frame shorter than its header says is read beyond its end; a
  program that exits has freed its memory, and a signal while it waits for a frame does not end it.

  module3/cross2 driver.c, taxi.c: Taxi and Taxi_Props. A driver as a state machine over time and
  requests; the dispatcher over a table of child processes, with signals at single drivers and Control-C. A
  request meets its driver directly and is answered in time.

  module3/04, module3/05: Shm_Queue has producer.c and consumer.c of module3/04 as step functions over the
  shared memory and the semaphore, and schedules of their steps; Shm_Queue_Props the invariant and its
  preservation by each step; Shm_System_Props what it gives for every schedule (each block processed once,
  no bad pointer, no lost semaphore, the consumers end after the producer). The producer's write behind
  its page raises SIGSEGV, which ends this process alone while the others go on: it is a state of the
  producer (P_Crashed) and not the outcome Fault, which stands for the use of a pointer to no node;
  Shm_Overrun_Props the runs of the producer alone, among them one that leaves its memory and hangs the
  consumers. Shm_Ipc has the acquisition and release of the System V and POSIX objects around them.
  Posix_Queue has the processes of module3/05 with what they print, a sem_post that fails and the signal
  handler; Posix_Queue_Props shows that without signals they refine those of module3/04, so that each
  block is reported once, and that a process interrupted while it holds the semaphore leaves all others
  waiting. Sysv_Signals has the same for module3/04, whose handler removes the semaphore: there an
  interrupted run ends.

  module3/cross1 checksum.c, server.c, client.c: Raw_Echo (packets as bytes), Raw_Echo_Props (the checksum
  against RFC 768: texts of odd length and a computed zero miss it), Raw_Echo_Table (the client table
  implements a map of counters), Raw_Echo_Run (clients, kernel and server together number each client's
  messages, for up to 100 addresses; answers reach only clients given 127.0.0.1), Raw_Echo_Loops (both
  programs from the set-up of their socket to their end, with the signal handlers).

  Socket set-up of module3/06, 07, 08, cross1 and cross2: Socket_Setup and Socket_Props. Each makes one
  socket with the domain, type, protocol, options and addresses its program needs, or fails and leaves no
  descriptor open; the TCP programs go on when an option is refused.

  module5/01 to 05: Kernel_Modules and Kernel_Props: the character device, the proc file, the keyboard
  lights and the netlink echo, with load and unload as sets of held resources.

  module5/06 firewall.c: Firewall and Firewall_Props: the block list, the commands written to the proc
  file, which implement a set of at most 32 addresses, the listing read from it and the packet verdicts.

  Not modelled. module1 and module4 hold logs and configurations, no code. Sleeping and the kernel's
  timeouts, the prompts and progress lines on which nothing depends, the echo of typed lines in the TCP
  client and the messages the raw echo server prints are left out, as are the declarations in headers and
  the registration tables and licences of the kernel modules. Two helpers of
  src/module3/07/chat_utils.c, get_file_size and write_file_chunk, are called from nowhere and have no
  definition.
\<close>

end
